(* ===== verification/Yalnix_Base.thy ===== *)
theory Yalnix_Base
  imports Main "HOL-Library.Word" "HOL-Library.Multiset" "HOL-Library.Signed_Division"
begin

text \<open>
  The prelude of the development: the return codes of the kernel, the ways a piece of kernel
  code can end, the combinators that sequence kernel code over an explicit state, a
  weakest-precondition operator with its rules, the constants of \<^verbatim>\<open>hardware.h\<close> and
  \<^verbatim>\<open>yalnix.h\<close> (which are not part of the repository) as a parameter record with the facts
  the kernel relies on, and the generic lemmas the components share.
\<close>

section \<open>Return codes, faults and outcomes\<close>

text \<open>
  A kernel function of C type \<^verbatim>\<open>int\<close> returns the error code \<^verbatim>\<open>ERROR\<close> of
  \<^verbatim>\<open>yalnix.h\<close> or a value; \<^verbatim>\<open>SUCCESS\<close> is 0 and \<^verbatim>\<open>KILL\<close> is 42 in
  \<^verbatim>\<open>Kernel.h\<close>.
\<close>

datatype rc = ERROR | RC int

abbreviation SUCCESS :: rc where
  "SUCCESS \<equiv> RC 0"

abbreviation KILL :: rc where
  "KILL \<equiv> RC 42"

text \<open>
  What C leaves undefined, or the MMU refuses, is an explicit fault: a null pointer is followed,
  an array is indexed outside its bounds, a pointer to freed memory is followed, a field is read
  before it was written, a virtual address has no usable translation, a signed addition leaves
  the range of \<^verbatim>\<open>int\<close>. \<open>HANG\<close> stands for a loop that used up the fuel it was given.
\<close>

datatype fault = NULL_DEREF | OUT_OF_BOUNDS | DANGLING | UNINIT | UNMAPPED | OVERFLOW | HANG

text \<open>
  A piece of kernel code ends by returning (\<open>Done\<close>), by a \<^verbatim>\<open>KernelContextSwitch\<close>
  into another process, whose saved kernel context runs next (\<open>Switch\<close>), by calling
  \<^verbatim>\<open>Halt()\<close>, or by a fault.
\<close>

datatype ('a, 's) outcome = Done 'a 's | Switch 's | Halt 's | Fault fault

type_synonym ('a, 's) kcomp = "'s \<Rightarrow> ('a, 's) outcome"

type_synonym ptr = nat
type_synonym byte = "8 word"

named_theorems kdefs \<open>the combinators of kernel code\<close>
named_theorems wp_simps \<open>weakest preconditions of the combinators\<close>

section \<open>Sequencing kernel code\<close>

definition retk :: "'a \<Rightarrow> ('a, 's) kcomp" where
  [kdefs]: "retk x = (\<lambda>s. Done x s)"

definition bindk :: "('a, 's) kcomp \<Rightarrow> ('a \<Rightarrow> ('b, 's) kcomp) \<Rightarrow> ('b, 's) kcomp" where
  [kdefs]: "bindk m f = (\<lambda>s. case m s of Done x t \<Rightarrow> f x t | Switch t \<Rightarrow> Switch t
     | Halt t \<Rightarrow> Halt t | Fault e \<Rightarrow> Fault e)"

definition getk :: "('s \<Rightarrow> 'a) \<Rightarrow> ('a, 's) kcomp" where
  [kdefs]: "getk f = (\<lambda>s. Done (f s) s)"

definition modk :: "('s \<Rightarrow> 's) \<Rightarrow> (unit, 's) kcomp" where
  [kdefs]: "modk f = (\<lambda>s. Done () (f s))"

definition haltk :: "('a, 's) kcomp" where
  [kdefs]: "haltk = (\<lambda>s. Halt s)"

definition faultk :: "fault \<Rightarrow> ('a, 's) kcomp" where
  [kdefs]: "faultk e = (\<lambda>s. Fault e)"

definition switchk :: "('s \<Rightarrow> 's) \<Rightarrow> ('a, 's) kcomp" where
  [kdefs]: "switchk f = (\<lambda>s. Switch (f s))"

definition liftk :: "fault + 'a \<Rightarrow> ('a, 's) kcomp" where
  [kdefs]: "liftk r = (case r of Inl e \<Rightarrow> faultk e | Inr x \<Rightarrow> retk x)"

text \<open>Following a pointer that may be null.\<close>

definition nonnull :: "'a option \<Rightarrow> ('a, 's) kcomp" where
  [kdefs]: "nonnull p = (case p of None \<Rightarrow> faultk NULL_DEREF | Some x \<Rightarrow> retk x)"

text \<open>Reading an object of the kernel heap at an address.\<close>

definition fetch :: "('s \<Rightarrow> ptr \<Rightarrow> 'a option) \<Rightarrow> ptr \<Rightarrow> ('a, 's) kcomp" where
  [kdefs]: "fetch h p = (\<lambda>s. case h s p of None \<Rightarrow> Fault DANGLING | Some x \<Rightarrow> Done x s)"

lemma bindk_Done [simp]: "m s = Done x t \<Longrightarrow> bindk m f s = f x t"
  by (simp add: bindk_def)

lemma bindk_Switch [simp]: "m s = Switch t \<Longrightarrow> bindk m f s = Switch t"
  by (simp add: bindk_def)

lemma bindk_Halt [simp]: "m s = Halt t \<Longrightarrow> bindk m f s = Halt t"
  by (simp add: bindk_def)

lemma bindk_Fault [simp]: "m s = Fault e \<Longrightarrow> bindk m f s = Fault e"
  by (simp add: bindk_def)

lemma bindk_ret [simp]: "bindk (retk x) f = f x"
  by (simp add: kdefs)

lemma bindk_assoc: "bindk (bindk m f) g = bindk m (\<lambda>x. bindk (f x) g)"
  by (rule ext) (simp add: bindk_def split: outcome.splits)

text \<open>Reading a run backwards.\<close>

lemma bindk_eq_Done:
  "bindk m f s = Done y u \<longleftrightarrow> (\<exists>x t. m s = Done x t \<and> f x t = Done y u)"
  by (auto simp: bindk_def split: outcome.splits)

lemma bindk_eq_Switch:
  "bindk m f s = Switch u \<longleftrightarrow> m s = Switch u \<or> (\<exists>x t. m s = Done x t \<and> f x t = Switch u)"
  by (auto simp: bindk_def split: outcome.splits)

lemmas run_iffs = bindk_eq_Done bindk_eq_Switch

section \<open>Weakest preconditions\<close>

text \<open>
  \<open>wpk m Q R s\<close>: run from \<open>s\<close>, the code \<open>m\<close> does not fault, establishes \<open>Q\<close> when it
  returns and \<open>R\<close> when it switches to another process. After \<^verbatim>\<open>Halt()\<close> the machine
  has stopped and nothing is claimed.
\<close>

definition wpk :: "('a, 's) kcomp \<Rightarrow> ('a \<Rightarrow> 's \<Rightarrow> bool) \<Rightarrow> ('s \<Rightarrow> bool) \<Rightarrow> 's \<Rightarrow> bool" where
  "wpk m Q R s = (case m s of Done x t \<Rightarrow> Q x t | Switch t \<Rightarrow> R t | Halt t \<Rightarrow> True | Fault e \<Rightarrow> False)"

lemma wpk_bindk [wp_simps]: "wpk (bindk m f) Q R s = wpk m (\<lambda>x. wpk (f x) Q R) R s"
  by (simp add: wpk_def bindk_def split: outcome.splits)

lemma wpk_retk [wp_simps]: "wpk (retk x) Q R s = Q x s"
  by (simp add: wpk_def kdefs)

lemma wpk_getk [wp_simps]: "wpk (getk f) Q R s = Q (f s) s"
  by (simp add: wpk_def kdefs)

lemma wpk_modk [wp_simps]: "wpk (modk f) Q R s = Q () (f s)"
  by (simp add: wpk_def kdefs)

lemma wpk_haltk [wp_simps]: "wpk haltk Q R s"
  by (simp add: wpk_def kdefs)

lemma wpk_faultk [wp_simps]: "wpk (faultk e) Q R s = False"
  by (simp add: wpk_def kdefs)

lemma wpk_switchk [wp_simps]: "wpk (switchk f) Q R s = R (f s)"
  by (simp add: wpk_def kdefs)

lemma wpk_liftk [wp_simps]: "wpk (liftk r) Q R s = (\<exists>x. r = Inr x \<and> Q x s)"
  by (simp add: wpk_def kdefs split: sum.splits)

lemma wpk_nonnull [wp_simps]: "wpk (nonnull p) Q R s = (\<exists>x. p = Some x \<and> Q x s)"
  by (simp add: wpk_def kdefs split: option.splits)

lemma wpk_fetch [wp_simps]: "wpk (fetch h p) Q R s = (\<exists>x. h s p = Some x \<and> Q x s)"
  by (simp add: wpk_def kdefs split: option.splits)

lemma wpk_if [wp_simps]:
  "wpk (if b then m else n) Q R s = ((b \<longrightarrow> wpk m Q R s) \<and> (\<not> b \<longrightarrow> wpk n Q R s))"
  by simp

lemma wpk_option [wp_simps]:
  "wpk (case v of None \<Rightarrow> m | Some x \<Rightarrow> f x) Q R s =
     ((v = None \<longrightarrow> wpk m Q R s) \<and> (\<forall>x. v = Some x \<longrightarrow> wpk (f x) Q R s))"
  by (cases v) auto

lemma wpk_prod [wp_simps]: "wpk (case v of (x, y) \<Rightarrow> f x y) Q R s = wpk (f (fst v) (snd v)) Q R s"
  by (cases v) auto

lemma wpk_Let [wp_simps]: "wpk (Let v f) Q R s = wpk (f v) Q R s"
  by (simp add: Let_def)

lemma wpk_mono:
  assumes "wpk m Q R s" "\<And>x t. Q x t \<Longrightarrow> Q' x t" "\<And>t. R t \<Longrightarrow> R' t"
  shows "wpk m Q' R' s"
  using assms by (auto simp: wpk_def split: outcome.splits)

lemma wpk_DoneD: "wpk m Q R s \<Longrightarrow> m s = Done x t \<Longrightarrow> Q x t"
  by (simp add: wpk_def)

lemma wpk_SwitchD: "wpk m Q R s \<Longrightarrow> m s = Switch t \<Longrightarrow> R t"
  by (simp add: wpk_def)

lemma wpk_no_fault: "wpk m Q R s \<Longrightarrow> m s \<noteq> Fault e"
  by (auto simp: wpk_def)

text \<open>A loop over a list of values, in order.\<close>

primrec foldk :: "('a \<Rightarrow> (unit, 's) kcomp) \<Rightarrow> 'a list \<Rightarrow> (unit, 's) kcomp" where
  "foldk f [] = retk ()"
| "foldk f (x # xs) = bindk (f x) (\<lambda>_. foldk f xs)"

lemma foldk_append: "foldk f (xs @ ys) = bindk (foldk f xs) (\<lambda>_. foldk f ys)"
  by (induction xs) (auto simp: bindk_assoc)

text \<open>A loop that returns normally in every round is a fold over the states.\<close>

lemma foldk_Done:
  assumes "\<And>x s. x \<in> set xs \<Longrightarrow> I s \<Longrightarrow> f x s = Done () (g x s)"
    and "\<And>x s. x \<in> set xs \<Longrightarrow> I s \<Longrightarrow> I (g x s)" and "I s"
  shows "foldk f xs s = Done () (fold g xs s)"
  using assms
proof (induction xs arbitrary: s)
  case Nil
  then show ?case by (simp add: retk_def)
next
  case (Cons x xs)
  have "f x s = Done () (g x s)" and "I (g x s)" using Cons.prems by auto
  then show ?case using Cons.IH [of "g x s"] Cons.prems by simp
qed

text \<open>What every round of a loop guarantees of its two states, the whole loop guarantees.\<close>

lemma foldk_rel:
  assumes "\<And>x s s'. x \<in> set xs \<Longrightarrow> f x s = Done () s' \<Longrightarrow> T s s'"
    and "\<And>s. T s s" and "\<And>s t u. T s t \<Longrightarrow> T t u \<Longrightarrow> T s u"
    and "foldk f xs s = Done () s'"
  shows "T s s'"
  using assms(1,4)
proof (induction xs arbitrary: s)
  case Nil
  then show ?case by (simp add: retk_def assms(2))
next
  case (Cons x xs)
  then obtain t where "f x s = Done () t" "foldk f xs t = Done () s'" by (auto simp: run_iffs)
  with Cons.IH [of t] Cons.prems(1) assms(3) show ?case by (metis list.set_intros(1,2))
qed

lemma foldk_no_Switch:
  assumes "\<And>x s t. x \<in> set xs \<Longrightarrow> f x s \<noteq> Switch t"
  shows "foldk f xs s \<noteq> Switch t"
  using assms
proof (induction xs arbitrary: s)
  case Nil
  then show ?case by (simp add: retk_def)
next
  case (Cons x xs)
  then show ?case by (fastforce simp: run_iffs)
qed

text \<open>A loop that stops at the first round that returns \<^verbatim>\<open>ERROR\<close>.\<close>

primrec foldrc :: "('a \<Rightarrow> (rc, 's) kcomp) \<Rightarrow> 'a list \<Rightarrow> (rc, 's) kcomp" where
  "foldrc f [] = retk SUCCESS"
| "foldrc f (x # xs) = bindk (f x) (\<lambda>r. if r = ERROR then retk ERROR else foldrc f xs)"

section \<open>The hardware interface\<close>

text \<open>
  The header files \<^verbatim>\<open>hardware.h\<close> and \<^verbatim>\<open>yalnix.h\<close> are supplied by the machine, not
  by this repository. Their constants are a record that every definition using them takes as an
  argument, and \<open>hw_ok\<close> collects what the kernel takes for granted about them: pages are
  \<open>2 ^ PAGESHIFT\<close> bytes, \<^verbatim>\<open>DOWN_TO_PAGE\<close> rounds down to a page boundary, region 0
  starts at address 0, region 1 starts where region 0 ends, each region has \<^verbatim>\<open>MAX_PT_LEN\<close> pages, the kernel stack is a
  whole number of pages inside region 0 with two spare pages below it.
\<close>

record hw =
  PAGESIZE :: nat
  PAGESHIFT :: nat
  DOWN_TO_PAGE :: "nat \<Rightarrow> nat"
  PMEM_BASE :: nat
  VMEM_0_BASE :: nat
  VMEM_0_LIMIT :: nat
  VMEM_1_BASE :: nat
  VMEM_1_LIMIT :: nat
  MAX_PT_LEN :: nat
  KERNEL_STACK_BASE :: nat
  KERNEL_STACK_LIMIT :: nat
  KERNEL_STACK_MAXSIZE :: nat
  SIZEOF_PTE :: nat
  NUM_TERMINALS :: nat
  TERMINAL_MAX_LINE :: nat
  SIZEOF_PTR :: nat
  POST_ARGV_NULL_SPACE :: nat
  INITIAL_STACK_FRAME_SIZE :: nat

definition hw_ok :: "hw \<Rightarrow> bool" where
  "hw_ok H \<longleftrightarrow>
     PAGESIZE H = 2 ^ PAGESHIFT H \<and>
     (\<forall>a. DOWN_TO_PAGE H a = a div PAGESIZE H * PAGESIZE H) \<and>
     VMEM_0_BASE H = 0 \<and> PAGESIZE H dvd KERNEL_STACK_BASE H \<and>
     PAGESIZE H dvd KERNEL_STACK_MAXSIZE H \<and>
     VMEM_0_LIMIT H = VMEM_0_BASE H + MAX_PT_LEN H * PAGESIZE H \<and>
     VMEM_1_BASE H = VMEM_0_LIMIT H \<and>
     VMEM_1_LIMIT H = VMEM_1_BASE H + MAX_PT_LEN H * PAGESIZE H \<and>
     2 * PAGESIZE H \<le> KERNEL_STACK_BASE H \<and>
     KERNEL_STACK_LIMIT H = KERNEL_STACK_BASE H + KERNEL_STACK_MAXSIZE H \<and>
     KERNEL_STACK_LIMIT H \<le> VMEM_0_LIMIT H \<and>
     0 < MAX_PT_LEN H \<and> 0 < SIZEOF_PTE H \<and> 0 < NUM_TERMINALS H"

text \<open>A small machine on which the facts hold, for concrete instances.\<close>

definition tiny_hw :: hw where
  "tiny_hw = \<lparr>PAGESIZE = 4, PAGESHIFT = 2, DOWN_TO_PAGE = (\<lambda>a. a div 4 * 4), PMEM_BASE = 0,
     VMEM_0_BASE = 0, VMEM_0_LIMIT = 32, VMEM_1_BASE = 32, VMEM_1_LIMIT = 64, MAX_PT_LEN = 8,
     KERNEL_STACK_BASE = 24, KERNEL_STACK_LIMIT = 32, KERNEL_STACK_MAXSIZE = 8,
     SIZEOF_PTE = 4, NUM_TERMINALS = 2, TERMINAL_MAX_LINE = 8,
     SIZEOF_PTR = 4, POST_ARGV_NULL_SPACE = 1, INITIAL_STACK_FRAME_SIZE = 0\<rparr>"

lemma tiny_hw_ok: "hw_ok tiny_hw"
  by (simp add: hw_ok_def tiny_hw_def)

lemma hw_okD:
  assumes "hw_ok H"
  shows "PAGESIZE H = 2 ^ PAGESHIFT H" "0 < PAGESIZE H"
    "DOWN_TO_PAGE H a = a div PAGESIZE H * PAGESIZE H"
    "VMEM_0_LIMIT H = VMEM_0_BASE H + MAX_PT_LEN H * PAGESIZE H"
    "VMEM_1_BASE H = VMEM_0_LIMIT H"
    "VMEM_1_LIMIT H = VMEM_1_BASE H + MAX_PT_LEN H * PAGESIZE H"
    "0 < MAX_PT_LEN H" "0 < SIZEOF_PTE H" "0 < NUM_TERMINALS H"
    "VMEM_0_BASE H = 0" "PAGESIZE H dvd VMEM_1_BASE H"
    "PAGESIZE H dvd KERNEL_STACK_BASE H" "PAGESIZE H dvd KERNEL_STACK_MAXSIZE H"
  using assms by (auto simp: hw_ok_def)

text \<open>\<^verbatim>\<open>addr >> PAGESHIFT\<close>, and the number of kernel stack pages of a process.\<close>

definition vpn_of :: "hw \<Rightarrow> nat \<Rightarrow> nat" where
  "vpn_of H a = a div 2 ^ PAGESHIFT H"

definition KSTACK_NPG :: "hw \<Rightarrow> nat" where
  "KSTACK_NPG H = KERNEL_STACK_MAXSIZE H div PAGESIZE H"

definition KERNEL_STACK_BASE_VPN :: "hw \<Rightarrow> nat" where
  "KERNEL_STACK_BASE_VPN H = vpn_of H (KERNEL_STACK_BASE H)"

definition KERNEL_BASE_VPN :: "hw \<Rightarrow> nat" where
  "KERNEL_BASE_VPN H = vpn_of H (VMEM_0_BASE H)"

definition USER_BASE_VPN :: "hw \<Rightarrow> nat" where
  "USER_BASE_VPN H = vpn_of H (VMEM_1_BASE H)"

lemma vpn_of_page: "hw_ok H \<Longrightarrow> vpn_of H a = a div PAGESIZE H"
  by (simp add: vpn_of_def hw_okD)

lemma page_aligned_iff: "hw_ok H \<Longrightarrow> DOWN_TO_PAGE H a = a \<longleftrightarrow> PAGESIZE H dvd a"
  by (simp add: hw_okD(3) dvd_eq_mod_eq_0)
     (metis add.right_neutral add_left_cancel div_mult_mod_eq)

section \<open>Shared lemmas on lists and options\<close>

lemma mset_remove1_list: "x \<in> set xs \<Longrightarrow> mset xs = add_mset x (mset (remove1 x xs))"
  by (metis insert_DiffM mset_remove1 set_mset_mset)

lemma distinct_mset_snoc [simp]: "mset (xs @ [x]) = add_mset x (mset xs)"
  by simp

lemma foldl_snoc_state: "foldl f s (xs @ [x]) = f (foldl f s xs) x"
  by simp

lemma map_of_filter_neq: "map_of (filter (\<lambda>p. fst p \<noteq> k) xs) = (map_of xs)(k := None)"
  by (induction xs) auto

lemma distinct_fst_filter: "distinct (map fst xs) \<Longrightarrow> distinct (map fst (filter P xs))"
  by (induction xs) auto

lemma Some_in_list_update: "i < length xs \<Longrightarrow> xs[i := v] ! i = v"
  by simp

end
