(* ===== verification/Queue.thy ===== *)
theory Queue
  imports Yalnix_Base
begin

text \<open>
  The generic queue of \<^verbatim>\<open>GeneralDataStructures/Queue\<close>, as its clients see it: a
  \<^verbatim>\<open>q_t *\<close> is null or the list of its items, head first. The first section states the
  operations over that view, the second the contract of a queue as a locale with the facts a
  client may use. \<open>Queue_Node\<close> models the linked nodes behind the view and proves that they
  refine it.
\<close>

section \<open>The operations\<close>

text \<open>The boolean argument says whether \<^verbatim>\<open>malloc\<close> succeeds.\<close>

type_synonym 'a queue = "'a list option"

definition make_q :: "bool \<Rightarrow> 'a queue" where
  "make_q ok = (if ok then Some [] else None)"

definition enq_q :: "bool \<Rightarrow> 'a queue \<Rightarrow> 'a \<Rightarrow> rc \<times> 'a queue" where
  "enq_q ok q x =
     (case q of
        None \<Rightarrow> (ERROR, None)
      | Some xs \<Rightarrow> if ok then (SUCCESS, Some (xs @ [x])) else (ERROR, Some xs))"

fun deq_q :: "'a queue \<Rightarrow> 'a option \<times> 'a queue" where
  "deq_q None = (None, None)"
| "deq_q (Some []) = (None, Some [])"
| "deq_q (Some (x # xs)) = (Some x, Some xs)"

fun peek_q :: "'a queue \<Rightarrow> 'a option" where
  "peek_q None = None"
| "peek_q (Some []) = None"
| "peek_q (Some (x # xs)) = Some x"

definition iterate_q :: "('a \<Rightarrow> 's \<Rightarrow> 's) \<Rightarrow> 'a queue \<Rightarrow> 's \<Rightarrow> 's" where
  "iterate_q itemfunc q s = (case q of None \<Rightarrow> s | Some xs \<Rightarrow> fold itemfunc xs s)"

text \<open>
  \<^verbatim>\<open>delete_q\<close> dequeues until the queue is empty, handing each item to \<^verbatim>\<open>itemdelete\<close>
  when that is not null.
\<close>

fun delete_q :: "('a \<Rightarrow> 's \<Rightarrow> 's) option \<Rightarrow> 'a queue \<Rightarrow> 's \<Rightarrow> 's" where
  "delete_q d None s = s"
| "delete_q d (Some []) s = s"
| "delete_q d (Some (x # xs)) s =
     delete_q d (Some xs) (case d of None \<Rightarrow> s | Some f \<Rightarrow> f x s)"

lemma deq_q_empty_iff: "fst (deq_q q) = None \<longleftrightarrow> q = None \<or> q = Some []"
  by (cases q rule: deq_q.cases) auto

lemma peek_q_deq_q: "peek_q q = fst (deq_q q)"
  by (cases q rule: deq_q.cases) auto

lemma enq_q_simps [simp]:
  "enq_q ok None x = (ERROR, None)"
  "enq_q True (Some xs) x = (SUCCESS, Some (xs @ [x]))"
  "enq_q False (Some xs) x = (ERROR, Some xs)"
  by (auto simp: enq_q_def)

lemma deq_q_nonempty: "xs \<noteq> [] \<Longrightarrow> deq_q (Some xs) = (Some (hd xs), Some (tl xs))"
  by (cases xs) auto

lemma delete_q_iterate:
  "delete_q d q s = iterate_q (\<lambda>x s. case d of None \<Rightarrow> s | Some f \<Rightarrow> f x s) q s"
  by (induction d q s rule: delete_q.induct) (auto simp: iterate_q_def)

section \<open>The contract of a queue\<close>

text \<open>
  Operations return \<open>None\<close> where the code would be undefined. \<open>enq m\<close> receives the result
  \<open>m\<close> of the allocation it makes; \<open>can_alloc m q\<close> says that it is a usable fresh node.
\<close>

fun enq_all :: "('m \<Rightarrow> 'q \<Rightarrow> 'a \<Rightarrow> (rc \<times> 'q) option) \<Rightarrow> 'q \<Rightarrow> ('m \<times> 'a) list \<Rightarrow> 'q option" where
  "enq_all enq q [] = Some q"
| "enq_all enq q ((m, x) # mxs) =
     (case enq m q x of Some (RC n, q') \<Rightarrow> enq_all enq q' mxs | _ \<Rightarrow> None)"

fun deq_all :: "('q \<Rightarrow> ('a option \<times> 'q) option) \<Rightarrow> nat \<Rightarrow> 'q \<Rightarrow> ('a list \<times> 'q) option" where
  "deq_all deq 0 q = Some ([], q)"
| "deq_all deq (Suc n) q =
     (case deq q of
        Some (Some x, q') \<Rightarrow> (case deq_all deq n q' of Some (xs, q'') \<Rightarrow> Some (x # xs, q'') | None \<Rightarrow> None)
      | _ \<Rightarrow> None)"

fun allocs_ok :: "('m \<Rightarrow> 'q \<Rightarrow> bool) \<Rightarrow> ('m \<Rightarrow> 'q \<Rightarrow> 'a \<Rightarrow> (rc \<times> 'q) option) \<Rightarrow> 'q \<Rightarrow> ('m \<times> 'a) list \<Rightarrow> bool" where
  "allocs_ok ca enq q [] = True"
| "allocs_ok ca enq q ((m, x) # mxs) =
     (ca m q \<and> (case enq m q x of Some (r, q') \<Rightarrow> allocs_ok ca enq q' mxs | None \<Rightarrow> False))"

locale fifo =
  fixes inv :: "'q \<Rightarrow> bool"
    and contents :: "'q \<Rightarrow> 'a list"
    and can_alloc :: "'m \<Rightarrow> 'q \<Rightarrow> bool"
    and enq :: "'m \<Rightarrow> 'q \<Rightarrow> 'a \<Rightarrow> (rc \<times> 'q) option"
    and deq :: "'q \<Rightarrow> ('a option \<times> 'q) option"
    and peek :: "'q \<Rightarrow> 'a option option"
  assumes enq_ok: "inv q \<Longrightarrow> can_alloc m q \<Longrightarrow>
      \<exists>q'. enq m q x = Some (SUCCESS, q') \<and> inv q' \<and> contents q' = contents q @ [x]"
    and deq_empty: "inv q \<Longrightarrow> contents q = [] \<Longrightarrow> deq q = Some (None, q)"
    and deq_cons: "inv q \<Longrightarrow> contents q = x # xs \<Longrightarrow>
      \<exists>q'. deq q = Some (Some x, q') \<and> inv q' \<and> contents q' = xs"
    and peek_hd: "inv q \<Longrightarrow> peek q = Some (case contents q of [] \<Rightarrow> None | x # _ \<Rightarrow> Some x)"
begin

text \<open>A whole sequence of enqueues appends its items in order.\<close>

lemma enq_all_contents:
  "inv q \<Longrightarrow> allocs_ok can_alloc enq q mxs \<Longrightarrow>
     \<exists>q'. enq_all enq q mxs = Some q' \<and> inv q' \<and> contents q' = contents q @ map snd mxs"
proof (induction mxs arbitrary: q)
  case Nil
  then show ?case by simp
next
  case (Cons mx mxs)
  obtain m x where mx: "mx = (m, x)" by (cases mx)
  from Cons.prems mx have "can_alloc m q" by simp
  from enq_ok [OF Cons.prems(1) this] obtain q' where
    q': "enq m q x = Some (SUCCESS, q')" "inv q'" "contents q' = contents q @ [x]" by blast
  from Cons.prems(2) mx q'(1) have "allocs_ok can_alloc enq q' mxs" by simp
  from Cons.IH [OF q'(2) this] q' mx show ?case by auto
qed

text \<open>Dequeuing returns the items from the head on.\<close>

lemma deq_all_contents:
  "inv q \<Longrightarrow> n \<le> length (contents q) \<Longrightarrow>
     \<exists>q'. deq_all deq n q = Some (take n (contents q), q') \<and> inv q' \<and> contents q' = drop n (contents q)"
proof (induction n arbitrary: q)
  case 0
  then show ?case by simp
next
  case (Suc n)
  then obtain x xs where c: "contents q = x # xs" by (cases "contents q") auto
  from deq_cons [OF Suc.prems(1) c] obtain q' where
    q': "deq q = Some (Some x, q')" "inv q'" "contents q' = xs" by blast
  with Suc.prems c have "n \<le> length (contents q')" by simp
  from Suc.IH [OF q'(2) this] q' c show ?case by auto
qed

text \<open>First in, first out: what was enqueued on an empty queue comes back in the same order.\<close>

lemma first_in_first_out:
  assumes "inv q" "contents q = []" "allocs_ok can_alloc enq q mxs"
  shows "\<exists>q1 q2. enq_all enq q mxs = Some q1 \<and>
           deq_all deq (length mxs) q1 = Some (map snd mxs, q2) \<and> inv q2 \<and> contents q2 = []"
proof -
  from enq_all_contents [OF assms(1,3)] assms(2) obtain q1 where
    q1: "enq_all enq q mxs = Some q1" "inv q1" "contents q1 = map snd mxs" by auto
  with deq_all_contents [OF q1(2), of "length mxs"] show ?thesis by auto
qed

text \<open>Enqueue, then dequeue: the queue rotates by one place.\<close>

lemma rotate:
  assumes "inv q" "can_alloc m q" "contents q = y # ys"
  shows "\<exists>q1 q2. enq m q x = Some (SUCCESS, q1) \<and> deq q1 = Some (Some y, q2) \<and>
           inv q2 \<and> contents q2 = ys @ [x]"
proof -
  from enq_ok [OF assms(1,2)] assms(3) obtain q1 where
    q1: "enq m q x = Some (SUCCESS, q1)" "inv q1" "contents q1 = y # (ys @ [x])" by auto
  from deq_cons [OF q1(2,3)] q1(1) show ?thesis by auto
qed

end

interpretation list_q: fifo "\<lambda>q. q \<noteq> None" "\<lambda>q. case q of None \<Rightarrow> [] | Some xs \<Rightarrow> xs" "\<lambda>ok q. ok"
  "\<lambda>ok q x. Some (enq_q ok q x)" "\<lambda>q. Some (deq_q q)" "\<lambda>q. Some (peek_q q)"
  by unfold_locales (auto simp: enq_q_def split: list.splits)

end
