(* ===== verification/Queue_Node.thy ===== *)
theory Queue_Node
  imports Queue
begin

text \<open>
  The linked representation behind \<open>Queue\<close>: \<^verbatim>\<open>qnode_t\<close> cells in a heap, a
  \<^verbatim>\<open>q_t\<close> with its head and tail pointers. Every operation of \<^verbatim>\<open>Queue.c\<close> is
  written over the cells, an invariant relates the pointers, and the operations are shown to
  refine the list view and to satisfy the contract of a queue.
\<close>

section \<open>Cells and operations\<close>

record 'a qnode =
  item :: 'a
  node_behind :: "ptr option"

record q_t =
  head :: "ptr option"
  tail :: "ptr option"

type_synonym 'a qheap = "ptr \<Rightarrow> 'a qnode option"

text \<open>
  \<open>m\<close> is the result of \<^verbatim>\<open>malloc\<close>: null or an address. The result \<open>None\<close> of an
  operation means that a null or freed pointer would be followed.
\<close>

definition node_make_q :: "ptr option \<Rightarrow> q_t option" where
  "node_make_q m = (case m of None \<Rightarrow> None | Some a \<Rightarrow> Some \<lparr>head = None, tail = None\<rparr>)"

definition node_enq_q ::
  "ptr option \<Rightarrow> 'a qheap \<Rightarrow> q_t option \<Rightarrow> 'a \<Rightarrow> (rc \<times> 'a qheap \<times> q_t option) option" where
  "node_enq_q m h q x =
     (case q of
        None \<Rightarrow> Some (ERROR, h, None)
      | Some r \<Rightarrow>
          (case m of
             None \<Rightarrow> Some (ERROR, h, Some r)
           | Some a \<Rightarrow>
               let h1 = h(a \<mapsto> \<lparr>item = x, node_behind = None\<rparr>) in
               (case head r of
                  None \<Rightarrow> Some (SUCCESS, h1, Some (r\<lparr>head := Some a, tail := Some a\<rparr>))
                | Some _ \<Rightarrow>
                    (case tail r of
                       None \<Rightarrow> None
                     | Some t \<Rightarrow>
                         (case h1 t of
                            None \<Rightarrow> None
                          | Some tn \<Rightarrow>
                              Some (SUCCESS, h1(t \<mapsto> tn\<lparr>node_behind := Some a\<rparr>),
                                    Some (r\<lparr>tail := Some a\<rparr>)))))))"

definition node_deq_q ::
  "'a qheap \<Rightarrow> q_t option \<Rightarrow> ('a option \<times> 'a qheap \<times> q_t option) option" where
  "node_deq_q h q =
     (case q of
        None \<Rightarrow> Some (None, h, None)
      | Some r \<Rightarrow>
          (case head r of
             None \<Rightarrow> Some (None, h, Some r)
           | Some a \<Rightarrow>
               (case h a of
                  None \<Rightarrow> None
                | Some n \<Rightarrow>
                    let new_head = node_behind n; r1 = r\<lparr>head := new_head\<rparr> in
                    Some (Some (item n), h(a := None),
                          Some (if new_head = None then r1\<lparr>tail := None\<rparr> else r1)))))"

definition node_peek_q :: "'a qheap \<Rightarrow> q_t option \<Rightarrow> 'a option option" where
  "node_peek_q h q =
     (case q of
        None \<Rightarrow> Some None
      | Some r \<Rightarrow> (case head r of None \<Rightarrow> Some None | Some a \<Rightarrow> map_option (\<lambda>n. Some (item n)) (h a)))"

text \<open>
  The two loops follow the cells and may not end on a cyclic heap, so they are partial
  functions; the result \<open>None\<close> also covers a pointer to a freed cell.
\<close>

partial_function (option) node_iterate ::
  "'a qheap \<Rightarrow> ('a \<Rightarrow> 's \<Rightarrow> 's) \<Rightarrow> ptr option \<Rightarrow> 's \<Rightarrow> 's option" where
  "node_iterate h itemfunc p s =
     (case p of
        None \<Rightarrow> Some s
      | Some a \<Rightarrow>
          (case h a of
             None \<Rightarrow> None
           | Some n \<Rightarrow> node_iterate h itemfunc (node_behind n) (itemfunc (item n) s)))"

definition node_iterate_q :: "'a qheap \<Rightarrow> ('a \<Rightarrow> 's \<Rightarrow> 's) \<Rightarrow> q_t option \<Rightarrow> 's \<Rightarrow> 's option" where
  "node_iterate_q h itemfunc q s =
     (case q of None \<Rightarrow> Some s | Some r \<Rightarrow> node_iterate h itemfunc (head r) s)"

partial_function (option) node_delete_loop ::
  "('a \<Rightarrow> 's \<Rightarrow> 's) option \<Rightarrow> 'a qheap \<Rightarrow> q_t \<Rightarrow> 's \<Rightarrow> ('a qheap \<times> 's) option" where
  "node_delete_loop d h r s =
     (case head r of
        None \<Rightarrow> Some (h, s)
      | Some a \<Rightarrow>
          (case node_deq_q h (Some r) of
             Some (Some x, h1, Some r1) \<Rightarrow>
               node_delete_loop d h1 r1 (case d of None \<Rightarrow> s | Some f \<Rightarrow> f x s)
           | _ \<Rightarrow> None))"

definition node_delete_q ::
  "('a \<Rightarrow> 's \<Rightarrow> 's) option \<Rightarrow> 'a qheap \<Rightarrow> q_t option \<Rightarrow> 's \<Rightarrow> ('a qheap \<times> 's) option" where
  "node_delete_q d h q s = (case q of None \<Rightarrow> Some (h, s) | Some r \<Rightarrow> node_delete_loop d h r s)"

section \<open>The representation invariant\<close>

text \<open>\<open>chain h p ns\<close>: from \<open>p\<close> the cells \<open>ns\<close> follow each other, the last one pointing to null.\<close>

primrec chain :: "'a qheap \<Rightarrow> ptr option \<Rightarrow> ptr list \<Rightarrow> bool" where
  "chain h p [] = (p = None)"
| "chain h p (a # ns) = (p = Some a \<and> (\<exists>n. h a = Some n \<and> chain h (node_behind n) ns))"

definition items_at :: "'a qheap \<Rightarrow> ptr list \<Rightarrow> 'a list" where
  "items_at h ns = map (\<lambda>a. item (the (h a))) ns"

definition qrep :: "'a qheap \<Rightarrow> q_t \<Rightarrow> ptr list \<Rightarrow> bool" where
  "qrep h r ns \<longleftrightarrow> chain h (head r) ns \<and> distinct ns \<and>
     tail r = (if ns = [] then None else Some (last ns))"

lemma items_at_simps [simp]:
  "items_at h [] = []" "items_at h (a # ns) = item (the (h a)) # items_at h ns"
  "items_at h (ns @ ms) = items_at h ns @ items_at h ms"
  by (auto simp: items_at_def)

lemma chain_frame: "(\<And>a. a \<in> set ns \<Longrightarrow> h' a = h a) \<Longrightarrow> chain h' p ns = chain h p ns"
  by (induction ns arbitrary: p) auto

lemma items_at_frame: "(\<And>a. a \<in> set ns \<Longrightarrow> h' a = h a) \<Longrightarrow> items_at h' ns = items_at h ns"
  by (simp add: items_at_def)

lemma chain_alloc: "chain h p ns \<Longrightarrow> set ns \<subseteq> dom h"
  by (induction ns arbitrary: p) auto

lemma chain_unique: "chain h p ns \<Longrightarrow> chain h p ms \<Longrightarrow> ns = ms"
proof (induction ns arbitrary: p ms)
  case Nil
  then show ?case by (cases ms) auto
next
  case (Cons a ns)
  then show ?case by (cases ms) auto
qed

lemma chain_snoc:
  "chain h p ns \<Longrightarrow> distinct ns \<Longrightarrow> a \<notin> set ns \<Longrightarrow> ns \<noteq> [] \<Longrightarrow> h (last ns) = Some tn \<Longrightarrow>
   h a = Some n \<Longrightarrow> node_behind n = None \<Longrightarrow>
   chain (h(last ns \<mapsto> tn\<lparr>node_behind := Some a\<rparr>)) p (ns @ [a])"
proof (induction ns arbitrary: p)
  case Nil
  then show ?case by simp
next
  case (Cons b ns)
  show ?case
  proof (cases "ns = []")
    case True
    with Cons.prems show ?thesis by auto
  next
    case False
    with Cons.prems have "last ns \<noteq> b" by auto
    with Cons False show ?thesis by auto
  qed
qed

section \<open>Refinement of the list view\<close>

lemma node_enq_q_rep:
  assumes rep: "qrep h r ns" and fresh: "h a = None"
  shows "\<exists>h' r'. node_enq_q (Some a) h (Some r) x = Some (SUCCESS, h', Some r') \<and>
           qrep h' r' (ns @ [a]) \<and> items_at h' (ns @ [a]) = items_at h ns @ [x] \<and>
           (\<forall>b. b \<notin> insert a (set ns) \<longrightarrow> h' b = h b)"
proof -
  let ?n = "\<lparr>item = x, node_behind = None\<rparr>"
  let ?h1 = "h(a \<mapsto> ?n)"
  from rep have ch: "chain h (head r) ns" and dist: "distinct ns"
    and tl: "tail r = (if ns = [] then None else Some (last ns))" by (auto simp: qrep_def)
  from chain_alloc [OF ch] fresh have notin: "a \<notin> set ns" by auto
  have ch1: "chain ?h1 (head r) ns"
    using ch notin by (subst chain_frame) auto
  have it1: "items_at ?h1 ns = items_at h ns"
    using notin by (auto intro!: items_at_frame)
  show ?thesis
  proof (cases "ns = []")
    case True
    with ch tl notin show ?thesis by (auto simp: node_enq_q_def qrep_def Let_def)
  next
    case False
    with ch obtain b bs where ns: "ns = b # bs" "head r = Some b" by (cases ns) auto
    from False chain_alloc [OF ch1] last_in_set obtain tn where tn: "?h1 (last ns) = Some tn" by blast
    let ?h2 = "?h1(last ns \<mapsto> tn\<lparr>node_behind := Some a\<rparr>)"
    have "chain ?h2 (head r) (ns @ [a])"
      by (rule chain_snoc [OF ch1 dist notin False tn, of ?n]) simp_all
    moreover have "items_at ?h2 ns = items_at ?h1 ns"
      using tn by (auto simp: items_at_def)
    moreover have "last ns \<noteq> a" using notin False last_in_set by metis
    ultimately show ?thesis
      using False ns tl tn dist notin it1 last_in_set [OF False]
      by (auto simp: node_enq_q_def qrep_def Let_def)
  qed
qed

lemma node_deq_q_rep:
  assumes rep: "qrep h r (a # ns)"
  shows "\<exists>h' r'. node_deq_q h (Some r) = Some (Some (item (the (h a))), h', Some r') \<and>
           qrep h' r' ns \<and> items_at h' ns = items_at h ns \<and> h' a = None \<and>
           (\<forall>b. b \<noteq> a \<longrightarrow> h' b = h b)"
proof -
  from rep obtain n where n: "head r = Some a" "h a = Some n" "chain h (node_behind n) ns"
    "a \<notin> set ns" "distinct ns" "tail r = Some (last (a # ns))"
    by (auto simp: qrep_def)
  have "chain (h(a := None)) (node_behind n) ns"
    using n by (subst chain_frame) auto
  moreover have "items_at (h(a := None)) ns = items_at h ns"
    using n by (auto intro!: items_at_frame)
  ultimately show ?thesis using n by (cases ns) (auto simp: node_deq_q_def qrep_def Let_def)
qed

lemma node_deq_q_empty: "qrep h r [] \<Longrightarrow> node_deq_q h (Some r) = Some (None, h, Some r)"
  by (auto simp: qrep_def node_deq_q_def)

lemma node_iterate_chain:
  "chain h p ns \<Longrightarrow> node_iterate h f p s = Some (fold f (items_at h ns) s)"
  by (induction ns arbitrary: p s) (auto simp: node_iterate.simps)

lemma node_delete_rep:
  "qrep h r ns \<Longrightarrow>
     \<exists>h'. node_delete_loop d h r s = Some (h', delete_q d (Some (items_at h ns)) s) \<and>
       (\<forall>b. h' b = (if b \<in> set ns then None else h b))"
proof (induction ns arbitrary: h r s)
  case Nil
  then show ?case by (auto simp: qrep_def node_delete_loop.simps)
next
  case (Cons a ns)
  from node_deq_q_rep [OF Cons.prems] obtain h1 r1 where
    dq: "node_deq_q h (Some r) = Some (Some (item (the (h a))), h1, Some r1)"
    and rep1: "qrep h1 r1 ns" and it: "items_at h1 ns = items_at h ns"
    and frame: "h1 a = None" "\<forall>b. b \<noteq> a \<longrightarrow> h1 b = h b" by blast
  from Cons.prems have hd: "head r = Some a" by (auto simp: qrep_def)
  let ?s = "case d of None \<Rightarrow> s | Some f \<Rightarrow> f (item (the (h a))) s"
  from Cons.IH [OF rep1, of ?s] obtain h' where
    "node_delete_loop d h1 r1 ?s = Some (h', delete_q d (Some (items_at h1 ns)) ?s)"
    "\<forall>b. h' b = (if b \<in> set ns then None else h1 b)" by blast
  with dq hd it frame show ?case by (subst node_delete_loop.simps) auto
qed

section \<open>The cells satisfy the contract\<close>

definition node_inv :: "'a qheap \<times> q_t option \<Rightarrow> bool" where
  "node_inv hq = (\<exists>r ns. snd hq = Some r \<and> qrep (fst hq) r ns)"

definition node_contents :: "'a qheap \<times> q_t option \<Rightarrow> 'a list" where
  "node_contents hq = the (node_iterate_q (fst hq) (\<lambda>x acc. acc @ [x]) (snd hq) [])"

definition node_can_alloc :: "ptr option \<Rightarrow> 'a qheap \<times> q_t option \<Rightarrow> bool" where
  "node_can_alloc m hq = (case m of None \<Rightarrow> False | Some a \<Rightarrow> fst hq a = None)"

lemma fold_snoc_id: "fold (\<lambda>x acc. acc @ [x]) xs ys = ys @ xs"
  by (induction xs arbitrary: ys) auto

lemma node_contents_rep: "qrep h r ns \<Longrightarrow> node_contents (h, Some r) = items_at h ns"
  by (auto simp: node_contents_def node_iterate_q_def node_iterate_chain qrep_def fold_snoc_id)

interpretation node_q: fifo node_inv node_contents node_can_alloc
  "\<lambda>m hq x. node_enq_q m (fst hq) (snd hq) x" "\<lambda>hq. node_deq_q (fst hq) (snd hq)"
  "\<lambda>hq. node_peek_q (fst hq) (snd hq)"
proof (unfold_locales, goal_cases)
  case (1 q m x)
  then obtain r ns a where "snd q = Some r" "qrep (fst q) r ns" "m = Some a" "fst q a = None"
    by (auto simp: node_inv_def node_can_alloc_def split: option.splits)
  then show ?case
    using node_enq_q_rep [of "fst q" r ns a x] node_contents_rep
    by (cases q) (fastforce simp: node_inv_def)
next
  case (2 q)
  then obtain r ns where r: "snd q = Some r" "qrep (fst q) r ns" by (auto simp: node_inv_def)
  with 2 node_contents_rep [OF r(2)] have "ns = []" by (cases q) (auto simp: items_at_def)
  with r show ?case by (cases q) (simp add: node_deq_q_empty)
next
  case (3 q x xs)
  then obtain r ns where r: "snd q = Some r" "qrep (fst q) r ns" by (auto simp: node_inv_def)
  with 3 node_contents_rep [OF r(2)] have c: "items_at (fst q) ns = x # xs" by (cases q) auto
  then obtain a ms where ns: "ns = a # ms" by (cases ns) auto
  show ?case
    using node_deq_q_rep [OF r(2) [unfolded ns]] c ns r node_contents_rep
    by (cases q) (fastforce simp: node_inv_def)
next
  case (4 q)
  then obtain r ns where r: "snd q = Some r" "qrep (fst q) r ns" by (auto simp: node_inv_def)
  then show ?case
    using node_contents_rep [OF r(2)]
    by (cases q; cases ns) (auto simp: node_peek_q_def qrep_def)
qed

end
