(* ===== verification/HashMap.thy ===== *)
theory HashMap
  imports Yalnix_Base
begin

text \<open>
  The integer-keyed hash map of \<^verbatim>\<open>GeneralDataStructures/HashMap\<close>: \<^verbatim>\<open>set.c\<close>, a
  chain of key/item pairs with the newest pair first, and \<^verbatim>\<open>HashMap.c\<close>, an array of such
  chains indexed by \<^verbatim>\<open>key % size\<close>. C's \<^verbatim>\<open>%\<close> truncates towards zero, so a negative
  key can give a negative index; indexing outside the array is a fault of the model. The
  invariant \<open>hm_ok\<close>, the partial map \<open>hm_map\<close> it represents and the locale
  \<open>int_map\<close> state what the clients use.
\<close>

section \<open>Chains: set.c\<close>

type_synonym 'a set_t = "(int \<times> 'a) list option"

definition set_new :: "bool \<Rightarrow> 'a set_t" where
  "set_new ok = (if ok then Some [] else None)"

fun has_key :: "(int \<times> 'a) list \<Rightarrow> int \<Rightarrow> bool" where
  "has_key [] key = False"
| "has_key ((k, x) # ns) key = (if k = key then True else has_key ns key)"

definition set_insert :: "bool \<Rightarrow> 'a set_t \<Rightarrow> int \<Rightarrow> 'a option \<Rightarrow> rc \<times> 'a set_t" where
  "set_insert ok st key itm =
     (case (st, itm) of
        (Some ns, Some x) \<Rightarrow>
          if has_key ns key then (ERROR, Some ns)
          else if \<not> ok then (ERROR, Some ns)
          else (SUCCESS, Some ((key, x) # ns))
      | _ \<Rightarrow> (ERROR, st))"

fun find_node :: "(int \<times> 'a) list \<Rightarrow> int \<Rightarrow> 'a option" where
  "find_node [] key = None"
| "find_node ((k, x) # ns) key = (if k = key then Some x else find_node ns key)"

definition set_find :: "'a set_t \<Rightarrow> int \<Rightarrow> 'a option" where
  "set_find st key = (case st of None \<Rightarrow> None | Some ns \<Rightarrow> find_node ns key)"

text \<open>
  The successor of a node is read before the item function runs, so the loop visits the pairs
  present when it starts, as long as the function removes at most the pair it was called on.
\<close>

definition set_iterate :: "(int \<Rightarrow> 'a \<Rightarrow> (unit, 's) kcomp) \<Rightarrow> 'a set_t \<Rightarrow> (unit, 's) kcomp" where
  "set_iterate itemfunc st =
     (case st of None \<Rightarrow> retk () | Some ns \<Rightarrow> foldk (\<lambda>n. itemfunc (fst n) (snd n)) ns)"

fun remove_node :: "(int \<times> 'a) list \<Rightarrow> int \<Rightarrow> 'a option \<times> (int \<times> 'a) list" where
  "remove_node [] key = (None, [])"
| "remove_node ((k, x) # ns) key =
     (if k = key then (Some x, ns)
      else (fst (remove_node ns key), (k, x) # snd (remove_node ns key)))"

definition set_remove :: "'a set_t \<Rightarrow> int \<Rightarrow> 'a option \<times> 'a set_t" where
  "set_remove st key =
     (case st of None \<Rightarrow> (None, None)
      | Some ns \<Rightarrow> (fst (remove_node ns key), Some (snd (remove_node ns key))))"

definition set_delete :: "('a \<Rightarrow> 's \<Rightarrow> 's) option \<Rightarrow> 'a set_t \<Rightarrow> 's \<Rightarrow> 's" where
  "set_delete itemdelete st s =
     (case st of None \<Rightarrow> s
      | Some ns \<Rightarrow> (case itemdelete of None \<Rightarrow> s | Some f \<Rightarrow> fold (\<lambda>n. f (snd n)) ns s))"

lemma has_key_iff: "has_key ns key \<longleftrightarrow> key \<in> fst ` set ns"
  by (induction ns key rule: has_key.induct) auto

lemma find_node_map_of: "find_node ns key = map_of ns key"
  by (induction ns key rule: find_node.induct) auto

lemma remove_node_fst: "fst (remove_node ns key) = map_of ns key"
  by (induction ns key rule: remove_node.induct) auto

lemma remove_node_snd:
  "distinct (map fst ns) \<Longrightarrow> snd (remove_node ns key) = filter (\<lambda>n. fst n \<noteq> key) ns"
proof (induction ns key rule: remove_node.induct)
  case (1 key)
  then show ?case by simp
next
  case (2 k x ns key)
  show ?case
  proof (cases "k = key")
    case True
    with 2 have "key \<notin> fst ` set ns" by auto
    then have "filter (\<lambda>n. fst n \<noteq> key) ns = ns" by (auto intro!: filter_True)
    with True show ?thesis by simp
  qed (use 2 in auto)
qed

lemma remove_node_mset:
  "map_of ns key = Some x \<Longrightarrow> mset ns = add_mset (key, x) (mset (snd (remove_node ns key)))"
  by (induction ns key rule: remove_node.induct) (auto split: if_splits)

section \<open>The table: HashMap.c\<close>

record 'a HashMap =
  hm_size :: int
  sets :: "'a set_t list"

text \<open>Indexing the array of chains.\<close>

definition slot :: "'a HashMap \<Rightarrow> int \<Rightarrow> fault + nat" where
  "slot hm i = (if 0 \<le> i \<and> i < int (length (sets hm)) then Inr (nat i) else Inl OUT_OF_BOUNDS)"

definition HashMap_new :: "bool \<Rightarrow> bool \<Rightarrow> (nat \<Rightarrow> bool) \<Rightarrow> nat \<Rightarrow> fault + 'a HashMap option" where
  "HashMap_new ok_hm ok_calloc ok_set num_slots =
     (if \<not> ok_hm then Inr None
      else if \<not> ok_calloc \<and> 0 < num_slots then Inl NULL_DEREF
      else Inr (Some \<lparr>hm_size = int num_slots, sets = map (\<lambda>i. set_new (ok_set i)) [0..<num_slots]\<rparr>))"

definition HashMap_insert ::
  "bool \<Rightarrow> 'a HashMap option \<Rightarrow> int \<Rightarrow> 'a option \<Rightarrow> fault + (rc \<times> 'a HashMap option)" where
  "HashMap_insert ok hmp key itm =
     (case (hmp, itm) of
        (Some hm, Some x) \<Rightarrow>
          (case slot hm (key smod hm_size hm) of
             Inl e \<Rightarrow> Inl e
           | Inr i \<Rightarrow>
               let (r, st) = set_insert ok (sets hm ! i) key (Some x)
               in Inr (r, Some (hm\<lparr>sets := (sets hm)[i := st]\<rparr>)))
      | _ \<Rightarrow> Inr (ERROR, hmp))"

definition HashMap_find :: "'a HashMap option \<Rightarrow> int \<Rightarrow> fault + 'a option" where
  "HashMap_find hmp key =
     (case hmp of
        None \<Rightarrow> Inr None
      | Some hm \<Rightarrow>
          (case slot hm (key smod hm_size hm) of Inl e \<Rightarrow> Inl e | Inr i \<Rightarrow> Inr (set_find (sets hm ! i) key)))"

text \<open>The table is read again for each chain, since the item function may have changed it.\<close>

definition HashMap_iterate ::
  "('s \<Rightarrow> 'a HashMap option) \<Rightarrow> (int \<Rightarrow> 'a \<Rightarrow> (unit, 's) kcomp) \<Rightarrow> (unit, 's) kcomp" where
  "HashMap_iterate get itemfunc =
     bindk (getk get) (\<lambda>hmp.
       case hmp of
         None \<Rightarrow> retk ()
       | Some hm0 \<Rightarrow>
           foldk (\<lambda>i. bindk (bindk (getk get) nonnull) (\<lambda>hm.
                        bindk (liftk (slot hm (int i))) (\<lambda>j. set_iterate itemfunc (sets hm ! j))))
                 [0..<nat (hm_size hm0)])"

definition HashMap_remove :: "'a HashMap option \<Rightarrow> int \<Rightarrow> fault + ('a option \<times> 'a HashMap option)" where
  "HashMap_remove hmp key =
     (case hmp of
        None \<Rightarrow> Inr (None, None)
      | Some hm \<Rightarrow>
          (case slot hm (key smod hm_size hm) of
             Inl e \<Rightarrow> Inl e
           | Inr i \<Rightarrow>
               let (r, st) = set_remove (sets hm ! i) key
               in Inr (r, Some (hm\<lparr>sets := (sets hm)[i := st]\<rparr>))))"

definition HashMap_delete :: "('a \<Rightarrow> 's \<Rightarrow> 's) option \<Rightarrow> 'a HashMap option \<Rightarrow> 's \<Rightarrow> 's" where
  "HashMap_delete itemdelete hmp s =
     (case hmp of None \<Rightarrow> s | Some hm \<Rightarrow> fold (set_delete itemdelete) (take (nat (hm_size hm)) (sets hm)) s)"

section \<open>What a table represents\<close>

definition chain_of :: "'a set_t \<Rightarrow> (int \<times> 'a) list" where
  "chain_of st = (case st of None \<Rightarrow> [] | Some ns \<Rightarrow> ns)"

definition chain_wf :: "int \<Rightarrow> nat \<Rightarrow> 'a set_t \<Rightarrow> bool" where
  "chain_wf n i st \<longleftrightarrow> st \<noteq> None \<and> distinct (map fst (chain_of st)) \<and>
     (\<forall>k \<in> fst ` set (chain_of st). 0 \<le> k \<and> k mod n = int i)"

definition hm_ok :: "'a HashMap \<Rightarrow> bool" where
  "hm_ok hm \<longleftrightarrow> 0 < hm_size hm \<and> hm_size hm = int (length (sets hm)) \<and>
     (\<forall>i < length (sets hm). chain_wf (hm_size hm) i (sets hm ! i))"

definition hm_map :: "'a HashMap \<Rightarrow> int \<Rightarrow> 'a option" where
  "hm_map hm k = map_of (chain_of (sets hm ! nat (k mod hm_size hm))) k"

definition hm_items :: "'a HashMap \<Rightarrow> (int \<times> 'a) list" where
  "hm_items hm = concat (map chain_of (sets hm))"

lemma smod_nonneg: "0 \<le> (k::int) \<Longrightarrow> 0 < n \<Longrightarrow> k smod n = k mod n"
  by (simp add: signed_modulo_int_def signed_divide_int_def sgn_if minus_div_mult_eq_mod)

lemma smod_neg: "(k::int) < 0 \<Longrightarrow> 0 < n \<Longrightarrow> k smod n = - ((- k) mod n)"
  by (simp add: signed_modulo_int_def signed_divide_int_def sgn_if minus_mod_eq_mult_div)

lemma slot_nonneg:
  assumes "hm_ok hm" "0 \<le> k"
  shows "slot hm (k smod hm_size hm) = Inr (nat (k mod hm_size hm))" "nat (k mod hm_size hm) < length (sets hm)"
proof -
  from assms have n: "0 < hm_size hm" "hm_size hm = int (length (sets hm))" by (auto simp: hm_ok_def)
  then have "k mod hm_size hm < int (length (sets hm))" "0 \<le> k mod hm_size hm" by auto
  with n assms show "slot hm (k smod hm_size hm) = Inr (nat (k mod hm_size hm))"
    "nat (k mod hm_size hm) < length (sets hm)"
    by (auto simp: slot_def smod_nonneg nat_less_iff)
qed

lemma slot_neg:
  assumes "hm_ok hm" "k < 0" "\<not> hm_size hm dvd k"
  shows "slot hm (k smod hm_size hm) = Inl OUT_OF_BOUNDS"
proof -
  from assms have n: "0 < hm_size hm" by (auto simp: hm_ok_def)
  with assms(3) have "(- k) mod hm_size hm \<noteq> 0"
    by (simp add: dvd_eq_mod_eq_0 zmod_zminus1_eq_if) (metis n order_less_irrefl pos_mod_bound)
  with n have "0 < (- k) mod hm_size hm" by (simp add: order_less_le)
  with assms(2) n show ?thesis by (simp add: slot_def smod_neg)
qed

lemma chain_wf_Some:
  "chain_wf n i (Some ns) \<longleftrightarrow> distinct (map fst ns) \<and> (\<forall>k \<in> fst ` set ns. 0 \<le> k \<and> k mod n = int i)"
  by (simp add: chain_wf_def chain_of_def)

lemma chain_of_Some [simp]: "chain_of (Some ns) = ns"
  by (simp add: chain_of_def)

lemma hm_chainE:
  assumes "hm_ok hm" "i < length (sets hm)"
  obtains ns where "sets hm ! i = Some ns" "distinct (map fst ns)"
    "\<And>k. k \<in> fst ` set ns \<Longrightarrow> 0 \<le> k \<and> k mod hm_size hm = int i"
proof -
  from assms have c: "chain_wf (hm_size hm) i (sets hm ! i)" unfolding hm_ok_def by blast
  then obtain ns where ns: "sets hm ! i = Some ns" by (auto simp: chain_wf_def)
  with c have "chain_wf (hm_size hm) i (Some ns)" by simp
  then have "distinct (map fst ns)" "\<And>k. k \<in> fst ` set ns \<Longrightarrow> 0 \<le> k \<and> k mod hm_size hm = int i"
    unfolding chain_wf_Some by blast+
  with ns show ?thesis by (rule that)
qed

lemma hm_slotE:
  assumes "hm_ok hm" "0 \<le> k"
  obtains i ns where "slot hm (k smod hm_size hm) = Inr i" "i = nat (k mod hm_size hm)"
    "i < length (sets hm)" "sets hm ! i = Some ns" "distinct (map fst ns)"
    "\<And>k. k \<in> fst ` set ns \<Longrightarrow> 0 \<le> k \<and> k mod hm_size hm = int i" "hm_map hm k = map_of ns k"
proof -
  note sl = slot_nonneg [OF assms]
  from sl(2) obtain ns where ns: "sets hm ! nat (k mod hm_size hm) = Some ns" "distinct (map fst ns)"
    "\<And>j. j \<in> fst ` set ns \<Longrightarrow> 0 \<le> j \<and> j mod hm_size hm = int (nat (k mod hm_size hm))"
    using hm_chainE [OF assms(1)] by metis
  from ns(1) have "hm_map hm k = map_of ns k" by (simp add: hm_map_def)
  with sl ns show ?thesis by (rule that [OF _ refl])
qed

lemma hm_map_neg:
  assumes "hm_ok hm" "k < 0"
  shows "hm_map hm k = None"
proof -
  from assms have "nat (k mod hm_size hm) < length (sets hm)" by (auto simp: hm_ok_def nat_less_iff)
  with assms(1) obtain ns where ns: "sets hm ! nat (k mod hm_size hm) = Some ns"
    "\<And>j. j \<in> fst ` set ns \<Longrightarrow> 0 \<le> j \<and> j mod hm_size hm = int (nat (k mod hm_size hm))"
    by (rule hm_chainE) blast
  with assms(2) have "k \<notin> fst ` set ns" using ns(2) [of k] by linarith
  with ns(1) show ?thesis by (simp add: hm_map_def map_of_eq_None_iff)
qed

section \<open>Correctness of the operations\<close>

lemma HashMap_new_ok:
  assumes "0 < n" "\<And>i. i < n \<Longrightarrow> ok_set i"
  shows "\<exists>hm. HashMap_new True True ok_set n = Inr (Some hm) \<and> hm_ok hm \<and> hm_map hm = Map.empty \<and>
           hm_items hm = []"
  using assms
  by (auto simp: HashMap_new_def hm_ok_def hm_map_def hm_items_def set_new_def chain_of_def
      chain_wf_def fun_eq_iff nat_less_iff)

lemma HashMap_find_ok:
  assumes "hm_ok hm" "0 \<le> k"
  shows "HashMap_find (Some hm) k = Inr (hm_map hm k)"
  using assms
  by (rule hm_slotE) (simp add: HashMap_find_def set_find_def find_node_map_of)

text \<open>Replacing one chain by another with keys of the same slot.\<close>

lemma hm_set_chain:
  assumes ok: "hm_ok hm" and i: "i < length (sets hm)" and dist: "distinct (map fst ns)"
    and keys: "\<And>k. k \<in> fst ` set ns \<Longrightarrow> 0 \<le> k \<and> k mod hm_size hm = int i"
  shows "hm_ok (hm\<lparr>sets := (sets hm)[i := Some ns]\<rparr>)"
    and "hm_map (hm\<lparr>sets := (sets hm)[i := Some ns]\<rparr>) k =
           (if nat (k mod hm_size hm) = i then map_of ns k else hm_map hm k)"
proof -
  from dist keys have "chain_wf (hm_size hm) i (Some ns)" by (auto simp: chain_wf_Some)
  with ok i show "hm_ok (hm\<lparr>sets := (sets hm)[i := Some ns]\<rparr>)"
    by (auto simp: hm_ok_def nth_list_update)
  from i show "hm_map (hm\<lparr>sets := (sets hm)[i := Some ns]\<rparr>) k =
      (if nat (k mod hm_size hm) = i then map_of ns k else hm_map hm k)"
    by (auto simp: hm_map_def chain_of_def nth_list_update)
qed

lemma hm_items_set_chain:
  assumes ok: "hm_ok hm" and i: "i < length (sets hm)"
  shows "mset (hm_items (hm\<lparr>sets := (sets hm)[i := Some ns]\<rparr>)) + mset (chain_of (sets hm ! i)) =
           mset (hm_items hm) + mset ns"
proof -
  have "sets hm = take i (sets hm) @ sets hm ! i # drop (Suc i) (sets hm)"
    using i by (rule id_take_nth_drop)
  then have "hm_items hm = concat (map chain_of (take i (sets hm))) @ chain_of (sets hm ! i) @
      concat (map chain_of (drop (Suc i) (sets hm)))"
    unfolding hm_items_def by (metis concat.simps(2) concat_append list.simps(9) map_append)
  moreover have "hm_items (hm\<lparr>sets := (sets hm)[i := Some ns]\<rparr>) =
      concat (map chain_of (take i (sets hm))) @ ns @ concat (map chain_of (drop (Suc i) (sets hm)))"
    using i by (simp add: hm_items_def upd_conv_take_nth_drop chain_of_def)
  ultimately show ?thesis by simp
qed

lemma HashMap_insert_new:
  assumes ok: "hm_ok hm" and k: "0 \<le> k" and new: "hm_map hm k = None"
  shows "\<exists>hm'. HashMap_insert True (Some hm) k (Some x) = Inr (SUCCESS, Some hm') \<and> hm_ok hm' \<and>
           hm_size hm' = hm_size hm \<and> hm_map hm' = (hm_map hm)(k \<mapsto> x) \<and>
           mset (hm_items hm') = add_mset (k, x) (mset (hm_items hm))"
  using ok k
proof (rule hm_slotE)
  fix i ns
  assume sl: "slot hm (k smod hm_size hm) = Inr i" and ik: "i = nat (k mod hm_size hm)"
    and i: "i < length (sets hm)" and ns: "sets hm ! i = Some ns" "distinct (map fst ns)"
    and keys: "\<And>k. k \<in> fst ` set ns \<Longrightarrow> 0 \<le> k \<and> k mod hm_size hm = int i"
    and look: "hm_map hm k = map_of ns k"
  let ?hm = "hm\<lparr>sets := (sets hm)[i := Some ((k, x) # ns)]\<rparr>"
  from new look have nk: "k \<notin> fst ` set ns" by (simp add: map_of_eq_None_iff)
  from ok have "0 < hm_size hm" by (auto simp: hm_ok_def)
  with keys k ik have keys': "\<And>j. j \<in> fst ` set ((k, x) # ns) \<Longrightarrow> 0 \<le> j \<and> j mod hm_size hm = int i"
    by auto
  from ns nk have dist: "distinct (map fst ((k, x) # ns))" by simp
  have "HashMap_insert True (Some hm) k (Some x) = Inr (SUCCESS, Some ?hm)"
    using sl nk ns by (simp add: HashMap_insert_def set_insert_def has_key_iff)
  moreover have "hm_map ?hm = (hm_map hm)(k \<mapsto> x)"
    using hm_set_chain(2) [OF ok i dist keys'] ik ns(1) by (auto simp: hm_map_def fun_eq_iff)
  moreover have "mset (hm_items ?hm) = add_mset (k, x) (mset (hm_items hm))"
    using hm_items_set_chain [OF ok i, of "(k, x) # ns"] ns by simp
  ultimately show ?thesis using hm_set_chain(1) [OF ok i dist keys'] by auto
qed

lemma HashMap_insert_dup:
  assumes "hm_ok hm" "0 \<le> k" "hm_map hm k \<noteq> None"
  shows "HashMap_insert b (Some hm) k (Some x) = Inr (ERROR, Some hm)"
  using assms(1,2)
proof (rule hm_slotE)
  fix i ns
  assume sl: "slot hm (k smod hm_size hm) = Inr i" and ns: "sets hm ! i = Some ns"
    and look: "hm_map hm k = map_of ns k"
  from assms(3) look have "k \<in> fst ` set ns" by (simp add: map_of_eq_None_iff)
  then show ?thesis using sl ns
    by (simp add: HashMap_insert_def set_insert_def has_key_iff) (metis list_update_id HashMap.surjective HashMap.update_convs(2))
qed

lemma HashMap_insert_nomem:
  assumes "hm_ok hm" "0 \<le> k"
  shows "HashMap_insert False (Some hm) k (Some x) = Inr (ERROR, Some hm)"
proof -
  have "set_insert False st k (Some x) = (ERROR, st)" for st :: "'a set_t"
    by (auto simp: set_insert_def split: option.splits)
  with slot_nonneg [OF assms] show ?thesis by (simp add: HashMap_insert_def)
qed

lemma HashMap_remove_ok:
  assumes ok: "hm_ok hm" and k: "0 \<le> k"
  shows "\<exists>hm'. HashMap_remove (Some hm) k = Inr (hm_map hm k, Some hm') \<and> hm_ok hm' \<and>
           hm_size hm' = hm_size hm \<and> hm_map hm' = (hm_map hm)(k := None) \<and>
           mset (hm_items hm) = mset (hm_items hm') + (case hm_map hm k of None \<Rightarrow> {#} | Some x \<Rightarrow> {#(k, x)#})"
  using ok k
proof (rule hm_slotE)
  fix i ns
  assume sl: "slot hm (k smod hm_size hm) = Inr i" and ik: "i = nat (k mod hm_size hm)"
    and i: "i < length (sets hm)" and ns: "sets hm ! i = Some ns" "distinct (map fst ns)"
    and keys: "\<And>k. k \<in> fst ` set ns \<Longrightarrow> 0 \<le> k \<and> k mod hm_size hm = int i"
    and look: "hm_map hm k = map_of ns k"
  define ms where "ms = snd (remove_node ns k)"
  let ?hm = "hm\<lparr>sets := (sets hm)[i := Some ms]\<rparr>"
  let ?e = "case hm_map hm k of None \<Rightarrow> {#} | Some x \<Rightarrow> {#(k, x)#}"
  have ms: "ms = filter (\<lambda>n. fst n \<noteq> k) ns" unfolding ms_def by (rule remove_node_snd [OF ns(2)])
  from keys have keys': "\<And>j. j \<in> fst ` set ms \<Longrightarrow> 0 \<le> j \<and> j mod hm_size hm = int i"
    unfolding ms by auto
  have dist: "distinct (map fst ms)" unfolding ms by (rule distinct_fst_filter [OF ns(2)])
  have rm: "HashMap_remove (Some hm) k = Inr (hm_map hm k, Some ?hm)"
    using sl ns(1) look by (simp add: HashMap_remove_def set_remove_def remove_node_fst ms_def)
  have "mset ns = mset ms + ?e"
  proof (cases "hm_map hm k")
    case None
    with look have "map_of ns k = None" by simp
    then have "ms = ns" unfolding ms by (auto simp: map_of_eq_None_iff intro!: filter_True)
    with None show ?thesis by simp
  next
    case (Some x)
    with look have "map_of ns k = Some x" by simp
    from remove_node_mset [OF this] Some show ?thesis by (simp add: ms_def)
  qed
  then have "mset (hm_items hm) = mset (hm_items ?hm) + ?e"
    using hm_items_set_chain [OF ok i, of ms] ns(1) by (simp add: ac_simps)
  moreover have "hm_map ?hm = (hm_map hm)(k := None)"
    using hm_set_chain(2) [OF ok i dist keys'] ik ns(1) unfolding ms
    by (auto simp: map_of_filter_neq hm_map_def fun_eq_iff)
  ultimately show ?thesis using rm hm_set_chain(1) [OF ok i dist keys'] by auto
qed

text \<open>The chains together list every key once, with the item it maps to.\<close>

lemma hm_items_iff:
  assumes ok: "hm_ok hm"
  shows "(k, x) \<in> set (hm_items hm) \<longleftrightarrow> hm_map hm k = Some x"
proof
  assume "(k, x) \<in> set (hm_items hm)"
  then obtain i where i: "i < length (sets hm)" and kx: "(k, x) \<in> set (chain_of (sets hm ! i))"
    by (auto simp: hm_items_def in_set_conv_nth [of _ "sets hm"])
  from ok i obtain ns where ns: "sets hm ! i = Some ns" "distinct (map fst ns)"
    "\<And>k. k \<in> fst ` set ns \<Longrightarrow> 0 \<le> k \<and> k mod hm_size hm = int i" by (rule hm_chainE) blast
  with kx have "(k, x) \<in> set ns" by simp
  with ns(3) [of k] have "k mod hm_size hm = int i" by force
  with ns \<open>(k, x) \<in> set ns\<close> show "hm_map hm k = Some x" by (simp add: hm_map_def)
next
  assume m: "hm_map hm k = Some x"
  with hm_map_neg [OF ok] have "0 \<le> k" by (metis not_le option.distinct(1))
  with ok show "(k, x) \<in> set (hm_items hm)"
  proof (rule hm_slotE)
    fix i ns
    assume "i < length (sets hm)" "sets hm ! i = Some ns" "hm_map hm k = map_of ns k"
    with m have "(k, x) \<in> set (chain_of (sets hm ! i))" by (simp add: map_of_SomeD)
    with \<open>i < length (sets hm)\<close> show ?thesis by (auto simp: hm_items_def)
  qed
qed

text \<open>
  \<^verbatim>\<open>HashMap_iterate\<close> runs the item function once on every pair of the table, in chain order,
  even when the function changes the chain of the pair it is called on.
\<close>

definition same_from :: "'a HashMap option \<Rightarrow> 'a HashMap \<Rightarrow> nat \<Rightarrow> bool" where
  "same_from hmp hm i \<longleftrightarrow> (\<exists>h. hmp = Some h \<and> length (sets h) = length (sets hm) \<and>
     (\<forall>j. i \<le> j \<longrightarrow> sets h ! j = sets hm ! j))"

definition local_at :: "'a HashMap option \<Rightarrow> 'a HashMap option \<Rightarrow> int \<Rightarrow> bool" where
  "local_at before after i \<longleftrightarrow> (\<forall>h. before = Some h \<longrightarrow> (\<exists>h'. after = Some h' \<and>
     length (sets h') = length (sets h) \<and> (\<forall>j. int j \<noteq> i \<longrightarrow> sets h' ! j = sets h ! j)))"

lemma same_from_local:
  "same_from a hm (Suc i) \<Longrightarrow> local_at a b (int i) \<Longrightarrow> same_from b hm (Suc i)"
  by (fastforce simp: same_from_def local_at_def)

lemma HashMap_iterate_from:
  assumes ok: "hm_ok hm"
    and step: "\<And>k x s. (k, x) \<in> set (hm_items hm) \<Longrightarrow> I s \<Longrightarrow> f k x s = Done () (g k x s) \<and> I (g k x s) \<and>
          local_at (get s) (get (g k x s)) (k mod hm_size hm)"
    and "i \<le> length (sets hm)" "I s" "same_from (get s) hm i"
  shows "foldk (\<lambda>i. bindk (bindk (getk get) nonnull) (\<lambda>hm.
            bindk (liftk (slot hm (int i))) (\<lambda>j. set_iterate f (sets hm ! j)))) [i..<length (sets hm)] s =
         Done () (fold (\<lambda>n. g (fst n) (snd n)) (concat (map chain_of (drop i (sets hm)))) s)"
  using assms(3-5)
proof (induction "length (sets hm) - i" arbitrary: i s)
  case 0
  then show ?case by (simp add: retk_def)
next
  case (Suc d)
  then have i: "i < length (sets hm)" by simp
  from ok i obtain ns where ns: "sets hm ! i = Some ns"
    "\<And>k. k \<in> fst ` set ns \<Longrightarrow> 0 \<le> k \<and> k mod hm_size hm = int i" by (rule hm_chainE) blast
  from Suc.prems(3) obtain h where h: "get s = Some h" "length (sets h) = length (sets hm)"
    "sets h ! i = Some ns" using ns by (auto simp: same_from_def)
  let ?J = "\<lambda>s. I s \<and> same_from (get s) hm (Suc i)"
  have J: "?J s" using Suc.prems by (auto simp: same_from_def)
  have inner: "f (fst n) (snd n) t = Done () (g (fst n) (snd n) t)" "?J (g (fst n) (snd n) t)"
    if "n \<in> set ns" "?J t" for n t
  proof -
    from that(1) ns(1) i have "(fst n, snd n) \<in> set (hm_items hm)"
      by (force simp: hm_items_def set_conv_nth [of "sets hm"])
    from step [OF this, of t] that ns(2) [of "fst n"]
    show "f (fst n) (snd n) t = Done () (g (fst n) (snd n) t)" "?J (g (fst n) (snd n) t)"
      by (auto intro: same_from_local)
  qed
  let ?s = "fold (\<lambda>n. g (fst n) (snd n)) ns s"
  have "foldk (\<lambda>n. f (fst n) (snd n)) ns s = Done () ?s"
    by (rule foldk_Done [where I = ?J]) (use inner J in auto)
  then have "set_iterate f (Some ns) s = Done () ?s" by (simp add: set_iterate_def)
  moreover have "?J ?s"
    by (rule fold_invariant [where Q = "\<lambda>n. n \<in> set ns" and P = ?J]) (use inner(2) J in auto)
  moreover have "[i..<length (sets hm)] = i # [Suc i..<length (sets hm)]" using i by (rule upt_conv_Cons)
  moreover have "drop i (sets hm) = sets hm ! i # drop (Suc i) (sets hm)" using i by (simp add: Cons_nth_drop_Suc)
  ultimately show ?case
    using Suc.hyps(1) [of "Suc i" ?s] Suc.hyps(2) i h ns(1)
    by (simp add: bindk_def getk_def nonnull_def retk_def liftk_def slot_def)
qed

lemma HashMap_iterate_items:
  assumes "hm_ok hm" "get s = Some hm" "I s"
    and "\<And>k x s. (k, x) \<in> set (hm_items hm) \<Longrightarrow> I s \<Longrightarrow> f k x s = Done () (g k x s) \<and> I (g k x s) \<and>
          local_at (get s) (get (g k x s)) (k mod hm_size hm)"
  shows "HashMap_iterate get f s = Done () (fold (\<lambda>n. g (fst n) (snd n)) (hm_items hm) s)"
proof -
  have "same_from (get s) hm 0" using assms(2) by (auto simp: same_from_def)
  from HashMap_iterate_from [where i = 0, OF assms(1,4) _ assms(3) this]
  have "foldk (\<lambda>i. bindk (bindk (getk get) nonnull) (\<lambda>hm.
            bindk (liftk (slot hm (int i))) (\<lambda>j. set_iterate f (sets hm ! j)))) [0..<length (sets hm)] s =
         Done () (fold (\<lambda>n. g (fst n) (snd n)) (hm_items hm) s)"
    by (simp add: hm_items_def)
  moreover have "nat (hm_size hm) = length (sets hm)" using assms(1) by (simp add: hm_ok_def)
  ultimately show ?thesis using assms(2) by (simp add: HashMap_iterate_def getk_def bindk_def)
qed

text \<open>No node is in a well-formed map twice.\<close>

lemma distinct_chains:
  assumes "\<And>i. i < length css \<Longrightarrow> distinct (css ! i)"
    "\<And>i n. i < length css \<Longrightarrow> n \<in> set (css ! i) \<Longrightarrow> fst n mod N = int (off + i)"
  shows "distinct (concat css)"
  using assms
proof (induction css arbitrary: off)
  case Nil
  then show ?case by simp
next
  case (Cons c cs)
  have "distinct (concat cs)"
    using Cons.prems(1) [of "Suc i" for i] Cons.prems(2) [of "Suc i" for i]
    by (intro Cons.IH [of "Suc off"]) auto
  moreover have "set c \<inter> set (concat cs) = {}"
  proof (rule ccontr)
    assume "set c \<inter> set (concat cs) \<noteq> {}"
    then obtain n i where n: "n \<in> set c" "i < length cs" "n \<in> set (cs ! i)" by (auto simp: in_set_conv_nth [of _ cs])
    then show False using Cons.prems(2) [of 0 n] Cons.prems(2) [of "Suc i" n] by simp
  qed
  ultimately show ?case using Cons.prems(1) [of 0] by simp
qed

lemma hm_items_distinct:
  assumes "hm_ok hm"
  shows "distinct (hm_items hm)"
  unfolding hm_items_def
proof (rule distinct_chains [where off = 0 and N = "hm_size hm"])
  fix i
  assume i: "i < length (map chain_of (sets hm))"
  with assms obtain ns where ns: "sets hm ! i = Some ns" "distinct (map fst ns)"
      "\<And>k. k \<in> fst ` set ns \<Longrightarrow> 0 \<le> k \<and> k mod hm_size hm = int i" by (auto elim: hm_chainE)
  then show "distinct (map chain_of (sets hm) ! i)" using i by (simp add: distinct_map chain_of_def)
  fix n
  assume "n \<in> set (map chain_of (sets hm) ! i)"
  then show "fst n mod hm_size hm = int (0 + i)" using ns i by (auto simp: chain_of_def)
qed

section \<open>The contract of an integer map\<close>

text \<open>
  What the clients of the hash map rely on: for non-negative keys the table behaves as a finite
  partial function, and a second insertion under a live key is refused.
\<close>

locale int_map =
  fixes inv :: "'m \<Rightarrow> bool"
    and lookup :: "'m \<Rightarrow> int \<Rightarrow> 'a option"
    and find :: "'m \<Rightarrow> int \<Rightarrow> fault + 'a option"
    and insert :: "bool \<Rightarrow> 'm \<Rightarrow> int \<Rightarrow> 'a \<Rightarrow> fault + (rc \<times> 'm)"
    and remove :: "'m \<Rightarrow> int \<Rightarrow> fault + ('a option \<times> 'm)"
  assumes find_lookup: "inv m \<Longrightarrow> 0 \<le> k \<Longrightarrow> find m k = Inr (lookup m k)"
    and insert_new: "inv m \<Longrightarrow> 0 \<le> k \<Longrightarrow> lookup m k = None \<Longrightarrow>
      \<exists>m'. insert True m k x = Inr (SUCCESS, m') \<and> inv m' \<and> lookup m' = (lookup m)(k \<mapsto> x)"
    and insert_old: "inv m \<Longrightarrow> 0 \<le> k \<Longrightarrow> lookup m k \<noteq> None \<Longrightarrow> insert ok m k x = Inr (ERROR, m)"
    and insert_fail: "inv m \<Longrightarrow> 0 \<le> k \<Longrightarrow> insert False m k x = Inr (ERROR, m)"
    and remove_lookup: "inv m \<Longrightarrow> 0 \<le> k \<Longrightarrow>
      \<exists>m'. remove m k = Inr (lookup m k, m') \<and> inv m' \<and> lookup m' = (lookup m)(k := None)"
begin

lemma insert_find:
  assumes "inv m" "0 \<le> k" "lookup m k = None" "0 \<le> j"
  shows "\<exists>m'. insert True m k x = Inr (SUCCESS, m') \<and> inv m' \<and>
           find m' j = (if j = k then Inr (Some x) else find m j)"
  using insert_new [OF assms(1-3), of x] assms by (auto simp: find_lookup)

lemma insert_remove:
  assumes "inv m" "0 \<le> k" "lookup m k = None"
  shows "\<exists>m1 m2. insert True m k x = Inr (SUCCESS, m1) \<and> remove m1 k = Inr (Some x, m2) \<and>
           inv m2 \<and> lookup m2 = lookup m"
proof -
  from insert_new [OF assms, of x] obtain m1 where
    m1: "insert True m k x = Inr (SUCCESS, m1)" "inv m1" "lookup m1 = (lookup m)(k \<mapsto> x)" by blast
  from assms(3) have "(lookup m)(k := None) = lookup m" by auto
  with remove_lookup [OF m1(2) assms(2)] m1 show ?thesis by auto
qed

lemma remove_find:
  assumes "inv m" "0 \<le> k" "0 \<le> j"
  shows "\<exists>m'. remove m k = Inr (lookup m k, m') \<and> inv m' \<and>
           find m' j = (if j = k then Inr None else find m j)"
  using remove_lookup [OF assms(1,2)] assms by (auto simp: find_lookup)

text \<open>Every insertion ends without a fault, whatever the allocator does.\<close>

lemma insert_total:
  assumes "inv m" "0 \<le> k"
  shows "\<exists>r m'. insert ok m k x = Inr (r, m') \<and> inv m' \<and>
           (r = ERROR \<and> m' = m \<or> r = SUCCESS \<and> lookup m k = None \<and> lookup m' = (lookup m)(k \<mapsto> x))"
proof (cases ok)
  case True
  show ?thesis
  proof (cases "lookup m k")
    case None
    with insert_new [OF assms None, of x] True show ?thesis by auto
  next
    case (Some y)
    with insert_old [OF assms, of ok x] assms show ?thesis by auto
  qed
next
  case False
  with insert_fail [OF assms, of x] assms show ?thesis by auto
qed

end

interpretation hm: int_map hm_ok hm_map "\<lambda>m k. HashMap_find (Some m) k"
  "\<lambda>ok m k x. map_sum id (map_prod id the) (HashMap_insert ok (Some m) k (Some x))"
  "\<lambda>m k. map_sum id (map_prod id the) (HashMap_remove (Some m) k)"
proof (unfold_locales, goal_cases)
  case (1 m k)
  then show ?case by (rule HashMap_find_ok)
next
  case (2 m k x)
  with HashMap_insert_new [of m k x] show ?case by auto
next
  case (3 m k ok x)
  with HashMap_insert_dup [of m k ok x] show ?case by auto
next
  case (4 m k x)
  with HashMap_insert_nomem [of m k x] show ?case by auto
next
  case (5 m k)
  with HashMap_remove_ok [of m k] show ?case by auto
qed

end
