(* ===== verification/FrameList.thy ===== *)
theory FrameList
  imports Yalnix_Base
begin

text \<open>
  The list of physical frames of \<^verbatim>\<open>KernelDataStructures/FrameList\<close>. The array is a list
  of \<^verbatim>\<open>frame_t\<close>; \<open>past\<close> is what the memory right behind the array reads as, because
  \<^verbatim>\<open>getFrame\<close> looks at one cell more than the array has before it gives up. The locale
  \<open>frame_pool\<close> is the contract the address-space code uses: a set of free frames from which
  one can be taken and to which one can be returned.
\<close>

section \<open>The operations\<close>

record frame_t =
  pfn :: nat
  isFree :: bool

primrec init_frames :: "hw \<Rightarrow> nat \<Rightarrow> nat \<Rightarrow> nat \<Rightarrow> frame_t list" where
  "init_frames H currKernelBrk 0 frameAddr = []"
| "init_frames H currKernelBrk (Suc n) frameAddr =
     \<lparr>pfn = vpn_of H frameAddr mod 2 ^ 24,
      isFree = \<not> (frameAddr < currKernelBrk \<or>
                   (KERNEL_STACK_BASE H \<le> frameAddr \<and> frameAddr < KERNEL_STACK_LIMIT H))\<rparr>
     # init_frames H currKernelBrk n (frameAddr + PAGESIZE H)"

definition initFrameList :: "hw \<Rightarrow> bool \<Rightarrow> nat \<Rightarrow> nat \<Rightarrow> rc \<times> frame_t list option" where
  "initFrameList H ok numFrames currKernelBrk =
     (if \<not> ok then (ERROR, None)
      else (SUCCESS, Some (init_frames H currKernelBrk numFrames (PMEM_BASE H))))"

text \<open>
  The search of \<^verbatim>\<open>getFrame\<close>: the cell is read first and the index is compared with
  \<^verbatim>\<open>numFrames\<close> only when the cell is not free.
\<close>

fun scan_free :: "frame_t list \<Rightarrow> nat \<Rightarrow> nat \<Rightarrow> fault + nat option" where
  "scan_free [] i numFrames = Inl OUT_OF_BOUNDS"
| "scan_free (f # fs) i numFrames =
     (if isFree f then Inr (Some i)
      else if numFrames \<le> i then Inr None
      else scan_free fs (Suc i) numFrames)"

definition getFrame ::
  "frame_t list option \<Rightarrow> frame_t \<Rightarrow> nat \<Rightarrow> fault + (nat option \<times> frame_t list option \<times> frame_t)" where
  "getFrame flp past numFrames =
     (case flp of
        None \<Rightarrow> Inr (None, None, past)
      | Some fl \<Rightarrow>
          (case scan_free (fl @ [past]) 0 numFrames of
             Inl e \<Rightarrow> Inl e
           | Inr None \<Rightarrow> Inr (None, Some fl, past)
           | Inr (Some i) \<Rightarrow>
               if i < length fl
               then Inr (Some (pfn (fl ! i)), Some (fl[i := (fl ! i)\<lparr>isFree := False\<rparr>]), past)
               else Inr (Some (pfn past), Some fl, past\<lparr>isFree := False\<rparr>)))"

fun free_scan :: "frame_t list \<Rightarrow> nat \<Rightarrow> nat \<Rightarrow> fault + frame_t list" where
  "free_scan fl 0 p = Inr fl"
| "free_scan [] (Suc n) p = Inl OUT_OF_BOUNDS"
| "free_scan (f # fs) (Suc n) p =
     (if pfn f = p then Inr (f\<lparr>isFree := True\<rparr> # fs)
      else (case free_scan fs n p of Inl e \<Rightarrow> Inl e | Inr fs' \<Rightarrow> Inr (f # fs')))"

definition freeFrame :: "frame_t list option \<Rightarrow> nat \<Rightarrow> nat \<Rightarrow> fault + frame_t list option" where
  "freeFrame flp numFrames p =
     (case flp of
        None \<Rightarrow> if numFrames = 0 then Inr None else Inl NULL_DEREF
      | Some fl \<Rightarrow> (case free_scan fl numFrames p of Inl e \<Rightarrow> Inl e | Inr fl' \<Rightarrow> Inr (Some fl')))"

section \<open>What a frame list represents\<close>

definition fl_ok :: "frame_t list \<Rightarrow> nat \<Rightarrow> bool" where
  "fl_ok fl n \<longleftrightarrow> length fl = n \<and> distinct (map pfn fl)"

definition all_pfns :: "frame_t list \<Rightarrow> nat set" where
  "all_pfns fl = pfn ` set fl"

definition free_pfns :: "frame_t list \<Rightarrow> nat set" where
  "free_pfns fl = pfn ` set (filter isFree fl)"

lemma free_subset_all: "free_pfns fl \<subseteq> all_pfns fl"
  by (auto simp: free_pfns_def all_pfns_def)

lemma finite_pfns [simp]: "finite (free_pfns fl)" "finite (all_pfns fl)"
  by (auto simp: free_pfns_def all_pfns_def)

lemma scan_free_correct:
  "\<not> isFree past \<Longrightarrow>
     scan_free (fl @ [past]) i (i + length fl) =
       Inr (if filter isFree fl = [] then None else Some (i + length (takeWhile (\<lambda>f. \<not> isFree f) fl)))"
proof (induction fl arbitrary: i)
  case Nil
  then show ?case by simp
next
  case (Cons f fl)
  from Cons.IH [OF Cons.prems, of "Suc i"] show ?case by simp
qed

lemma scan_free_past:
  "isFree past \<Longrightarrow> filter isFree fl = [] \<Longrightarrow> scan_free (fl @ [past]) i (i + length fl) = Inr (Some (i + length fl))"
proof (induction fl arbitrary: i)
  case Nil
  then show ?case by simp
next
  case (Cons f fl)
  from Cons.IH [of "Suc i"] Cons.prems show ?case by (auto split: if_splits)
qed

text \<open>Switching the free bit of one cell.\<close>

lemma pfns_update:
  assumes "distinct (map pfn fl)" "i < length fl"
  shows "map pfn (fl[i := (fl ! i)\<lparr>isFree := b\<rparr>]) = map pfn fl"
    "all_pfns (fl[i := (fl ! i)\<lparr>isFree := b\<rparr>]) = all_pfns fl"
    "free_pfns (fl[i := (fl ! i)\<lparr>isFree := b\<rparr>]) =
       (if b then insert (pfn (fl ! i)) (free_pfns fl) else free_pfns fl - {pfn (fl ! i)})"
proof -
  show m: "map pfn (fl[i := (fl ! i)\<lparr>isFree := b\<rparr>]) = map pfn fl"
    by (simp add: map_update) (metis assms(2) list_update_id nth_map)
  then show "all_pfns (fl[i := (fl ! i)\<lparr>isFree := b\<rparr>]) = all_pfns fl"
    by (metis all_pfns_def list.set_map)
  let ?fl = "fl[i := (fl ! i)\<lparr>isFree := b\<rparr>]"
  have free: "p \<in> free_pfns gl \<longleftrightarrow> (\<exists>j < length gl. pfn (gl ! j) = p \<and> isFree (gl ! j))" for p gl
    by (force simp: free_pfns_def in_set_conv_nth)
  have inj: "j = i" if "j < length fl" "pfn (fl ! j) = pfn (fl ! i)" for j
    using that assms by (simp add: distinct_conv_nth) (metis length_map nth_map)
  have "p \<in> free_pfns ?fl \<longleftrightarrow>
      p \<in> (if b then insert (pfn (fl ! i)) (free_pfns fl) else free_pfns fl - {pfn (fl ! i)})" for p
    unfolding free using assms(2) inj by (auto simp: nth_list_update free) metis
  then show "free_pfns ?fl =
      (if b then insert (pfn (fl ! i)) (free_pfns fl) else free_pfns fl - {pfn (fl ! i)})" by blast
qed

lemma getFrame_some:
  assumes "fl_ok fl n" "\<not> isFree past" "free_pfns fl \<noteq> {}"
  shows "\<exists>p fl'. getFrame (Some fl) past n = Inr (Some p, Some fl', past) \<and> p \<in> free_pfns fl \<and>
           fl_ok fl' n \<and> free_pfns fl' = free_pfns fl - {p} \<and> all_pfns fl' = all_pfns fl"
proof -
  let ?i = "length (takeWhile (\<lambda>f. \<not> isFree f) fl)"
  from assms(3) have ex: "\<exists>f \<in> set fl. isFree f" by (auto simp: free_pfns_def)
  then have ne: "filter isFree fl \<noteq> []" by (auto simp: filter_empty_conv)
  from ex have i: "?i < length fl" by (induction fl) auto
  from i have free: "isFree (fl ! ?i)" using nth_length_takeWhile by blast
  with i have "pfn (fl ! ?i) \<in> free_pfns fl" by (auto simp: free_pfns_def)
  moreover have "getFrame (Some fl) past n =
      Inr (Some (pfn (fl ! ?i)), Some (fl[?i := (fl ! ?i)\<lparr>isFree := False\<rparr>]), past)"
    using scan_free_correct [OF assms(2), of fl 0] assms(1) i ne by (simp add: getFrame_def fl_ok_def)
  ultimately show ?thesis
    using pfns_update [of fl ?i False] assms(1) i by (auto simp: fl_ok_def)
qed

lemma getFrame_none:
  assumes "fl_ok fl n" "\<not> isFree past" "free_pfns fl = {}"
  shows "getFrame (Some fl) past n = Inr (None, Some fl, past)"
proof -
  from assms(3) have "filter isFree fl = []" by (simp add: free_pfns_def)
  with scan_free_correct [OF assms(2), of fl 0] assms(1) show ?thesis
    by (simp add: getFrame_def fl_ok_def)
qed

lemma free_scan_correct:
  "distinct (map pfn fl) \<Longrightarrow> p \<in> pfn ` set fl \<Longrightarrow>
     \<exists>i < length fl. pfn (fl ! i) = p \<and> free_scan fl (length fl) p = Inr (fl[i := (fl ! i)\<lparr>isFree := True\<rparr>])"
proof (induction fl)
  case Nil
  then show ?case by simp
next
  case (Cons f fl)
  show ?case
  proof (cases "pfn f = p")
    case True
    then show ?thesis by (intro exI [of _ 0]) simp
  next
    case False
    with Cons obtain i where "i < length fl" "pfn (fl ! i) = p"
      "free_scan fl (length fl) p = Inr (fl[i := (fl ! i)\<lparr>isFree := True\<rparr>])" by auto
    with False show ?thesis by (intro exI [of _ "Suc i"]) simp
  qed
qed

lemma free_scan_unknown: "p \<notin> pfn ` set fl \<Longrightarrow> free_scan fl (length fl) p = Inr fl"
  by (induction fl) auto

lemma freeFrame_ok:
  assumes "fl_ok fl n"
  shows "\<exists>fl'. freeFrame (Some fl) n p = Inr (Some fl') \<and> fl_ok fl' n \<and> all_pfns fl' = all_pfns fl \<and>
           free_pfns fl' = (if p \<in> all_pfns fl then insert p (free_pfns fl) else free_pfns fl)"
proof (cases "p \<in> all_pfns fl")
  case True
  with assms free_scan_correct [of fl p] obtain i where
    "i < length fl" "pfn (fl ! i) = p" "freeFrame (Some fl) n p = Inr (Some (fl[i := (fl ! i)\<lparr>isFree := True\<rparr>]))"
    by (auto simp: fl_ok_def freeFrame_def all_pfns_def)
  with pfns_update [of fl i True] assms True show ?thesis by (auto simp: fl_ok_def)
next
  case False
  with assms free_scan_unknown [of p fl] show ?thesis
    by (auto simp: fl_ok_def freeFrame_def all_pfns_def)
qed

section \<open>The initial list\<close>

lemma length_init_frames [simp]: "length (init_frames H b n a) = n"
  by (induction n arbitrary: a) auto

lemma init_frames_nth:
  "i < n \<Longrightarrow> init_frames H b n a ! i =
     \<lparr>pfn = vpn_of H (a + i * PAGESIZE H) mod 2 ^ 24,
      isFree = \<not> (a + i * PAGESIZE H < b \<or>
        (KERNEL_STACK_BASE H \<le> a + i * PAGESIZE H \<and> a + i * PAGESIZE H < KERNEL_STACK_LIMIT H))\<rparr>"
proof (induction n arbitrary: a i)
  case 0
  then show ?case by simp
next
  case (Suc n)
  then show ?case by (cases i) (auto simp: algebra_simps)
qed

lemma vpn_of_add_pages: "hw_ok H \<Longrightarrow> vpn_of H (a + i * PAGESIZE H) = vpn_of H a + i"
  by (simp add: vpn_of_page hw_okD(2))

lemma init_frames_ok:
  assumes "hw_ok H" "vpn_of H a + n \<le> 2 ^ 24"
  shows "fl_ok (init_frames H b n a) n"
proof -
  have p: "pfn (init_frames H b n a ! i) = vpn_of H a + i" if "i < n" for i
    using that assms by (simp add: init_frames_nth vpn_of_add_pages)
  show ?thesis by (auto simp: fl_ok_def distinct_conv_nth p)
qed

section \<open>The contract of a pool of frames\<close>

fun get_many :: "('m \<Rightarrow> nat option \<times> 'm) \<Rightarrow> nat \<Rightarrow> 'm \<Rightarrow> nat list \<times> 'm" where
  "get_many get 0 m = ([], m)"
| "get_many get (Suc n) m =
     (case get m of
        (None, m') \<Rightarrow> ([], m')
      | (Some p, m') \<Rightarrow> let (ps, m'') = get_many get n m' in (p # ps, m''))"

locale frame_pool =
  fixes inv :: "'m \<Rightarrow> bool"
    and all :: "'m \<Rightarrow> nat set"
    and free :: "'m \<Rightarrow> nat set"
    and get :: "'m \<Rightarrow> nat option \<times> 'm"
    and put :: "'m \<Rightarrow> nat \<Rightarrow> 'm"
  assumes free_all: "inv m \<Longrightarrow> free m \<subseteq> all m"
    and finite_free: "inv m \<Longrightarrow> finite (free m)"
    and get_Some: "inv m \<Longrightarrow> free m \<noteq> {} \<Longrightarrow>
      \<exists>p m'. get m = (Some p, m') \<and> p \<in> free m \<and> inv m' \<and> free m' = free m - {p} \<and> all m' = all m"
    and get_None: "inv m \<Longrightarrow> free m = {} \<Longrightarrow> get m = (None, m)"
    and put_free: "inv m \<Longrightarrow> p \<in> all m \<Longrightarrow>
      inv (put m p) \<and> free (put m p) = insert p (free m) \<and> all (put m p) = all m"
begin

text \<open>
  Asking for \<open>n\<close> frames delivers as many as there are, all different, and all of them were
  free.
\<close>

lemma get_many_correct:
  assumes "inv m" "get_many get n m = (ps, m')"
  shows "inv m' \<and> all m' = all m \<and> distinct ps \<and> set ps \<subseteq> free m \<and>
           free m' = free m - set ps \<and> length ps = min n (card (free m))"
  using assms
proof (induction n arbitrary: m ps m')
  case 0
  then show ?case by simp
next
  case (Suc n)
  show ?case
  proof (cases "free m = {}")
    case True
    with get_None [OF Suc.prems(1) True] Suc.prems show ?thesis by auto
  next
    case False
    from get_Some [OF Suc.prems(1) False] obtain p m1 where
      g: "get m = (Some p, m1)" "p \<in> free m" "inv m1" "free m1 = free m - {p}" "all m1 = all m" by blast
    obtain qs m2 where r: "get_many get n m1 = (qs, m2)" by (cases "get_many get n m1")
    from Suc.IH [OF g(3) r] g have
      ih: "inv m2" "all m2 = all m" "distinct qs" "set qs \<subseteq> free m - {p}"
        "free m2 = free m - {p} - set qs" "length qs = min n (card (free m - {p}))" by auto
    from Suc.prems(2) g(1) r have eq: "ps = p # qs" "m' = m2" by auto
    have "card (free m) = Suc (card (free m - {p}))"
      by (rule card.remove [OF finite_free [OF Suc.prems(1)] g(2)])
    with ih(6) eq have "length ps = min (Suc n) (card (free m))" by simp
    moreover have "distinct ps" "set ps \<subseteq> free m" using ih(3,4) g(2) eq by auto
    moreover have "free m' = free m - set ps" using ih(5) eq by auto
    ultimately show ?thesis using ih(1,2) eq by blast
  qed
qed

text \<open>Taking a frame and giving it back restores the pool.\<close>

lemma get_put:
  assumes "inv m" "free m \<noteq> {}"
  shows "\<exists>p m'. get m = (Some p, m') \<and> inv (put m' p) \<and> free (put m' p) = free m"
proof -
  from get_Some [OF assms] obtain p m' where
    g: "get m = (Some p, m')" "p \<in> free m" "inv m'" "free m' = free m - {p}" "all m' = all m" by blast
  with free_all [OF assms(1)] put_free [of m' p] show ?thesis by auto
qed

end

definition pool_get :: "nat \<Rightarrow> frame_t \<Rightarrow> frame_t list \<Rightarrow> nat option \<times> frame_t list" where
  "pool_get n past fl =
     (case getFrame (Some fl) past n of Inr (r, Some fl', _) \<Rightarrow> (r, fl') | _ \<Rightarrow> (None, fl))"

definition pool_put :: "nat \<Rightarrow> frame_t list \<Rightarrow> nat \<Rightarrow> frame_t list" where
  "pool_put n fl p = (case freeFrame (Some fl) n p of Inr (Some fl') \<Rightarrow> fl' | _ \<Rightarrow> fl)"

interpretation frames: frame_pool "\<lambda>fl. fl_ok fl n \<and> \<not> isFree past" all_pfns free_pfns
  "pool_get n past" "pool_put n" for n past
proof (unfold_locales, goal_cases)
  case (1 m)
  show ?case by (rule free_subset_all)
next
  case (2 m)
  show ?case by simp
next
  case (3 m)
  with getFrame_some [of m n past] show ?case by (auto simp: pool_get_def)
next
  case (4 m)
  with getFrame_none [of m n past] show ?case by (auto simp: pool_get_def)
next
  case (5 m p)
  with freeFrame_ok [of m n p] show ?case by (auto simp: pool_put_def)
qed

end
