(* ===== verification/PageTable.thy ===== *)
theory PageTable
  imports FrameList
begin

text \<open>
  The page tables of \<^verbatim>\<open>KernelDataStructures/PageTable\<close> together with the machine state
  they live in: the cells of all page tables by address, the MMU registers, the TLB flushes the
  kernel has issued, the frame list, the contents of physical memory and the allocator. Tables
  are arrays of \<^verbatim>\<open>struct pte\<close> in kernel memory, so an entry is named by its address and
  the next entry is \<^verbatim>\<open>sizeof(struct pte)\<close> further on.
\<close>

section \<open>The machine state\<close>

text \<open>
  Protections are sets of the flags of \<^verbatim>\<open>hardware.h\<close>; \<^verbatim>\<open>PROT_NONE\<close> is the empty
  set and \<^verbatim>\<open>(p & q) == q\<close> is inclusion.
\<close>

datatype prot_flag = PROT_READ | PROT_WRITE | PROT_EXEC

record pte =
  pte_valid :: bool
  pte_prot :: "prot_flag set"
  pte_pfn :: nat

text \<open>Writes to \<^verbatim>\<open>REG_TLB_FLUSH\<close>: one page by its virtual address, or all of region 1.\<close>

datatype tlb_flush = FLUSH_ADDR nat | TLB_FLUSH_1

text \<open>
  \<open>malloc_oracle n\<close> is the answer of the \<open>n\<close>-th allocation: null or an address. An answer
  that is not a free place for the object asked for is treated as null.
\<close>

record mmu =
  frameList :: "frame_t list option"
  numFrames :: nat
  past :: frame_t
  ptes :: "ptr \<Rightarrow> pte option"
  REG_PTBR0 :: nat
  REG_PTLR0 :: nat
  REG_PTBR1 :: nat
  REG_PTLR1 :: nat
  REG_VM_ENABLE :: bool
  tlb_log :: "tlb_flush list"
  pmem :: "nat \<Rightarrow> nat \<Rightarrow> byte"
  malloc_oracle :: "nat \<Rightarrow> ptr option"
  malloc_count :: nat

definition mallock :: "(ptr option, 'z mmu_scheme) kcomp" where
  "mallock = (\<lambda>s. Done (malloc_oracle s (malloc_count s)) (s\<lparr>malloc_count := Suc (malloc_count s)\<rparr>))"

definition malloc_okk :: "(bool, 'z mmu_scheme) kcomp" where
  "malloc_okk = bindk mallock (\<lambda>m. retk (m \<noteq> None))"

text \<open>\<^verbatim>\<open>getFrame(FrameList, numFrames, &pfn)\<close> and \<^verbatim>\<open>freeFrame\<close> on the global list.\<close>

definition getFramek :: "(nat option, 'z mmu_scheme) kcomp" where
  "getFramek = (\<lambda>s. case getFrame (frameList s) (past s) (numFrames s) of
     Inl e \<Rightarrow> Fault e
   | Inr (r, fl, c) \<Rightarrow> Done r (s\<lparr>frameList := fl, past := c\<rparr>))"

definition freeFramek :: "nat \<Rightarrow> (unit, 'z mmu_scheme) kcomp" where
  "freeFramek p = (\<lambda>s. case freeFrame (frameList s) (numFrames s) p of
     Inl e \<Rightarrow> Fault e
   | Inr fl \<Rightarrow> Done () (s\<lparr>frameList := fl\<rparr>))"

section \<open>The operations\<close>

definition table_addrs :: "hw \<Rightarrow> ptr \<Rightarrow> ptr set" where
  "table_addrs H b = (\<lambda>i. b + i * SIZEOF_PTE H) ` {..<MAX_PT_LEN H}"

definition initializeRegionPageTable :: "hw \<Rightarrow> (ptr option, 'z mmu_scheme) kcomp" where
  "initializeRegionPageTable H =
     bindk mallock (\<lambda>m.
       case m of
         None \<Rightarrow> retk None
       | Some b \<Rightarrow>
           bindk (getk ptes) (\<lambda>mem.
             if \<exists>i \<in> set [0..<MAX_PT_LEN H]. mem (b + i * SIZEOF_PTE H) \<noteq> None then retk None
             else bindk (foldk (\<lambda>i. modk (\<lambda>s. s\<lparr>ptes := (ptes s)(b + i * SIZEOF_PTE H \<mapsto>
                     \<lparr>pte_valid = False, pte_prot = {}, pte_pfn = 0\<rparr>)\<rparr>)) [0..<MAX_PT_LEN H])
                  (\<lambda>_. retk (Some b))))"

definition getVirtualAddr :: "hw \<Rightarrow> 'z mmu_scheme \<Rightarrow> ptr \<Rightarrow> nat option" where
  "getVirtualAddr H s ptep =
     (let r0PtBase = REG_PTBR0 s; r0PtLimit = r0PtBase + REG_PTLR0 s * SIZEOF_PTE H;
          r1PtBase = REG_PTBR1 s; r1PtLimit = r1PtBase + REG_PTLR1 s * SIZEOF_PTE H
      in if r0PtBase \<le> ptep \<and> ptep < r0PtLimit
         then Some ((ptep - r0PtBase) div SIZEOF_PTE H * 2 ^ PAGESHIFT H)
         else if r1PtBase \<le> ptep \<and> ptep < r1PtLimit
         then Some (((ptep - r1PtBase) div SIZEOF_PTE H + MAX_PT_LEN H) * 2 ^ PAGESHIFT H)
         else None)"

definition flushk :: "tlb_flush \<Rightarrow> (unit, 'z mmu_scheme) kcomp" where
  "flushk f = modk (\<lambda>s. s\<lparr>tlb_log := f # tlb_log s\<rparr>)"

definition flush_pte :: "hw \<Rightarrow> ptr \<Rightarrow> (unit, 'z mmu_scheme) kcomp" where
  "flush_pte H ptep =
     bindk (getk (\<lambda>s. getVirtualAddr H s ptep)) (\<lambda>va.
       case va of None \<Rightarrow> haltk | Some a \<Rightarrow> flushk (FLUSH_ADDR a))"

definition setPageTableEntryNoFlush ::
  "ptr \<Rightarrow> bool \<Rightarrow> prot_flag set \<Rightarrow> nat \<Rightarrow> (unit, 'z mmu_scheme) kcomp" where
  "setPageTableEntryNoFlush ptep valid prot p =
     bindk (fetch ptes ptep) (\<lambda>e.
       modk (\<lambda>s. s\<lparr>ptes := (ptes s)(ptep \<mapsto> e\<lparr>pte_valid := valid, pte_prot := prot, pte_pfn := p\<rparr>)\<rparr>))"

definition setPageTableEntry ::
  "hw \<Rightarrow> ptr \<Rightarrow> bool \<Rightarrow> prot_flag set \<Rightarrow> nat \<Rightarrow> (unit, 'z mmu_scheme) kcomp" where
  "setPageTableEntry H ptep valid prot p =
     bindk (setPageTableEntryNoFlush ptep valid prot p) (\<lambda>_. flush_pte H ptep)"

definition invalidatePageTableEntry :: "hw \<Rightarrow> ptr \<Rightarrow> (unit, 'z mmu_scheme) kcomp" where
  "invalidatePageTableEntry H ptep =
     bindk (fetch ptes ptep) (\<lambda>e.
     bindk (modk (\<lambda>s. s\<lparr>ptes := (ptes s)(ptep \<mapsto> e\<lparr>pte_valid := False\<rparr>)\<rparr>)) (\<lambda>_.
     bindk (getk REG_VM_ENABLE) (\<lambda>vm.
       if vm then flush_pte H ptep else retk ())))"

definition getAddressRegion :: "hw \<Rightarrow> nat \<Rightarrow> int" where
  "getAddressRegion H a =
     (if VMEM_1_BASE H \<le> a \<and> a < VMEM_1_LIMIT H then 1
      else if VMEM_0_BASE H \<le> a \<and> a < VMEM_0_LIMIT H then 0
      else -1)"

definition getAddressProt :: "hw \<Rightarrow> nat \<Rightarrow> int \<Rightarrow> (prot_flag set option, 'z mmu_scheme) kcomp" where
  "getAddressProt H a region =
     (if region = 0 \<or> region = 1 then
        bindk (getk (\<lambda>s. if region = 0 then REG_PTBR0 s else REG_PTBR1 s)) (\<lambda>ptBase.
          let baseVpn = (if region = 0 then KERNEL_BASE_VPN H else USER_BASE_VPN H); addrVpn = vpn_of H a
          in if addrVpn < baseVpn then faultk OUT_OF_BOUNDS
             else bindk (fetch ptes (ptBase + (addrVpn - baseVpn) * SIZEOF_PTE H))
                        (\<lambda>e. retk (Some (pte_prot e))))
      else retk None)"

section \<open>Active tables and virtual pages\<close>

definition has_table :: "hw \<Rightarrow> 'z mmu_scheme \<Rightarrow> ptr \<Rightarrow> bool" where
  "has_table H s b \<longleftrightarrow> (\<forall>a \<in> table_addrs H b. ptes s a \<noteq> None)"

text \<open>The registers describe two whole tables that do not overlap.\<close>

definition mmu_ok :: "hw \<Rightarrow> 'z mmu_scheme \<Rightarrow> bool" where
  "mmu_ok H s \<longleftrightarrow> REG_PTLR0 s = MAX_PT_LEN H \<and> REG_PTLR1 s = MAX_PT_LEN H \<and>
     has_table H s (REG_PTBR0 s) \<and> has_table H s (REG_PTBR1 s) \<and>
     (REG_PTBR0 s + MAX_PT_LEN H * SIZEOF_PTE H \<le> REG_PTBR1 s \<or>
      REG_PTBR1 s + MAX_PT_LEN H * SIZEOF_PTE H \<le> REG_PTBR0 s)"

text \<open>Where the MMU finds the entry of a virtual page.\<close>

definition pte_of_vpn :: "hw \<Rightarrow> 'z mmu_scheme \<Rightarrow> nat \<Rightarrow> ptr" where
  "pte_of_vpn H s v =
     (if v < MAX_PT_LEN H then REG_PTBR0 s + v * SIZEOF_PTE H
      else REG_PTBR1 s + (v - MAX_PT_LEN H) * SIZEOF_PTE H)"

definition walk :: "hw \<Rightarrow> 'z mmu_scheme \<Rightarrow> nat \<Rightarrow> pte option" where
  "walk H s v = (if v < 2 * MAX_PT_LEN H then ptes s (pte_of_vpn H s v) else None)"

lemma getVirtualAddr_vpn:
  assumes "hw_ok H" "mmu_ok H s" "v < 2 * MAX_PT_LEN H"
  shows "getVirtualAddr H s (pte_of_vpn H s v) = Some (v * PAGESIZE H)"
proof -
  let ?z = "SIZEOF_PTE H" and ?n = "MAX_PT_LEN H"
  have z: "0 < ?z" and pg: "PAGESIZE H = 2 ^ PAGESHIFT H" using assms(1) by (auto simp: hw_okD)
  from assms(2) have lr: "REG_PTLR0 s = ?n" "REG_PTLR1 s = ?n"
    and dis: "REG_PTBR0 s + ?n * ?z \<le> REG_PTBR1 s \<or> REG_PTBR1 s + ?n * ?z \<le> REG_PTBR0 s"
    by (auto simp: mmu_ok_def)
  show ?thesis
  proof (cases "v < ?n")
    case True
    then have "v * ?z < ?n * ?z" using z by simp
    with True z lr pg show ?thesis by (simp add: getVirtualAddr_def pte_of_vpn_def)
  next
    case False
    with assms(3) have i: "v - ?n < ?n" by simp
    then have lt: "(v - ?n) * ?z < ?n * ?z" using z by simp
    let ?p = "REG_PTBR1 s + (v - ?n) * ?z"
    have "\<not> (REG_PTBR0 s \<le> ?p \<and> ?p < REG_PTBR0 s + ?n * ?z)" using dis lt by linarith
    with False lt z lr pg show ?thesis by (auto simp: getVirtualAddr_def pte_of_vpn_def)
  qed
qed

lemma pte_of_vpn_inj:
  assumes "hw_ok H" "mmu_ok H s" "v < 2 * MAX_PT_LEN H" "w < 2 * MAX_PT_LEN H"
    "pte_of_vpn H s v = pte_of_vpn H s w"
  shows "v = w"
proof -
  have "v * PAGESIZE H = w * PAGESIZE H"
    using getVirtualAddr_vpn [OF assms(1,2)] assms(3-5) by (metis option.inject)
  with hw_okD(2) [OF assms(1)] show ?thesis by simp
qed

lemma walk_defined:
  assumes "mmu_ok H s" "v < 2 * MAX_PT_LEN H"
  obtains e where "ptes s (pte_of_vpn H s v) = Some e" "walk H s v = Some e"
proof -
  have "\<exists>e. ptes s (pte_of_vpn H s v) = Some e"
  proof (cases "v < MAX_PT_LEN H")
    case True
    with assms(1) show ?thesis by (auto simp: mmu_ok_def has_table_def table_addrs_def pte_of_vpn_def)
  next
    case False
    with assms(2) have "v - MAX_PT_LEN H < MAX_PT_LEN H" by simp
    with assms(1) False show ?thesis by (auto simp: mmu_ok_def has_table_def table_addrs_def pte_of_vpn_def)
  qed
  with assms(2) that show ?thesis by (auto simp: walk_def)
qed

text \<open>
  Writing an entry of an active table: the entry changes, no other entry does, and the flush that
  is issued is for the page the entry translates.
\<close>

lemma setPageTableEntry_vpn:
  assumes "hw_ok H" "mmu_ok H s" "v < 2 * MAX_PT_LEN H"
  shows "\<exists>e. walk H s v = Some e \<and>
     setPageTableEntry H (pte_of_vpn H s v) val prot p s =
       Done () (s\<lparr>ptes := (ptes s)(pte_of_vpn H s v \<mapsto> e\<lparr>pte_valid := val, pte_prot := prot, pte_pfn := p\<rparr>),
                  tlb_log := FLUSH_ADDR (v * PAGESIZE H) # tlb_log s\<rparr>)"
proof -
  from walk_defined [OF assms(2,3)] obtain e where
    e: "ptes s (pte_of_vpn H s v) = Some e" "walk H s v = Some e" .
  let ?s = "s\<lparr>ptes := (ptes s)(pte_of_vpn H s v \<mapsto> e\<lparr>pte_valid := val, pte_prot := prot, pte_pfn := p\<rparr>)\<rparr>"
  have "getVirtualAddr H ?s (pte_of_vpn H s v) = getVirtualAddr H s (pte_of_vpn H s v)"
    by (simp add: getVirtualAddr_def)
  with getVirtualAddr_vpn [OF assms] e show ?thesis
    by (simp add: setPageTableEntry_def setPageTableEntryNoFlush_def flush_pte_def flushk_def kdefs)
qed

lemma invalidate_vpn:
  assumes "hw_ok H" "mmu_ok H s" "v < 2 * MAX_PT_LEN H" "REG_VM_ENABLE s"
  shows "\<exists>e. walk H s v = Some e \<and>
     invalidatePageTableEntry H (pte_of_vpn H s v) s =
       Done () (s\<lparr>ptes := (ptes s)(pte_of_vpn H s v \<mapsto> e\<lparr>pte_valid := False\<rparr>),
                  tlb_log := FLUSH_ADDR (v * PAGESIZE H) # tlb_log s\<rparr>)"
proof -
  from walk_defined [OF assms(2,3)] obtain e where
    e: "ptes s (pte_of_vpn H s v) = Some e" "walk H s v = Some e" .
  let ?s = "s\<lparr>ptes := (ptes s)(pte_of_vpn H s v \<mapsto> e\<lparr>pte_valid := False\<rparr>)\<rparr>"
  have "getVirtualAddr H ?s (pte_of_vpn H s v) = getVirtualAddr H s (pte_of_vpn H s v)"
    by (simp add: getVirtualAddr_def)
  with getVirtualAddr_vpn [OF assms(1-3)] e assms(4) show ?thesis
    by (simp add: invalidatePageTableEntry_def flush_pte_def flushk_def kdefs)
qed

section \<open>Coherence of the TLB\<close>

text \<open>
  A TLB is a partial map from virtual pages to cached entries. Its content is up to the
  hardware; what the kernel must ensure is that no cached entry differs from the page tables.
  \<open>flush_tlb\<close> is the documented effect of a write to \<^verbatim>\<open>REG_TLB_FLUSH\<close>.
\<close>

fun flush_tlb :: "hw \<Rightarrow> tlb_flush \<Rightarrow> (nat \<Rightarrow> pte option) \<Rightarrow> (nat \<Rightarrow> pte option)" where
  "flush_tlb H (FLUSH_ADDR a) tlb = tlb(a div PAGESIZE H := None)"
| "flush_tlb H TLB_FLUSH_1 tlb = (\<lambda>v. if v < MAX_PT_LEN H then tlb v else None)"

definition coherent :: "hw \<Rightarrow> 'z mmu_scheme \<Rightarrow> (nat \<Rightarrow> pte option) \<Rightarrow> bool" where
  "coherent H s tlb \<longleftrightarrow> (\<forall>v e. tlb v = Some e \<longrightarrow> walk H s v = Some e)"

lemma walk_upd:
  assumes "hw_ok H" "mmu_ok H s" "v < 2 * MAX_PT_LEN H"
  shows "walk H (s\<lparr>ptes := (ptes s)(pte_of_vpn H s v \<mapsto> e), tlb_log := l\<rparr>) w =
           (if w = v then Some e else walk H s w)"
proof -
  have "pte_of_vpn H s w \<noteq> pte_of_vpn H s v" if "w \<noteq> v" "w < 2 * MAX_PT_LEN H"
    using pte_of_vpn_inj [OF assms(1,2) that(2) assms(3)] that(1) by blast
  then show ?thesis using assms(3) by (auto simp: walk_def pte_of_vpn_def)
qed

lemma coherent_upd:
  assumes "hw_ok H" "mmu_ok H s" "v < 2 * MAX_PT_LEN H" "coherent H s tlb"
  shows "coherent H (s\<lparr>ptes := (ptes s)(pte_of_vpn H s v \<mapsto> e), tlb_log := l\<rparr>)
           (flush_tlb H (FLUSH_ADDR (v * PAGESIZE H)) tlb)"
  using assms(4) walk_upd [OF assms(1-3)] hw_okD(2) [OF assms(1)]
  by (auto simp: coherent_def)

end
