(* ===== verification/Kernel_State.thy ===== *)
theory Kernel_State
  imports Queue HashMap PageTable
begin

text \<open>
  The state of the kernel: process control blocks, synchronisation objects and terminal buffers,
  each in a heap of their type indexed by address, and the global variables of the modules. The
  record extends the machine state of \<open>PageTable\<close>, so the paging operations apply to it as they
  are. The last section holds the accessors the modules share: operations on a queue or a hash
  map held in a global variable, updates of a process control block, accesses to virtual memory.
\<close>

section \<open>Kernel contexts\<close>

text \<open>
  A \<^verbatim>\<open>KernelContext\<close> is where a process continues inside the kernel when it is switched in
  again: the call it was blocked in, with the locals that call still uses. There is one constructor
  for each call of \<^verbatim>\<open>KernelContextSwitch\<close> by a caller; \<open>KStart\<close> is the starter context saved by
  \<^verbatim>\<open>getStarterKernelState\<close>, from which a fresh process enters user mode.
\<close>

datatype kcont =
    KStart
  | KClock
  | KDelay
  | KWait nat
  | KFork ptr ptr
  | KAcquire ptr
  | KCvarWait int
  | KPipeHead ptr nat int
  | KPipeBytes ptr nat int
  | KTtyAvail int "byte list" int
  | KTtyBatch int "byte list" int int
  | KTtyRead int nat int
  | KTtySignal

section \<open>Records of the modules\<close>

record UserContext =
  uc_code :: int
  uc_addr :: nat
  uc_pc :: nat
  uc_sp :: nat
  uc_ebp :: nat
  uc_regs :: "int list"

record zombie_t =
  z_pid :: int
  exit_status :: int

text \<open>
  Objects a process control block owns alone are stored in it; \<open>None\<close> is the null pointer. The
  user break is \<open>None\<close> until it is first written. \<open>stackPfns\<close> holds the entries written so far.
\<close>

record PCB_t =
  pid :: int
  brk :: "nat option"
  uctxt :: "UserContext option"
  kctxt :: "kcont option"
  childrenMap :: "ptr HashMap option"
  numChildren :: nat
  parent :: "ptr option"
  zombieQ :: "zombie_t queue"
  r1PageTable :: "ptr option"
  numRemainingDelayTicks :: int
  stackPfns :: "nat list"

record lock_t =
  ownerPcbp :: "ptr option"
  lock_waitingQ :: "ptr queue"

record pipe_t =
  pipe_buffer :: "byte list option"
  pipe_numBytesWritten :: int
  pipe_waitingQ :: "ptr queue"

record ttyBuf_t =
  tty_base :: nat
  tty_numBytesWritten :: int
  isLineReady :: bool

text \<open>
  \<open>trapFrame p\<close> is the user context on the kernel stack of process \<open>p\<close>, the \<^verbatim>\<open>uctxt\<close> a
  trap handler is called with; \<open>tty_out\<close> is what has been handed to \<^verbatim>\<open>TtyTransmit\<close>.
\<close>

record kstate = mmu +
  pcbs :: "ptr \<Rightarrow> PCB_t option"
  currPCB :: ptr
  initPid :: int
  nextPid :: int
  nextSyncId :: int
  readyQ :: "ptr queue"
  blockedMap :: "ptr HashMap option"
  sleepingMap :: "ptr HashMap option"
  currTransmitters :: "ptr option list"
  transmittingQs :: "ptr queue list"
  readingQs :: "ptr queue list"
  errorCount :: int
  lockMap :: "ptr HashMap option"
  cvarMap :: "ptr HashMap option"
  pipeMap :: "ptr HashMap option"
  locks :: "ptr \<Rightarrow> lock_t option"
  cvars :: "ptr \<Rightarrow> ptr list option"
  pipes :: "ptr \<Rightarrow> pipe_t option"
  ttyBufs :: "ttyBuf_t list"
  r0StackBasePtep :: ptr
  tempPtep :: ptr
  tempVAddr :: nat
  kernelDataStart :: nat
  kernelDataEnd :: nat
  currKernelBrk :: nat
  tty_out :: "(int \<times> byte list) list"
  trapFrame :: "ptr \<Rightarrow> UserContext"

type_synonym 'a kernel = "('a, kstate) kcomp"

section \<open>Shared accessors\<close>

text \<open>A queue in a global variable, read by \<open>get\<close> and written by \<open>put\<close>.\<close>

definition enqk :: "(kstate \<Rightarrow> 'a queue) \<Rightarrow> ('a queue \<Rightarrow> kstate \<Rightarrow> kstate) \<Rightarrow> 'a \<Rightarrow> rc kernel" where
  "enqk get put x =
     bindk malloc_okk (\<lambda>ok. bindk (getk get) (\<lambda>q.
       bindk (modk (put (snd (enq_q ok q x)))) (\<lambda>_. retk (fst (enq_q ok q x)))))"

definition deqk :: "(kstate \<Rightarrow> 'a queue) \<Rightarrow> ('a queue \<Rightarrow> kstate \<Rightarrow> kstate) \<Rightarrow> 'a option kernel" where
  "deqk get put =
     bindk (getk get) (\<lambda>q. bindk (modk (put (snd (deq_q q)))) (\<lambda>_. retk (fst (deq_q q))))"

definition set_readyQ :: "ptr queue \<Rightarrow> kstate \<Rightarrow> kstate" where
  "set_readyQ q s = s\<lparr>readyQ := q\<rparr>"

definition enq_ready :: "ptr \<Rightarrow> rc kernel" where
  "enq_ready p = enqk readyQ set_readyQ p"

definition deq_ready :: "ptr option kernel" where
  "deq_ready = deqk readyQ set_readyQ"

text \<open>A hash map in a global variable.\<close>

definition hm_newk :: "nat \<Rightarrow> 'a HashMap option kernel" where
  "hm_newk n = (\<lambda>s.
     let ok = (\<lambda>i. malloc_oracle s (malloc_count s + i) \<noteq> None)
     in case HashMap_new (ok 0) (ok 1) (\<lambda>i. ok (2 + i)) n of
          Inl e \<Rightarrow> Fault e
        | Inr hm \<Rightarrow> Done hm (s\<lparr>malloc_count := malloc_count s + 2 + n\<rparr>))"

definition hm_insertk ::
  "(kstate \<Rightarrow> 'a HashMap option) \<Rightarrow> ('a HashMap option \<Rightarrow> kstate \<Rightarrow> kstate) \<Rightarrow> int \<Rightarrow> 'a \<Rightarrow> rc kernel" where
  "hm_insertk get put key x =
     bindk malloc_okk (\<lambda>ok. bindk (getk get) (\<lambda>m.
       bindk (liftk (HashMap_insert ok m key (Some x))) (\<lambda>(r, m').
         bindk (modk (put m')) (\<lambda>_. retk r))))"

definition hm_removek ::
  "(kstate \<Rightarrow> 'a HashMap option) \<Rightarrow> ('a HashMap option \<Rightarrow> kstate \<Rightarrow> kstate) \<Rightarrow> int \<Rightarrow> 'a option kernel" where
  "hm_removek get put key =
     bindk (getk get) (\<lambda>m. bindk (liftk (HashMap_remove m key)) (\<lambda>(r, m').
       bindk (modk (put m')) (\<lambda>_. retk r)))"

definition hm_findk :: "(kstate \<Rightarrow> 'a HashMap option) \<Rightarrow> int \<Rightarrow> 'a option kernel" where
  "hm_findk get key = bindk (getk get) (\<lambda>m. liftk (HashMap_find m key))"

definition set_blockedMap :: "ptr HashMap option \<Rightarrow> kstate \<Rightarrow> kstate" where
  "set_blockedMap m s = s\<lparr>blockedMap := m\<rparr>"

definition set_sleepingMap :: "ptr HashMap option \<Rightarrow> kstate \<Rightarrow> kstate" where
  "set_sleepingMap m s = s\<lparr>sleepingMap := m\<rparr>"

text \<open>Process control blocks by address.\<close>

definition get_pcb :: "ptr \<Rightarrow> PCB_t kernel" where
  "get_pcb p = fetch pcbs p"

definition upd_pcb :: "ptr \<Rightarrow> (PCB_t \<Rightarrow> PCB_t) \<Rightarrow> unit kernel" where
  "upd_pcb p f = bindk (get_pcb p) (\<lambda>c. modk (\<lambda>s. s\<lparr>pcbs := (pcbs s)(p \<mapsto> f c)\<rparr>))"

text \<open>An array indexed by a C integer.\<close>

definition nthk :: "'a list \<Rightarrow> int \<Rightarrow> 'a kernel" where
  "nthk xs i = (if 0 \<le> i \<and> i < int (length xs) then retk (xs ! nat i) else faultk OUT_OF_BOUNDS)"

text \<open>
  Accesses to virtual memory through the active page tables: a page must be valid and carry the
  protection the access needs.
\<close>

definition translate :: "hw \<Rightarrow> 'z mmu_scheme \<Rightarrow> prot_flag \<Rightarrow> nat \<Rightarrow> (nat \<times> nat) option" where
  "translate H s need va =
     (case walk H s (va div PAGESIZE H) of
        None \<Rightarrow> None
      | Some e \<Rightarrow> if pte_valid e \<and> need \<in> pte_prot e then Some (pte_pfn e, va mod PAGESIZE H) else None)"

primrec copyin :: "hw \<Rightarrow> nat \<Rightarrow> nat \<Rightarrow> byte list kernel" where
  "copyin H va 0 = retk []"
| "copyin H va (Suc n) =
     bindk (getk (\<lambda>s. map_option (\<lambda>(f, off). pmem s f off) (translate H s PROT_READ va))) (\<lambda>b.
       case b of
         None \<Rightarrow> faultk UNMAPPED
       | Some x \<Rightarrow> bindk (copyin H (Suc va) n) (\<lambda>xs. retk (x # xs)))"

primrec copyout :: "hw \<Rightarrow> nat \<Rightarrow> byte list \<Rightarrow> unit kernel" where
  "copyout H va [] = retk ()"
| "copyout H va (x # xs) =
     bindk (getk (\<lambda>s. translate H s PROT_WRITE va)) (\<lambda>t.
       case t of
         None \<Rightarrow> faultk UNMAPPED
       | Some (f, off) \<Rightarrow>
           bindk (modk (\<lambda>s. s\<lparr>pmem := (pmem s)(f := (pmem s f)(off := x))\<rparr>)) (\<lambda>_. copyout H (Suc va) xs))"

definition memmovek :: "hw \<Rightarrow> nat \<Rightarrow> nat \<Rightarrow> nat \<Rightarrow> unit kernel" where
  "memmovek H dst src n = bindk (copyin H src n) (copyout H dst)"

section \<open>Rules for the accessors\<close>

lemma wpk_mallock [wp_simps]:
  "wpk mallock Q R s = Q (malloc_oracle s (malloc_count s)) (s\<lparr>malloc_count := Suc (malloc_count s)\<rparr>)"
  by (simp add: wpk_def mallock_def)

lemma wpk_malloc_okk [wp_simps]:
  "wpk malloc_okk Q R s =
     Q (malloc_oracle s (malloc_count s) \<noteq> None) (s\<lparr>malloc_count := Suc (malloc_count s)\<rparr>)"
  by (simp add: malloc_okk_def wp_simps)

lemma malloc_okk_run:
  "malloc_okk s = Done (malloc_oracle s (malloc_count s) \<noteq> None) (s\<lparr>malloc_count := Suc (malloc_count s)\<rparr>)"
  by (simp add: malloc_okk_def mallock_def kdefs)

lemma deq_ready_run:
  "deq_ready s = Done (fst (deq_q (readyQ s))) (s\<lparr>readyQ := snd (deq_q (readyQ s))\<rparr>)"
  by (simp add: deq_ready_def deqk_def set_readyQ_def kdefs)

lemma enq_ready_run:
  "enq_ready p s =
     (let ok = malloc_oracle s (malloc_count s) \<noteq> None; s1 = s\<lparr>malloc_count := Suc (malloc_count s)\<rparr>
      in Done (fst (enq_q ok (readyQ s) p)) (s1\<lparr>readyQ := snd (enq_q ok (readyQ s) p)\<rparr>))"
  by (simp add: enq_ready_def enqk_def set_readyQ_def malloc_okk_run kdefs Let_def)

lemma get_pcb_run: "pcbs s p = Some c \<Longrightarrow> get_pcb p s = Done c s"
  by (simp add: get_pcb_def fetch_def)

lemma upd_pcb_run: "pcbs s p = Some c \<Longrightarrow> upd_pcb p f s = Done () (s\<lparr>pcbs := (pcbs s)(p \<mapsto> f c)\<rparr>)"
  by (simp add: upd_pcb_def get_pcb_def fetch_def kdefs)

end
