(* ===== verification/Scheduler.thy ===== *)
theory Scheduler
  imports Kernel_State
begin

text \<open>
  The scheduler of \<^verbatim>\<open>KernelDataStructures/Scheduler/Scheduler.c\<close>: creation and deletion
  of processes, the context-switch functions handed to \<^verbatim>\<open>KernelContextSwitch\<close>, and the
  operations that move processes between the ready queue, the blocked and sleeping maps and the
  terminal queues. An operation that switches takes the kernel context \<open>k\<close> of its caller, which is
  what the hardware saves; after a \<open>Switch\<close> the process \<open>currPCB\<close> continues from its own saved
  context. This theory holds the operations; their properties are in \<open>Scheduler_Props\<close>.
\<close>

section \<open>Context switches\<close>

definition CHILDREN_MAP_HASH_BUCKETS :: nat where
  "CHILDREN_MAP_HASH_BUCKETS = 10"

definition BLOCKED_MAP_HASH_BUCKETS :: nat where
  "BLOCKED_MAP_HASH_BUCKETS = 20"

definition SLEEPING_MAP_HASH_BUCKETS :: nat where
  "SLEEPING_MAP_HASH_BUCKETS = 20"

text \<open>The loop that points the kernel stack entries at the frames of the current process.\<close>

definition map_kernel_stack :: "hw \<Rightarrow> unit kernel" where
  "map_kernel_stack H =
     bindk (getk (\<lambda>s. (r0StackBasePtep s, currPCB s))) (\<lambda>(base, c).
       foldk (\<lambda>i. bindk (get_pcb c) (\<lambda>pc.
                if i < length (stackPfns pc)
                then setPageTableEntry H (base + i * SIZEOF_PTE H) True {PROT_READ, PROT_WRITE} (stackPfns pc ! i)
                else faultk UNINIT))
             [0..<KSTACK_NPG H])"

text \<open>Overwriting the saved kernel context of a process: the \<^verbatim>\<open>kctxt\<close> memory must exist.\<close>

definition save_kctxt :: "ptr \<Rightarrow> kcont \<Rightarrow> unit kernel" where
  "save_kctxt p k =
     bindk (get_pcb p) (\<lambda>c. bindk (nonnull (kctxt c)) (\<lambda>_. upd_pcb p (\<lambda>c. c\<lparr>kctxt := Some k\<rparr>)))"

text \<open>\<^verbatim>\<open>REG_PTBR1\<close> is set to the region 1 table of the current process and the TLB is flushed.\<close>

definition switch_r1 :: "unit kernel" where
  "switch_r1 =
     bindk (getk currPCB) (\<lambda>c. bindk (get_pcb c) (\<lambda>pc.
       bindk (modk (\<lambda>s. s\<lparr>REG_PTBR1 := (case r1PageTable pc of None \<Rightarrow> 0 | Some b \<Rightarrow> b)\<rparr>)) (\<lambda>_.
         flushk TLB_FLUSH_1)))"

definition switchBetween :: "hw \<Rightarrow> kcont \<Rightarrow> ptr option \<Rightarrow> ptr \<Rightarrow> 'a kernel" where
  "switchBetween H currKctxt currPcbP nextPcbP =
     bindk (case currPcbP of None \<Rightarrow> retk () | Some c \<Rightarrow> save_kctxt c currKctxt) (\<lambda>_.
     bindk (modk (\<lambda>s. s\<lparr>currPCB := nextPcbP\<rparr>)) (\<lambda>_.
     bindk (map_kernel_stack H) (\<lambda>_.
     bindk (get_pcb nextPcbP) (\<lambda>pc.
     bindk (if kctxt pc = None
            then bindk malloc_okk (\<lambda>ok.
                   if ok then upd_pcb nextPcbP (\<lambda>c. c\<lparr>kctxt := Some KStart\<rparr>) else faultk NULL_DEREF)
            else retk ()) (\<lambda>_.
     bindk switch_r1 (\<lambda>_. switchk id))))))"

text \<open>
  \<^verbatim>\<open>forkTo\<close>: parent and child both continue from the parent's context. Each kernel stack page
  is copied through the spare entry below the kernel stack before the entry of the page itself is
  pointed at the child's frame. The user context of the pending trap is on the stack and is copied
  with it.
\<close>

definition fork_kernel_stack :: "hw \<Rightarrow> unit kernel" where
  "fork_kernel_stack H =
     bindk (getk (\<lambda>s. (r0StackBasePtep s, currPCB s, tempPtep s, tempVAddr s))) (\<lambda>(base, c, tp, tv).
       foldk (\<lambda>i. bindk (get_pcb c) (\<lambda>pc.
                if i < length (stackPfns pc) then
                  bindk (setPageTableEntry H tp True {PROT_WRITE} (stackPfns pc ! i)) (\<lambda>_.
                  bindk (memmovek H tv (KERNEL_STACK_BASE H + i * PAGESIZE H) (PAGESIZE H)) (\<lambda>_.
                    setPageTableEntry H (base + i * SIZEOF_PTE H) True {PROT_READ, PROT_WRITE} (stackPfns pc ! i)))
                else faultk UNINIT))
             [0..<KSTACK_NPG H])"

definition forkTo :: "hw \<Rightarrow> kcont \<Rightarrow> ptr \<Rightarrow> 'a kernel" where
  "forkTo H currKctxt childPcbP =
     bindk (getk currPCB) (\<lambda>c.
     bindk (save_kctxt c currKctxt) (\<lambda>_.
     bindk (modk (\<lambda>s. s\<lparr>currPCB := childPcbP\<rparr>)) (\<lambda>_.
     bindk (fork_kernel_stack H) (\<lambda>_.
     bindk (modk (\<lambda>s. s\<lparr>trapFrame := (trapFrame s)(childPcbP := trapFrame s c)\<rparr>)) (\<lambda>_.
     bindk (bindk (getk tempPtep) (\<lambda>tp. setPageTableEntry H tp False {} 0)) (\<lambda>_.
     bindk (save_kctxt childPcbP currKctxt) (\<lambda>_.
     bindk switch_r1 (\<lambda>_. switchk id))))))))"

definition execTo :: "'a kernel" where
  "execTo = bindk (bindk (getk currPCB) (\<lambda>c. save_kctxt c KStart)) (\<lambda>_. switchk id)"

text \<open>
  The tail five of the operations end with: take the head of the ready queue and switch to it.
\<close>

definition deq_switch :: "hw \<Rightarrow> kcont \<Rightarrow> rc kernel" where
  "deq_switch H k =
     bindk deq_ready (\<lambda>nextPCB.
       case nextPCB of
         None \<Rightarrow> retk ERROR
       | Some n \<Rightarrow> bindk (getk currPCB) (\<lambda>c. switchBetween H k (Some c) n))"

section \<open>Creation and deletion of processes\<close>

definition free_r1_frames :: "hw \<Rightarrow> ptr \<Rightarrow> unit kernel" where
  "free_r1_frames H b =
     foldk (\<lambda>i. bindk (fetch ptes (b + i * SIZEOF_PTE H)) (\<lambda>e.
              if pte_valid e then freeFramek (pte_pfn e) else retk ()))
           [0..<MAX_PT_LEN H]"

definition free_stack_frames :: "hw \<Rightarrow> nat list \<Rightarrow> unit kernel" where
  "free_stack_frames H pfns =
     foldk (\<lambda>i. if i < length pfns then freeFramek (pfns ! i) else faultk UNINIT) [0..<KSTACK_NPG H]"

definition delete_process :: "hw \<Rightarrow> ptr \<Rightarrow> unit kernel" where
  "delete_process H p =
     bindk (get_pcb p) (\<lambda>pc.
     bindk (nonnull (r1PageTable pc)) (\<lambda>b.
     bindk (free_r1_frames H b) (\<lambda>_.
     bindk (modk (\<lambda>s. s\<lparr>ptes := (\<lambda>a. if a \<in> table_addrs H b then None else ptes s a)\<rparr>)) (\<lambda>_.
     bindk (free_stack_frames H (stackPfns pc)) (\<lambda>_.
       modk (\<lambda>s. s\<lparr>pcbs := (pcbs s)(p := None)\<rparr>))))))"

text \<open>
  A block as the two functions that create one fill it in; the user context is allocated but not yet
  written.
\<close>

definition blank_pcb :: "int \<Rightarrow> kcont option \<Rightarrow> ptr HashMap option \<Rightarrow> ptr option \<Rightarrow> PCB_t" where
  "blank_pcb newPid kc cm pt =
     \<lparr>pid = newPid, brk = None, uctxt = Some \<lparr>uc_code = 0, uc_addr = 0, uc_pc = 0, uc_sp = 0, uc_ebp = 0,
        uc_regs = []\<rparr>, kctxt = kc, childrenMap = cm, numChildren = 0, parent = None, zombieQ = None,
      r1PageTable = pt, numRemainingDelayTicks = 0, stackPfns = []\<rparr>"

definition add_stack_frame :: "ptr \<Rightarrow> rc kernel" where
  "add_stack_frame p =
     bindk getFramek (\<lambda>f.
       case f of
         None \<Rightarrow> retk ERROR
       | Some x \<Rightarrow> bindk (upd_pcb p (\<lambda>c. c\<lparr>stackPfns := stackPfns c @ [x]\<rparr>)) (\<lambda>_. retk SUCCESS))"

definition init_stack_frames :: "hw \<Rightarrow> ptr \<Rightarrow> rc kernel" where
  "init_stack_frames H p = foldrc (\<lambda>i. add_stack_frame p) [0..<KSTACK_NPG H]"

text \<open>
  Until the page table has been allocated the new block has fields that were never written;
  \<^verbatim>\<open>delete_process\<close> on such a block frees whatever they hold, which is a fault. The loop over the
  stack frames stops at the first frame that cannot be had.
\<close>

definition initPCB :: "hw \<Rightarrow> ptr option kernel" where
  "initPCB H =
     bindk mallock (\<lambda>m. bindk (getk pcbs) (\<lambda>heap.
       case m of
         None \<Rightarrow> retk None
       | Some p \<Rightarrow>
           if heap p \<noteq> None then retk None else
           bindk (getk nextPid) (\<lambda>newPid.
           bindk (modk (\<lambda>s. s\<lparr>nextPid := newPid + 1\<rparr>)) (\<lambda>_.
           bindk malloc_okk (\<lambda>ok_uctxt.
             if \<not> ok_uctxt then faultk UNINIT else
             bindk (hm_newk CHILDREN_MAP_HASH_BUCKETS) (\<lambda>cm.
               if cm = None then faultk UNINIT else
               bindk (initializeRegionPageTable H) (\<lambda>pt.
               bindk (modk (\<lambda>s. s\<lparr>pcbs := (pcbs s)(p \<mapsto>
                   blank_pcb newPid None cm pt)\<rparr>)) (\<lambda>_.
                 if pt = None then bindk (delete_process H p) (\<lambda>_. retk None)
                 else bindk (init_stack_frames H p) (\<lambda>r.
                        if r = ERROR then bindk (delete_process H p) (\<lambda>_. retk None)
                        else retk (Some p))))))))))"

definition initProcess :: "hw \<Rightarrow> ptr option kernel" where
  "initProcess H =
     bindk (initPCB H) (\<lambda>m.
       case m of
         None \<Rightarrow> retk None
       | Some p \<Rightarrow> bindk (enq_ready p) (\<lambda>r. retk (if r = ERROR then None else Some p)))"

text \<open>
  \<^verbatim>\<open>initInitProcess\<close>: the process that owns the boot stack. Its \<^verbatim>\<open>kctxt\<close> memory is allocated
  but holds nothing meaningful until the process is switched out for the first time.
\<close>

definition initInitProcess :: "hw \<Rightarrow> ptr \<Rightarrow> ptr option kernel" where
  "initInitProcess H initR1PageTable =
     bindk mallock (\<lambda>m. bindk (getk pcbs) (\<lambda>heap.
       case m of
         None \<Rightarrow> retk None
       | Some p \<Rightarrow>
           if heap p \<noteq> None then retk None else
           bindk (getk nextPid) (\<lambda>newPid.
           bindk (modk (\<lambda>s. s\<lparr>nextPid := newPid + 1, initPid := newPid\<rparr>)) (\<lambda>_.
           bindk malloc_okk (\<lambda>ok_uctxt.
             if \<not> ok_uctxt then retk None else
             bindk malloc_okk (\<lambda>ok_kctxt.
               if \<not> ok_kctxt then retk None else
               bindk (hm_newk CHILDREN_MAP_HASH_BUCKETS) (\<lambda>cm.
               bindk (modk (\<lambda>s. s\<lparr>pcbs := (pcbs s)(p \<mapsto>
                   blank_pcb newPid (Some KStart) cm (Some initR1PageTable))\<rparr>)) (\<lambda>_.
               bindk (bindk (getk r0StackBasePtep) (\<lambda>base.
                  foldk (\<lambda>i. bindk (fetch ptes (base + i * SIZEOF_PTE H)) (\<lambda>e.
                           upd_pcb p (\<lambda>c. c\<lparr>stackPfns := stackPfns c @ [pte_pfn e]\<rparr>)))
                        [0..<KSTACK_NPG H])) (\<lambda>_.
                 retk (Some p))))))))))"

text \<open>The queues of one terminal.\<close>

definition init_tty_queues :: "nat \<Rightarrow> rc kernel" where
  "init_tty_queues i =
     bindk malloc_okk (\<lambda>ok1.
     bindk (modk (\<lambda>s. s\<lparr>transmittingQs := (transmittingQs s)[i := make_q ok1]\<rparr>)) (\<lambda>_.
       if \<not> ok1 then retk ERROR else
       bindk malloc_okk (\<lambda>ok2.
       bindk (modk (\<lambda>s. s\<lparr>readingQs := (readingQs s)[i := make_q ok2]\<rparr>)) (\<lambda>_.
         retk (if ok2 then SUCCESS else ERROR)))))"

definition initScheduler :: "hw \<Rightarrow> rc kernel" where
  "initScheduler H =
     bindk (modk (\<lambda>s. s\<lparr>nextPid := 0, nextSyncId := 0\<rparr>)) (\<lambda>_.
     bindk malloc_okk (\<lambda>ok. bindk (modk (set_readyQ (make_q ok))) (\<lambda>_.
       if \<not> ok then retk ERROR else
       bindk (hm_newk BLOCKED_MAP_HASH_BUCKETS) (\<lambda>bm. bindk (modk (set_blockedMap bm)) (\<lambda>_.
         if bm = None then retk ERROR else
         bindk (hm_newk SLEEPING_MAP_HASH_BUCKETS) (\<lambda>sm. bindk (modk (set_sleepingMap sm)) (\<lambda>_.
           if sm = None then retk ERROR else
           foldrc init_tty_queues [0..<NUM_TERMINALS H])))))))"

section \<open>Scheduling\<close>

definition sleepProcess :: "hw \<Rightarrow> kcont \<Rightarrow> int \<Rightarrow> rc kernel" where
  "sleepProcess H k ticks =
     (if ticks \<le> 0 then retk SUCCESS else
      bindk (getk currPCB) (\<lambda>c.
      bindk (upd_pcb c (\<lambda>pc. pc\<lparr>numRemainingDelayTicks := ticks\<rparr>)) (\<lambda>_.
      bindk (get_pcb c) (\<lambda>pc.
      bindk (hm_insertk sleepingMap set_sleepingMap (pid pc) c) (\<lambda>r.
        if r = ERROR then retk ERROR else deq_switch H k)))))"

definition tickDownSleeper :: "int \<Rightarrow> ptr \<Rightarrow> unit kernel" where
  "tickDownSleeper key sleeper =
     bindk (upd_pcb sleeper (\<lambda>pc. pc\<lparr>numRemainingDelayTicks := numRemainingDelayTicks pc - 1\<rparr>)) (\<lambda>_.
     bindk (get_pcb sleeper) (\<lambda>pc.
       if numRemainingDelayTicks pc \<le> 0 then
         bindk (hm_removek sleepingMap set_sleepingMap (pid pc)) (\<lambda>removed.
           if removed = None then modk (\<lambda>s. s\<lparr>errorCount := errorCount s + 1\<rparr>)
           else bindk (enq_ready sleeper) (\<lambda>r.
                  if r = ERROR then modk (\<lambda>s. s\<lparr>errorCount := errorCount s + 1\<rparr>) else retk ()))
       else retk ()))"

definition tickDownSleepers :: "rc kernel" where
  "tickDownSleepers =
     bindk (modk (\<lambda>s. s\<lparr>errorCount := 0\<rparr>)) (\<lambda>_.
     bindk (HashMap_iterate sleepingMap tickDownSleeper) (\<lambda>_.
     bindk (getk errorCount) (\<lambda>n. retk (if n > 0 then ERROR else SUCCESS))))"

definition kickProcess :: "hw \<Rightarrow> kcont \<Rightarrow> rc kernel" where
  "kickProcess H k =
     bindk (getk readyQ) (\<lambda>q.
       if q = None then retk ERROR
       else if peek_q q = None then retk SUCCESS
       else bindk (getk currPCB) (\<lambda>c. bindk (enq_ready c) (\<lambda>r.
              if r = ERROR then retk ERROR else deq_switch H k)))"

definition execProcess :: "rc kernel" where
  "execProcess = execTo"

definition forkProcess :: "hw \<Rightarrow> kcont \<Rightarrow> ptr \<Rightarrow> rc kernel" where
  "forkProcess H k childPCB =
     bindk (getk currPCB) (\<lambda>c. bindk (get_pcb childPCB) (\<lambda>child.
       case parent child of
         None \<Rightarrow> retk ERROR
       | Some pp \<Rightarrow>
           bindk (get_pcb pp) (\<lambda>ppc. bindk (get_pcb c) (\<lambda>cc.
             if pid ppc \<noteq> pid cc then retk ERROR else
             bindk (enq_ready c) (\<lambda>r. if r = ERROR then retk ERROR else forkTo H k childPCB)))))"

definition blockProcess :: "hw \<Rightarrow> kcont \<Rightarrow> rc kernel" where
  "blockProcess H k =
     bindk (getk currPCB) (\<lambda>c. bindk (get_pcb c) (\<lambda>pc.
     bindk (hm_insertk blockedMap set_blockedMap (pid pc) c) (\<lambda>r.
       if r = ERROR then retk ERROR else deq_switch H k)))"

definition unblockProcess :: "int \<Rightarrow> rc kernel" where
  "unblockProcess p =
     bindk (getk blockedMap) (\<lambda>m.
       if m = None then retk ERROR else
       bindk (hm_removek blockedMap set_blockedMap p) (\<lambda>unblockedPCB.
         case unblockedPCB of Some x \<Rightarrow> enq_ready x | None \<Rightarrow> retk SUCCESS))"

definition removeParent :: "int \<Rightarrow> ptr \<Rightarrow> unit kernel" where
  "removeParent key childPCB = upd_pcb childPCB (\<lambda>c. c\<lparr>parent := None\<rparr>)"

text \<open>The part of \<^verbatim>\<open>exitProcess\<close> that leaves a zombie with the parent and wakes it up.\<close>

definition leave_zombie :: "ptr \<Rightarrow> ptr \<Rightarrow> int \<Rightarrow> rc kernel" where
  "leave_zombie c parentPcbp status =
     bindk (get_pcb parentPcbp) (\<lambda>ppc.
     bindk (if zombieQ ppc = None
            then bindk malloc_okk (\<lambda>ok. bindk (upd_pcb parentPcbp (\<lambda>x. x\<lparr>zombieQ := make_q ok\<rparr>)) (\<lambda>_. retk ok))
            else retk True) (\<lambda>have_q.
       if \<not> have_q then retk ERROR else
       bindk malloc_okk (\<lambda>ok_zombie. if \<not> ok_zombie then faultk NULL_DEREF else
       bindk (get_pcb c) (\<lambda>cc.
       bindk malloc_okk (\<lambda>ok_node.
       bindk (get_pcb parentPcbp) (\<lambda>ppc2.
         let res = enq_q ok_node (zombieQ ppc2) \<lparr>z_pid = pid cc, exit_status = status\<rparr> in
         bindk (upd_pcb parentPcbp (\<lambda>x. x\<lparr>zombieQ := snd res\<rparr>)) (\<lambda>_.
           if fst res = ERROR then retk ERROR
           else bindk (unblockProcess (pid ppc2)) (\<lambda>_. retk SUCCESS))))))))"

definition exitProcess :: "hw \<Rightarrow> int \<Rightarrow> rc kernel" where
  "exitProcess H status =
     bindk (getk currPCB) (\<lambda>c. bindk (get_pcb c) (\<lambda>pc.
     bindk (case parent pc of None \<Rightarrow> retk SUCCESS | Some pp \<Rightarrow> leave_zombie c pp status) (\<lambda>r.
       if r = ERROR then retk ERROR else
       bindk (HashMap_iterate (\<lambda>s. case pcbs s c of None \<Rightarrow> None | Some x \<Rightarrow> childrenMap x) removeParent) (\<lambda>_.
       bindk (delete_process H c) (\<lambda>_.
       bindk deq_ready (\<lambda>nextPCB.
         case nextPCB of None \<Rightarrow> retk ERROR | Some n \<Rightarrow> switchBetween H KStart None n))))))"

section \<open>Terminals\<close>

definition isTtyTransmitAvailable :: "int \<Rightarrow> bool kernel" where
  "isTtyTransmitAvailable tty_id =
     bindk (bindk (getk currTransmitters) (\<lambda>ts. nthk ts tty_id)) (\<lambda>t. retk (t = None))"

definition enq_tty :: "(kstate \<Rightarrow> ptr queue list) \<Rightarrow> (ptr queue list \<Rightarrow> kstate \<Rightarrow> kstate) \<Rightarrow> int \<Rightarrow> ptr \<Rightarrow> rc kernel" where
  "enq_tty get put tty_id p =
     bindk (getk get) (\<lambda>qs. bindk (nthk qs tty_id) (\<lambda>q. bindk malloc_okk (\<lambda>ok.
       bindk (modk (put (qs[nat tty_id := snd (enq_q ok q p)]))) (\<lambda>_. retk (fst (enq_q ok q p))))))"

definition deq_tty :: "(kstate \<Rightarrow> ptr queue list) \<Rightarrow> (ptr queue list \<Rightarrow> kstate \<Rightarrow> kstate) \<Rightarrow> int \<Rightarrow> ptr option kernel" where
  "deq_tty get put tty_id =
     bindk (getk get) (\<lambda>qs. bindk (nthk qs tty_id) (\<lambda>q.
       bindk (modk (put (qs[nat tty_id := snd (deq_q q)]))) (\<lambda>_. retk (fst (deq_q q)))))"

definition set_transmittingQs :: "ptr queue list \<Rightarrow> kstate \<Rightarrow> kstate" where
  "set_transmittingQs qs s = s\<lparr>transmittingQs := qs\<rparr>"

definition set_readingQs :: "ptr queue list \<Rightarrow> kstate \<Rightarrow> kstate" where
  "set_readingQs qs s = s\<lparr>readingQs := qs\<rparr>"

definition blockTransmitter :: "hw \<Rightarrow> kcont \<Rightarrow> int \<Rightarrow> rc kernel" where
  "blockTransmitter H k tty_id =
     bindk (getk currPCB) (\<lambda>c. bindk (enq_tty transmittingQs set_transmittingQs tty_id c) (\<lambda>r.
       if r = ERROR then retk ERROR else deq_switch H k))"

definition set_transmitter :: "int \<Rightarrow> ptr option \<Rightarrow> unit kernel" where
  "set_transmitter tty_id v =
     bindk (bindk (getk currTransmitters) (\<lambda>ts. nthk ts tty_id)) (\<lambda>_.
       modk (\<lambda>s. s\<lparr>currTransmitters := (currTransmitters s)[nat tty_id := v]\<rparr>))"

text \<open>A process taken from a terminal queue, if there was one, becomes ready.\<close>

definition ready_if_some :: "ptr option \<Rightarrow> rc kernel" where
  "ready_if_some m = (case m of Some p \<Rightarrow> enq_ready p | None \<Rightarrow> retk SUCCESS)"

definition unblockTransmitter :: "int \<Rightarrow> rc kernel" where
  "unblockTransmitter tty_id =
     bindk (set_transmitter tty_id None) (\<lambda>_.
     bindk (bindk (getk transmittingQs) (\<lambda>qs. nthk qs tty_id)) (\<lambda>q.
       if q = None then retk ERROR
       else bindk (deq_tty transmittingQs set_transmittingQs tty_id) ready_if_some))"

definition waitTransmitter :: "hw \<Rightarrow> kcont \<Rightarrow> int \<Rightarrow> rc kernel" where
  "waitTransmitter H k tty_id =
     bindk (getk currPCB) (\<lambda>c. bindk (set_transmitter tty_id (Some c)) (\<lambda>_. deq_switch H k))"

definition signalTransmitter :: "hw \<Rightarrow> kcont \<Rightarrow> int \<Rightarrow> rc kernel" where
  "signalTransmitter H k tty_id =
     bindk (getk currPCB) (\<lambda>c. bindk (enq_ready c) (\<lambda>r.
       if r = ERROR then retk ERROR else
       bindk (bindk (getk currTransmitters) (\<lambda>ts. nthk ts tty_id)) (\<lambda>nextPCB.
         case nextPCB of None \<Rightarrow> retk ERROR | Some n \<Rightarrow> switchBetween H k (Some c) n)))"

definition blockReader :: "hw \<Rightarrow> kcont \<Rightarrow> int \<Rightarrow> rc kernel" where
  "blockReader H k tty_id =
     bindk (getk currPCB) (\<lambda>c. bindk (enq_tty readingQs set_readingQs tty_id c) (\<lambda>r.
       if r = ERROR then retk ERROR else deq_switch H k))"

definition unblockReader :: "int \<Rightarrow> rc kernel" where
  "unblockReader tty_id =
     bindk (bindk (getk readingQs) (\<lambda>qs. nthk qs tty_id)) (\<lambda>q.
       if q = None then retk ERROR
       else bindk (deq_tty readingQs set_readingQs tty_id) ready_if_some)"

end
