(* ===== verification/Context_Switch.thy ===== *)
theory Context_Switch
  imports Scheduler
begin

text \<open>
  What a context switch does. \<open>switchBetween\<close>, the function that
  \<^verbatim>\<open>KernelContextSwitch\<close> runs for every switch but fork and exec, is evaluated on any
  well-formed state: it saves the context of the old process, maps the kernel stack of the new one,
  installs its region 1 page table and leaves everything else alone. The flushes it issues keep every
  TLB coherent.
\<close>

section \<open>Kernel stack pages\<close>

lemma kstack_vpn_bound:
  assumes "hw_ok H" "i < KSTACK_NPG H"
  shows "KERNEL_STACK_BASE_VPN H + i < MAX_PT_LEN H"
proof -
  let ?p = "PAGESIZE H"
  have p: "0 < ?p" using assms(1) by (rule hw_okD(2))
  have "KERNEL_STACK_BASE H + KERNEL_STACK_MAXSIZE H \<le> MAX_PT_LEN H * ?p"
    using assms(1) by (auto simp: hw_ok_def)
  moreover obtain a b where "KERNEL_STACK_BASE H = ?p * a" "KERNEL_STACK_MAXSIZE H = ?p * b"
    using hw_okD(12,13) [OF assms(1)] by (auto simp: dvd_def)
  ultimately have "?p * (a + b) \<le> ?p * MAX_PT_LEN H" and
    "KERNEL_STACK_BASE_VPN H = a" and "KSTACK_NPG H = b"
    using p vpn_of_page [OF assms(1)]
    by (auto simp: algebra_simps KERNEL_STACK_BASE_VPN_def KSTACK_NPG_def)
  with p assms(2) show ?thesis by simp
qed

definition stack_base_ok :: "hw \<Rightarrow> kstate \<Rightarrow> bool" where
  "stack_base_ok H s \<longleftrightarrow> r0StackBasePtep s = REG_PTBR0 s + KERNEL_STACK_BASE_VPN H * SIZEOF_PTE H"

lemma stack_pte:
  assumes "hw_ok H" "stack_base_ok H s" "i < KSTACK_NPG H"
  shows "r0StackBasePtep s + i * SIZEOF_PTE H = pte_of_vpn H s (KERNEL_STACK_BASE_VPN H + i)"
  using kstack_vpn_bound [OF assms(1,3)] assms(2)
  by (simp add: stack_base_ok_def pte_of_vpn_def algebra_simps)

lemma mmu_frame:
  "pte_of_vpn H (s\<lparr>ptes := P, tlb_log := L\<rparr>) = pte_of_vpn H s"
  "dom P = dom (ptes s) \<Longrightarrow> mmu_ok H (s\<lparr>ptes := P, tlb_log := L\<rparr>) = mmu_ok H s"
proof -
  show "pte_of_vpn H (s\<lparr>ptes := P, tlb_log := L\<rparr>) = pte_of_vpn H s"
    by (simp add: pte_of_vpn_def fun_eq_iff)
  assume d: "dom P = dom (ptes s)"
  have "P a = None \<longleftrightarrow> ptes s a = None" for a using d by (metis domIff)
  then show "mmu_ok H (s\<lparr>ptes := P, tlb_log := L\<rparr>) = mmu_ok H s"
    by (simp add: mmu_ok_def has_table_def)
qed

text \<open>The entries of the first \<open>n\<close> kernel stack pages after they were pointed at \<open>pfns\<close>.\<close>

definition stack_mapped :: "hw \<Rightarrow> kstate \<Rightarrow> nat list \<Rightarrow> nat \<Rightarrow> (ptr \<Rightarrow> pte option) \<Rightarrow> bool" where
  "stack_mapped H s pfns n P \<longleftrightarrow>
     (\<forall>i < n. P (pte_of_vpn H s (KERNEL_STACK_BASE_VPN H + i)) =
        Some \<lparr>pte_valid = True, pte_prot = {PROT_READ, PROT_WRITE}, pte_pfn = pfns ! i\<rparr>) \<and>
     (\<forall>a. (\<forall>i < n. a \<noteq> pte_of_vpn H s (KERNEL_STACK_BASE_VPN H + i)) \<longrightarrow> P a = ptes s a)"

definition stack_flushes :: "hw \<Rightarrow> nat \<Rightarrow> tlb_flush list" where
  "stack_flushes H n = rev (map (\<lambda>i. FLUSH_ADDR ((KERNEL_STACK_BASE_VPN H + i) * PAGESIZE H)) [0..<n])"

lemma stack_flushes_Suc:
  "stack_flushes H (Suc n) = FLUSH_ADDR ((KERNEL_STACK_BASE_VPN H + n) * PAGESIZE H) # stack_flushes H n"
  by (simp add: stack_flushes_def)

lemma pte_expand: "e\<lparr>pte_valid := v, pte_prot := pr, pte_pfn := p\<rparr> =
    \<lparr>pte_valid = v, pte_prot = pr, pte_pfn = p\<rparr>"
  by (cases e) simp

lemma map_stack_prefix:
  assumes "hw_ok H" "mmu_ok H s" "stack_base_ok H s" "pcbs s (currPCB s) = Some pc"
    "length (stackPfns pc) = KSTACK_NPG H" "n \<le> KSTACK_NPG H"
  shows "\<exists>P. foldk (\<lambda>i. bindk (get_pcb (currPCB s)) (\<lambda>pc.
                if i < length (stackPfns pc)
                then setPageTableEntry H (r0StackBasePtep s + i * SIZEOF_PTE H) True
                       {PROT_READ, PROT_WRITE} (stackPfns pc ! i)
                else faultk UNINIT)) [0..<n] s =
             Done () (s\<lparr>ptes := P, tlb_log := stack_flushes H n @ tlb_log s\<rparr>) \<and>
           dom P = dom (ptes s) \<and> stack_mapped H s (stackPfns pc) n P"
  using assms(6)
proof (induction n)
  case 0
  then show ?case by (intro exI [of _ "ptes s"]) (simp add: retk_def stack_flushes_def stack_mapped_def)
next
  case (Suc n)
  let ?v = "\<lambda>i. KERNEL_STACK_BASE_VPN H + i"
  from Suc obtain P where P: "dom P = dom (ptes s)" "stack_mapped H s (stackPfns pc) n P"
    and run: "foldk (\<lambda>i. bindk (get_pcb (currPCB s)) (\<lambda>pc.
                if i < length (stackPfns pc)
                then setPageTableEntry H (r0StackBasePtep s + i * SIZEOF_PTE H) True
                       {PROT_READ, PROT_WRITE} (stackPfns pc ! i)
                else faultk UNINIT)) [0..<n] s =
             Done () (s\<lparr>ptes := P, tlb_log := stack_flushes H n @ tlb_log s\<rparr>)" by auto
  let ?s = "s\<lparr>ptes := P, tlb_log := stack_flushes H n @ tlb_log s\<rparr>"
  let ?e = "\<lparr>pte_valid = True, pte_prot = {PROT_READ, PROT_WRITE}, pte_pfn = stackPfns pc ! n\<rparr>"
  have n: "n < KSTACK_NPG H" using Suc.prems by simp
  have v: "?v i < 2 * MAX_PT_LEN H" if "i \<le> n" for i
    using kstack_vpn_bound [OF assms(1), of i] that n by simp
  have ok: "mmu_ok H ?s" using mmu_frame(2) [OF P(1)] assms(2) by simp
  from setPageTableEntry_vpn [OF assms(1) ok v [of n], where val = True and
      prot = "{PROT_READ, PROT_WRITE}" and p = "stackPfns pc ! n"] obtain e where
    e: "walk H ?s (?v n) = Some e"
      "setPageTableEntry H (pte_of_vpn H s (?v n)) True {PROT_READ, PROT_WRITE} (stackPfns pc ! n) ?s =
        Done () (?s\<lparr>ptes := P(pte_of_vpn H s (?v n) \<mapsto> ?e),
                    tlb_log := FLUSH_ADDR (?v n * PAGESIZE H) # stack_flushes H n @ tlb_log s\<rparr>)"
    by (auto simp: mmu_frame pte_expand)
  have inj: "pte_of_vpn H s (?v i) \<noteq> pte_of_vpn H s (?v n)" if "i < n" for i
    using pte_of_vpn_inj [OF assms(1,2) v [of i] v [of n]] that by auto
  have in_dom: "pte_of_vpn H s (?v n) \<in> dom (ptes s)"
    using e(1) P(1) v [of n] by (auto simp: walk_def mmu_frame split: if_splits)
  define P' where "P' = P(pte_of_vpn H s (?v n) \<mapsto> ?e)"
  have "stack_mapped H s (stackPfns pc) (Suc n) P'"
    using P(2) inj by (auto simp: stack_mapped_def less_Suc_eq P'_def)
  moreover have "dom P' = dom (ptes s)" using P(1) in_dom by (auto simp: P'_def)
  moreover have "get_pcb (currPCB s) ?s = Done pc ?s" using assms(4) by (simp add: get_pcb_run)
  then have "bindk (get_pcb (currPCB s)) (\<lambda>pc.
      if n < length (stackPfns pc)
      then setPageTableEntry H (r0StackBasePtep s + n * SIZEOF_PTE H) True
             {PROT_READ, PROT_WRITE} (stackPfns pc ! n)
      else faultk UNINIT) ?s =
      Done () (s\<lparr>ptes := P', tlb_log := stack_flushes H (Suc n) @ tlb_log s\<rparr>)"
    using e(2) n assms(5) stack_pte [OF assms(1,3) n] by (simp add: stack_flushes_Suc P'_def)
  ultimately show ?case using run by (auto simp: foldk_append retk_def)
qed

lemma map_kernel_stack_run:
  assumes "hw_ok H" "mmu_ok H s" "stack_base_ok H s" "pcbs s (currPCB s) = Some pc"
    "length (stackPfns pc) = KSTACK_NPG H"
  shows "\<exists>P. map_kernel_stack H s =
             Done () (s\<lparr>ptes := P, tlb_log := stack_flushes H (KSTACK_NPG H) @ tlb_log s\<rparr>) \<and>
           dom P = dom (ptes s) \<and> stack_mapped H s (stackPfns pc) (KSTACK_NPG H) P"
  using map_stack_prefix [OF assms order_refl] by (simp add: map_kernel_stack_def getk_def bindk_def)


section \<open>The switch\<close>

text \<open>Apart from the two tables of a process, an address belongs to one table only.\<close>

definition apart :: "hw \<Rightarrow> ptr \<Rightarrow> ptr \<Rightarrow> bool" where
  "apart H a b \<longleftrightarrow> a + MAX_PT_LEN H * SIZEOF_PTE H \<le> b \<or> b + MAX_PT_LEN H * SIZEOF_PTE H \<le> a"

definition pcb_ok :: "hw \<Rightarrow> kstate \<Rightarrow> ptr \<Rightarrow> bool" where
  "pcb_ok H s p \<longleftrightarrow> (\<exists>c b. pcbs s p = Some c \<and> length (stackPfns c) = KSTACK_NPG H \<and> 0 \<le> pid c \<and>
     r1PageTable c = Some b \<and> has_table H s b \<and> apart H (REG_PTBR0 s) b)"

text \<open>The saved contexts after the switch: the old process gets \<open>k\<close>, a new process the starter.\<close>

definition switched_pcbs :: "kcont \<Rightarrow> ptr option \<Rightarrow> ptr \<Rightarrow> (ptr \<Rightarrow> PCB_t option) \<Rightarrow> (ptr \<Rightarrow> PCB_t option)" where
  "switched_pcbs k old n h =
     (let h1 = (case old of None \<Rightarrow> h | Some c \<Rightarrow> h(c := map_option (\<lambda>pc. pc\<lparr>kctxt := Some k\<rparr>) (h c)))
      in h1(n := map_option (\<lambda>pc. if kctxt pc = None then pc\<lparr>kctxt := Some KStart\<rparr> else pc) (h1 n)))"

definition mallocs_ok :: "'z mmu_scheme \<Rightarrow> bool" where
  "mallocs_ok s \<longleftrightarrow> (\<forall>n. malloc_oracle s n \<noteq> None)"

lemma save_kctxt_run:
  "pcbs s c = Some pc \<Longrightarrow> kctxt pc \<noteq> None \<Longrightarrow>
     save_kctxt c k s = Done () (s\<lparr>pcbs := (pcbs s)(c \<mapsto> pc\<lparr>kctxt := Some k\<rparr>)\<rparr>)"
  by (auto simp: save_kctxt_def get_pcb_run upd_pcb_run nonnull_def bindk_def retk_def)

lemma switch_r1_run:
  "pcbs s (currPCB s) = Some pc \<Longrightarrow> r1PageTable pc = Some b \<Longrightarrow>
     switch_r1 s = Done () (s\<lparr>REG_PTBR1 := b, tlb_log := TLB_FLUSH_1 # tlb_log s\<rparr>)"
  by (simp add: switch_r1_def get_pcb_run flushk_def bindk_def getk_def modk_def)

lemma switchBetween_run:
  assumes H: "hw_ok H" and mmu: "mmu_ok H s" and base: "stack_base_ok H s" and mem: "mallocs_ok s"
    and nxt: "pcb_ok H s n"
    and old: "\<And>c. old = Some c \<Longrightarrow> \<exists>pc. pcbs s c = Some pc \<and> kctxt pc \<noteq> None"
  shows "\<exists>P m pc b. switchBetween H k old n s =
           Switch (s\<lparr>currPCB := n, pcbs := switched_pcbs k old n (pcbs s), ptes := P, REG_PTBR1 := b,
                     tlb_log := TLB_FLUSH_1 # stack_flushes H (KSTACK_NPG H) @ tlb_log s,
                     malloc_count := m\<rparr>) \<and>
         pcbs s n = Some pc \<and> r1PageTable pc = Some b \<and> dom P = dom (ptes s) \<and>
         stack_mapped H s (stackPfns pc) (KSTACK_NPG H) P"
proof -
  let ?save = "case old of None \<Rightarrow> retk () | Some c \<Rightarrow> save_kctxt c k"
  define h1 where "h1 = (case old of None \<Rightarrow> pcbs s
    | Some c \<Rightarrow> (pcbs s)(c := map_option (\<lambda>pc. pc\<lparr>kctxt := Some k\<rparr>) (pcbs s c)))"
  let ?s1 = "s\<lparr>pcbs := h1\<rparr>" and ?s2 = "s\<lparr>pcbs := h1, currPCB := n\<rparr>"
  have s1: "?save s = Done () ?s1"
    using old by (auto simp: h1_def save_kctxt_run retk_def split: option.splits)
  from nxt obtain pc b where pc: "pcbs s n = Some pc" "length (stackPfns pc) = KSTACK_NPG H"
    "r1PageTable pc = Some b" by (auto simp: pcb_ok_def)
  then obtain pc1 where pc1: "h1 n = Some pc1" "stackPfns pc1 = stackPfns pc" "r1PageTable pc1 = Some b"
    by (cases "old = Some n") (fastforce simp: h1_def split: option.splits)+
  have "mmu_ok H ?s2" "stack_base_ok H ?s2"
    using mmu base by (auto simp: mmu_ok_def has_table_def stack_base_ok_def)
  from map_kernel_stack_run [OF H this, of pc1] pc1 pc(2) obtain P where
    P: "map_kernel_stack H ?s2 = Done () (?s2\<lparr>ptes := P, tlb_log := stack_flushes H (KSTACK_NPG H) @ tlb_log s\<rparr>)"
      "dom P = dom (ptes s)" "stack_mapped H ?s2 (stackPfns pc) (KSTACK_NPG H) P" by auto
  have "pte_of_vpn H ?s2 = pte_of_vpn H s" by (simp add: pte_of_vpn_def fun_eq_iff)
  with P(3) have P3: "stack_mapped H s (stackPfns pc) (KSTACK_NPG H) P" by (simp add: stack_mapped_def)
  let ?s3 = "?s2\<lparr>ptes := P, tlb_log := stack_flushes H (KSTACK_NPG H) @ tlb_log s\<rparr>"
  have mem3: "\<exists>a. malloc_oracle s (malloc_count s) = Some a" using mem by (auto simp: mallocs_ok_def)
  define m where "m = (if kctxt pc1 = None then Suc (malloc_count s) else malloc_count s)"
  let ?h2 = "switched_pcbs k old n (pcbs s)"
  have h2: "?h2 = h1(n := map_option (\<lambda>pc. if kctxt pc = None then pc\<lparr>kctxt := Some KStart\<rparr> else pc) (h1 n))"
    by (simp add: switched_pcbs_def h1_def Let_def)
  have ?thesis if "kctxt pc1 = None"
  proof -
    have "?h2 = h1(n \<mapsto> pc1\<lparr>kctxt := Some KStart\<rparr>)" using that pc1(1) by (simp add: h2)
    with that s1 P(1) pc1 mem3 pc P(2) P3 show ?thesis
      by (intro exI [of _ P] exI [of _ "Suc (malloc_count s)"] exI [of _ pc] exI [of _ b])
         (auto simp: switchBetween_def bindk_def modk_def get_pcb_run upd_pcb_run malloc_okk_run
            switch_r1_run switchk_def)
  qed
  moreover have ?thesis if "kctxt pc1 \<noteq> None"
  proof -
    have "?h2 = h1" using that pc1(1) by (auto simp: h2 fun_eq_iff)
    with that s1 P(1) pc1 pc P(2) P3 show ?thesis
      by (intro exI [of _ P] exI [of _ "malloc_count s"] exI [of _ pc] exI [of _ b])
         (auto simp: switchBetween_def bindk_def modk_def get_pcb_run retk_def switch_r1_run switchk_def)
  qed
  ultimately show ?thesis by blast
qed

text \<open>The registers still describe two whole tables after the switch.\<close>

lemma has_table_dom: "dom P = dom (ptes s) \<Longrightarrow> ptes t = P \<Longrightarrow> has_table H t b = has_table H s b"
  unfolding has_table_def by (metis domIff)

lemma switched_mmu_ok:
  assumes "mmu_ok H s" "pcb_ok H s n" "pcbs s n = Some pc" "r1PageTable pc = Some b" "dom P = dom (ptes s)"
    and t: "ptes t = P" "REG_PTBR0 t = REG_PTBR0 s" "REG_PTBR1 t = b" "REG_PTLR0 t = REG_PTLR0 s"
      "REG_PTLR1 t = REG_PTLR1 s"
  shows "mmu_ok H t"
  using assms has_table_dom [OF assms(5) t(1)]
  by (auto simp: mmu_ok_def pcb_ok_def apart_def)

section \<open>Coherence of the TLB across a switch\<close>

lemma flush_stack_pages:
  "hw_ok H \<Longrightarrow> foldr (flush_tlb H) (stack_flushes H n) tlb v =
     (if \<exists>i < n. v = KERNEL_STACK_BASE_VPN H + i then None else tlb v)"
proof (induction n)
  case 0
  then show ?case by (simp add: stack_flushes_def)
next
  case (Suc n)
  have "(KERNEL_STACK_BASE_VPN H + n) * PAGESIZE H div PAGESIZE H = KERNEL_STACK_BASE_VPN H + n"
    using hw_okD(2) [OF Suc.prems] by simp
  with Suc show ?case by (auto simp: stack_flushes_Suc less_Suc_eq)
qed

lemma switch_coherent:
  assumes H: "hw_ok H" and mmu: "mmu_ok H s" and map: "stack_mapped H s pfns (KSTACK_NPG H) P"
    and coh: "coherent H s tlb" and t: "ptes t = P" "REG_PTBR0 t = REG_PTBR0 s"
  shows "coherent H t (foldr (flush_tlb H) (TLB_FLUSH_1 # stack_flushes H (KSTACK_NPG H)) tlb)"
  unfolding coherent_def
proof (intro allI impI)
  fix v e
  let ?tlb = "foldr (flush_tlb H) (stack_flushes H (KSTACK_NPG H)) tlb"
  assume "foldr (flush_tlb H) (TLB_FLUSH_1 # stack_flushes H (KSTACK_NPG H)) tlb v = Some e"
  then have v: "v < MAX_PT_LEN H" and "?tlb v = Some e" by (auto split: if_splits)
  then have ns: "\<forall>i < KSTACK_NPG H. v \<noteq> KERNEL_STACK_BASE_VPN H + i" and "tlb v = Some e"
    using flush_stack_pages [OF H, of "KSTACK_NPG H" tlb v] by (auto split: if_splits)
  with coh have "walk H s v = Some e" by (simp add: coherent_def)
  moreover have "pte_of_vpn H s v \<noteq> pte_of_vpn H s (KERNEL_STACK_BASE_VPN H + i)" if "i < KSTACK_NPG H" for i
    using pte_of_vpn_inj [OF H mmu, of v "KERNEL_STACK_BASE_VPN H + i"] ns that v
      kstack_vpn_bound [OF H that] by auto
  then have "P (pte_of_vpn H s v) = ptes s (pte_of_vpn H s v)"
    using map by (auto simp: stack_mapped_def)
  ultimately show "walk H t v = Some e" using t v by (simp add: walk_def pte_of_vpn_def)
qed

end
