(* ===== verification/Scheduler_Props.thy ===== *)
theory Scheduler_Props
  imports Context_Switch
begin

text \<open>
  Properties of the scheduler. \<open>places\<close> lists every process the scheduler knows: the running one,
  the ready queue, the blocked and the sleeping map, the terminal queues and the transmitting
  processes. The invariant \<open>sched_ok\<close> says that the structures are well formed, that no process is
  in two places, and that every process can be switched to. Each operation is shown to move exactly
  the process it should and to preserve the invariant.
\<close>

lemma filter_mset_absent: "x \<notin># M \<Longrightarrow> {#y \<in># M. y \<noteq> x#} = M"
  by (induction M) auto

lemma mset_distinct_member:
  "distinct xs \<Longrightarrow> x \<in> set xs \<Longrightarrow> mset xs = add_mset x (mset (filter (\<lambda>p. p \<noteq> x) xs))"
  by (induction xs) (auto simp: filter_mset_absent)

section \<open>Where the processes are\<close>

definition qitems :: "'a queue \<Rightarrow> 'a list" where
  "qitems q = (case q of None \<Rightarrow> [] | Some xs \<Rightarrow> xs)"

definition hm_procs :: "ptr HashMap option \<Rightarrow> ptr list" where
  "hm_procs m = (case m of None \<Rightarrow> [] | Some hm \<Rightarrow> map snd (hm_items hm))"

definition slot_procs :: "ptr option \<Rightarrow> ptr list" where
  "slot_procs t = (case t of None \<Rightarrow> [] | Some p \<Rightarrow> [p])"

definition transmitters :: "kstate \<Rightarrow> ptr list" where
  "transmitters s = concat (map slot_procs (currTransmitters s))"

definition others :: "kstate \<Rightarrow> ptr list" where
  "others s = qitems (readyQ s) @ hm_procs (blockedMap s) @ hm_procs (sleepingMap s) @
     concat (map qitems (transmittingQs s)) @ concat (map qitems (readingQs s))"

text \<open>
  A process woken by the end of its transmission stays in \<^verbatim>\<open>currTransmitters\<close> while it runs, so
  that slot is not counted twice.
\<close>

definition places :: "kstate \<Rightarrow> ptr list" where
  "places s = currPCB s # others s @ filter (\<lambda>p. p \<noteq> currPCB s) (transmitters s)"

text \<open>All processes once the running one has been put somewhere and before the next one runs.\<close>

definition vacated :: "kstate \<Rightarrow> ptr list" where
  "vacated s = others s @ transmitters s"

definition pid_of :: "kstate \<Rightarrow> ptr \<Rightarrow> int" where
  "pid_of s p = (case pcbs s p of None \<Rightarrow> -1 | Some c \<Rightarrow> pid c)"

definition map_ok :: "kstate \<Rightarrow> ptr HashMap option \<Rightarrow> bool" where
  "map_ok s m \<longleftrightarrow> (\<exists>hm. m = Some hm \<and> hm_ok hm \<and> (\<forall>k p. hm_map hm k = Some p \<longrightarrow> pid_of s p = k))"

definition tty_ok :: "hw \<Rightarrow> kstate \<Rightarrow> bool" where
  "tty_ok H s \<longleftrightarrow> length (currTransmitters s) = NUM_TERMINALS H \<and>
     length (transmittingQs s) = NUM_TERMINALS H \<and> length (readingQs s) = NUM_TERMINALS H \<and>
     None \<notin> set (transmittingQs s) \<and> None \<notin> set (readingQs s)"

definition core :: "hw \<Rightarrow> kstate \<Rightarrow> ptr list \<Rightarrow> bool" where
  "core H s ps \<longleftrightarrow> mmu_ok H s \<and> stack_base_ok H s \<and> readyQ s \<noteq> None \<and>
     map_ok s (blockedMap s) \<and> map_ok s (sleepingMap s) \<and> tty_ok H s \<and>
     distinct ps \<and> (\<forall>p \<in> set ps. pcb_ok H s p) \<and> inj_on (pid_of s) (set ps)"

definition sched_ok :: "hw \<Rightarrow> kstate \<Rightarrow> bool" where
  "sched_ok H s \<longleftrightarrow> core H s (places s) \<and> (\<exists>pc. pcbs s (currPCB s) = Some pc \<and> kctxt pc \<noteq> None)"

lemma qitems_simps [simp]: "qitems None = []" "qitems (Some xs) = xs"
  by (simp_all add: qitems_def)

lemma core_mset: "mset ps = mset qs \<Longrightarrow> core H s ps = core H s qs"
proof -
  assume m: "mset ps = mset qs"
  then have "set ps = set qs" by (rule mset_eq_setD)
  moreover have "distinct ps = distinct qs" using m by (rule mset_eq_imp_distinct_iff)
  ultimately show ?thesis by (simp add: core_def)
qed

section \<open>Switching to the next ready process\<close>

text \<open>Saving contexts changes nothing the invariant looks at.\<close>

definition same_pcbs :: "(ptr \<Rightarrow> PCB_t option) \<Rightarrow> (ptr \<Rightarrow> PCB_t option) \<Rightarrow> bool" where
  "same_pcbs h h' \<longleftrightarrow> (\<forall>p. map_option (\<lambda>c. (pid c, stackPfns c, r1PageTable c)) (h' p) =
     map_option (\<lambda>c. (pid c, stackPfns c, r1PageTable c)) (h p))"

lemma same_pcbs_refl [simp]: "same_pcbs h h"
  by (simp add: same_pcbs_def)

lemma same_pcbs_upd:
  assumes "h p = Some c" "pid c' = pid c" "stackPfns c' = stackPfns c" "r1PageTable c' = r1PageTable c"
    "same_pcbs h0 h"
  shows "same_pcbs h0 (h(p \<mapsto> c'))"
  unfolding same_pcbs_def
proof
  fix q
  have "map_option (\<lambda>c. (pid c, stackPfns c, r1PageTable c)) (h q) =
      map_option (\<lambda>c. (pid c, stackPfns c, r1PageTable c)) (h0 q)"
    using assms(5) by (simp add: same_pcbs_def)
  then show "map_option (\<lambda>c. (pid c, stackPfns c, r1PageTable c)) ((h(p \<mapsto> c')) q) =
      map_option (\<lambda>c. (pid c, stackPfns c, r1PageTable c)) (h0 q)"
    using assms(1-4) by (cases "q = p") simp_all
qed

lemma same_pcbs_switched: "same_pcbs h (switched_pcbs k old n h)"
proof -
  have 1: "same_pcbs h (h(p := map_option f (h p)))"
    if "\<And>c. (pid (f c), stackPfns (f c), r1PageTable (f c)) = (pid c, stackPfns c, r1PageTable c)" for f p h
    using that by (cases "h p") (auto simp: same_pcbs_def)
  have 2: "same_pcbs h h1 \<Longrightarrow> same_pcbs h1 h2 \<Longrightarrow> same_pcbs h h2" for h h1 h2 by (simp add: same_pcbs_def)
  have "same_pcbs h (case old of None \<Rightarrow> h | Some c \<Rightarrow> h(c := map_option (\<lambda>pc. pc\<lparr>kctxt := Some k\<rparr>) (h c)))"
    by (cases old) (simp_all add: 1)
  then show ?thesis unfolding switched_pcbs_def Let_def by (rule 2) (rule 1, simp)
qed

lemma switched_pcbs_kctxt:
  "h n = Some pc \<Longrightarrow> \<exists>pc'. switched_pcbs k old n h n = Some pc' \<and> kctxt pc' \<noteq> None"
  by (cases "old = Some n"; cases old; cases "kctxt pc") (auto simp: switched_pcbs_def)

lemma same_pcbs_pid_of: "same_pcbs (pcbs s) (pcbs t) \<Longrightarrow> pid_of t p = pid_of s p"
  unfolding same_pcbs_def pid_of_def
  by (cases "pcbs s p"; cases "pcbs t p") (auto dest: spec [of _ p])

lemma pcb_ok_cong:
  assumes same: "same_pcbs (pcbs s) (pcbs t)" and dom: "dom (ptes t) = dom (ptes s)"
    and r0: "REG_PTBR0 t = REG_PTBR0 s"
  shows "pcb_ok H t p = pcb_ok H s p"
proof -
  have "map_option (\<lambda>c. (pid c, stackPfns c, r1PageTable c)) (pcbs t p) =
      map_option (\<lambda>c. (pid c, stackPfns c, r1PageTable c)) (pcbs s p)"
    using same by (simp add: same_pcbs_def)
  moreover have "has_table H t b = has_table H s b" for b
    using has_table_dom [of "ptes t" s t H b] dom by simp
  ultimately show ?thesis
    unfolding pcb_ok_def using r0 by (cases "pcbs s p"; cases "pcbs t p") auto
qed

lemma core_cong:
  assumes c: "core H s ps" and same: "same_pcbs (pcbs s) (pcbs t)" and dom: "dom (ptes t) = dom (ptes s)"
    and r0: "REG_PTBR0 t = REG_PTBR0 s"
    and mmu: "mmu_ok H t" and base: "stack_base_ok H t" and q: "readyQ t \<noteq> None"
    and bm: "map_ok s (blockedMap t)" and sm: "map_ok s (sleepingMap t)" and tty: "tty_ok H t"
    and ps: "distinct qs" "set qs \<subseteq> set ps"
  shows "core H t qs"
proof -
  have pid: "pid_of t = pid_of s" using same_pcbs_pid_of [OF same] by auto
  from bm sm have "map_ok t (blockedMap t)" "map_ok t (sleepingMap t)" by (auto simp: map_ok_def pid)
  moreover have "\<forall>p \<in> set qs. pcb_ok H t p"
    using c ps pcb_ok_cong [OF same dom r0] by (auto simp: core_def)
  moreover have "inj_on (pid_of t) (set qs)"
    using c ps by (auto simp: core_def pid intro: inj_on_subset)
  ultimately show ?thesis using assms by (simp add: core_def)
qed

definition switched_to :: "kcont \<Rightarrow> ptr option \<Rightarrow> ptr \<Rightarrow> kstate \<Rightarrow> kstate \<Rightarrow> bool" where
  "switched_to k old n s t \<longleftrightarrow> (\<exists>P b l m. t = s\<lparr>currPCB := n, pcbs := switched_pcbs k old n (pcbs s),
     ptes := P, REG_PTBR1 := b, tlb_log := l, malloc_count := m\<rparr>)"

lemma switch_to:
  assumes H: "hw_ok H" and core: "core H s ps" and mem: "mallocs_ok s" and n_in: "n \<in> set ps"
    and old: "\<And>c. old = Some c \<Longrightarrow> \<exists>pc. pcbs s c = Some pc \<and> kctxt pc \<noteq> None"
  shows "\<exists>t. (switchBetween H k old n s :: (rc, kstate) outcome) = Switch t \<and> switched_to k old n s t \<and>
           core H t ps \<and> (\<exists>pc. pcbs t n = Some pc \<and> kctxt pc \<noteq> None)"
proof -
  from core n_in have mmu: "mmu_ok H s" and base: "stack_base_ok H s" and n_ok: "pcb_ok H s n"
    by (auto simp: core_def)
  obtain P m pc b where
    run: "(switchBetween H k old n s :: (rc, kstate) outcome) =
           Switch (s\<lparr>currPCB := n, pcbs := switched_pcbs k old n (pcbs s), ptes := P, REG_PTBR1 := b,
                     tlb_log := TLB_FLUSH_1 # stack_flushes H (KSTACK_NPG H) @ tlb_log s, malloc_count := m\<rparr>)"
    and pc: "pcbs s n = Some pc" "r1PageTable pc = Some b" and P: "dom P = dom (ptes s)"
    using switchBetween_run [OF H mmu base mem n_ok, of old k] old by auto
  define t where "t = s\<lparr>currPCB := n, pcbs := switched_pcbs k old n (pcbs s), ptes := P,
     REG_PTBR1 := b, tlb_log := TLB_FLUSH_1 # stack_flushes H (KSTACK_NPG H) @ tlb_log s, malloc_count := m\<rparr>"
  have "mmu_ok H t"
    using switched_mmu_ok [OF mmu n_ok, of pc b P t] pc P by (simp add: t_def)
  then have "core H t ps"
    using core_cong [OF core, of t ps] core P same_pcbs_switched
    by (simp add: t_def core_def stack_base_ok_def tty_ok_def)
  moreover have "\<exists>pc'. pcbs t n = Some pc' \<and> kctxt pc' \<noteq> None"
    using switched_pcbs_kctxt [of "pcbs s" n pc k old] pc(1) by (simp add: t_def)
  moreover have "switched_to k old n s t" unfolding switched_to_def t_def by blast
  ultimately show ?thesis using run t_def by auto
qed

lemma core_readyQ: "core H s ps \<Longrightarrow> core H (s\<lparr>readyQ := Some q\<rparr>) ps"
  by (simp add: core_def mmu_ok_def has_table_def stack_base_ok_def tty_ok_def map_ok_def pcb_ok_def pid_of_def
      inj_on_def)

lemma switch_next:
  assumes H: "hw_ok H" and core: "core H s (vacated s)" and mem: "mallocs_ok s"
    and rq: "readyQ s = Some (n # q)"
    and old: "\<And>c. old = Some c \<Longrightarrow> \<exists>pc. pcbs s c = Some pc \<and> kctxt pc \<noteq> None"
  shows "\<exists>t. (switchBetween H k old n (s\<lparr>readyQ := Some q\<rparr>) :: (rc, kstate) outcome) = Switch t \<and>
           switched_to k old n (s\<lparr>readyQ := Some q\<rparr>) t \<and> sched_ok H t \<and> mset (places t) = mset (vacated s)"
proof -
  have n_in: "n \<in> set (vacated s)" using rq by (simp add: vacated_def others_def)
  from switch_to [OF H core_readyQ [OF core] _ n_in, of q old k] mem old obtain t where
    t: "(switchBetween H k old n (s\<lparr>readyQ := Some q\<rparr>) :: (rc, kstate) outcome) = Switch t"
      "switched_to k old n (s\<lparr>readyQ := Some q\<rparr>) t" "core H t (vacated s)"
      "\<exists>pc. pcbs t n = Some pc \<and> kctxt pc \<noteq> None" by (auto simp: mallocs_ok_def)
  have curr: "currPCB t = n" using t(2) by (auto simp: switched_to_def)
  have "mset (others t) + {#n#} = mset (others s)" "transmitters t = transmitters s"
    using t(2) rq by (auto simp: switched_to_def others_def transmitters_def)
  moreover have "n \<notin> set (transmitters s)" using core rq by (auto simp: core_def vacated_def others_def)
  then have "filter (\<lambda>p. p \<noteq> n) (transmitters s) = transmitters s" by (auto intro!: filter_True)
  ultimately have pl: "mset (places t) = mset (vacated s)"
    by (simp add: places_def vacated_def curr)
  then have "sched_ok H t" using core_mset [OF pl, of H t] t(3,4) curr by (simp add: sched_ok_def)
  with t(1,2) pl show ?thesis by blast
qed

lemma deq_switch_ok:
  assumes "hw_ok H" "core H s (vacated s)" "mallocs_ok s" "readyQ s = Some (n # q)"
    "pcbs s (currPCB s) = Some pc" "kctxt pc \<noteq> None"
  shows "\<exists>t. deq_switch H k s = Switch t \<and> switched_to k (Some (currPCB s)) n (s\<lparr>readyQ := Some q\<rparr>) t \<and>
           sched_ok H t \<and> mset (places t) = mset (vacated s)"
  using switch_next [OF assms(1-4), of "Some (currPCB s)" k] assms(4-6)
  by (auto simp: deq_switch_def bindk_def deq_ready_run getk_def)

lemma deq_switch_empty: "readyQ s = Some [] \<Longrightarrow> deq_switch H k s = Done ERROR s"
  by (simp add: deq_switch_def bindk_def deq_ready_run retk_def)

section \<open>Setting the running process aside\<close>

lemma park_core:
  assumes ok: "sched_ok H s" and same: "same_pcbs (pcbs s) (pcbs t)"
    and mmu: "ptes t = ptes s" "REG_PTBR0 t = REG_PTBR0 s" "REG_PTBR1 t = REG_PTBR1 s"
      "REG_PTLR0 t = REG_PTLR0 s" "REG_PTLR1 t = REG_PTLR1 s" "r0StackBasePtep t = r0StackBasePtep s"
    and q: "readyQ t \<noteq> None" and maps: "map_ok s (blockedMap t)" "map_ok s (sleepingMap t)"
    and tty: "tty_ok H t" and qs: "mset qs = mset (places s)"
  shows "core H t qs"
proof -
  have c: "core H s (places s)" using ok by (simp add: sched_ok_def)
  have "mmu_ok H t" "stack_base_ok H t"
    using c mmu by (simp_all add: core_def mmu_ok_def has_table_def stack_base_ok_def)
  then show ?thesis
    using core_cong [OF c same _ mmu(2) _ _ q maps tty, of qs] mmu(1) c
      mset_eq_setD [OF qs] mset_eq_imp_distinct_iff [OF qs] by (simp add: core_def)
qed

lemma hm_insertk_run:
  assumes "mallocs_ok s" "get (s\<lparr>malloc_count := Suc (malloc_count s)\<rparr>) = Some hm" "hm_ok hm" "0 \<le> k"
    "hm_map hm k = None"
  shows "\<exists>hm'. hm_insertk get put k x s = Done SUCCESS (put (Some hm') (s\<lparr>malloc_count := Suc (malloc_count s)\<rparr>)) \<and>
           hm_ok hm' \<and> hm_map hm' = (hm_map hm)(k \<mapsto> x) \<and>
           mset (hm_procs (Some hm')) = add_mset x (mset (hm_procs (Some hm)))"
proof -
  from HashMap_insert_new [OF assms(3-5), of x] obtain hm' where hm':
    "HashMap_insert True (Some hm) k (Some x) = Inr (SUCCESS, Some hm')" "hm_ok hm'"
    "hm_map hm' = (hm_map hm)(k \<mapsto> x)" "mset (hm_items hm') = add_mset (k, x) (mset (hm_items hm))" by auto
  have "mset (hm_procs (Some hm')) = add_mset x (mset (hm_procs (Some hm)))"
    using hm'(4) by (simp add: hm_procs_def mset_map)
  with hm' assms(1,2) show ?thesis
    by (auto simp: hm_insertk_def malloc_okk_run bindk_def getk_def liftk_def retk_def modk_def mallocs_ok_def)
qed

lemma hm_removek_run:
  assumes "get s = Some hm" "hm_ok hm" "0 \<le> k"
  shows "\<exists>hm'. hm_removek get put k s = Done (hm_map hm k) (put (Some hm') s) \<and>
           hm_ok hm' \<and> hm_map hm' = (hm_map hm)(k := None) \<and>
           mset (hm_procs (Some hm)) =
             mset (hm_procs (Some hm')) + (case hm_map hm k of None \<Rightarrow> {#} | Some x \<Rightarrow> {#x#})"
proof -
  from HashMap_remove_ok [OF assms(2,3)] obtain hm' where hm':
    "HashMap_remove (Some hm) k = Inr (hm_map hm k, Some hm')" "hm_ok hm'" "hm_map hm' = (hm_map hm)(k := None)"
    "mset (hm_items hm) = mset (hm_items hm') + (case hm_map hm k of None \<Rightarrow> {#} | Some x \<Rightarrow> {#(k, x)#})" by auto
  have "mset (hm_procs (Some hm)) =
      mset (hm_procs (Some hm')) + (case hm_map hm k of None \<Rightarrow> {#} | Some x \<Rightarrow> {#x#})"
    using hm'(4) by (simp add: hm_procs_def mset_map split: option.splits)
  with hm' assms(1) show ?thesis
    by (auto simp: hm_removek_def bindk_def getk_def liftk_def retk_def modk_def)
qed

lemma hm_procs_iff: "hm_ok hm \<Longrightarrow> x \<in> set (hm_procs (Some hm)) \<longleftrightarrow> (\<exists>k. hm_map hm k = Some x)"
  using hm_items_iff [of hm] by (force simp: hm_procs_def)

text \<open>What the invariant says of the running process.\<close>

lemma sched_okE:
  assumes "sched_ok H s"
  obtains pc bm sm rq where "pcbs s (currPCB s) = Some pc" "kctxt pc \<noteq> None" "0 \<le> pid pc"
    "pid_of s (currPCB s) = pid pc" "blockedMap s = Some bm" "hm_ok bm" "hm_map bm (pid pc) = None"
    "sleepingMap s = Some sm" "hm_ok sm" "hm_map sm (pid pc) = None" "readyQ s = Some rq"
    "currPCB s \<notin> set rq"
proof -
  from assms obtain pc where pc: "pcbs s (currPCB s) = Some pc" "kctxt pc \<noteq> None"
    and c: "core H s (places s)" by (auto simp: sched_ok_def)
  from c obtain bm sm rq where m: "blockedMap s = Some bm" "hm_ok bm" "sleepingMap s = Some sm" "hm_ok sm"
      "readyQ s = Some rq"
    and bk: "\<And>k p. hm_map bm k = Some p \<Longrightarrow> pid_of s p = k"
    and sk: "\<And>k p. hm_map sm k = Some p \<Longrightarrow> pid_of s p = k" by (auto simp: core_def map_ok_def)
  have pos: "0 \<le> pid pc" using c pc by (auto simp: core_def places_def pcb_ok_def)
  have pid: "pid_of s (currPCB s) = pid pc" using pc by (simp add: pid_of_def)
  have inj: "inj_on (pid_of s) (set (places s))" and dist: "distinct (places s)" using c by (auto simp: core_def)
  have sub: "set (hm_procs (Some bm)) \<union> set (hm_procs (Some sm)) \<subseteq> set (places s)"
      "currPCB s \<in> set (places s)"
    using m by (auto simp: places_def others_def)
  have out: "currPCB s \<notin> set (hm_procs (Some bm)) \<union> set (hm_procs (Some sm))" "currPCB s \<notin> set rq"
    using dist m by (auto simp: places_def others_def)
  have "hm_map bm (pid pc) = None"
  proof (rule ccontr)
    assume "hm_map bm (pid pc) \<noteq> None"
    then obtain p where p: "hm_map bm (pid pc) = Some p" by auto
    then have "p \<in> set (hm_procs (Some bm))" "pid_of s p = pid pc" using m bk by (auto simp: hm_procs_iff)
    then show False using inj_onD [OF inj, of p "currPCB s"] sub out pid by auto
  qed
  moreover have "hm_map sm (pid pc) = None"
  proof (rule ccontr)
    assume "hm_map sm (pid pc) \<noteq> None"
    then obtain p where p: "hm_map sm (pid pc) = Some p" by auto
    then have "p \<in> set (hm_procs (Some sm))" "pid_of s p = pid pc" using m sk by (auto simp: hm_procs_iff)
    then show False using inj_onD [OF inj, of p "currPCB s"] sub out pid by auto
  qed
  ultimately show thesis using that pc pos pid m out(2) by blast
qed

lemma places_idle_tx: "currPCB s \<notin> set (transmitters s) \<Longrightarrow> places s = currPCB s # vacated s"
  by (auto simp: places_def vacated_def intro!: filter_True)

lemma map_ok_insert:
  "map_ok s (Some hm) \<Longrightarrow> hm_ok hm' \<Longrightarrow> hm_map hm' = (hm_map hm)(k \<mapsto> p) \<Longrightarrow> pid_of s p = k \<Longrightarrow>
     map_ok s (Some hm')"
  by (auto simp: map_ok_def)

lemma map_ok_remove:
  "map_ok s (Some hm) \<Longrightarrow> hm_ok hm' \<Longrightarrow> hm_map hm' = (hm_map hm)(k := None) \<Longrightarrow> map_ok s (Some hm')"
  by (auto simp: map_ok_def split: if_splits)

section \<open>Blocking and unblocking\<close>

lemma switched_pcbs_old:
  "h c = Some pc \<Longrightarrow> \<exists>pc'. switched_pcbs k (Some c) n h c = Some pc' \<and> kctxt pc' = Some k"
  by (auto simp: switched_pcbs_def)

text \<open>A process control block may change in fields the scheduler does not look at.\<close>

lemma sched_ok_pcb_upd:
  assumes ok: "sched_ok H s" and c: "pcbs s x = Some c"
    and same: "pid c' = pid c" "stackPfns c' = stackPfns c" "r1PageTable c' = r1PageTable c" "kctxt c' = kctxt c"
  shows "sched_ok H (s\<lparr>pcbs := (pcbs s)(x \<mapsto> c')\<rparr>)" "places (s\<lparr>pcbs := (pcbs s)(x \<mapsto> c')\<rparr>) = places s"
proof -
  let ?t = "s\<lparr>pcbs := (pcbs s)(x \<mapsto> c')\<rparr>"
  show pl: "places ?t = places s" by (simp add: places_def others_def transmitters_def)
  have eq: "same_pcbs (pcbs s) (pcbs ?t)"
    using same_pcbs_upd [of "pcbs s" x c c' "pcbs s"] c same by simp
  have "core H ?t (places ?t)"
    using park_core [OF ok eq, of "places ?t"] ok pl by (simp add: sched_ok_def core_def tty_ok_def)
  then show "sched_ok H ?t" using ok c same by (auto simp: sched_ok_def)
qed

text \<open>What the scheduler leaves alone.\<close>

definition sync_same :: "kstate \<Rightarrow> kstate \<Rightarrow> bool" where
  "sync_same s t \<longleftrightarrow> lockMap t = lockMap s \<and> cvarMap t = cvarMap s \<and> pipeMap t = pipeMap s \<and>
     locks t = locks s \<and> cvars t = cvars s \<and> pipes t = pipes s \<and> nextSyncId t = nextSyncId s \<and>
     ttyBufs t = ttyBufs s \<and> pmem t = pmem s \<and> frameList t = frameList s \<and> trapFrame t = trapFrame s \<and>
     malloc_oracle t = malloc_oracle s"

lemma sync_same_mallocs: "sync_same s t \<Longrightarrow> mallocs_ok t = mallocs_ok s"
  by (simp add: sync_same_def mallocs_ok_def)

text \<open>The invariant only looks at the scheduler's own variables and the page tables.\<close>

lemma sched_ok_cong:
  assumes "pcbs t = pcbs s" "currPCB t = currPCB s" "readyQ t = readyQ s" "blockedMap t = blockedMap s"
    "sleepingMap t = sleepingMap s" "currTransmitters t = currTransmitters s"
    "transmittingQs t = transmittingQs s" "readingQs t = readingQs s" "ptes t = ptes s"
    "REG_PTBR0 t = REG_PTBR0 s" "REG_PTBR1 t = REG_PTBR1 s" "REG_PTLR0 t = REG_PTLR0 s"
    "REG_PTLR1 t = REG_PTLR1 s" "r0StackBasePtep t = r0StackBasePtep s"
  shows "sched_ok H t = sched_ok H s" "places t = places s"
proof -
  show pl: "places t = places s" using assms by (simp add: places_def others_def transmitters_def)
  have "pcb_ok H t p = pcb_ok H s p" for p using assms by (simp add: pcb_ok_def has_table_def)
  moreover have "pid_of t = pid_of s" using assms by (simp add: pid_of_def fun_eq_iff)
  moreover have "mmu_ok H t = mmu_ok H s" "stack_base_ok H t = stack_base_ok H s" "tty_ok H t = tty_ok H s"
    using assms by (simp_all add: mmu_ok_def has_table_def stack_base_ok_def tty_ok_def)
  ultimately show "sched_ok H t = sched_ok H s"
    using assms pl by (simp add: sched_ok_def core_def map_ok_def)
qed

text \<open>Blocking never returns to its caller with success.\<close>

lemma switchBetween_never_returns: "switchBetween H k old n s \<noteq> Done r t"
  by (auto simp: switchBetween_def run_iffs switchk_def)

lemma blockProcess_returns: "blockProcess H k s = Done r t \<Longrightarrow> r = ERROR"
  by (auto simp: blockProcess_def deq_switch_def run_iffs retk_def switchBetween_never_returns
      split: if_splits option.splits)

lemma blockProcess_run:
  assumes H: "hw_ok H" and ok: "sched_ok H s" and mem: "mallocs_ok s"
    and tx: "currPCB s \<notin> set (transmitters s)" and rq: "readyQ s = Some (n # q)"
  shows "\<exists>t hm hm'. blockProcess H k s = Switch t \<and> sched_ok H t \<and> mset (places t) = mset (places s) \<and>
           currPCB t = n \<and> readyQ t = Some q \<and> blockedMap s = Some hm \<and> blockedMap t = Some hm' \<and>
           hm_map hm' = (hm_map hm)(pid_of s (currPCB s) \<mapsto> currPCB s) \<and> sleepingMap t = sleepingMap s \<and>
           sync_same s t"
  using ok
proof (rule sched_okE)
  fix pc bm
  assume pc: "pcbs s (currPCB s) = Some pc" "kctxt pc \<noteq> None" "0 \<le> pid pc" "pid_of s (currPCB s) = pid pc"
    and bm: "blockedMap s = Some bm" "hm_ok bm" "hm_map bm (pid pc) = None"
  let ?s0 = "s\<lparr>malloc_count := Suc (malloc_count s)\<rparr>"
  from hm_insertk_run [of s blockedMap bm "pid pc" set_blockedMap "currPCB s"] mem bm pc obtain bm' where
    ins: "hm_insertk blockedMap set_blockedMap (pid pc) (currPCB s) s = Done SUCCESS (?s0\<lparr>blockedMap := Some bm'\<rparr>)"
    and bm': "hm_ok bm'" "hm_map bm' = (hm_map bm)(pid pc \<mapsto> currPCB s)"
      "mset (hm_procs (Some bm')) = add_mset (currPCB s) (mset (hm_procs (Some bm)))"
    by (auto simp: set_blockedMap_def)
  let ?s1 = "?s0\<lparr>blockedMap := Some bm'\<rparr>"
  have vac: "mset (vacated ?s1) = mset (places s)"
    using bm bm'(3) by (simp add: places_idle_tx [OF tx]) (simp add: vacated_def others_def transmitters_def)
  have c: "core H s (places s)" using ok by (simp add: sched_ok_def)
  have "map_ok s (Some bm')"
    using map_ok_insert [of s bm bm'] bm' bm c pc(4) by (simp add: core_def)
  then have "core H ?s1 (vacated ?s1)"
    using park_core [OF ok, of ?s1 "vacated ?s1"] c rq vac by (simp add: core_def tty_ok_def)
  from deq_switch_ok [OF H this, of n q pc k] mem rq pc obtain t where
    t: "deq_switch H k ?s1 = Switch t" "switched_to k (Some (currPCB s)) n (?s1\<lparr>readyQ := Some q\<rparr>) t" "sched_ok H t"
      "mset (places t) = mset (vacated ?s1)" by (auto simp: mallocs_ok_def)
  have "blockProcess H k s = Switch t"
    using pc ins t(1) by (simp add: blockProcess_def bindk_def getk_def get_pcb_run)
  with t bm bm' vac pc(4) show ?thesis by (auto simp: switched_to_def sync_same_def)
qed

text \<open>The common ending: the running process has been stored in \<open>s1\<close> and the next one is taken.\<close>

lemma park_switch:
  assumes H: "hw_ok H" and ok: "sched_ok H s" and same: "same_pcbs (pcbs s) (pcbs s1)"
    and mmu: "ptes s1 = ptes s" "REG_PTBR0 s1 = REG_PTBR0 s" "REG_PTBR1 s1 = REG_PTBR1 s"
      "REG_PTLR0 s1 = REG_PTLR0 s" "REG_PTLR1 s1 = REG_PTLR1 s" "r0StackBasePtep s1 = r0StackBasePtep s"
    and maps: "map_ok s (blockedMap s1)" "map_ok s (sleepingMap s1)"
    and tty: "tty_ok H s1" and vac: "mset (vacated s1) = mset (places s)"
    and mem: "mallocs_ok s1" and rq: "readyQ s1 = Some (n # q)"
    and pc: "pcbs s1 (currPCB s1) = Some pc" "kctxt pc \<noteq> None"
  shows "\<exists>t. deq_switch H k s1 = Switch t \<and> switched_to k (Some (currPCB s1)) n (s1\<lparr>readyQ := Some q\<rparr>) t \<and> sched_ok H t \<and>
           mset (places t) = mset (places s)"
  using deq_switch_ok [OF H park_core [OF ok same mmu _ maps tty vac] mem rq pc, of k] rq vac by auto

lemma sleepProcess_run:
  assumes H: "hw_ok H" and ok: "sched_ok H s" and mem: "mallocs_ok s" and ticks: "0 < ticks"
    and tx: "currPCB s \<notin> set (transmitters s)" and rq: "readyQ s = Some (n # q)"
  shows "\<exists>t hm hm' pc. sleepProcess H k ticks s = Switch t \<and> sched_ok H t \<and> mset (places t) = mset (places s) \<and>
           currPCB t = n \<and> readyQ t = Some q \<and> sleepingMap s = Some hm \<and> sleepingMap t = Some hm' \<and>
           hm_map hm' = (hm_map hm)(pid_of s (currPCB s) \<mapsto> currPCB s) \<and> blockedMap t = blockedMap s \<and>
           pcbs t (currPCB s) = Some pc \<and> numRemainingDelayTicks pc = ticks"
  using ok
proof (rule sched_okE)
  fix pc sm rq'
  assume pc: "pcbs s (currPCB s) = Some pc" "kctxt pc \<noteq> None" "0 \<le> pid pc" "pid_of s (currPCB s) = pid pc"
    and sm: "sleepingMap s = Some sm" "hm_ok sm" "hm_map sm (pid pc) = None"
    and rq': "readyQ s = Some rq'" "currPCB s \<notin> set rq'"
  let ?pc = "pc\<lparr>numRemainingDelayTicks := ticks\<rparr>"
  let ?s0 = "s\<lparr>pcbs := (pcbs s)(currPCB s \<mapsto> ?pc)\<rparr>"
  from hm_insertk_run [of ?s0 sleepingMap sm "pid pc" set_sleepingMap "currPCB s"] mem sm pc obtain sm' where
    ins: "hm_insertk sleepingMap set_sleepingMap (pid pc) (currPCB s) ?s0 =
        Done SUCCESS (?s0\<lparr>malloc_count := Suc (malloc_count s), sleepingMap := Some sm'\<rparr>)"
    and sm': "hm_ok sm'" "hm_map sm' = (hm_map sm)(pid pc \<mapsto> currPCB s)"
      "mset (hm_procs (Some sm')) = add_mset (currPCB s) (mset (hm_procs (Some sm)))"
    by (auto simp: set_sleepingMap_def mallocs_ok_def)
  define s1 where "s1 = ?s0\<lparr>malloc_count := Suc (malloc_count s), sleepingMap := Some sm'\<rparr>"
  have vac: "mset (vacated s1) = mset (places s)"
    using sm sm'(3) by (simp add: places_idle_tx [OF tx]) (simp add: s1_def vacated_def others_def transmitters_def)
  have c: "core H s (places s)" using ok by (simp add: sched_ok_def)
  have "map_ok s (Some sm')"
    using map_ok_insert [of s sm sm'] sm' sm c pc(4) by (simp add: core_def)
  moreover have "same_pcbs (pcbs s) (pcbs s1)" using same_pcbs_upd [of "pcbs s" "currPCB s" pc ?pc "pcbs s"] pc(1) by (simp add: s1_def)
  ultimately obtain t where t: "deq_switch H k s1 = Switch t" "switched_to k (Some (currPCB s)) n (s1\<lparr>readyQ := Some q\<rparr>) t"
      "sched_ok H t" "mset (places t) = mset (places s)"
    using park_switch [OF H ok, of s1 n q ?pc k] c rq vac mem pc
    by (auto simp: core_def tty_ok_def mallocs_ok_def s1_def)
  have "n \<noteq> currPCB s" using rq' rq by auto
  then have "\<exists>pc. pcbs t (currPCB s) = Some pc \<and> numRemainingDelayTicks pc = ticks"
    using t(2) by (auto simp: switched_to_def switched_pcbs_def Let_def s1_def)
  moreover have "sleepProcess H k ticks s = Switch t"
    using pc ins t(1) ticks by (simp add: sleepProcess_def bindk_def getk_def get_pcb_run upd_pcb_run s1_def)
  moreover from t sm' sm pc(4) have "currPCB t = n \<and> readyQ t = Some q \<and> sleepingMap t = Some sm' \<and>
      hm_map sm' = (hm_map sm)(pid_of s (currPCB s) \<mapsto> currPCB s) \<and> blockedMap t = blockedMap s"
    by (auto simp: switched_to_def s1_def)
  ultimately show ?thesis using t(3,4) sm(1) by blast
qed

lemma kickProcess_run:
  assumes H: "hw_ok H" and ok: "sched_ok H s" and mem: "mallocs_ok s"
    and tx: "currPCB s \<notin> set (transmitters s)" and rq: "readyQ s = Some (n # q)"
  shows "\<exists>t. kickProcess H k s = Switch t \<and> sched_ok H t \<and> mset (places t) = mset (places s) \<and>
           currPCB t = n \<and> readyQ t = Some (q @ [currPCB s]) \<and> blockedMap t = blockedMap s \<and>
           sleepingMap t = sleepingMap s \<and> currTransmitters t = currTransmitters s \<and> sync_same s t"
  using ok
proof (rule sched_okE)
  fix pc
  assume pc: "pcbs s (currPCB s) = Some pc" "kctxt pc \<noteq> None" "0 \<le> pid pc" "pid_of s (currPCB s) = pid pc"
  have mem0: "\<exists>a. malloc_oracle s (malloc_count s) = Some a" using mem by (auto simp: mallocs_ok_def)
  define s1 where "s1 = s\<lparr>malloc_count := Suc (malloc_count s), readyQ := Some (n # q @ [currPCB s])\<rparr>"
  have e: "enq_ready (currPCB s) s = Done SUCCESS s1"
    using mem0 rq by (auto simp: enq_ready_run s1_def)
  have vac: "mset (vacated s1) = mset (places s)"
    using rq by (simp add: places_idle_tx [OF tx]) (simp add: s1_def vacated_def others_def transmitters_def)
  have c: "core H s (places s)" using ok by (simp add: sched_ok_def)
  then obtain t where t: "deq_switch H k s1 = Switch t" "switched_to k (Some (currPCB s)) n (s1\<lparr>readyQ := Some (q @ [currPCB s])\<rparr>) t"
      "sched_ok H t" "mset (places t) = mset (places s)"
    using park_switch [OF H ok, of s1 n "q @ [currPCB s]" pc k] vac mem pc
    by (auto simp: core_def tty_ok_def mallocs_ok_def s1_def)
  have "kickProcess H k s = Switch t"
    using e t(1) rq by (simp add: kickProcess_def bindk_def getk_def)
  with t show ?thesis by (auto simp: switched_to_def s1_def sync_same_def)
qed

lemma kickProcess_alone: "readyQ s = Some [] \<Longrightarrow> kickProcess H k s = Done SUCCESS s"
  by (simp add: kickProcess_def bindk_def getk_def retk_def)

lemma unblockProcess_run:
  assumes ok: "sched_ok H s" and mem: "mallocs_ok s" and bm: "blockedMap s = Some bm" and p: "0 \<le> p"
    and b: "hm_map bm p = Some x"
  shows "\<exists>t bm'. unblockProcess p s = Done SUCCESS t \<and> sched_ok H t \<and> mset (places t) = mset (places s) \<and>
           readyQ t = Some (qitems (readyQ s) @ [x]) \<and> blockedMap t = Some bm' \<and>
           hm_map bm' = (hm_map bm)(p := None) \<and> currPCB t = currPCB s \<and> pcbs t = pcbs s \<and> sync_same s t"
proof -
  from ok obtain pc rq where c: "core H s (places s)" and pc: "pcbs s (currPCB s) = Some pc" "kctxt pc \<noteq> None"
    and rq: "readyQ s = Some rq" by (auto simp: sched_ok_def core_def)
  have okb: "hm_ok bm" using c bm by (auto simp: core_def map_ok_def)
  from hm_removek_run [of blockedMap s bm p set_blockedMap, OF bm okb p] b obtain bm' where
    rem: "hm_removek blockedMap set_blockedMap p s = Done (Some x) (s\<lparr>blockedMap := Some bm'\<rparr>)"
    and bm': "hm_ok bm'" "hm_map bm' = (hm_map bm)(p := None)"
      "mset (hm_procs (Some bm)) = add_mset x (mset (hm_procs (Some bm')))" by (auto simp: set_blockedMap_def)
  have mem0: "\<exists>a. malloc_oracle s (malloc_count s) = Some a" using mem by (auto simp: mallocs_ok_def)
  define t where "t = s\<lparr>blockedMap := Some bm', malloc_count := Suc (malloc_count s), readyQ := Some (rq @ [x])\<rparr>"
  have "enq_ready x (s\<lparr>blockedMap := Some bm'\<rparr>) = Done SUCCESS t"
    using mem0 rq by (auto simp: enq_ready_run t_def)
  then have run: "unblockProcess p s = Done SUCCESS t"
    using rem bm by (simp add: unblockProcess_def bindk_def getk_def)
  have pl: "mset (places t) = mset (places s)"
    using bm bm'(3) rq by (simp add: t_def places_def others_def transmitters_def)
  have "map_ok s (Some bm')" using map_ok_remove [of s bm bm'] bm bm' c by (simp add: core_def)
  then have "core H t (places t)"
    using park_core [OF ok, of t "places t"] c pl by (simp add: t_def core_def tty_ok_def)
  then have "sched_ok H t" using pc by (simp add: sched_ok_def t_def)
  with run pl bm bm' rq show ?thesis by (auto simp: t_def sync_same_def)
qed

lemma unblockProcess_absent:
  assumes ok: "sched_ok H s" and bm: "blockedMap s = Some bm" and p: "0 \<le> p" and b: "hm_map bm p = None"
  shows "\<exists>t bm'. unblockProcess p s = Done SUCCESS t \<and> sched_ok H t \<and> mset (places t) = mset (places s) \<and>
           readyQ t = readyQ s \<and> currPCB t = currPCB s \<and> blockedMap t = Some bm' \<and> hm_map bm' = hm_map bm \<and>
           sync_same s t"
proof -
  from ok obtain pc where c: "core H s (places s)" and pc: "pcbs s (currPCB s) = Some pc" "kctxt pc \<noteq> None"
    by (auto simp: sched_ok_def core_def)
  have okb: "hm_ok bm" using c bm by (auto simp: core_def map_ok_def)
  from hm_removek_run [of blockedMap s bm p set_blockedMap, OF bm okb p] b obtain bm' where
    rem: "hm_removek blockedMap set_blockedMap p s = Done None (s\<lparr>blockedMap := Some bm'\<rparr>)"
    and bm': "hm_ok bm'" "hm_map bm' = (hm_map bm)(p := None)"
      "mset (hm_procs (Some bm)) = mset (hm_procs (Some bm'))" by (auto simp: set_blockedMap_def)
  let ?t = "s\<lparr>blockedMap := Some bm'\<rparr>"
  have run: "unblockProcess p s = Done SUCCESS ?t"
    using rem bm by (simp add: unblockProcess_def bindk_def getk_def retk_def)
  have pl: "mset (places ?t) = mset (places s)"
    using bm bm'(3) by (simp add: places_def others_def transmitters_def)
  have "map_ok s (Some bm')" using map_ok_remove [of s bm bm'] bm bm' c by (simp add: core_def)
  then have "core H ?t (places ?t)"
    using park_core [OF ok, of ?t "places ?t"] c pl by (simp add: core_def tty_ok_def)
  then have "sched_ok H ?t" using pc by (simp add: sched_ok_def)
  with run pl bm bm' b show ?thesis by (auto simp: fun_upd_idem sync_same_def)
qed

section \<open>Terminal queues\<close>

lemma mset_concat_update:
  assumes "i < length qs"
  shows "mset (concat (map f (qs[i := y]))) + mset (f (qs ! i)) = mset (concat (map f qs)) + mset (f y)"
proof -
  have "qs = take i qs @ qs ! i # drop (Suc i) qs" using assms by (rule id_take_nth_drop)
  from arg_cong [OF this, of "\<lambda>q. mset (concat (map f q))"] show ?thesis
    by (simp add: upd_conv_take_nth_drop [OF assms])
qed

lemma tty_ok_queue:
  assumes "tty_ok H s" "i < NUM_TERMINALS H"
  shows "\<exists>xs. transmittingQs s ! i = Some xs" "\<exists>xs. readingQs s ! i = Some xs"
  using assms by (auto simp: tty_ok_def) (metis nth_mem option.exhaust)+

lemma not_None_update: "None \<notin> set qs \<Longrightarrow> None \<notin> set (qs[i := Some x])"
  using set_update_subset_insert [of qs i "Some x"] by auto

lemma blockReader_run:
  assumes H: "hw_ok H" and ok: "sched_ok H s" and mem: "mallocs_ok s" and i: "i < NUM_TERMINALS H"
    and tx: "currPCB s \<notin> set (transmitters s)" and rq: "readyQ s = Some (n # q)"
  shows "\<exists>t. blockReader H k (int i) s = Switch t \<and> sched_ok H t \<and> mset (places t) = mset (places s) \<and>
           currPCB t = n \<and> readyQ t = Some q \<and>
           readingQs t = (readingQs s)[i := Some (qitems (readingQs s ! i) @ [currPCB s])]"
  using ok
proof (rule sched_okE)
  fix pc
  assume pc: "pcbs s (currPCB s) = Some pc" "kctxt pc \<noteq> None"
  have c: "core H s (places s)" using ok by (simp add: sched_ok_def)
  then have tty: "tty_ok H s" by (simp add: core_def)
  then obtain xs where xs: "readingQs s ! i = Some xs" using tty_ok_queue [OF _ i] by blast
  have len: "i < length (readingQs s)" using tty i by (simp add: tty_ok_def)
  have mem0: "\<exists>a. malloc_oracle s (malloc_count s) = Some a" using mem by (auto simp: mallocs_ok_def)
  define s1 where "s1 = s\<lparr>malloc_count := Suc (malloc_count s), readingQs := (readingQs s)[i := Some (xs @ [currPCB s])]\<rparr>"
  have e: "enq_tty readingQs set_readingQs (int i) (currPCB s) s = Done SUCCESS s1"
    using mem0 xs len
    by (auto simp: enq_tty_def bindk_def getk_def modk_def retk_def nthk_def malloc_okk_run set_readingQs_def s1_def)
  have vac: "mset (vacated s1) = mset (places s)"
    using mset_concat_update [OF len, of qitems "Some (xs @ [currPCB s])"] xs
    by (simp add: places_idle_tx [OF tx]) (simp add: s1_def vacated_def others_def transmitters_def)
  obtain t where t: "deq_switch H k s1 = Switch t" "switched_to k (Some (currPCB s)) n (s1\<lparr>readyQ := Some q\<rparr>) t"
      "sched_ok H t" "mset (places t) = mset (places s)"
    using park_switch [OF H ok, of s1 n q pc k] c vac mem pc rq not_None_update [of "readingQs s" i]
    by (auto simp: core_def tty_ok_def mallocs_ok_def s1_def)
  have "blockReader H k (int i) s = Switch t"
    using e t(1) by (simp add: blockReader_def bindk_def getk_def)
  with t xs show ?thesis by (auto simp: switched_to_def s1_def)
qed

lemma blockTransmitter_run:
  assumes H: "hw_ok H" and ok: "sched_ok H s" and mem: "mallocs_ok s" and i: "i < NUM_TERMINALS H"
    and tx: "currPCB s \<notin> set (transmitters s)" and rq: "readyQ s = Some (n # q)"
  shows "\<exists>t. blockTransmitter H k (int i) s = Switch t \<and> sched_ok H t \<and> mset (places t) = mset (places s) \<and>
           currPCB t = n \<and> readyQ t = Some q \<and>
           transmittingQs t = (transmittingQs s)[i := Some (qitems (transmittingQs s ! i) @ [currPCB s])]"
  using ok
proof (rule sched_okE)
  fix pc
  assume pc: "pcbs s (currPCB s) = Some pc" "kctxt pc \<noteq> None"
  have c: "core H s (places s)" using ok by (simp add: sched_ok_def)
  then have tty: "tty_ok H s" by (simp add: core_def)
  then obtain xs where xs: "transmittingQs s ! i = Some xs" using tty_ok_queue [OF _ i] by blast
  have len: "i < length (transmittingQs s)" using tty i by (simp add: tty_ok_def)
  have mem0: "\<exists>a. malloc_oracle s (malloc_count s) = Some a" using mem by (auto simp: mallocs_ok_def)
  define s1 where "s1 = s\<lparr>malloc_count := Suc (malloc_count s), transmittingQs := (transmittingQs s)[i := Some (xs @ [currPCB s])]\<rparr>"
  have e: "enq_tty transmittingQs set_transmittingQs (int i) (currPCB s) s = Done SUCCESS s1"
    using mem0 xs len
    by (auto simp: enq_tty_def bindk_def getk_def modk_def retk_def nthk_def malloc_okk_run set_transmittingQs_def s1_def)
  have vac: "mset (vacated s1) = mset (places s)"
    using mset_concat_update [OF len, of qitems "Some (xs @ [currPCB s])"] xs
    by (simp add: places_idle_tx [OF tx]) (simp add: s1_def vacated_def others_def transmitters_def)
  obtain t where t: "deq_switch H k s1 = Switch t" "switched_to k (Some (currPCB s)) n (s1\<lparr>readyQ := Some q\<rparr>) t"
      "sched_ok H t" "mset (places t) = mset (places s)"
    using park_switch [OF H ok, of s1 n q pc k] c vac mem pc rq not_None_update [of "transmittingQs s" i]
    by (auto simp: core_def tty_ok_def mallocs_ok_def s1_def)
  have "blockTransmitter H k (int i) s = Switch t"
    using e t(1) by (simp add: blockTransmitter_def bindk_def getk_def)
  with t xs show ?thesis by (auto simp: switched_to_def s1_def)
qed

text \<open>
  \<open>i\<close> is the terminal the running process transmits on; no other slot names that process. The slot is
  free when the process starts and already names it when it waits for its next batch.
\<close>

definition own_slot :: "kstate \<Rightarrow> nat \<Rightarrow> bool" where
  "own_slot s i \<longleftrightarrow> i < length (currTransmitters s) \<and> currTransmitters s ! i \<in> {None, Some (currPCB s)} \<and>
     currPCB s \<notin> set (concat (map slot_procs ((currTransmitters s)[i := None])))"

lemma own_slot_places:
  assumes "own_slot s i"
  shows "mset (places s) = add_mset (currPCB s) (mset (others s) +
           mset (concat (map slot_procs ((currTransmitters s)[i := None]))))"
proof -
  let ?r = "concat (map slot_procs ((currTransmitters s)[i := None]))"
  have "mset ?r + mset (slot_procs (currTransmitters s ! i)) = mset (transmitters s)"
    using assms mset_concat_update [of i "currTransmitters s" slot_procs None]
    by (simp add: own_slot_def transmitters_def slot_procs_def)
  from arg_cong [OF this, of "filter_mset (\<lambda>p. p \<noteq> currPCB s)"]
  have "mset (filter (\<lambda>p. p \<noteq> currPCB s) (transmitters s)) = filter_mset (\<lambda>p. p \<noteq> currPCB s) (mset ?r)"
    using assms by (cases "currTransmitters s ! i") (simp_all add: own_slot_def slot_procs_def)
  also have "\<dots> = mset ?r"
    using assms by (intro filter_mset_absent) (simp add: own_slot_def)
  finally show ?thesis by (simp add: places_def)
qed

lemma waitTransmitter_run:
  assumes H: "hw_ok H" and ok: "sched_ok H s" and mem: "mallocs_ok s"
    and own: "own_slot s i" and rq: "readyQ s = Some (n # q)"
  shows "\<exists>t. waitTransmitter H k (int i) s = Switch t \<and> sched_ok H t \<and> mset (places t) = mset (places s) \<and>
           currPCB t = n \<and> readyQ t = Some q \<and> currTransmitters t = (currTransmitters s)[i := Some (currPCB s)] \<and>
           pcbs t = switched_pcbs k (Some (currPCB s)) n (pcbs s) \<and> tty_out t = tty_out s"
  using ok
proof (rule sched_okE)
  fix pc
  assume pc: "pcbs s (currPCB s) = Some pc" "kctxt pc \<noteq> None"
  have c: "core H s (places s)" using ok by (simp add: sched_ok_def)
  have len: "i < length (currTransmitters s)" using own by (simp add: own_slot_def)
  define s1 where "s1 = s\<lparr>currTransmitters := (currTransmitters s)[i := Some (currPCB s)]\<rparr>"
  have e: "set_transmitter (int i) (Some (currPCB s)) s = Done () s1"
    using len by (simp add: set_transmitter_def bindk_def getk_def modk_def retk_def nthk_def s1_def)
  have "mset (transmitters s1) =
      add_mset (currPCB s) (mset (concat (map slot_procs ((currTransmitters s)[i := None]))))"
    using mset_concat_update [of i "(currTransmitters s)[i := None]" slot_procs "Some (currPCB s)"] len
    by (simp add: s1_def transmitters_def slot_procs_def)
  then have vac: "mset (vacated s1) = mset (places s)"
    by (simp add: own_slot_places [OF own] vacated_def) (simp add: s1_def others_def)
  obtain t where t: "deq_switch H k s1 = Switch t" "switched_to k (Some (currPCB s)) n (s1\<lparr>readyQ := Some q\<rparr>) t"
      "sched_ok H t" "mset (places t) = mset (places s)"
    using park_switch [OF H ok, of s1 n q pc k] c vac mem pc rq
    by (auto simp: core_def tty_ok_def mallocs_ok_def s1_def)
  have "waitTransmitter H k (int i) s = Switch t"
    using e t(1) by (simp add: waitTransmitter_def bindk_def getk_def)
  with t show ?thesis by (auto simp: switched_to_def s1_def)
qed

text \<open>The end-of-transmission interrupt runs the transmitting process at once.\<close>

lemma signalTransmitter_run:
  assumes H: "hw_ok H" and ok: "sched_ok H s" and mem: "mallocs_ok s"
    and tx: "currPCB s \<notin> set (transmitters s)" and i: "i < length (currTransmitters s)"
    and n: "currTransmitters s ! i = Some n" and rq: "readyQ s = Some q"
  shows "\<exists>t. signalTransmitter H k (int i) s = Switch t \<and> sched_ok H t \<and> mset (places t) = mset (places s) \<and>
           currPCB t = n \<and> readyQ t = Some (q @ [currPCB s]) \<and> currTransmitters t = currTransmitters s"
  using ok
proof (rule sched_okE)
  fix pc
  assume pc: "pcbs s (currPCB s) = Some pc" "kctxt pc \<noteq> None"
  have c: "core H s (places s)" using ok by (simp add: sched_ok_def)
  have mem0: "\<exists>a. malloc_oracle s (malloc_count s) = Some a" using mem by (auto simp: mallocs_ok_def)
  define s1 where "s1 = s\<lparr>malloc_count := Suc (malloc_count s), readyQ := Some (q @ [currPCB s])\<rparr>"
  have e: "enq_ready (currPCB s) s = Done SUCCESS s1" using mem0 rq by (auto simp: enq_ready_run s1_def)
  have n_tx: "n \<in> set (transmitters s)" using i n by (force simp: transmitters_def slot_procs_def in_set_conv_nth)
  have vac: "mset (vacated s1) = mset (places s)"
    using rq by (simp add: places_idle_tx [OF tx]) (simp add: s1_def vacated_def others_def transmitters_def)
  have core1: "core H s1 (vacated s1)"
    using park_core [OF ok, of s1 "vacated s1"] c vac by (simp add: core_def tty_ok_def s1_def)
  have "n \<in> set (vacated s1)" using n_tx by (simp add: s1_def vacated_def transmitters_def)
  with switch_to [OF H core1, of n "Some (currPCB s)" k] mem pc obtain t where
    t: "(switchBetween H k (Some (currPCB s)) n s1 :: (rc, kstate) outcome) = Switch t"
      "switched_to k (Some (currPCB s)) n s1 t" "core H t (vacated s1)" "\<exists>pc. pcbs t n = Some pc \<and> kctxt pc \<noteq> None"
    by (auto simp: mallocs_ok_def s1_def)
  have run: "signalTransmitter H k (int i) s = Switch t"
    using e t(1) i n by (simp add: signalTransmitter_def bindk_def getk_def nthk_def retk_def s1_def)
  have curr: "currPCB t = n" "others t = others s1" "transmitters t = transmitters s1"
    using t(2) by (auto simp: switched_to_def others_def transmitters_def)
  have "distinct (transmitters s1)" using core1 by (simp add: core_def vacated_def)
  moreover have "n \<in> set (transmitters s1)" using n_tx by (simp add: s1_def transmitters_def)
  ultimately have "mset (transmitters s1) = add_mset n (mset (filter (\<lambda>p. p \<noteq> n) (transmitters s1)))"
    by (rule mset_distinct_member)
  then have pl: "mset (places t) = mset (vacated s1)" by (simp add: places_def vacated_def curr)
  then have "sched_ok H t" using t(3,4) core_mset [OF pl, of H t] curr(1) by (simp add: sched_ok_def)
  moreover have "readyQ t = Some (q @ [currPCB s]) \<and> currTransmitters t = currTransmitters s"
    using t(2) by (auto simp: switched_to_def s1_def)
  ultimately show ?thesis using run pl vac curr(1) by simp
qed

lemma unblockReader_run:
  assumes ok: "sched_ok H s" and mem: "mallocs_ok s" and i: "i < NUM_TERMINALS H"
    and xs: "readingQs s ! i = Some (x # xs)"
  shows "\<exists>t. unblockReader (int i) s = Done SUCCESS t \<and> sched_ok H t \<and> mset (places t) = mset (places s) \<and>
           readyQ t = Some (qitems (readyQ s) @ [x]) \<and> readingQs t = (readingQs s)[i := Some xs] \<and>
           currPCB t = currPCB s"
proof -
  from ok obtain pc rq where c: "core H s (places s)" and pc: "pcbs s (currPCB s) = Some pc" "kctxt pc \<noteq> None"
    and rq: "readyQ s = Some rq" by (auto simp: sched_ok_def core_def)
  have len: "i < length (readingQs s)" using c i by (simp add: core_def tty_ok_def)
  have mem0: "\<exists>a. malloc_oracle s (malloc_count s) = Some a" using mem by (auto simp: mallocs_ok_def)
  define t where "t = s\<lparr>readingQs := (readingQs s)[i := Some xs], malloc_count := Suc (malloc_count s),
    readyQ := Some (rq @ [x])\<rparr>"
  have run: "unblockReader (int i) s = Done SUCCESS t"
    using mem0 rq len xs by (auto simp: unblockReader_def deq_tty_def ready_if_some_def enq_ready_run
        set_readingQs_def nthk_def kdefs t_def)
  have pl: "mset (places t) = mset (places s)"
    using mset_concat_update [OF len, of qitems "Some xs"] xs rq
    by (simp add: t_def places_def others_def transmitters_def)
  then have "core H t (places t)"
    using park_core [OF ok, of t "places t"] c not_None_update [of "readingQs s" i]
    by (simp add: t_def core_def tty_ok_def)
  then have "sched_ok H t" using pc by (simp add: sched_ok_def t_def)
  with run pl rq show ?thesis by (auto simp: t_def)
qed

lemma unblockTransmitter_run:
  assumes ok: "sched_ok H s" and mem: "mallocs_ok s" and i: "i < NUM_TERMINALS H"
    and own: "own_slot s i" and xs: "transmittingQs s ! i = Some xs"
  shows "\<exists>t. unblockTransmitter (int i) s = Done SUCCESS t \<and> sched_ok H t \<and> mset (places t) = mset (places s) \<and>
           readyQ t = Some (qitems (readyQ s) @ take 1 xs) \<and>
           transmittingQs t = (transmittingQs s)[i := Some (drop 1 xs)] \<and>
           currTransmitters t = (currTransmitters s)[i := None] \<and> currPCB t = currPCB s"
proof -
  from ok obtain pc rq where c: "core H s (places s)" and pc: "pcbs s (currPCB s) = Some pc" "kctxt pc \<noteq> None"
    and rq: "readyQ s = Some rq" by (auto simp: sched_ok_def core_def)
  have len: "i < length (transmittingQs s)" using c i by (simp add: core_def tty_ok_def)
  have mem0: "\<exists>a. malloc_oracle s (malloc_count s) = Some a" using mem by (auto simp: mallocs_ok_def)
  define m where "m = (if xs = [] then malloc_count s else Suc (malloc_count s))"
  define t where "t = s\<lparr>currTransmitters := (currTransmitters s)[i := None],
    transmittingQs := (transmittingQs s)[i := Some (drop 1 xs)], malloc_count := m,
    readyQ := Some (rq @ take 1 xs)\<rparr>"
  have run: "unblockTransmitter (int i) s = Done SUCCESS t"
    using mem0 rq len xs own by (cases xs) (auto simp: unblockTransmitter_def deq_tty_def ready_if_some_def
        enq_ready_run set_transmittingQs_def nthk_def kdefs set_transmitter_def own_slot_def t_def m_def)
  let ?r = "concat (map slot_procs ((currTransmitters s)[i := None]))"
  have flt: "filter (\<lambda>p. p \<noteq> currPCB s) ?r = ?r" using own by (auto simp: own_slot_def intro!: filter_True)
  have "mset (others t) = mset (others s)"
    using mset_concat_update [OF len, of qitems "Some (drop 1 xs)"] xs rq
    by (cases xs) (simp_all add: t_def others_def)
  moreover have "transmitters t = ?r" "currPCB t = currPCB s" by (simp_all add: t_def transmitters_def)
  ultimately have pl: "mset (places t) = mset (places s)"
    using flt by (simp add: own_slot_places [OF own]) (simp add: places_def)
  then have "core H t (places t)"
    using park_core [OF ok, of t "places t"] c not_None_update [of "transmittingQs s" i]
    by (simp add: t_def core_def tty_ok_def)
  then have "sched_ok H t" using pc by (simp add: sched_ok_def t_def)
  with run pl rq show ?thesis by (auto simp: t_def)
qed

end
