(* ===== verification/Sleepers.thy ===== *)
theory Sleepers
  imports Scheduler_Props
begin

text \<open>
  The clock's work on the sleeping processes: \<^verbatim>\<open>tickDownSleepers\<close> iterates over a hash map from
  which its item function removes, and wakes exactly the processes whose delay has run out.
\<close>

section \<open>Iterating while removing\<close>

lemma HashMap_remove_local:
  assumes "hm_ok h" "0 \<le> k" "HashMap_remove (Some h) k = Inr (r, h')"
  shows "local_at (Some h) h' (k mod hm_size h)"
  using assms(1,2)
proof (rule hm_slotE)
  fix i
  assume "slot h (k smod hm_size h) = Inr i" and i: "i = nat (k mod hm_size h)"
  then obtain st where "h' = Some (h\<lparr>sets := (sets h)[i := st]\<rparr>)"
    using assms(3) by (auto simp: HashMap_remove_def Let_def split: prod.splits)
  moreover have "0 \<le> k mod hm_size h" using assms(1) by (intro pos_mod_sign) (auto simp: hm_ok_def)
  then have "int i = k mod hm_size h" using i by simp
  ultimately show ?thesis by (auto simp: local_at_def nth_list_update)
qed

text \<open>When the item function always returns and only touches its own chain, the iteration is a loop
  over the pairs the table held at the start.\<close>

lemma HashMap_iterate_foldk:
  assumes "hm_ok hm" "get s = Some hm" "I s"
    and step: "\<And>k x s. (k, x) \<in> set (hm_items hm) \<Longrightarrow> I s \<Longrightarrow>
          \<exists>t. f k x s = Done () t \<and> I t \<and> local_at (get s) (get t) (k mod hm_size hm)"
  shows "HashMap_iterate get f s = foldk (\<lambda>n. f (fst n) (snd n)) (hm_items hm) s"
proof -
  define g where "g k x s = (case f k x s of Done u t \<Rightarrow> t | _ \<Rightarrow> s)" for k x s
  have g: "f k x s = Done () (g k x s) \<and> I (g k x s) \<and> local_at (get s) (get (g k x s)) (k mod hm_size hm)"
    if "(k, x) \<in> set (hm_items hm)" "I s" for k x s
    using step [OF that] by (auto simp: g_def)
  have "HashMap_iterate get f s = Done () (fold (\<lambda>n. g (fst n) (snd n)) (hm_items hm) s)"
    using assms(1-3) g by (rule HashMap_iterate_items)
  also have "\<dots> = foldk (\<lambda>n. f (fst n) (snd n)) (hm_items hm) s"
    by (rule foldk_Done [where I = I, symmetric]) (use g assms(3) in auto)
  finally show ?thesis .
qed

section \<open>One sleeper\<close>

definition expires :: "kstate \<Rightarrow> ptr \<Rightarrow> bool" where
  "expires s p = (case pcbs s p of None \<Rightarrow> False | Some c \<Rightarrow> numRemainingDelayTicks c \<le> 1)"

definition ticked :: "PCB_t \<Rightarrow> PCB_t" where
  "ticked c = c\<lparr>numRemainingDelayTicks := numRemainingDelayTicks c - 1\<rparr>"

lemma tick_returns:
  assumes "pcbs s x = Some pc" "pid pc = k" "0 \<le> k" "sleepingMap s = Some h" "hm_ok h"
  shows "\<exists>t h'. tickDownSleeper k x s = Done () t \<and> sleepingMap t = Some h' \<and> hm_ok h' \<and> hm_size h' = hm_size h \<and>
           local_at (Some h) (Some h') (k mod hm_size h) \<and> pcbs t = (pcbs s)(x \<mapsto> ticked pc)"
proof -
  let ?s = "s\<lparr>pcbs := (pcbs s)(x \<mapsto> ticked pc)\<rparr>"
  have u: "upd_pcb x (\<lambda>pc. pc\<lparr>numRemainingDelayTicks := numRemainingDelayTicks pc - 1\<rparr>) s = Done () ?s"
    using assms(1) by (simp add: upd_pcb_run ticked_def)
  have gp: "get_pcb x ?s = Done (ticked pc) ?s" by (simp add: get_pcb_run)
  from HashMap_remove_ok [OF assms(5,3)] obtain h' where h':
    "HashMap_remove (Some h) k = Inr (hm_map h k, Some h')" "hm_ok h'" "hm_size h' = hm_size h" by auto
  have loc: "local_at (Some h) (Some h') (k mod hm_size h)"
    using assms(5,3) h'(1) by (rule HashMap_remove_local)
  have rem: "hm_removek sleepingMap set_sleepingMap k ?s = Done (hm_map h k) (?s\<lparr>sleepingMap := Some h'\<rparr>)"
    using h'(1) assms(4) by (simp add: hm_removek_def kdefs set_sleepingMap_def)
  have refl: "local_at (Some h) (Some h) (k mod hm_size h)" by (auto simp: local_at_def)
  have pid: "pid (ticked pc) = k" using assms(2) by (simp add: ticked_def)
  show ?thesis
    using u gp rem h' loc refl assms(4,5) pid
    by (cases "numRemainingDelayTicks (ticked pc) \<le> 0"; cases "hm_map h k")
       (auto simp: tickDownSleeper_def bindk_def enq_ready_run Let_def retk_def modk_def)
qed

lemma sched_ok_ticked:
  assumes "sched_ok H s" "pcbs s x = Some pc"
  shows "sched_ok H (s\<lparr>pcbs := (pcbs s)(x \<mapsto> ticked pc)\<rparr>)"
    "places (s\<lparr>pcbs := (pcbs s)(x \<mapsto> ticked pc)\<rparr>) = places s"
  by (rule sched_ok_pcb_upd [OF assms]; simp add: ticked_def)+

text \<open>A sleeper in the map: either it is woken, or its delay gets shorter.\<close>

lemma tick_step:
  assumes ok: "sched_ok H s" and mem: "mallocs_ok s" and sm: "sleepingMap s = Some hm" and x: "hm_map hm k = Some x"
    and pc: "pcbs s x = Some pc"
  shows "\<exists>t hm'. tickDownSleeper k x s = Done () t \<and> sched_ok H t \<and> mallocs_ok t \<and>
           mset (places t) = mset (places s) \<and> sleepingMap t = Some hm' \<and>
           hm_map hm' = (if expires s x then (hm_map hm)(k := None) else hm_map hm) \<and>
           readyQ t = Some (qitems (readyQ s) @ (if expires s x then [x] else [])) \<and>
           pcbs t = (pcbs s)(x \<mapsto> ticked pc) \<and> errorCount t = errorCount s \<and> currPCB t = currPCB s"
proof -
  define s0 where "s0 = s\<lparr>pcbs := (pcbs s)(x \<mapsto> ticked pc)\<rparr>"
  have u: "upd_pcb x (\<lambda>pc. pc\<lparr>numRemainingDelayTicks := numRemainingDelayTicks pc - 1\<rparr>) s = Done () s0"
    using pc by (simp add: upd_pcb_run ticked_def s0_def)
  have gp: "get_pcb x s0 = Done (ticked pc) s0" by (simp add: get_pcb_run s0_def)
  note ok0 = sched_ok_ticked [OF ok pc, folded s0_def]
  from ok0(1) obtain pc0 rq where c: "core H s0 (places s0)" and pc0: "pcbs s0 (currPCB s0) = Some pc0" "kctxt pc0 \<noteq> None"
    and rq: "readyQ s0 = Some rq" by (auto simp: sched_ok_def core_def)
  have mem0: "\<exists>a. malloc_oracle s0 (malloc_count s0) = Some a" "mallocs_ok s0"
    using mem by (auto simp: mallocs_ok_def s0_def)
  have hm: "hm_ok hm" "pid_of s x = k" using ok sm x by (auto simp: sched_ok_def core_def map_ok_def)
  have pid: "pid (ticked pc) = k" using hm(2) pc by (simp add: pid_of_def ticked_def)
  have k: "0 \<le> k" using hm_map_neg [OF hm(1), of k] x by (cases "k < 0") auto
  show ?thesis
  proof (cases "expires s x")
    case False
    then have "tickDownSleeper k x s = Done () s0"
      using u gp pc by (simp add: tickDownSleeper_def bindk_def retk_def expires_def ticked_def)
    then show ?thesis using False ok0 mem0 sm rq by (auto simp: s0_def)
  next
    case True
    from hm_removek_run [of sleepingMap s0 hm k set_sleepingMap, OF _ hm(1) k] sm x obtain hm' where
      rem: "hm_removek sleepingMap set_sleepingMap k s0 = Done (Some x) (s0\<lparr>sleepingMap := Some hm'\<rparr>)"
      and hm': "hm_ok hm'" "hm_map hm' = (hm_map hm)(k := None)"
        "mset (hm_procs (Some hm)) = add_mset x (mset (hm_procs (Some hm')))"
      by (auto simp: set_sleepingMap_def s0_def)
    define t where "t = s0\<lparr>sleepingMap := Some hm', malloc_count := Suc (malloc_count s0), readyQ := Some (rq @ [x])\<rparr>"
    have "enq_ready x (s0\<lparr>sleepingMap := Some hm'\<rparr>) = Done SUCCESS t"
      using mem0 rq by (auto simp: enq_ready_run t_def)
    then have run: "tickDownSleeper k x s = Done () t"
      using u gp rem True pc pid by (simp add: tickDownSleeper_def bindk_def retk_def expires_def ticked_def)
    have pl: "mset (places t) = mset (places s0)"
      using sm hm'(3) rq by (simp add: t_def s0_def places_def others_def transmitters_def)
    have "map_ok s0 (Some hm')" using map_ok_remove [of s0 hm hm'] hm' c sm by (simp add: core_def s0_def)
    then have "core H t (places t)"
      using park_core [OF ok0(1), of t "places t"] c pl by (simp add: t_def core_def tty_ok_def)
    then have "sched_ok H t" using pc0 by (simp add: sched_ok_def t_def)
    then show ?thesis using run pl ok0(2) hm' True rq mem0 by (auto simp: t_def s0_def mallocs_ok_def)
  qed
qed

section \<open>All sleepers\<close>

lemma tick_loop:
  assumes "sched_ok H s" "mallocs_ok s" "sleepingMap s = Some hm" "distinct (map fst xs)" "distinct (map snd xs)"
    "\<And>k x. (k, x) \<in> set xs \<Longrightarrow> hm_map hm k = Some x \<and> pcbs s x \<noteq> None"
  shows "\<exists>t hm'. foldk (\<lambda>n. tickDownSleeper (fst n) (snd n)) xs s = Done () t \<and> sched_ok H t \<and>
           mset (places t) = mset (places s) \<and> sleepingMap t = Some hm' \<and>
           (\<forall>j. hm_map hm' j = (if \<exists>x. (j, x) \<in> set xs \<and> expires s x then None else hm_map hm j)) \<and>
           readyQ t = Some (qitems (readyQ s) @ map snd (filter (\<lambda>n. expires s (snd n)) xs)) \<and>
           pcbs t = (\<lambda>p. if p \<in> snd ` set xs then map_option ticked (pcbs s p) else pcbs s p) \<and>
           errorCount t = errorCount s \<and> currPCB t = currPCB s"
  using assms
proof (induction xs arbitrary: s hm)
  case Nil
  then obtain rq where "readyQ s = Some rq" by (auto simp: sched_ok_def core_def)
  with Nil show ?case by (simp add: retk_def)
next
  case (Cons n xs)
  obtain k x where n: "n = (k, x)" by (cases n)
  from Cons.prems(6) n obtain pc where x: "hm_map hm k = Some x" "pcbs s x = Some pc" by auto
  obtain s' hm' where s': "tickDownSleeper k x s = Done () s'" "sched_ok H s'" "mallocs_ok s'"
    "mset (places s') = mset (places s)" "sleepingMap s' = Some hm'"
    "hm_map hm' = (if expires s x then (hm_map hm)(k := None) else hm_map hm)"
    "readyQ s' = Some (qitems (readyQ s) @ (if expires s x then [x] else []))"
    "pcbs s' = (pcbs s)(x \<mapsto> ticked pc)" "errorCount s' = errorCount s" "currPCB s' = currPCB s"
    using tick_step [OF Cons.prems(1-3) x] by blast
  have kx: "k \<notin> fst ` set xs" "x \<notin> snd ` set xs" using Cons.prems(4,5) n by auto
  have ex: "expires s' (snd m) = expires s (snd m)" if "m \<in> set xs" for m
    using kx(2) that s'(8) by (auto simp: expires_def)
  have "hm_map hm' j = Some y \<and> pcbs s' y \<noteq> None" if "(j, y) \<in> set xs" for j y
    using Cons.prems(6) [of j y] that kx s'(6,8) by force
  then obtain t hm'' where t: "foldk (\<lambda>n. tickDownSleeper (fst n) (snd n)) xs s' = Done () t" "sched_ok H t"
    "mset (places t) = mset (places s')" "sleepingMap t = Some hm''"
    "\<And>j. hm_map hm'' j = (if \<exists>x. (j, x) \<in> set xs \<and> expires s' x then None else hm_map hm' j)"
    "readyQ t = Some (qitems (readyQ s') @ map snd (filter (\<lambda>n. expires s' (snd n)) xs))"
    "pcbs t = (\<lambda>p. if p \<in> snd ` set xs then map_option ticked (pcbs s' p) else pcbs s' p)"
    "errorCount t = errorCount s'" "currPCB t = currPCB s'"
    using Cons.IH [OF s'(2,3,5)] Cons.prems(4,5) by auto
  have "hm_map hm'' j = (if \<exists>y. (j, y) \<in> set (n # xs) \<and> expires s y then None else hm_map hm j)" for j
    using t(5) [of j] s'(6) n ex kx by force
  moreover have "filter (\<lambda>n. expires s' (snd n)) xs = filter (\<lambda>n. expires s (snd n)) xs"
    using ex by (auto intro: filter_cong)
  then have "readyQ t = Some (qitems (readyQ s) @ map snd (filter (\<lambda>n. expires s (snd n)) (n # xs)))"
    using t(6) s'(7) n by simp
  moreover have "pcbs t = (\<lambda>p. if p \<in> snd ` set (n # xs) then map_option ticked (pcbs s p) else pcbs s p)"
  proof
    fix p
    show "pcbs t p = (if p \<in> snd ` set (n # xs) then map_option ticked (pcbs s p) else pcbs s p)"
      using x(2) kx(2) n by (cases "p = x") (simp_all add: t(7) s'(8))
  qed
  moreover have "foldk (\<lambda>n. tickDownSleeper (fst n) (snd n)) (n # xs) s = Done () t"
    using s'(1) t(1) n by simp
  moreover have "mset (places t) = mset (places s)" "errorCount t = errorCount s" "currPCB t = currPCB s"
    using t(3,8,9) s'(4,9,10) by simp_all
  ultimately show ?case using t(2,4) by blast
qed

lemma sleepers_known:
  assumes "sched_ok H s" "sleepingMap s = Some hm"
  shows "hm_ok hm" "distinct (map fst (hm_items hm))" "distinct (map snd (hm_items hm))"
    "\<And>k x. (k, x) \<in> set (hm_items hm) \<Longrightarrow> hm_map hm k = Some x \<and> 0 \<le> k \<and> (\<exists>pc. pcbs s x = Some pc \<and> pid pc = k)"
proof -
  have c: "core H s (places s)" using assms(1) by (simp add: sched_ok_def)
  then show ok: "hm_ok hm" using assms(2) by (auto simp: core_def map_ok_def)
  show d: "distinct (map snd (hm_items hm))"
    using c assms(2) by (simp add: core_def places_def others_def hm_procs_def)
  have it: "hm_map hm k = Some x \<and> 0 \<le> k \<and> (\<exists>pc. pcbs s x = Some pc \<and> pid pc = k)"
    if "(k, x) \<in> set (hm_items hm)" for k x
  proof -
    have m: "hm_map hm k = Some x" using that hm_items_iff [OF ok] by simp
    then have p: "pid_of s x = k" using c assms(2) by (auto simp: core_def map_ok_def)
    have "x \<in> set (places s)" using that assms(2) by (force simp: places_def others_def hm_procs_def)
    then have "pcb_ok H s x" using c by (simp add: core_def)
    with m p show ?thesis by (auto simp: pcb_ok_def pid_of_def)
  qed
  show "hm_map hm k = Some x \<and> 0 \<le> k \<and> (\<exists>pc. pcbs s x = Some pc \<and> pid pc = k)"
    if "(k, x) \<in> set (hm_items hm)" for k x using it [OF that] .
  have "inj_on fst (set (hm_items hm))"
    by (rule inj_onI) (metis it option.inject prod.collapse)
  moreover have "distinct (hm_items hm)" using d by (simp add: distinct_map)
  ultimately show "distinct (map fst (hm_items hm))" by (simp add: distinct_map)
qed

lemma tickDownSleepers_run:
  assumes ok: "sched_ok H s" and mem: "mallocs_ok s" and sm: "sleepingMap s = Some hm"
  shows "\<exists>t hm'. tickDownSleepers s = Done SUCCESS t \<and> sched_ok H t \<and> mset (places t) = mset (places s) \<and>
           sleepingMap t = Some hm' \<and>
           (\<forall>k x. hm_map hm' k = Some x \<longleftrightarrow> hm_map hm k = Some x \<and> \<not> expires s x) \<and>
           readyQ t = Some (qitems (readyQ s) @ filter (expires s) (hm_procs (Some hm))) \<and>
           pcbs t = (\<lambda>p. if p \<in> set (hm_procs (Some hm)) then map_option ticked (pcbs s p) else pcbs s p) \<and>
           currPCB t = currPCB s"
proof -
  let ?s = "s\<lparr>errorCount := 0\<rparr>"
  have ok0: "sched_ok H ?s" "places ?s = places s"
  proof -
    show pl: "places ?s = places s" by (simp add: places_def others_def transmitters_def)
    have "core H ?s (places s)"
      using park_core [OF ok, of ?s "places s"] ok by (simp add: sched_ok_def core_def tty_ok_def)
    then show "sched_ok H ?s" using ok pl by (simp add: sched_ok_def)
  qed
  have mem0: "mallocs_ok ?s" and sm0: "sleepingMap ?s = Some hm" using mem sm by (simp_all add: mallocs_ok_def)
  note known = sleepers_known [OF ok0(1) sm0]
  let ?I = "\<lambda>t :: kstate. (\<exists>h. sleepingMap t = Some h \<and> hm_ok h \<and> hm_size h = hm_size hm) \<and>
    (\<forall>(k, x) \<in> set (hm_items hm). \<exists>pc. pcbs t x = Some pc \<and> pid pc = k)"
  have it: "HashMap_iterate sleepingMap tickDownSleeper ?s =
      foldk (\<lambda>n. tickDownSleeper (fst n) (snd n)) (hm_items hm) ?s"
  proof (rule HashMap_iterate_foldk [where I = ?I and get = sleepingMap and s = ?s and hm = hm])
    show "hm_ok hm" "sleepingMap ?s = Some hm" using known(1) sm0 .
  next
    show "?I ?s" using known sm by auto
  next
    fix k x t
    assume kx: "(k, x) \<in> set (hm_items hm)" and I: "?I t"
    then obtain h pc where h: "sleepingMap t = Some h" "hm_ok h" "hm_size h = hm_size hm"
      "pcbs t x = Some pc" "pid pc = k" by auto
    from tick_returns [OF h(4,5) _ h(1,2)] known(4) [OF kx] obtain t' h' where
      t': "tickDownSleeper k x t = Done () t'" "sleepingMap t' = Some h'" "hm_ok h'" "hm_size h' = hm_size h"
        "local_at (Some h) (Some h') (k mod hm_size h)" "pcbs t' = (pcbs t)(x \<mapsto> ticked pc)" by auto
    have "?I t'" using I t' h by (auto simp: ticked_def)
    then show "\<exists>t'. tickDownSleeper k x t = Done () t' \<and> ?I t' \<and>
        local_at (sleepingMap t) (sleepingMap t') (k mod hm_size hm)" using t' h by auto
  qed
  have dom: "hm_map hm k = Some x \<and> pcbs ?s x \<noteq> None" if "(k, x) \<in> set (hm_items hm)" for k x
    using known(4) [OF that] by auto
  obtain t hm' where t: "foldk (\<lambda>n. tickDownSleeper (fst n) (snd n)) (hm_items hm) ?s = Done () t"
    "sched_ok H t" "mset (places t) = mset (places ?s)" "sleepingMap t = Some hm'"
    "\<And>j. hm_map hm' j = (if \<exists>x. (j, x) \<in> set (hm_items hm) \<and> expires ?s x then None else hm_map hm j)"
    "readyQ t = Some (qitems (readyQ ?s) @ map snd (filter (\<lambda>n. expires ?s (snd n)) (hm_items hm)))"
    "pcbs t = (\<lambda>p. if p \<in> snd ` set (hm_items hm) then map_option ticked (pcbs ?s p) else pcbs ?s p)"
    "errorCount t = errorCount ?s" "currPCB t = currPCB ?s"
    using tick_loop [OF ok0(1) mem0 sm0 known(2,3) dom] by blast
  have ex: "expires ?s = expires s" by (simp add: expires_def fun_eq_iff)
  have "\<forall>k x. hm_map hm' k = Some x \<longleftrightarrow> hm_map hm k = Some x \<and> \<not> expires s x"
    using t(5) hm_items_iff [OF known(1)] by (auto simp: ex)
  moreover have "tickDownSleepers s = Done SUCCESS t"
    using it t(1,8) by (simp add: tickDownSleepers_def bindk_def modk_def getk_def retk_def)
  moreover have "readyQ t = Some (qitems (readyQ s) @ filter (expires s) (hm_procs (Some hm)))"
    using t(6) by (simp add: ex hm_procs_def filter_map o_def)
  moreover have "pcbs t = (\<lambda>p. if p \<in> set (hm_procs (Some hm)) then map_option ticked (pcbs s p) else pcbs s p)"
    using t(7) by (simp add: hm_procs_def cong: if_cong)
  moreover have "mset (places t) = mset (places s)" "currPCB t = currPCB s" using t(3,9) ok0(2) by simp_all
  ultimately show ?thesis using t(2,4) by blast
qed

end
