(* ===== verification/UserMemory.thy ===== *)
theory UserMemory
  imports Sleepers
begin

text \<open>
  Accesses of kernel code to the memory of the running process: C integers and pointers as four
  bytes, least significant first, byte ranges, and signed additions that may leave the range of
  \<^verbatim>\<open>int\<close>. The lemmas say what a range of memory holds after it was written.
\<close>

section \<open>Integers in memory\<close>

definition int_bytes :: "int \<Rightarrow> byte list" where
  "int_bytes v = map (\<lambda>i. word_of_int (v div 256 ^ i)) [0..<4]"

primrec bytes_nat :: "byte list \<Rightarrow> nat" where
  "bytes_nat [] = 0"
| "bytes_nat (b # bs) = unat b + 256 * bytes_nat bs"

definition bytes_int :: "byte list \<Rightarrow> int" where
  "bytes_int bs = (let u = int (bytes_nat bs) in if u < 2 ^ 31 then u else u - 2 ^ 32)"

definition INT_MAX :: int where
  "INT_MAX = 2 ^ 31 - 1"

definition is_int :: "int \<Rightarrow> bool" where
  "is_int v \<longleftrightarrow> - (2 ^ 31) \<le> v \<and> v \<le> INT_MAX"

definition add_int :: "int \<Rightarrow> int \<Rightarrow> int kernel" where
  "add_int x y = (if is_int (x + y) then retk (x + y) else faultk OVERFLOW)"

definition store_int :: "hw \<Rightarrow> nat \<Rightarrow> int \<Rightarrow> unit kernel" where
  "store_int H va v = copyout H va (int_bytes v)"

definition load_int :: "hw \<Rightarrow> nat \<Rightarrow> int kernel" where
  "load_int H va = bindk (copyin H va 4) (\<lambda>bs. retk (bytes_int bs))"

definition load_ptr :: "hw \<Rightarrow> nat \<Rightarrow> nat kernel" where
  "load_ptr H va = bindk (copyin H va 4) (\<lambda>bs. retk (bytes_nat bs))"

lemma length_int_bytes [simp]: "length (int_bytes v) = 4"
  by (simp add: int_bytes_def)

lemma upt_4: "[0..<4] = [0, 1, 2, 3::nat]"
  by (simp add: upt_rec)

lemma bytes_nat_int_bytes: "int (bytes_nat (int_bytes v)) = v mod 2 ^ 32"
proof -
  have 1: "uint (word_of_int x :: byte) = x mod 256" for x
    by (simp add: uint_word_of_int)
  have "int (bytes_nat (int_bytes v)) =
      v mod 256 + 256 * (v div 256 mod 256 + 256 * (v div 65536 mod 256 + 256 * (v div 16777216 mod 256)))"
    by (simp add: int_bytes_def upt_4 1)
  also have "\<dots> = v mod (256 * (256 * (256 * 256)))"
    by (subst zmod_zmult2_eq, simp, subst zmod_zmult2_eq, simp, subst zmod_zmult2_eq, simp)
       (simp add: zdiv_zmult2_eq [symmetric])
  also have "\<dots> = v mod 2 ^ 32" by simp
  finally show ?thesis .
qed

lemma bytes_int_int_bytes:
  assumes "is_int v"
  shows "bytes_int (int_bytes v) = v"
proof (cases "0 \<le> v")
  case True
  then have "v mod 2 ^ 32 = v" "v < 2 ^ 31" using assms by (simp_all add: is_int_def INT_MAX_def)
  then show ?thesis unfolding bytes_int_def Let_def bytes_nat_int_bytes by simp
next
  case False
  have "v mod 2 ^ 32 = (v + 2 ^ 32) mod 2 ^ 32" by simp
  also have "\<dots> = v + 2 ^ 32"
    using False assms by (intro mod_pos_pos_trivial) (simp_all add: is_int_def)
  finally show ?thesis
    unfolding bytes_int_def Let_def bytes_nat_int_bytes using assms by (simp add: is_int_def)
qed

section \<open>Ranges of memory\<close>

text \<open>\<open>mapped H s need va n\<close>: the \<open>n\<close> bytes from \<open>va\<close> on may be accessed.\<close>

definition mapped :: "hw \<Rightarrow> 'z mmu_scheme \<Rightarrow> prot_flag \<Rightarrow> nat \<Rightarrow> nat \<Rightarrow> bool" where
  "mapped H s need va n \<longleftrightarrow> (\<forall>i < n. translate H s need (va + i) \<noteq> None)"

definition cell :: "hw \<Rightarrow> 'z mmu_scheme \<Rightarrow> prot_flag \<Rightarrow> nat \<Rightarrow> byte" where
  "cell H s need va = (case translate H s need va of None \<Rightarrow> 0 | Some (f, off) \<Rightarrow> pmem s f off)"

definition bytes_at :: "hw \<Rightarrow> 'z mmu_scheme \<Rightarrow> nat \<Rightarrow> nat \<Rightarrow> byte list" where
  "bytes_at H s va n = map (\<lambda>i. cell H s PROT_READ (va + i)) [0..<n]"

lemma mapped_Suc: "mapped H s need va (Suc n) \<longleftrightarrow> translate H s need va \<noteq> None \<and> mapped H s need (Suc va) n"
  by (simp add: mapped_def All_less_Suc2)

lemma bytes_at_Suc: "bytes_at H s va (Suc n) = cell H s PROT_READ va # bytes_at H s (Suc va) n"
  by (simp add: bytes_at_def upt_conv_Cons map_Suc_upt [symmetric] del: upt_Suc)

lemma length_bytes_at [simp]: "length (bytes_at H s va n) = n"
  by (simp add: bytes_at_def)

lemma copyin_run: "mapped H s PROT_READ va n \<Longrightarrow> copyin H va n s = Done (bytes_at H s va n) s"
proof (induction n arbitrary: va)
  case 0
  then show ?case by (simp add: retk_def bytes_at_def)
next
  case (Suc n)
  then show ?case
    by (auto simp: mapped_Suc bytes_at_Suc bindk_def getk_def retk_def cell_def)
qed

lemma copyin_fault: "\<not> mapped H s PROT_READ va n \<Longrightarrow> copyin H va n s = Fault UNMAPPED"
proof (induction n arbitrary: va)
  case 0
  then show ?case by (simp add: mapped_def)
next
  case (Suc n)
  then show ?case
    by (cases "translate H s PROT_READ va") (auto simp: mapped_Suc bindk_def getk_def faultk_def)
qed

text \<open>Writing physical memory does not change translations.\<close>

lemma translate_pmem [simp]: "translate H (s\<lparr>pmem := m\<rparr>) need va = translate H s need va"
  by (simp add: translate_def walk_def pte_of_vpn_def)

fun poke :: "hw \<Rightarrow> 'z mmu_scheme \<Rightarrow> nat \<Rightarrow> byte list \<Rightarrow> (nat \<Rightarrow> nat \<Rightarrow> byte) \<Rightarrow> (nat \<Rightarrow> nat \<Rightarrow> byte)" where
  "poke H s va [] m = m"
| "poke H s va (x # xs) m =
     poke H s (Suc va) xs (case translate H s PROT_WRITE va of None \<Rightarrow> m | Some (f, off) \<Rightarrow> m(f := (m f)(off := x)))"

lemma poke_pmem [simp]: "poke H (s\<lparr>pmem := m'\<rparr>) va xs m = poke H s va xs m"
  by (induction xs arbitrary: va m) simp_all

lemma copyout_run:
  "mapped H s PROT_WRITE va (length xs) \<Longrightarrow> copyout H va xs s = Done () (s\<lparr>pmem := poke H s va xs (pmem s)\<rparr>)"
proof (induction xs arbitrary: va s)
  case Nil
  then show ?case by (simp add: retk_def)
next
  case (Cons x xs)
  from Cons.prems obtain f off where t: "translate H s PROT_WRITE va = Some (f, off)"
    and m: "mapped H s PROT_WRITE (Suc va) (length xs)" by (auto simp: mapped_Suc)
  let ?s = "s\<lparr>pmem := (pmem s)(f := (pmem s f)(off := x))\<rparr>"
  have "mapped H ?s PROT_WRITE (Suc va) (length xs)" using m by (simp add: mapped_def)
  from Cons.IH [OF this] show ?case using t by (simp add: bindk_def getk_def modk_def fun_upd_def)
qed

lemma copyout_fault: "\<not> mapped H s PROT_WRITE va (length xs) \<Longrightarrow> copyout H va xs s = Fault UNMAPPED"
proof (induction xs arbitrary: va s)
  case Nil
  then show ?case by (simp add: mapped_def)
next
  case (Cons x xs)
  show ?case
  proof (cases "translate H s PROT_WRITE va")
    case None
    then show ?thesis by (simp add: bindk_def getk_def faultk_def)
  next
    case (Some t)
    obtain f off where t: "t = (f, off)" by (cases t)
    let ?s = "s\<lparr>pmem := (pmem s)(f := (pmem s f)(off := x))\<rparr>"
    have "\<not> mapped H s PROT_WRITE (Suc va) (length xs)" using Cons.prems Some by (simp add: mapped_Suc)
    then have "\<not> mapped H ?s PROT_WRITE (Suc va) (length xs)" by (simp add: mapped_def)
    from Cons.IH [OF this] show ?thesis using Some t by (simp add: bindk_def getk_def modk_def)
  qed
qed

section \<open>Reading back what was written\<close>

lemma poke_other:
  assumes "\<And>i. i < length xs \<Longrightarrow> translate H s PROT_WRITE (va + i) \<noteq> Some (f, off)"
  shows "poke H s va xs m f off = m f off"
  using assms
proof (induction xs arbitrary: va m)
  case Nil
  then show ?case by simp
next
  case (Cons x xs)
  have "translate H s PROT_WRITE va \<noteq> Some (f, off)" using Cons.prems [of 0] by simp
  moreover have "poke H s (Suc va) xs m' f off = m' f off" for m'
    using Cons.prems [of "Suc i" for i] by (intro Cons.IH) simp
  ultimately show ?case by (auto split: option.splits)
qed

text \<open>Reading back what was just written, when no byte of the range overlaps another.\<close>

definition spread :: "hw \<Rightarrow> 'z mmu_scheme \<Rightarrow> nat \<Rightarrow> nat \<Rightarrow> bool" where
  "spread H s va n \<longleftrightarrow> (\<forall>i < n. \<forall>j < n. translate H s PROT_WRITE (va + i) = translate H s PROT_WRITE (va + j) \<longrightarrow>
     translate H s PROT_WRITE (va + i) \<noteq> None \<longrightarrow> i = j)"

lemma poke_at:
  assumes "i < length xs" "translate H s PROT_WRITE (va + i) = Some (f, off)" "spread H s va (length xs)"
  shows "poke H s va xs m f off = xs ! i"
  using assms
proof (induction xs arbitrary: va m i)
  case Nil
  then show ?case by simp
next
  case (Cons x xs)
  have sp: "spread H s (Suc va) (length xs)"
    using Cons.prems(3) unfolding spread_def by (metis Suc_less_eq add_Suc_shift length_Cons nat.inject)
  show ?case
  proof (cases i)
    case 0
    have "translate H s PROT_WRITE (Suc va + j) \<noteq> Some (f, off)" if "j < length xs" for j
      using Cons.prems(3) [unfolded spread_def, rule_format, of 0 "Suc j"] Cons.prems(2) that 0 by auto
    then have "poke H s (Suc va) xs m' f off = m' f off" for m' by (rule poke_other)
    then show ?thesis using Cons.prems(2) 0 by simp
  next
    case (Suc j)
    with Cons.IH [OF _ _ sp, of j] Cons.prems show ?thesis by simp
  qed
qed

text \<open>On pages of at least four bytes the four bytes of an integer do not overlap.\<close>

lemma translate_rw:
  "translate H s PROT_READ va = Some c \<Longrightarrow> translate H s PROT_WRITE va = Some d \<Longrightarrow> c = d"
  by (auto simp: translate_def split: option.splits if_splits)

lemma spread_word:
  assumes "n \<le> PAGESIZE H"
  shows "spread H s va n"
  unfolding spread_def
proof (intro allI impI)
  fix i j
  assume ij: "i < n" "j < n" "translate H s PROT_WRITE (va + i) = translate H s PROT_WRITE (va + j)"
    "translate H s PROT_WRITE (va + i) \<noteq> None"
  then have eq: "(va + i) mod PAGESIZE H = (va + j) mod PAGESIZE H"
    by (auto simp: translate_def split: option.splits if_splits)
  have "a = b" if "a \<le> b" "b < n" "(va + a) mod PAGESIZE H = (va + b) mod PAGESIZE H" for a b
  proof -
    from that have "PAGESIZE H dvd (va + b) - (va + a)" by (metis mod_eq_dvd_iff_nat nat_add_left_cancel_le)
    then have "PAGESIZE H dvd b - a" by simp
    moreover have "b - a < PAGESIZE H" using that assms by linarith
    ultimately show ?thesis using that(1) by (metis diff_is_0_eq' dvd_imp_le le_antisym not_less zero_less_diff diff_diff_cancel)
  qed
  from this [of i j] this [of j i] ij eq show "i = j" by (cases "i \<le> j") auto
qed

lemma load_stored_int:
  assumes "4 \<le> PAGESIZE H" "is_int v" "store_int H va v s = Done () t" "load_int H va t = Done k u"
  shows "k = v \<and> u = t \<and> (\<exists>m. t = s\<lparr>pmem := m\<rparr>)"
proof -
  have w: "mapped H s PROT_WRITE va 4"
    using assms(3) copyout_fault [of H s va "int_bytes v"] by (auto simp: store_int_def)
  then have t: "t = s\<lparr>pmem := poke H s va (int_bytes v) (pmem s)\<rparr>"
    using assms(3) copyout_run [of H s va "int_bytes v"] by (simp add: store_int_def)
  have r: "mapped H t PROT_READ va 4"
    by (rule ccontr) (use assms(4) in \<open>simp add: load_int_def bindk_def copyin_fault\<close>)
  have "cell H t PROT_READ (va + i) = int_bytes v ! i" if i: "i < 4" for i
  proof -
    from i w obtain f off where wr: "translate H s PROT_WRITE (va + i) = Some (f, off)"
      by (fastforce simp: mapped_def)
    from i r obtain c where "translate H s PROT_READ (va + i) = Some c"
      by (fastforce simp: mapped_def t)
    with wr have "translate H t PROT_READ (va + i) = Some (f, off)" by (simp add: t translate_rw)
    moreover have "pmem t f off = int_bytes v ! i"
      using poke_at [of i "int_bytes v" H s va f off] i wr spread_word [OF assms(1), of s va] by (simp add: t)
    ultimately show ?thesis by (simp add: cell_def)
  qed
  then have "bytes_at H t va 4 = int_bytes v"
    by (intro nth_equalityI) (simp_all add: bytes_at_def)
  then show ?thesis
    using assms(4) copyin_run [OF r] bytes_int_int_bytes [OF assms(2)] t
    by (auto simp: load_int_def bindk_def retk_def)
qed

end
