(* ===== verification/SyncObjects.thy ===== *)
theory SyncObjects
  imports UserMemory
begin

text \<open>
  The synchronisation objects of \<^verbatim>\<open>KernelDataStructures/SyncObjects\<close>: locks, condition variables
  and pipes are heap objects registered in a hash map under an identifier taken from the shared
  counter \<^verbatim>\<open>nextSyncId\<close>. A condition variable is a queue of processes. \<^verbatim>\<open>*id\<close> is stored in
  and read back from the memory of the calling process.
\<close>

section \<open>Shared parts\<close>

definition set_lockMap :: "ptr HashMap option \<Rightarrow> kstate \<Rightarrow> kstate" where
  "set_lockMap m s = s\<lparr>lockMap := m\<rparr>"

definition set_cvarMap :: "ptr HashMap option \<Rightarrow> kstate \<Rightarrow> kstate" where
  "set_cvarMap m s = s\<lparr>cvarMap := m\<rparr>"

definition set_pipeMap :: "ptr HashMap option \<Rightarrow> kstate \<Rightarrow> kstate" where
  "set_pipeMap m s = s\<lparr>pipeMap := m\<rparr>"

definition SYNC_MAP_HASH_BUCKETS :: nat where
  "SYNC_MAP_HASH_BUCKETS = 20"

text \<open>\<^verbatim>\<open>*idp = nextSyncId++; return HashMap_insert(map, *idp, p)\<close>.\<close>

definition register_sync ::
  "hw \<Rightarrow> (kstate \<Rightarrow> ptr HashMap option) \<Rightarrow> (ptr HashMap option \<Rightarrow> kstate \<Rightarrow> kstate) \<Rightarrow> nat \<Rightarrow> ptr \<Rightarrow> rc kernel" where
  "register_sync H get put idp p =
     bindk (getk nextSyncId) (\<lambda>n.
     bindk (add_int n 1) (\<lambda>n'.
     bindk (modk (\<lambda>s. s\<lparr>nextSyncId := n'\<rparr>)) (\<lambda>_.
     bindk (store_int H idp n) (\<lambda>_.
     bindk (load_int H idp) (\<lambda>key. hm_insertk get put key p)))))"

section \<open>Locks\<close>

definition initLockMap :: "rc kernel" where
  "initLockMap =
     bindk (hm_newk SYNC_MAP_HASH_BUCKETS) (\<lambda>m. bindk (modk (set_lockMap m)) (\<lambda>_.
       retk (if m = None then ERROR else SUCCESS)))"

definition initLock :: "hw \<Rightarrow> nat \<Rightarrow> rc kernel" where
  "initLock H lock_idp =
     bindk mallock (\<lambda>m. bindk (getk locks) (\<lambda>heap.
       case m of
         None \<Rightarrow> retk ERROR
       | Some lockp \<Rightarrow>
           if heap lockp \<noteq> None then retk ERROR else
           bindk malloc_okk (\<lambda>ok.
             if \<not> ok then retk ERROR else
             bindk (modk (\<lambda>s. s\<lparr>locks := (locks s)(lockp \<mapsto> \<lparr>ownerPcbp = None, lock_waitingQ = make_q ok\<rparr>)\<rparr>)) (\<lambda>_.
               register_sync H lockMap set_lockMap lock_idp lockp))))"

definition getLock :: "int \<Rightarrow> ptr option kernel" where
  "getLock lock_id = hm_findk lockMap lock_id"

definition upd_lock :: "ptr \<Rightarrow> (lock_t \<Rightarrow> lock_t) \<Rightarrow> unit kernel" where
  "upd_lock lockp f = bindk (fetch locks lockp) (\<lambda>l. modk (\<lambda>s. s\<lparr>locks := (locks s)(lockp \<mapsto> f l)\<rparr>))"

definition deleteLock :: "int \<Rightarrow> rc kernel" where
  "deleteLock lock_id =
     bindk (hm_removek lockMap set_lockMap lock_id) (\<lambda>m.
       case m of
         None \<Rightarrow> retk ERROR
       | Some lockp \<Rightarrow>
           bindk malloc_okk (\<lambda>ok.
           bindk (upd_lock lockp (\<lambda>l. l\<lparr>lock_waitingQ := make_q ok\<rparr>)) (\<lambda>_.
             if \<not> ok then retk ERROR else
             bindk (fetch locks lockp) (\<lambda>l.
               if ownerPcbp l \<noteq> None \<or> peek_q (lock_waitingQ l) \<noteq> None then retk ERROR
               else bindk (modk (\<lambda>s. s\<lparr>locks := (locks s)(lockp := None)\<rparr>)) (\<lambda>_. retk SUCCESS)))))"

section \<open>Condition variables\<close>

definition initCvarMap :: "rc kernel" where
  "initCvarMap =
     bindk (hm_newk SYNC_MAP_HASH_BUCKETS) (\<lambda>m. bindk (modk (set_cvarMap m)) (\<lambda>_.
       retk (if m = None then ERROR else SUCCESS)))"

definition initCvar :: "hw \<Rightarrow> nat \<Rightarrow> rc kernel" where
  "initCvar H cvar_idp =
     bindk mallock (\<lambda>m. bindk (getk cvars) (\<lambda>heap.
       case m of
         None \<Rightarrow> retk ERROR
       | Some cvarQ \<Rightarrow>
           if heap cvarQ \<noteq> None then retk ERROR else
           bindk (modk (\<lambda>s. s\<lparr>cvars := (cvars s)(cvarQ \<mapsto> [])\<rparr>)) (\<lambda>_.
             register_sync H cvarMap set_cvarMap cvar_idp cvarQ)))"

definition getCvar :: "int \<Rightarrow> ptr option kernel" where
  "getCvar cvar_id = hm_findk cvarMap cvar_id"

definition deleteCvar :: "int \<Rightarrow> rc kernel" where
  "deleteCvar cvar_id =
     bindk (hm_removek cvarMap set_cvarMap cvar_id) (\<lambda>m.
       case m of
         None \<Rightarrow> retk ERROR
       | Some cvarQ \<Rightarrow>
           bindk (fetch cvars cvarQ) (\<lambda>q.
             if peek_q (Some q) \<noteq> None then retk ERROR
             else bindk (modk (\<lambda>s. s\<lparr>cvars := (cvars s)(cvarQ := None)\<rparr>)) (\<lambda>_. retk SUCCESS)))"

section \<open>Pipes\<close>

definition PIPE_MAX_BYTES :: "hw \<Rightarrow> nat" where
  "PIPE_MAX_BYTES H = TERMINAL_MAX_LINE H div 2"

definition initPipeMap :: "rc kernel" where
  "initPipeMap =
     bindk (hm_newk SYNC_MAP_HASH_BUCKETS) (\<lambda>m. bindk (modk (set_pipeMap m)) (\<lambda>_.
       retk (if m = None then ERROR else SUCCESS)))"

definition initPipe :: "hw \<Rightarrow> nat \<Rightarrow> rc kernel" where
  "initPipe H pipe_idp =
     bindk mallock (\<lambda>m. bindk (getk pipes) (\<lambda>heap.
       case m of
         None \<Rightarrow> retk ERROR
       | Some pipep \<Rightarrow>
           if heap pipep \<noteq> None then retk ERROR else
           bindk malloc_okk (\<lambda>ok_buffer. if \<not> ok_buffer then retk ERROR else
           bindk malloc_okk (\<lambda>ok_q. if \<not> ok_q then retk ERROR else
           bindk (modk (\<lambda>s. s\<lparr>pipes := (pipes s)(pipep \<mapsto>
               \<lparr>pipe_buffer = Some (replicate (PIPE_MAX_BYTES H) 0), pipe_numBytesWritten = 0,
                pipe_waitingQ = make_q ok_q\<rparr>)\<rparr>)) (\<lambda>_.
             register_sync H pipeMap set_pipeMap pipe_idp pipep)))))"

definition getPipe :: "int \<Rightarrow> ptr option kernel" where
  "getPipe pipe_id = hm_findk pipeMap pipe_id"

definition deletePipe :: "int \<Rightarrow> rc kernel" where
  "deletePipe pipe_id =
     bindk (hm_removek pipeMap set_pipeMap pipe_id) (\<lambda>m.
       case m of
         None \<Rightarrow> retk ERROR
       | Some pipep \<Rightarrow>
           bindk (fetch pipes pipep) (\<lambda>p.
             if pipe_buffer p = None \<or> pipe_waitingQ p = None then retk ERROR
             else if peek_q (pipe_waitingQ p) \<noteq> None then retk ERROR
             else bindk (modk (\<lambda>s. s\<lparr>pipes := (pipes s)(pipep := None)\<rparr>)) (\<lambda>_. retk SUCCESS)))"

text \<open>\<^verbatim>\<open>KernelReclaim\<close> tries the three maps in turn.\<close>

definition KernelReclaim :: "int \<Rightarrow> rc kernel" where
  "KernelReclaim i =
     bindk (getLock i) (\<lambda>l. if l \<noteq> None then deleteLock i else
     bindk (getCvar i) (\<lambda>c. if c \<noteq> None then deleteCvar i else
     bindk (getPipe i) (\<lambda>p. if p \<noteq> None then deletePipe i else retk ERROR)))"

end
