(* ===== verification/SyncCalls.thy ===== *)
theory SyncCalls
  imports SyncObjects
begin

text \<open>
  The system calls on locks, condition variables and pipes
  (\<^verbatim>\<open>LockKernelCalls.c\<close>, \<^verbatim>\<open>CVarKernelCalls.c\<close>, \<^verbatim>\<open>PipeKernelCalls.c\<close>). A call that
  blocks leaves its kernel context behind; \<^verbatim>\<open>blockProcess\<close> comes back directly only with
  \<^verbatim>\<open>ERROR\<close> (\<open>blockProcess_returns\<close>), otherwise the code after it runs when the process is
  switched in again: \<open>acquire_loop\<close>, \<open>cvar_reacquire\<close>, \<open>pipe_read_loop\<close>.
\<close>

section \<open>Locks\<close>

definition KernelLockInit :: "hw \<Rightarrow> nat \<Rightarrow> rc kernel" where
  "KernelLockInit H lock_idp = initLock H lock_idp"

definition enq_lock :: "ptr \<Rightarrow> ptr \<Rightarrow> rc kernel" where
  "enq_lock lockp p =
     bindk malloc_okk (\<lambda>ok. bindk (fetch locks lockp) (\<lambda>l.
       bindk (upd_lock lockp (\<lambda>l. l\<lparr>lock_waitingQ := snd (enq_q ok (lock_waitingQ l) p)\<rparr>)) (\<lambda>_.
         retk (fst (enq_q ok (lock_waitingQ l) p)))))"

text \<open>The while loop of \<^verbatim>\<open>KernelAcquire\<close>, entered at the call and again after every block.\<close>

definition acquire_loop :: "hw \<Rightarrow> ptr \<Rightarrow> rc kernel" where
  "acquire_loop H lockp =
     bindk (fetch locks lockp) (\<lambda>l. bindk (getk currPCB) (\<lambda>c.
       if ownerPcbp l \<noteq> None then
         bindk (enq_lock lockp c) (\<lambda>r.
           if r = ERROR then retk ERROR else blockProcess H (KAcquire lockp))
       else
         bindk (upd_lock lockp (\<lambda>l. l\<lparr>ownerPcbp := Some c\<rparr>)) (\<lambda>_. retk SUCCESS)))"

definition KernelAcquire :: "hw \<Rightarrow> int \<Rightarrow> rc kernel" where
  "KernelAcquire H lock_id =
     bindk (getLock lock_id) (\<lambda>m. case m of None \<Rightarrow> retk ERROR | Some lockp \<Rightarrow> acquire_loop H lockp)"

definition KernelRelease :: "int \<Rightarrow> rc kernel" where
  "KernelRelease lock_id =
     bindk (getLock lock_id) (\<lambda>m.
       case m of
         None \<Rightarrow> retk ERROR
       | Some lockp \<Rightarrow>
           bindk (fetch locks lockp) (\<lambda>l. bindk (getk currPCB) (\<lambda>c.
             if ownerPcbp l \<noteq> Some c \<or> lock_waitingQ l = None then retk ERROR else
             bindk (upd_lock lockp (\<lambda>l. l\<lparr>ownerPcbp := None, lock_waitingQ := snd (deq_q (lock_waitingQ l))\<rparr>)) (\<lambda>_.
               case fst (deq_q (lock_waitingQ l)) of
                 None \<Rightarrow> retk SUCCESS
               | Some w \<Rightarrow> bindk (get_pcb w) (\<lambda>wp. unblockProcess (pid wp))))))"

section \<open>Condition variables\<close>

definition KernelCvarInit :: "hw \<Rightarrow> nat \<Rightarrow> rc kernel" where
  "KernelCvarInit H cvar_idp = initCvar H cvar_idp"

definition enq_cvar :: "ptr \<Rightarrow> ptr \<Rightarrow> rc kernel" where
  "enq_cvar cvarQ p =
     bindk malloc_okk (\<lambda>ok. bindk (fetch cvars cvarQ) (\<lambda>q.
       bindk (modk (\<lambda>s. s\<lparr>cvars := (cvars s)(cvarQ := snd (enq_q ok (Some q) p))\<rparr>)) (\<lambda>_.
         retk (fst (enq_q ok (Some q) p)))))"

text \<open>What is left of \<^verbatim>\<open>KernelCvarWait\<close> once the process has been woken up.\<close>

definition cvar_reacquire :: "hw \<Rightarrow> int \<Rightarrow> rc kernel" where
  "cvar_reacquire H lock_id = KernelAcquire H lock_id"

definition KernelCvarWait :: "hw \<Rightarrow> int \<Rightarrow> int \<Rightarrow> rc kernel" where
  "KernelCvarWait H cvar_id lock_id =
     bindk (getCvar cvar_id) (\<lambda>m.
       case m of
         None \<Rightarrow> retk ERROR
       | Some cvarQ \<Rightarrow>
           bindk (getk currPCB) (\<lambda>c. bindk (enq_cvar cvarQ c) (\<lambda>r.
             if r = ERROR then retk ERROR else
             bindk (KernelRelease lock_id) (\<lambda>_. blockProcess H (KCvarWait lock_id)))))"

definition deq_cvar :: "ptr \<Rightarrow> ptr option kernel" where
  "deq_cvar cvarQ =
     bindk (fetch cvars cvarQ) (\<lambda>q.
       bindk (modk (\<lambda>s. s\<lparr>cvars := (cvars s)(cvarQ := snd (deq_q (Some q)))\<rparr>)) (\<lambda>_.
         retk (fst (deq_q (Some q)))))"

definition KernelCvarSignal :: "int \<Rightarrow> rc kernel" where
  "KernelCvarSignal cvar_id =
     bindk (getCvar cvar_id) (\<lambda>m.
       case m of
         None \<Rightarrow> retk ERROR
       | Some cvarQ \<Rightarrow>
           bindk (deq_cvar cvarQ) (\<lambda>w.
             case w of None \<Rightarrow> retk SUCCESS | Some p \<Rightarrow> bindk (get_pcb p) (\<lambda>wp. unblockProcess (pid wp))))"

text \<open>
  The loop of \<^verbatim>\<open>KernelCvarBroadcast\<close> dequeues until the queue is empty; \<open>fuel\<close> bounds the
  rounds, and one round more than there are waiters is always enough.
\<close>

primrec broadcast_loop :: "nat \<Rightarrow> ptr \<Rightarrow> rc kernel" where
  "broadcast_loop 0 cvarQ = faultk HANG"
| "broadcast_loop (Suc fuel) cvarQ =
     bindk (deq_cvar cvarQ) (\<lambda>w.
       case w of
         None \<Rightarrow> retk SUCCESS
       | Some p \<Rightarrow> bindk (get_pcb p) (\<lambda>wp. bindk (unblockProcess (pid wp)) (\<lambda>r.
           if r = ERROR then retk ERROR else broadcast_loop fuel cvarQ)))"

definition KernelCvarBroadcast :: "int \<Rightarrow> rc kernel" where
  "KernelCvarBroadcast cvar_id =
     bindk (getCvar cvar_id) (\<lambda>m.
       case m of
         None \<Rightarrow> retk ERROR
       | Some cvarQ \<Rightarrow> bindk (fetch cvars cvarQ) (\<lambda>q. broadcast_loop (Suc (length q)) cvarQ))"

section \<open>Pipes\<close>

definition KernelPipeInit :: "hw \<Rightarrow> nat \<Rightarrow> rc kernel" where
  "KernelPipeInit H pipe_idp = initPipe H pipe_idp"

definition upd_pipe :: "ptr \<Rightarrow> (pipe_t \<Rightarrow> pipe_t) \<Rightarrow> unit kernel" where
  "upd_pipe pipep f = bindk (fetch pipes pipep) (\<lambda>p. modk (\<lambda>s. s\<lparr>pipes := (pipes s)(pipep \<mapsto> f p)\<rparr>))"

definition enq_pipe :: "ptr \<Rightarrow> ptr \<Rightarrow> rc kernel" where
  "enq_pipe pipep x =
     bindk malloc_okk (\<lambda>ok. bindk (fetch pipes pipep) (\<lambda>p.
       bindk (upd_pipe pipep (\<lambda>p. p\<lparr>pipe_waitingQ := snd (enq_q ok (pipe_waitingQ p) x)\<rparr>)) (\<lambda>_.
         retk (fst (enq_q ok (pipe_waitingQ p) x)))))"

definition deq_pipe :: "ptr \<Rightarrow> ptr option kernel" where
  "deq_pipe pipep =
     bindk (fetch pipes pipep) (\<lambda>p.
       bindk (upd_pipe pipep (\<lambda>p. p\<lparr>pipe_waitingQ := snd (deq_q (pipe_waitingQ p))\<rparr>)) (\<lambda>_.
         retk (fst (deq_q (pipe_waitingQ p)))))"

text \<open>Bytes \<open>from\<close> to \<open>from + n\<close> of a kernel buffer, and overwriting them.\<close>

definition buf_read :: "byte list \<Rightarrow> int \<Rightarrow> int \<Rightarrow> byte list kernel" where
  "buf_read b from n =
     (if 0 \<le> from \<and> 0 \<le> n \<and> from + n \<le> int (length b) then retk (take (nat n) (drop (nat from) b))
      else faultk OUT_OF_BOUNDS)"

definition buf_write :: "byte list \<Rightarrow> int \<Rightarrow> byte list \<Rightarrow> byte list kernel" where
  "buf_write b to xs =
     (if 0 \<le> to \<and> to + int (length xs) \<le> int (length b)
      then retk (take (nat to) b @ xs @ drop (nat to + length xs) b)
      else faultk OUT_OF_BOUNDS)"

definition wake_head :: "ptr \<Rightarrow> rc kernel" where
  "wake_head pipep =
     bindk (fetch pipes pipep) (\<lambda>p.
       case peek_q (pipe_waitingQ p) of
         None \<Rightarrow> retk SUCCESS
       | Some w \<Rightarrow> bindk (get_pcb w) (\<lambda>wp. unblockProcess (pid wp)))"

text \<open>The part of \<^verbatim>\<open>KernelPipeRead\<close> that takes the bytes out.\<close>

definition pipe_take :: "hw \<Rightarrow> ptr \<Rightarrow> nat \<Rightarrow> int \<Rightarrow> rc kernel" where
  "pipe_take H pipep buf len =
     bindk (deq_pipe pipep) (\<lambda>me. if me = None then retk ERROR else
     bindk (fetch pipes pipep) (\<lambda>p. bindk (nonnull (pipe_buffer p)) (\<lambda>b.
     bindk (buf_read b 0 len) (\<lambda>xs.
     bindk (copyout H buf xs) (\<lambda>_.
       let numRemainingBytes = pipe_numBytesWritten p - len in
       bindk (upd_pipe pipep (\<lambda>p. p\<lparr>pipe_numBytesWritten := numRemainingBytes\<rparr>)) (\<lambda>_.
         if numRemainingBytes > 0 then
           bindk (buf_read b len numRemainingBytes) (\<lambda>rest.
           bindk (buf_write b 0 rest) (\<lambda>b'.
           bindk (upd_pipe pipep (\<lambda>p. p\<lparr>pipe_buffer := Some b'\<rparr>)) (\<lambda>_.
           bindk (wake_head pipep) (\<lambda>r. retk (if r = ERROR then ERROR else RC len)))))
         else retk (RC len)))))))"

definition pipe_read_loop :: "hw \<Rightarrow> ptr \<Rightarrow> nat \<Rightarrow> int \<Rightarrow> rc kernel" where
  "pipe_read_loop H pipep buf len =
     bindk (fetch pipes pipep) (\<lambda>p.
       if pipe_numBytesWritten p < len then blockProcess H (KPipeBytes pipep buf len)
       else pipe_take H pipep buf len)"

definition KernelPipeRead :: "hw \<Rightarrow> int \<Rightarrow> nat \<Rightarrow> int \<Rightarrow> rc kernel" where
  "KernelPipeRead H pipe_id buf len =
     (if len < 0 then retk ERROR
      else if len = 0 then retk SUCCESS
      else bindk (getPipe pipe_id) (\<lambda>m.
        case m of
          None \<Rightarrow> retk ERROR
        | Some pipep \<Rightarrow>
            bindk (fetch pipes pipep) (\<lambda>p. if pipe_waitingQ p = None then retk ERROR else
            bindk (getk currPCB) (\<lambda>c. bindk (enq_pipe pipep c) (\<lambda>r. if r = ERROR then retk ERROR else
            bindk (fetch pipes pipep) (\<lambda>p.
              if peek_q (pipe_waitingQ p) \<noteq> Some c then blockProcess H (KPipeHead pipep buf len)
              else pipe_read_loop H pipep buf len))))))"

definition KernelPipeWrite :: "hw \<Rightarrow> int \<Rightarrow> nat \<Rightarrow> int \<Rightarrow> rc kernel" where
  "KernelPipeWrite H pipe_id buf len =
     (if len < 0 then retk ERROR
      else if len = 0 then retk SUCCESS
      else bindk (getPipe pipe_id) (\<lambda>m.
        case m of
          None \<Rightarrow> retk ERROR
        | Some pipep \<Rightarrow>
            bindk (fetch pipes pipep) (\<lambda>p.
            bindk (add_int (pipe_numBytesWritten p) len) (\<lambda>total.
              if total > int (PIPE_MAX_BYTES H) then retk ERROR else
              bindk (nonnull (pipe_buffer p)) (\<lambda>b.
              bindk (copyin H buf (nat len)) (\<lambda>xs.
              bindk (buf_write b (pipe_numBytesWritten p) xs) (\<lambda>b'.
              bindk (upd_pipe pipep (\<lambda>p. p\<lparr>pipe_buffer := Some b', pipe_numBytesWritten := total\<rparr>)) (\<lambda>_.
              bindk (wake_head pipep) (\<lambda>r. retk (if r = ERROR then ERROR else RC len))))))))))"

end
