(* ===== verification/Brk.thy ===== *)
theory Brk
  imports UserMemory
begin

text \<open>
  The two break calls: \<^verbatim>\<open>KernelBrk\<close> moves the break of the running process in region 1,
  \<^verbatim>\<open>SetKernelBrk\<close> the break of the kernel heap in region 0. Both decide which pages change from
  the page numbers of the old and the new break, then free or allocate them in a loop.
\<close>

text \<open>\<^verbatim>\<open>table + vpn - baseVpn\<close>: a page below the region has no entry in its table.\<close>

definition entry_at :: "hw \<Rightarrow> ptr \<Rightarrow> nat \<Rightarrow> nat \<Rightarrow> ptr kernel" where
  "entry_at H table baseVpn vpn =
     (if baseVpn \<le> vpn then retk (table + (vpn - baseVpn) * SIZEOF_PTE H) else faultk OUT_OF_BOUNDS)"

text \<open>\<^verbatim>\<open>while (currVpn <= lastVpn)\<close>: free the frame of an entry and invalidate it.\<close>

definition shrink_page :: "hw \<Rightarrow> ptr \<Rightarrow> nat \<Rightarrow> nat \<Rightarrow> unit kernel" where
  "shrink_page H table baseVpn v =
     bindk (entry_at H table baseVpn v) (\<lambda>targetPtep.
     bindk (fetch ptes targetPtep) (\<lambda>e.
     bindk (freeFramek (pte_pfn e)) (\<lambda>_. invalidatePageTableEntry H targetPtep)))"

definition shrink_pages :: "hw \<Rightarrow> ptr \<Rightarrow> nat \<Rightarrow> nat \<Rightarrow> nat \<Rightarrow> unit kernel" where
  "shrink_pages H table baseVpn currVpn lastVpn = foldk (shrink_page H table baseVpn) [currVpn..<Suc lastVpn]"

text \<open>\<^verbatim>\<open>while (currVpn <= lastVpn)\<close>: get a frame and map it, stopping when there is none.\<close>

definition grow_page :: "hw \<Rightarrow> ptr \<Rightarrow> nat \<Rightarrow> nat \<Rightarrow> rc kernel" where
  "grow_page H table baseVpn v =
     bindk getFramek (\<lambda>f.
       case f of
         None \<Rightarrow> retk ERROR
       | Some x \<Rightarrow>
           bindk (entry_at H table baseVpn v) (\<lambda>targetPtep.
           bindk (setPageTableEntry H targetPtep True {PROT_READ, PROT_WRITE} x) (\<lambda>_. retk SUCCESS)))"

definition grow_pages :: "hw \<Rightarrow> ptr \<Rightarrow> nat \<Rightarrow> nat \<Rightarrow> nat \<Rightarrow> rc kernel" where
  "grow_pages H table baseVpn currVpn lastVpn = foldrc (grow_page H table baseVpn) [currVpn..<Suc lastVpn]"

text \<open>
  The body the two calls have in common, from the computation of the page numbers on. \<open>addrVpn - 1\<close>
  and \<open>brkVpn - 1\<close> are only reached for a page number above another one, so they do not wrap.
\<close>

definition move_brk :: "hw \<Rightarrow> ptr \<Rightarrow> nat \<Rightarrow> nat \<Rightarrow> nat \<Rightarrow> rc kernel" where
  "move_brk H table baseVpn currBrk addr =
     (let addrVpn = vpn_of H addr; currBrkVpn = vpn_of H currBrk;
          addrAligned = (DOWN_TO_PAGE H addr = addr); brkAligned = (DOWN_TO_PAGE H currBrk = currBrk)
      in if addrVpn < currBrkVpn then
           bindk (shrink_pages H table baseVpn (if addrAligned then addrVpn else addrVpn + 1)
                    (if brkAligned then currBrkVpn - 1 else currBrkVpn)) (\<lambda>_. retk SUCCESS)
         else if addrVpn = currBrkVpn then
           (if addr < currBrk \<and> addrAligned then
              bindk (shrink_pages H table baseVpn addrVpn addrVpn) (\<lambda>_. retk SUCCESS)
            else if addr > currBrk \<and> brkAligned then grow_pages H table baseVpn addrVpn addrVpn
            else retk SUCCESS)
         else
           grow_pages H table baseVpn (if brkAligned then currBrkVpn else currBrkVpn + 1)
             (if addrAligned then addrVpn - 1 else addrVpn))"

definition KernelBrk :: "hw \<Rightarrow> nat \<Rightarrow> rc kernel" where
  "KernelBrk H addr =
     (if getAddressRegion H addr \<noteq> 1 then retk ERROR else
      bindk (getk currPCB) (\<lambda>c. bindk (get_pcb c) (\<lambda>pc.
        case brk pc of
          None \<Rightarrow> faultk UNINIT
        | Some currBrk \<Rightarrow>
            bindk (nonnull (r1PageTable pc)) (\<lambda>table.
            bindk (move_brk H table (USER_BASE_VPN H) currBrk addr) (\<lambda>r.
              if r = ERROR then retk ERROR
              else bindk (upd_pcb c (\<lambda>pc. pc\<lparr>brk := Some addr\<rparr>)) (\<lambda>_. retk SUCCESS))))))"

definition SetKernelBrk :: "hw \<Rightarrow> nat \<Rightarrow> rc kernel" where
  "SetKernelBrk H addr =
     bindk (getk (\<lambda>s. (REG_VM_ENABLE s, currKernelBrk s, kernelDataEnd s, REG_PTBR0 s))) (\<lambda>(isVM, currBrk, dataEnd, r0PageTable).
       if addr \<ge> KERNEL_STACK_BASE H then retk ERROR
       else if addr < dataEnd then retk ERROR
       else bindk (if isVM then move_brk H r0PageTable (KERNEL_BASE_VPN H) currBrk addr else retk SUCCESS) (\<lambda>r.
              if r = ERROR then retk ERROR
              else bindk (modk (\<lambda>s. s\<lparr>currKernelBrk := addr\<rparr>)) (\<lambda>_. retk SUCCESS)))"

definition SetKernelData :: "nat \<Rightarrow> nat \<Rightarrow> unit kernel" where
  "SetKernelData dataStart dataEnd =
     modk (\<lambda>s. s\<lparr>kernelDataStart := dataStart, kernelDataEnd := dataEnd, currKernelBrk := dataEnd\<rparr>)"

end
