(* ===== verification/GeneralCalls.thy ===== *)
theory GeneralCalls
  imports SyncObjects Brk
begin

text \<open>
  The process system calls of \<^verbatim>\<open>GeneralKernelCalls.c\<close> and the checks on user buffers and strings.
  Loading a program is a parameter here (\<open>load\<close>), supplied by \<open>LoadProgram\<close>.
\<close>

section \<open>Checking user memory\<close>

text \<open>The entry for a page of either region, as both checks look it up.\<close>

definition entry_of_vpn :: "hw \<Rightarrow> kstate \<Rightarrow> nat \<Rightarrow> ptr option" where
  "entry_of_vpn H s vpn =
     (if vpn < MAX_PT_LEN H then Some (REG_PTBR0 s + (vpn - KERNEL_BASE_VPN H) * SIZEOF_PTE H)
      else if vpn < MAX_PT_LEN H * 2 then Some (REG_PTBR1 s + (vpn - USER_BASE_VPN H) * SIZEOF_PTE H)
      else None)"

text \<open>
  The loop of \<^verbatim>\<open>isValidBuffer\<close>: one entry for every started \<^verbatim>\<open>PAGESIZE\<close> of the remaining
  length. The number of rounds is known when the loop starts.
\<close>

primrec buffer_loop :: "hw \<Rightarrow> prot_flag set \<Rightarrow> nat \<Rightarrow> ptr \<Rightarrow> bool kernel" where
  "buffer_loop H prot 0 ptep = retk True"
| "buffer_loop H prot (Suc n) ptep =
     bindk (fetch ptes ptep) (\<lambda>e.
       if \<not> pte_valid e then retk False
       else if \<not> prot \<subseteq> pte_prot e then retk False
       else buffer_loop H prot n (ptep + SIZEOF_PTE H))"

definition isValidBuffer :: "hw \<Rightarrow> nat \<Rightarrow> int \<Rightarrow> prot_flag set \<Rightarrow> bool kernel" where
  "isValidBuffer H buffer len prot =
     (if buffer = 0 then retk False
      else if len \<le> 0 then retk True
      else bindk (getk (\<lambda>s. entry_of_vpn H s (vpn_of H buffer))) (\<lambda>p.
        case p of
          None \<Rightarrow> retk False
        | Some ptep \<Rightarrow> buffer_loop H prot ((nat len + PAGESIZE H - 1) div PAGESIZE H) ptep))"

text \<open>The inner loop of \<^verbatim>\<open>isValidString\<close>: look for the terminating null in \<open>n\<close> characters.\<close>

primrec scan_nul :: "hw \<Rightarrow> nat \<Rightarrow> nat \<Rightarrow> bool kernel" where
  "scan_nul H 0 p = retk False"
| "scan_nul H (Suc n) p =
     bindk (copyin H p 1) (\<lambda>b. if b = [0] then retk True else scan_nul H n (Suc p))"

text \<open>The outer loop. The same entry is tested in every round.\<close>

primrec string_loop :: "hw \<Rightarrow> ptr \<Rightarrow> nat \<Rightarrow> nat \<Rightarrow> nat \<Rightarrow> bool kernel" where
  "string_loop H ptep 0 currChar nextPageBase = retk False"
| "string_loop H ptep (Suc n) currChar nextPageBase =
     bindk (fetch ptes ptep) (\<lambda>e.
       if \<not> pte_valid e \<or> PROT_READ \<notin> pte_prot e then retk False
       else bindk (scan_nul H (nextPageBase - currChar) currChar) (\<lambda>found.
         if found then retk True
         else string_loop H ptep n nextPageBase (nextPageBase + PAGESIZE H)))"

definition isValidString :: "hw \<Rightarrow> nat \<Rightarrow> bool kernel" where
  "isValidString H str =
     (if str = 0 then retk False
      else let base = DOWN_TO_PAGE H str; vpn = vpn_of H base in
        bindk (getk (\<lambda>s. entry_of_vpn H s vpn)) (\<lambda>p.
          case p of
            None \<Rightarrow> retk False
          | Some ptep \<Rightarrow>
              string_loop H ptep ((if vpn < MAX_PT_LEN H then MAX_PT_LEN H else MAX_PT_LEN H * 2) - vpn)
                str (base + PAGESIZE H)))"

section \<open>Fork\<close>

text \<open>The loop that gives the child a copy of every valid page of the parent.\<close>

definition copy_r1_pages :: "hw \<Rightarrow> ptr \<Rightarrow> ptr \<Rightarrow> rc kernel" where
  "copy_r1_pages H parentTable childTable =
     bindk (getk (\<lambda>s. (tempPtep s, tempVAddr s))) (\<lambda>(tp, tv).
       foldrc (\<lambda>i. bindk (fetch ptes (parentTable + i * SIZEOF_PTE H)) (\<lambda>e.
                 if pte_valid e then
                   bindk getFramek (\<lambda>f.
                     case f of
                       None \<Rightarrow> retk ERROR
                     | Some x \<Rightarrow>
                         bindk (setPageTableEntry H tp True {PROT_WRITE} x) (\<lambda>_.
                         bindk (memmovek H tv (VMEM_1_BASE H + i * PAGESIZE H) (PAGESIZE H)) (\<lambda>_.
                         bindk (setPageTableEntryNoFlush (childTable + i * SIZEOF_PTE H) True (pte_prot e) x) (\<lambda>_.
                           retk SUCCESS))))
                 else retk SUCCESS))
              [0..<MAX_PT_LEN H])"

text \<open>What \<^verbatim>\<open>KernelFork\<close> returns to a process that comes out of \<^verbatim>\<open>forkProcess\<close>.\<close>

definition fork_return :: "ptr \<Rightarrow> ptr \<Rightarrow> rc kernel" where
  "fork_return parentPCB childPCB =
     bindk (getk currPCB) (\<lambda>c. bindk (get_pcb c) (\<lambda>cc. bindk (get_pcb parentPCB) (\<lambda>pp.
       bindk (get_pcb childPCB) (\<lambda>ch.
         retk (if pid cc = pid pp then RC (pid ch) else if pid cc = pid ch then SUCCESS else ERROR)))))"

definition set_children :: "ptr \<Rightarrow> ptr HashMap option \<Rightarrow> kstate \<Rightarrow> kstate" where
  "set_children p m s =
     (case pcbs s p of None \<Rightarrow> s | Some c \<Rightarrow> s\<lparr>pcbs := (pcbs s)(p \<mapsto> c\<lparr>childrenMap := m\<rparr>)\<rparr>)"

definition get_children :: "ptr \<Rightarrow> kstate \<Rightarrow> ptr HashMap option" where
  "get_children p s = (case pcbs s p of None \<Rightarrow> None | Some c \<Rightarrow> childrenMap c)"

definition KernelFork :: "hw \<Rightarrow> rc kernel" where
  "KernelFork H =
     bindk (getk currPCB) (\<lambda>parentPCB.
     bindk (initPCB H) (\<lambda>m.
       case m of
         None \<Rightarrow> retk ERROR
       | Some childPCB \<Rightarrow>
           bindk (get_pcb parentPCB) (\<lambda>pp.
           bindk malloc_okk (\<lambda>ok.
           bindk (nonnull (uctxt pp)) (\<lambda>uc.
           bindk (upd_pcb childPCB (\<lambda>c. c\<lparr>kctxt := (if ok then Some KStart else None), uctxt := Some uc,
                    brk := brk pp\<rparr>)) (\<lambda>_.
           bindk (get_pcb childPCB) (\<lambda>ch.
           bindk (nonnull (r1PageTable pp)) (\<lambda>parentTable.
           bindk (nonnull (r1PageTable ch)) (\<lambda>childTable.
           bindk (copy_r1_pages H parentTable childTable) (\<lambda>r.
             if r = ERROR then retk ERROR else
             bindk (bindk (getk tempPtep) (\<lambda>tp. setPageTableEntry H tp False {} 0)) (\<lambda>_.
             bindk (upd_pcb childPCB (\<lambda>c. c\<lparr>parent := Some parentPCB\<rparr>)) (\<lambda>_.
             bindk (hm_insertk (get_children parentPCB) (set_children parentPCB) (pid ch) childPCB) (\<lambda>_.
             bindk (upd_pcb parentPCB (\<lambda>c. c\<lparr>numChildren := numChildren c + 1\<rparr>)) (\<lambda>_.
             bindk (forkProcess H (KFork parentPCB childPCB) childPCB) (\<lambda>r.
               if r = ERROR then retk ERROR else fork_return parentPCB childPCB)))))))))))))))"

section \<open>Exec, exit, wait and the others\<close>

text \<open>\<^verbatim>\<open>ERROR\<close> is \<^verbatim>\<open>-1\<close> when it is used as a number.\<close>

definition ERROR_CODE :: int where
  "ERROR_CODE = -1"

definition KernelExit :: "hw \<Rightarrow> int \<Rightarrow> unit kernel" where
  "KernelExit H status =
     bindk (getk (\<lambda>s. (currPCB s, initPid s))) (\<lambda>(c, ip). bindk (get_pcb c) (\<lambda>pc.
       if pid pc = ip then haltk
       else bindk (exitProcess H status) (\<lambda>r. if r = ERROR then haltk else retk ())))"

text \<open>
  The argument check of \<^verbatim>\<open>KernelExec\<close>: strings until a null pointer. The pointers are read from
  memory, so the loop ends at the latest at the end of the address space; \<open>fuel\<close> bounds it.
\<close>

primrec check_args :: "hw \<Rightarrow> nat \<Rightarrow> nat \<Rightarrow> bool kernel" where
  "check_args H 0 argvec = faultk HANG"
| "check_args H (Suc fuel) argvec =
     bindk (load_ptr H argvec) (\<lambda>a.
       if a = 0 then retk True
       else bindk (isValidString H a) (\<lambda>ok.
         if \<not> ok then retk False else check_args H fuel (argvec + SIZEOF_PTR H)))"

definition KernelExec :: "hw \<Rightarrow> nat \<Rightarrow> (nat \<Rightarrow> nat \<Rightarrow> ptr \<Rightarrow> rc kernel) \<Rightarrow> nat \<Rightarrow> nat \<Rightarrow> rc kernel" where
  "KernelExec H fuel load filename argvec =
     bindk (isValidString H filename) (\<lambda>ok. if \<not> ok then retk ERROR else
     bindk (check_args H fuel argvec) (\<lambda>ok. if \<not> ok then retk ERROR else
     bindk (getk currPCB) (\<lambda>c.
     bindk (load filename argvec c) (\<lambda>loadProgramStatus.
     bindk (if loadProgramStatus = KILL then KernelExit H ERROR_CODE else retk ()) (\<lambda>_.
       if loadProgramStatus = ERROR then retk ERROR
       else bindk execProcess (\<lambda>r. retk (if r = ERROR then ERROR else SUCCESS)))))))"

text \<open>What is left of \<^verbatim>\<open>KernelWait\<close> once there should be a zombie.\<close>

definition wait_collect :: "hw \<Rightarrow> nat \<Rightarrow> rc kernel" where
  "wait_collect H status_ptr =
     bindk (getk currPCB) (\<lambda>c. bindk (get_pcb c) (\<lambda>pc.
     bindk (upd_pcb c (\<lambda>x. x\<lparr>zombieQ := snd (deq_q (zombieQ pc))\<rparr>)) (\<lambda>_.
       case fst (deq_q (zombieQ pc)) of
         None \<Rightarrow> retk ERROR
       | Some z \<Rightarrow> bindk (store_int H status_ptr (exit_status z)) (\<lambda>_. retk (RC (z_pid z))))))"

definition KernelWait :: "hw \<Rightarrow> nat \<Rightarrow> rc kernel" where
  "KernelWait H status_ptr =
     (if getAddressRegion H status_ptr \<noteq> 1 then retk ERROR else
      bindk (getAddressProt H status_ptr 1) (\<lambda>prot.
        if prot \<noteq> Some {PROT_READ, PROT_WRITE} then retk ERROR else
        bindk (getk currPCB) (\<lambda>c. bindk (get_pcb c) (\<lambda>pc.
          if numChildren pc \<le> 0 then retk ERROR
          else if peek_q (zombieQ pc) = None then
            bindk (blockProcess H (KWait status_ptr)) (\<lambda>r. if r = ERROR then haltk else wait_collect H status_ptr)
          else wait_collect H status_ptr))))"

definition KernelGetPid :: "rc kernel" where
  "KernelGetPid = bindk (getk currPCB) (\<lambda>c. bindk (get_pcb c) (\<lambda>pc. retk (RC (pid pc))))"

definition KernelDelay :: "hw \<Rightarrow> int \<Rightarrow> rc kernel" where
  "KernelDelay H clock_ticks =
     (if clock_ticks \<noteq> 0 then
        (if clock_ticks < 0 then retk ERROR
         else bindk (sleepProcess H KDelay clock_ticks) (\<lambda>r. retk (if r = ERROR then ERROR else SUCCESS)))
      else retk SUCCESS)"

end
