(* ===== verification/Tty.thy ===== *)
theory Tty
  imports GeneralCalls
begin

text \<open>
  Terminals: the receive buffers of \<^verbatim>\<open>TtyBuffer.c\<close> and the system calls of
  \<^verbatim>\<open>TtyKernelCalls.c\<close>. The buffers share one kernel page; \<^verbatim>\<open>TtyReceive\<close> and
  \<^verbatim>\<open>TtyTransmit\<close> are hardware calls: the line received is an argument of \<open>writeBuffer\<close>, the
  batches sent are appended to \<open>tty_out\<close>.
\<close>

section \<open>Receive buffers\<close>

definition TOTAL_READ_BUFFER_PAGES :: nat where
  "TOTAL_READ_BUFFER_PAGES = 1"

definition TTY_READ_BUFFER_SIZE :: "hw \<Rightarrow> nat" where
  "TTY_READ_BUFFER_SIZE H = TOTAL_READ_BUFFER_PAGES * PAGESIZE H div NUM_TERMINALS H"

definition initBuffers :: "hw \<Rightarrow> rc kernel" where
  "initBuffers H =
     bindk (getk (\<lambda>s. (tempVAddr s, tempPtep s))) (\<lambda>(tv, tp).
     bindk (foldk (\<lambda>i. bindk getFramek (\<lambda>f.
              case f of
                None \<Rightarrow> haltk
              | Some x \<Rightarrow> setPageTableEntry H (tp - TOTAL_READ_BUFFER_PAGES * SIZEOF_PTE H + i * SIZEOF_PTE H) True
                            {PROT_READ, PROT_WRITE} x))
            [0..<TOTAL_READ_BUFFER_PAGES]) (\<lambda>_.
     bindk (modk (\<lambda>s. s\<lparr>ttyBufs := []\<rparr>)) (\<lambda>_.
       foldrc (\<lambda>i. bindk malloc_okk (\<lambda>ok.
                 if \<not> ok then retk ERROR else
                 bindk (modk (\<lambda>s. s\<lparr>ttyBufs := ttyBufs s @
                     [\<lparr>tty_base = tv - TOTAL_READ_BUFFER_PAGES * PAGESIZE H + i * TTY_READ_BUFFER_SIZE H,
                       tty_numBytesWritten = 0, isLineReady = False\<rparr>]\<rparr>)) (\<lambda>_. retk SUCCESS)))
              [0..<NUM_TERMINALS H])))"

definition get_ttyBuf :: "int \<Rightarrow> ttyBuf_t kernel" where
  "get_ttyBuf tty_id = bindk (getk ttyBufs) (\<lambda>bs. nthk bs tty_id)"

definition upd_ttyBuf :: "int \<Rightarrow> (ttyBuf_t \<Rightarrow> ttyBuf_t) \<Rightarrow> unit kernel" where
  "upd_ttyBuf tty_id f =
     bindk (get_ttyBuf tty_id) (\<lambda>b. modk (\<lambda>s. s\<lparr>ttyBufs := (ttyBufs s)[nat tty_id := f b]\<rparr>))"

text \<open>\<open>line\<close> is what \<^verbatim>\<open>TtyReceive\<close> stores, \<open>lenWithNull\<close> what it returns.\<close>

definition writeBuffer :: "hw \<Rightarrow> byte list \<Rightarrow> int \<Rightarrow> int \<Rightarrow> rc kernel" where
  "writeBuffer H line lenWithNull tty_id =
     bindk (get_ttyBuf tty_id) (\<lambda>b.
     bindk (copyout H (tty_base b) line) (\<lambda>_.
       if lenWithNull > 0 then
         bindk (upd_ttyBuf tty_id (\<lambda>b. b\<lparr>tty_numBytesWritten := lenWithNull - 1, isLineReady := True\<rparr>)) (\<lambda>_.
         bindk (unblockReader tty_id) (\<lambda>_. retk SUCCESS))
       else
         bindk (upd_ttyBuf tty_id (\<lambda>b. b\<lparr>tty_numBytesWritten := 0, isLineReady := False\<rparr>)) (\<lambda>_. retk SUCCESS)))"

text \<open>
  The part of \<^verbatim>\<open>readBuffer\<close> after the loop. A count that is negative as a C integer becomes a huge
  size; no terminal buffer has one.
\<close>

definition read_line :: "hw \<Rightarrow> int \<Rightarrow> nat \<Rightarrow> int \<Rightarrow> rc kernel" where
  "read_line H tty_id buf len =
     bindk (get_ttyBuf tty_id) (\<lambda>b.
       if len < tty_numBytesWritten b then
         bindk (memmovek H buf (tty_base b) (nat len)) (\<lambda>_.
         let numRemainingBytes = tty_numBytesWritten b - len in
         bindk (memmovek H (tty_base b) (tty_base b + nat len) (nat numRemainingBytes)) (\<lambda>_.
         bindk (upd_ttyBuf tty_id (\<lambda>b. b\<lparr>tty_numBytesWritten := numRemainingBytes\<rparr>)) (\<lambda>_.
         bindk (unblockReader tty_id) (\<lambda>r. retk (if r = ERROR then ERROR else RC len)))))
       else if tty_numBytesWritten b < 0 then faultk OUT_OF_BOUNDS
       else
         bindk (memmovek H buf (tty_base b) (nat (tty_numBytesWritten b))) (\<lambda>_.
         bindk (upd_ttyBuf tty_id (\<lambda>b. b\<lparr>tty_numBytesWritten := 0, isLineReady := False\<rparr>)) (\<lambda>_.
           retk (RC (tty_numBytesWritten b)))))"

text \<open>\<^verbatim>\<open>while (ttyBuf->isLineReady == 0)\<close>: tested at the call and after every wake-up.\<close>

definition readBuffer :: "hw \<Rightarrow> int \<Rightarrow> nat \<Rightarrow> int \<Rightarrow> rc kernel" where
  "readBuffer H tty_id buf len =
     bindk (get_ttyBuf tty_id) (\<lambda>b.
       if \<not> isLineReady b then blockReader H (KTtyRead tty_id buf len) tty_id
       else read_line H tty_id buf len)"

definition KernelTtyRead :: "hw \<Rightarrow> int \<Rightarrow> nat \<Rightarrow> int \<Rightarrow> rc kernel" where
  "KernelTtyRead H tty_id buf len =
     (if buf < VMEM_1_BASE H then retk ERROR
      else if len < 0 then retk ERROR
      else if len = 0 then retk SUCCESS
      else bindk (isValidBuffer H buf len {PROT_WRITE}) (\<lambda>ok.
        if \<not> ok then retk ERROR else readBuffer H tty_id buf len))"

section \<open>Transmission\<close>

definition TtyTransmit :: "int \<Rightarrow> byte list \<Rightarrow> unit kernel" where
  "TtyTransmit tty_id batch = modk (\<lambda>s. s\<lparr>tty_out := tty_out s @ [(tty_id, batch)]\<rparr>)"

text \<open>
  The loop that sends the batches. \<open>r0Buf\<close> is the kernel copy of the user's buffer. When
  \<^verbatim>\<open>waitTransmitter\<close> comes back directly the loop simply goes on. Every round sends at least one
  byte, so \<open>len\<close> rounds are enough.
\<close>

primrec transmit_loop :: "hw \<Rightarrow> nat \<Rightarrow> int \<Rightarrow> byte list \<Rightarrow> int \<Rightarrow> int \<Rightarrow> rc kernel" where
  "transmit_loop H 0 tty_id r0Buf len bytesTransmitted = faultk HANG"
| "transmit_loop H (Suc fuel) tty_id r0Buf len bytesTransmitted =
     (if bytesTransmitted < len then
        let batchSize = min (int (TERMINAL_MAX_LINE H)) (len - bytesTransmitted) in
        bindk (TtyTransmit tty_id (take (nat batchSize) (drop (nat bytesTransmitted) r0Buf))) (\<lambda>_.
        bindk (waitTransmitter H (KTtyBatch tty_id r0Buf len (bytesTransmitted + batchSize)) tty_id) (\<lambda>_.
          transmit_loop H fuel tty_id r0Buf len (bytesTransmitted + batchSize)))
      else bindk (unblockTransmitter tty_id) (\<lambda>_. retk (RC len)))"

text \<open>
  \<^verbatim>\<open>while (isTtyTransmitAvailable(tty_id) == 0) blockTransmitter(tty_id)\<close>. The result of
  \<^verbatim>\<open>blockTransmitter\<close> is ignored, so the loop spins as long as it comes back directly.
\<close>

primrec await_terminal :: "hw \<Rightarrow> nat \<Rightarrow> int \<Rightarrow> byte list \<Rightarrow> int \<Rightarrow> rc kernel" where
  "await_terminal H 0 tty_id r0Buf len = faultk HANG"
| "await_terminal H (Suc fuel) tty_id r0Buf len =
     bindk (isTtyTransmitAvailable tty_id) (\<lambda>free.
       if \<not> free then
         bindk (blockTransmitter H (KTtyAvail tty_id r0Buf len) tty_id) (\<lambda>_.
           await_terminal H fuel tty_id r0Buf len)
       else transmit_loop H (Suc (nat len)) tty_id r0Buf len 0)"

definition KernelTtyWrite :: "hw \<Rightarrow> nat \<Rightarrow> int \<Rightarrow> nat \<Rightarrow> int \<Rightarrow> rc kernel" where
  "KernelTtyWrite H fuel tty_id buf len =
     (if buf < VMEM_1_BASE H then retk ERROR
      else if len < 0 then retk ERROR
      else if len = 0 then retk SUCCESS
      else bindk (isValidBuffer H buf len {PROT_READ}) (\<lambda>ok.
        if \<not> ok then retk ERROR else
        bindk malloc_okk (\<lambda>ok_buf.
          if \<not> ok_buf then faultk NULL_DEREF else
          bindk (copyin H buf (nat len)) (\<lambda>r0Buf. await_terminal H fuel tty_id r0Buf len))))"

end
