(* ===== verification/LoadProgram.thy ===== *)
theory LoadProgram
  imports GeneralCalls
begin

text \<open>
  \<^verbatim>\<open>LoadProgram.c\<close>: replacing the address space of a process by a program file. The file system
  and \<^verbatim>\<open>LoadInfo\<close> belong to the machine; the executable is a parameter: \<open>None\<close> when
  \<^verbatim>\<open>open\<close> fails, otherwise what \<^verbatim>\<open>LoadInfo\<close> says of it and what \<^verbatim>\<open>read\<close> delivers at an
  offset of the file.
\<close>

record load_info =
  li_entry :: nat
  t_vaddr :: nat
  t_npg :: nat
  t_faddr :: nat
  id_vaddr :: nat
  id_npg :: nat
  id_faddr :: nat
  id_end :: nat
  ud_npg :: nat
  ud_end :: nat

record executable =
  exe_info :: "load_info option"
  exe_read :: "nat \<Rightarrow> nat \<Rightarrow> byte list"

section \<open>Arguments\<close>

text \<open>\<^verbatim>\<open>strlen\<close> with the characters: the bytes up to the terminating null.\<close>

primrec load_string :: "hw \<Rightarrow> nat \<Rightarrow> nat \<Rightarrow> byte list kernel" where
  "load_string H 0 p = faultk HANG"
| "load_string H (Suc fuel) p =
     bindk (copyin H p 1) (\<lambda>b.
       if b = [0] then retk [] else bindk (load_string H fuel (Suc p)) (\<lambda>bs. retk (b @ bs)))"

primrec load_args :: "hw \<Rightarrow> nat \<Rightarrow> nat \<Rightarrow> byte list list kernel" where
  "load_args H 0 args = faultk HANG"
| "load_args H (Suc fuel) args =
     bindk (load_ptr H args) (\<lambda>a.
       if a = 0 then retk []
       else bindk (load_string H (VMEM_1_LIMIT H) a) (\<lambda>str.
            bindk (load_args H fuel (args + SIZEOF_PTR H)) (\<lambda>rest. retk (str # rest))))"

text \<open>\<^verbatim>\<open>size\<close>: every argument with its null.\<close>

definition args_size :: "byte list list \<Rightarrow> nat" where
  "args_size args = sum_list (map (\<lambda>a. length a + 1) args)"

text \<open>The positions computed from the size of the arguments: \<^verbatim>\<open>cp\<close>, \<^verbatim>\<open>cpp\<close> and the stack pointer.\<close>

definition arg_cp :: "hw \<Rightarrow> nat \<Rightarrow> nat" where
  "arg_cp H argsize = VMEM_1_LIMIT H - argsize"

definition arg_cpp :: "hw \<Rightarrow> nat \<Rightarrow> nat \<Rightarrow> nat" where
  "arg_cpp H argsize argcount =
     (arg_cp H argsize - (argcount + 3 + POST_ARGV_NULL_SPACE H) * SIZEOF_PTR H) div 8 * 8"

definition arg_sp :: "hw \<Rightarrow> nat \<Rightarrow> nat \<Rightarrow> nat" where
  "arg_sp H argsize argcount = arg_cpp H argsize argcount - INITIAL_STACK_FRAME_SIZE H"

text \<open>\<^verbatim>\<open>*cpp++ = cp; strcpy(cp, ...); cp += strlen(cp) + 1\<close> for each argument.\<close>

fun store_args :: "hw \<Rightarrow> nat \<Rightarrow> nat \<Rightarrow> byte list list \<Rightarrow> nat kernel" where
  "store_args H cpp cp [] = retk cpp"
| "store_args H cpp cp (a # as) =
     bindk (store_int H cpp (int cp)) (\<lambda>_.
     bindk (copyout H cp (a @ [0])) (\<lambda>_.
       store_args H (cpp + SIZEOF_PTR H) (cp + length a + 1) as))"

section \<open>The address space\<close>

definition free_region1 :: "hw \<Rightarrow> ptr \<Rightarrow> unit kernel" where
  "free_region1 H table =
     foldk (\<lambda>i. bindk (fetch ptes (table + i * SIZEOF_PTE H)) (\<lambda>e.
              if pte_valid e
              then bindk (freeFramek (pte_pfn e)) (\<lambda>_. invalidatePageTableEntry H (table + i * SIZEOF_PTE H))
              else retk ()))
           [0..<MAX_PT_LEN H]"

text \<open>\<^verbatim>\<open>(vaddr - VMEM_1_BASE) >> PAGESHIFT\<close>, and the entry with that index.\<close>

definition r1_index :: "hw \<Rightarrow> nat \<Rightarrow> int" where
  "r1_index H vaddr = (int vaddr - int (VMEM_1_BASE H)) div 2 ^ PAGESHIFT H"

definition entry_nth :: "hw \<Rightarrow> ptr \<Rightarrow> int \<Rightarrow> ptr kernel" where
  "entry_nth H table i = (if 0 \<le> i then retk (table + nat i * SIZEOF_PTE H) else faultk OUT_OF_BOUNDS)"

text \<open>A loop that maps \<open>n\<close> pages from entry \<open>first\<close> on.\<close>

definition map_pages :: "hw \<Rightarrow> ptr \<Rightarrow> int \<Rightarrow> nat \<Rightarrow> rc kernel" where
  "map_pages H table first n =
     foldrc (\<lambda>i. bindk getFramek (\<lambda>f.
               case f of
                 None \<Rightarrow> retk ERROR
               | Some x \<Rightarrow>
                   bindk (entry_nth H table (first + int i)) (\<lambda>ptep.
                   bindk (setPageTableEntry H ptep True {PROT_READ, PROT_WRITE} x) (\<lambda>_. retk SUCCESS))))
            [0..<n]"

definition protect_text :: "hw \<Rightarrow> ptr \<Rightarrow> int \<Rightarrow> nat \<Rightarrow> unit kernel" where
  "protect_text H table first n =
     foldk (\<lambda>i. bindk (entry_nth H table (first + int i)) (\<lambda>ptep. bindk (fetch ptes ptep) (\<lambda>e.
              setPageTableEntry H ptep (pte_valid e) {PROT_READ, PROT_EXEC} (pte_pfn e))))
           [0..<n]"

text \<open>\<^verbatim>\<open>read(fd, vaddr, n) != n\<close>: the bytes the file delivers are stored; a short read is reported.\<close>

definition read_segment :: "hw \<Rightarrow> executable \<Rightarrow> nat \<Rightarrow> nat \<Rightarrow> nat \<Rightarrow> bool kernel" where
  "read_segment H exe faddr vaddr n =
     (let bs = take n (exe_read exe faddr n) in
      bindk (copyout H vaddr bs) (\<lambda>_. retk (length bs = n)))"

section \<open>Loading\<close>

text \<open>
  From the point where the old address space is given up. Every failure is now \<^verbatim>\<open>KILL\<close>.
\<close>

definition load_segments :: "hw \<Rightarrow> executable \<Rightarrow> load_info \<Rightarrow> ptr \<Rightarrow> ptr \<Rightarrow> nat \<Rightarrow> rc kernel" where
  "load_segments H exe li proc table stack_npg =
     (let text_pg1 = r1_index H (t_vaddr li);
          data_pg1 = r1_index H (id_vaddr li);
          data_npg = id_npg li + ud_npg li in
      bindk (free_region1 H table) (\<lambda>_.
      bindk (map_pages H table text_pg1 (t_npg li)) (\<lambda>r. if r = ERROR then retk KILL else
      bindk (map_pages H table data_pg1 data_npg) (\<lambda>r. if r = ERROR then retk KILL else
      bindk (upd_pcb proc (\<lambda>c. c\<lparr>brk := Some (VMEM_1_BASE H + (data_npg + t_npg li) * PAGESIZE H)\<rparr>)) (\<lambda>_.
      bindk (map_pages H table (int (MAX_PT_LEN H) - int stack_npg) stack_npg) (\<lambda>r. if r = ERROR then retk KILL else
      bindk (read_segment H exe (t_faddr li) (t_vaddr li) (t_npg li * 2 ^ PAGESHIFT H)) (\<lambda>ok. if \<not> ok then retk KILL else
      bindk (read_segment H exe (id_faddr li) (id_vaddr li) (id_npg li * 2 ^ PAGESHIFT H)) (\<lambda>ok. if \<not> ok then retk KILL else
      bindk (protect_text H table text_pg1 (t_npg li)) (\<lambda>_.
      bindk (copyout H (id_end li) (replicate (ud_end li - id_end li) 0)) (\<lambda>_.
        retk SUCCESS))))))))))"

text \<open>The argument list on the new stack.\<close>

definition build_stack :: "hw \<Rightarrow> byte list list \<Rightarrow> unit kernel" where
  "build_stack H args =
     (let argsize = args_size args; argcount = length args; cpp = arg_cpp H argsize argcount in
      bindk (copyout H cpp (replicate (VMEM_1_LIMIT H - cpp) 0)) (\<lambda>_.
      bindk (store_int H cpp (int argcount)) (\<lambda>_.
      bindk (store_args H (cpp + SIZEOF_PTR H) (arg_cp H argsize) args) (\<lambda>cpp'.
      bindk (store_int H cpp' 0) (\<lambda>_.
        store_int H (cpp' + SIZEOF_PTR H) 0)))))"

definition upd_uctxt :: "ptr \<Rightarrow> (UserContext \<Rightarrow> UserContext) \<Rightarrow> unit kernel" where
  "upd_uctxt proc f =
     bindk (get_pcb proc) (\<lambda>c. bindk (nonnull (uctxt c)) (\<lambda>u. upd_pcb proc (\<lambda>c. c\<lparr>uctxt := Some (f u)\<rparr>)))"

text \<open>\<open>get_args\<close> reads the argument strings, from user memory for \<^verbatim>\<open>KernelExec\<close>.\<close>

definition LoadProgram :: "hw \<Rightarrow> executable option \<Rightarrow> byte list list kernel \<Rightarrow> ptr \<Rightarrow> rc kernel" where
  "LoadProgram H file get_args proc =
     (case file of
        None \<Rightarrow> retk ERROR
      | Some exe \<Rightarrow>
          (case exe_info exe of
             None \<Rightarrow> retk ERROR
           | Some li \<Rightarrow>
               if li_entry li < VMEM_1_BASE H then retk ERROR
               else bindk get_args (\<lambda>args.
               let data_pg1 = r1_index H (id_vaddr li);
                   data_npg = id_npg li + ud_npg li;
                   argsize = args_size args; argcount = length args;
                   sp = arg_sp H argsize argcount;
                   stack_npg = vpn_of H (VMEM_1_LIMIT H - DOWN_TO_PAGE H sp) in
               if int stack_npg + data_pg1 + int data_npg \<ge> int (MAX_PT_LEN H) then retk ERROR else
               bindk (upd_uctxt proc (\<lambda>u. u\<lparr>uc_sp := sp, uc_ebp := sp\<rparr>)) (\<lambda>_.
               bindk malloc_okk (\<lambda>ok. if \<not> ok then retk KILL else
               bindk (get_pcb proc) (\<lambda>pc.
               bindk (nonnull (r1PageTable pc)) (\<lambda>table.
               bindk (load_segments H exe li proc table stack_npg) (\<lambda>r. if r \<noteq> SUCCESS then retk r else
               bindk (upd_uctxt proc (\<lambda>u. u\<lparr>uc_pc := li_entry li\<rparr>)) (\<lambda>_.
               bindk (build_stack H args) (\<lambda>_. retk SUCCESS))))))))))"

text \<open>\<^verbatim>\<open>LoadIdle\<close>: one stack page and the entry point \<open>doIdle\<close>, the address of \<^verbatim>\<open>DoIdle\<close>.\<close>

definition LoadIdle :: "hw \<Rightarrow> nat \<Rightarrow> ptr \<Rightarrow> rc kernel" where
  "LoadIdle H doIdle idlePCB =
     bindk (get_pcb idlePCB) (\<lambda>pc. bindk (nonnull (r1PageTable pc)) (\<lambda>table.
     bindk getFramek (\<lambda>f.
       case f of
         None \<Rightarrow> retk ERROR
       | Some x \<Rightarrow>
           bindk (setPageTableEntryNoFlush (table + (MAX_PT_LEN H - 1) * SIZEOF_PTE H) True {PROT_READ, PROT_WRITE} x) (\<lambda>_.
           let sp = arg_sp H 0 0 in
           bindk (upd_uctxt idlePCB (\<lambda>u. u\<lparr>uc_sp := sp, uc_pc := doIdle, uc_ebp := sp\<rparr>)) (\<lambda>_.
             retk SUCCESS)))))"

end
