(* ===== verification/Traps.thy ===== *)
theory Traps
  imports SyncCalls Tty LoadProgram
begin

text \<open>
  The trap handlers of \<^verbatim>\<open>TrapHandlers.c\<close> and the boot code of \<^verbatim>\<open>Kernel.c\<close>. What lies
  outside the kernel is a parameter record: the numbering of the system calls, the file system, the
  lines the terminals deliver. \<open>resume\<close> says how a process goes on from the kernel context it was
  switched out with; a machine step is a trap taken in user mode or such a continuation.
\<close>

section \<open>The outside\<close>

datatype syscall_code =
    YALNIX_FORK | YALNIX_EXEC | YALNIX_EXIT | YALNIX_WAIT | YALNIX_GETPID | YALNIX_BRK | YALNIX_DELAY
  | YALNIX_RECLAIM | YALNIX_TTY_READ | YALNIX_TTY_WRITE
  | YALNIX_LOCK_INIT | YALNIX_LOCK_ACQUIRE | YALNIX_LOCK_RELEASE
  | YALNIX_CVAR_INIT | YALNIX_CVAR_SIGNAL | YALNIX_CVAR_BROADCAST | YALNIX_CVAR_WAIT
  | YALNIX_PIPE_INIT | YALNIX_PIPE_READ | YALNIX_PIPE_WRITE

record env =
  decode_call :: "int \<Rightarrow> syscall_code option"
  open_file :: "byte list \<Rightarrow> executable option"
  env_fuel :: nat

text \<open>A register as a C integer is its value; as a pointer it is the value modulo the address range.\<close>

definition reg :: "UserContext \<Rightarrow> nat \<Rightarrow> int kernel" where
  "reg u i = nthk (uc_regs u) (int i)"

definition reg_ptr :: "UserContext \<Rightarrow> nat \<Rightarrow> nat kernel" where
  "reg_ptr u i = bindk (reg u i) (\<lambda>v. retk (nat (v mod 2 ^ 32)))"

definition rc_value :: "rc \<Rightarrow> int" where
  "rc_value r = (case r of ERROR \<Rightarrow> ERROR_CODE | RC n \<Rightarrow> n)"

text \<open>\<^verbatim>\<open>(uctxt->regs)[0] = return_code\<close> in the trap frame of the running process.\<close>

definition finish_call :: "rc \<Rightarrow> unit kernel" where
  "finish_call r = modk (\<lambda>s. s\<lparr>trapFrame := (trapFrame s)(currPCB s :=
     (trapFrame s (currPCB s))\<lparr>uc_regs := (uc_regs (trapFrame s (currPCB s)))[0 := rc_value r]\<rparr>)\<rparr>)"

section \<open>System calls\<close>

definition load_exec :: "env \<Rightarrow> hw \<Rightarrow> nat \<Rightarrow> nat \<Rightarrow> ptr \<Rightarrow> rc kernel" where
  "load_exec E H filename argvec proc =
     bindk (load_string H (VMEM_1_LIMIT H) filename) (\<lambda>name.
       LoadProgram H (open_file E name) (load_args H (env_fuel E) argvec) proc)"

definition dispatch_call :: "env \<Rightarrow> hw \<Rightarrow> UserContext \<Rightarrow> syscall_code \<Rightarrow> rc kernel" where
  "dispatch_call E H u code =
     (case code of
        YALNIX_FORK \<Rightarrow> KernelFork H
      | YALNIX_EXEC \<Rightarrow> bindk (reg_ptr u 0) (\<lambda>a. bindk (reg_ptr u 1) (\<lambda>b. KernelExec H (env_fuel E) (load_exec E H) a b))
      | YALNIX_EXIT \<Rightarrow> bindk (reg u 0) (\<lambda>a. bindk (KernelExit H a) (\<lambda>_. retk SUCCESS))
      | YALNIX_WAIT \<Rightarrow> bindk (reg_ptr u 0) (\<lambda>a. KernelWait H a)
      | YALNIX_GETPID \<Rightarrow> KernelGetPid
      | YALNIX_BRK \<Rightarrow> bindk (reg_ptr u 0) (\<lambda>a. KernelBrk H a)
      | YALNIX_DELAY \<Rightarrow> bindk (reg u 0) (\<lambda>a. KernelDelay H a)
      | YALNIX_RECLAIM \<Rightarrow> bindk (reg u 0) (\<lambda>a. KernelReclaim a)
      | YALNIX_TTY_READ \<Rightarrow> bindk (reg u 0) (\<lambda>a. bindk (reg_ptr u 1) (\<lambda>b. bindk (reg u 2) (\<lambda>c. KernelTtyRead H a b c)))
      | YALNIX_TTY_WRITE \<Rightarrow> bindk (reg u 0) (\<lambda>a. bindk (reg_ptr u 1) (\<lambda>b. bindk (reg u 2) (\<lambda>c.
          KernelTtyWrite H (env_fuel E) a b c)))
      | YALNIX_LOCK_INIT \<Rightarrow> bindk (reg_ptr u 0) (\<lambda>a. KernelLockInit H a)
      | YALNIX_LOCK_ACQUIRE \<Rightarrow> bindk (reg u 0) (\<lambda>a. KernelAcquire H a)
      | YALNIX_LOCK_RELEASE \<Rightarrow> bindk (reg u 0) (\<lambda>a. KernelRelease a)
      | YALNIX_CVAR_INIT \<Rightarrow> bindk (reg_ptr u 0) (\<lambda>a. KernelCvarInit H a)
      | YALNIX_CVAR_SIGNAL \<Rightarrow> bindk (reg u 0) (\<lambda>a. KernelCvarSignal a)
      | YALNIX_CVAR_BROADCAST \<Rightarrow> bindk (reg u 0) (\<lambda>a. KernelCvarBroadcast a)
      | YALNIX_CVAR_WAIT \<Rightarrow> bindk (reg u 0) (\<lambda>a. bindk (reg u 1) (\<lambda>b. KernelCvarWait H a b))
      | YALNIX_PIPE_INIT \<Rightarrow> bindk (reg_ptr u 0) (\<lambda>a. KernelPipeInit H a)
      | YALNIX_PIPE_READ \<Rightarrow> bindk (reg u 0) (\<lambda>a. bindk (reg_ptr u 1) (\<lambda>b. bindk (reg u 2) (\<lambda>c. KernelPipeRead H a b c)))
      | YALNIX_PIPE_WRITE \<Rightarrow> bindk (reg u 0) (\<lambda>a. bindk (reg_ptr u 1) (\<lambda>b. bindk (reg u 2) (\<lambda>c. KernelPipeWrite H a b c))))"

definition handleTrapKernel :: "env \<Rightarrow> hw \<Rightarrow> UserContext \<Rightarrow> unit kernel" where
  "handleTrapKernel E H u =
     (case decode_call E (uc_code u) of
        None \<Rightarrow> haltk
      | Some code \<Rightarrow> bindk (dispatch_call E H u code) finish_call)"

section \<open>Other traps\<close>

definition handleTrapClock :: "hw \<Rightarrow> unit kernel" where
  "handleTrapClock H =
     bindk tickDownSleepers (\<lambda>r. if r = ERROR then haltk else
     bindk (kickProcess H KClock) (\<lambda>r. if r = ERROR then haltk else retk ()))"

definition handleTrapIllegal :: "hw \<Rightarrow> unit kernel" where
  "handleTrapIllegal H = KernelExit H ERROR_CODE"

definition handleTrapMath :: "hw \<Rightarrow> unit kernel" where
  "handleTrapMath H = KernelExit H ERROR_CODE"

text \<open>
  The loop of \<^verbatim>\<open>handleTrapMemory\<close> from the top of region 1 down to the target page. An exit does
  not come back, so nothing follows it.
\<close>

definition grow_stack :: "hw \<Rightarrow> ptr \<Rightarrow> nat \<Rightarrow> unit kernel" where
  "grow_stack H table target =
     foldk (\<lambda>v. bindk (entry_at H table (USER_BASE_VPN H) v) (\<lambda>ptep. bindk (fetch ptes ptep) (\<lambda>e.
              if \<not> pte_valid e then
                bindk getFramek (\<lambda>f.
                  case f of
                    None \<Rightarrow> bindk (KernelExit H ERROR_CODE) (\<lambda>_. faultk UNINIT)
                  | Some x \<Rightarrow> setPageTableEntry H ptep True {PROT_READ, PROT_WRITE} x)
              else retk ())))
           (rev [target..<vpn_of H (VMEM_1_LIMIT H)])"

definition handleTrapMemory :: "hw \<Rightarrow> UserContext \<Rightarrow> unit kernel" where
  "handleTrapMemory H u =
     bindk (getk currPCB) (\<lambda>c. bindk (get_pcb c) (\<lambda>pc.
       case brk pc of
         None \<Rightarrow> faultk UNINIT
       | Some b \<Rightarrow>
           let target = vpn_of H (uc_addr u) in
           bindk (if target \<le> vpn_of H b + 1 then KernelExit H ERROR_CODE else retk ()) (\<lambda>_.
           bindk (nonnull (r1PageTable pc)) (\<lambda>table. grow_stack H table target))))"

definition handleTtyReceive :: "hw \<Rightarrow> byte list \<Rightarrow> int \<Rightarrow> UserContext \<Rightarrow> unit kernel" where
  "handleTtyReceive H line n u =
     bindk (writeBuffer H line n (uc_code u)) (\<lambda>r. if r = ERROR then haltk else retk ())"

definition handleTtyTransmit :: "hw \<Rightarrow> UserContext \<Rightarrow> unit kernel" where
  "handleTtyTransmit H u =
     bindk (signalTransmitter H KTtySignal (uc_code u)) (\<lambda>r. if r = ERROR then haltk else retk ())"

definition handleTrapDisk :: "unit kernel" where
  "handleTrapDisk = haltk"

definition handleNothing :: "unit kernel" where
  "handleNothing = haltk"

text \<open>The interrupt vector; \<open>TRAP_OTHER\<close> stands for the entries above \<^verbatim>\<open>TRAP_DISK\<close>.\<close>

datatype trap =
    TRAP_KERNEL | TRAP_CLOCK | TRAP_ILLEGAL | TRAP_MEMORY | TRAP_MATH
  | TRAP_TTY_RECEIVE "byte list" int | TRAP_TTY_TRANSMIT | TRAP_DISK | TRAP_OTHER

definition interruptVector :: "env \<Rightarrow> hw \<Rightarrow> trap \<Rightarrow> UserContext \<Rightarrow> unit kernel" where
  "interruptVector E H t u =
     (case t of
        TRAP_KERNEL \<Rightarrow> handleTrapKernel E H u
      | TRAP_CLOCK \<Rightarrow> handleTrapClock H
      | TRAP_ILLEGAL \<Rightarrow> handleTrapIllegal H
      | TRAP_MEMORY \<Rightarrow> handleTrapMemory H u
      | TRAP_MATH \<Rightarrow> handleTrapMath H
      | TRAP_TTY_RECEIVE line n \<Rightarrow> handleTtyReceive H line n u
      | TRAP_TTY_TRANSMIT \<Rightarrow> handleTtyTransmit H u
      | TRAP_DISK \<Rightarrow> handleTrapDisk
      | TRAP_OTHER \<Rightarrow> handleNothing)"

section \<open>Continuations\<close>

text \<open>What a process does when it is switched in again, by the kernel context it was saved with.\<close>

definition enter_user :: "unit kernel" where
  "enter_user =
     bindk (getk currPCB) (\<lambda>c. bindk (get_pcb c) (\<lambda>pc. bindk (nonnull (uctxt pc)) (\<lambda>u.
       modk (\<lambda>s. s\<lparr>trapFrame := (trapFrame s)(c := u)\<rparr>))))"

definition resume :: "env \<Rightarrow> hw \<Rightarrow> kcont \<Rightarrow> unit kernel" where
  "resume E H k =
     (case k of
        KStart \<Rightarrow> enter_user
      | KClock \<Rightarrow> retk ()
      | KTtySignal \<Rightarrow> retk ()
      | KDelay \<Rightarrow> finish_call SUCCESS
      | KWait p \<Rightarrow> bindk (wait_collect H p) finish_call
      | KFork p c \<Rightarrow> bindk (fork_return p c) finish_call
      | KAcquire l \<Rightarrow> bindk (acquire_loop H l) finish_call
      | KCvarWait i \<Rightarrow> bindk (cvar_reacquire H i) finish_call
      | KPipeHead p b n \<Rightarrow> bindk (pipe_read_loop H p b n) finish_call
      | KPipeBytes p b n \<Rightarrow> bindk (pipe_read_loop H p b n) finish_call
      | KTtyAvail t d n \<Rightarrow> bindk (await_terminal H (env_fuel E) t d n) finish_call
      | KTtyBatch t d n i \<Rightarrow> bindk (transmit_loop H (Suc (nat n)) t d n i) finish_call
      | KTtyRead t b n \<Rightarrow> bindk (readBuffer H t b n) finish_call)"

section \<open>The machine\<close>

text \<open>
  The processor is running user code of the current process, or it has just been switched into the
  kernel context of the current process.
\<close>

datatype mode = User | Resume

fun after :: "(unit, kstate) outcome \<Rightarrow> (mode \<times> kstate) option" where
  "after (Done u t) = Some (User, t)"
| "after (Switch t) = Some (Resume, t)"
| "after (Halt t) = None"
| "after (Fault e) = None"

text \<open>User code changes its registers and the pages it may write.\<close>

definition user_writes :: "hw \<Rightarrow> kstate \<Rightarrow> (nat \<Rightarrow> nat \<Rightarrow> byte) \<Rightarrow> bool" where
  "user_writes H s m \<longleftrightarrow> (\<forall>f off. m f off \<noteq> pmem s f off \<longrightarrow>
     (\<exists>va. VMEM_1_BASE H \<le> va \<and> va < VMEM_1_LIMIT H \<and> translate H s PROT_WRITE va = Some (f, off)))"

inductive step :: "env \<Rightarrow> hw \<Rightarrow> mode \<times> kstate \<Rightarrow> mode \<times> kstate \<Rightarrow> bool" for E H where
  user_code: "user_writes H s m \<Longrightarrow>
    step E H (User, s) (User, s\<lparr>pmem := m, trapFrame := (trapFrame s)(currPCB s := u)\<rparr>)"
| trap_taken: "after (interruptVector E H t (trapFrame s (currPCB s)) s) = Some s' \<Longrightarrow> step E H (User, s) s'"
| continue: "pcbs s (currPCB s) = Some pc \<Longrightarrow> kctxt pc = Some k \<Longrightarrow> after (resume E H k s) = Some s' \<Longrightarrow>
    step E H (Resume, s) s'"

section \<open>Boot\<close>

text \<open>The loop that fills the region 0 table from the layout of the kernel.\<close>

definition r0_prot :: "hw \<Rightarrow> nat \<Rightarrow> nat \<Rightarrow> nat \<Rightarrow> prot_flag set option" where
  "r0_prot H dataStart currBrk addr =
     (if addr + PAGESIZE H \<le> dataStart then Some {PROT_READ, PROT_EXEC}
      else if addr + PAGESIZE H \<le> currBrk then Some {PROT_READ, PROT_WRITE}
      else if KERNEL_STACK_BASE H < addr + PAGESIZE H then Some {PROT_READ, PROT_WRITE}
      else None)"

definition fill_r0 :: "hw \<Rightarrow> ptr \<Rightarrow> unit kernel" where
  "fill_r0 H table =
     bindk (getk (\<lambda>s. (kernelDataStart s, currKernelBrk s))) (\<lambda>(ds, cb).
       foldk (\<lambda>i. case r0_prot H ds cb (VMEM_0_BASE H + i * PAGESIZE H) of
                    None \<Rightarrow> retk ()
                  | Some p \<Rightarrow> setPageTableEntryNoFlush (table + i * SIZEOF_PTE H) True p
                                (vpn_of H (VMEM_0_BASE H + i * PAGESIZE H)))
             [0..<MAX_PT_LEN H])"

definition enable_vm :: "hw \<Rightarrow> ptr \<Rightarrow> ptr \<Rightarrow> unit kernel" where
  "enable_vm H r0PageTable initR1PageTable =
     modk (\<lambda>s. s\<lparr>REG_PTBR0 := r0PageTable, REG_PTLR0 := MAX_PT_LEN H, REG_PTBR1 := initR1PageTable,
       REG_PTLR1 := MAX_PT_LEN H, REG_VM_ENABLE := True,
       r0StackBasePtep := r0PageTable + (KERNEL_STACK_BASE_VPN H - KERNEL_BASE_VPN H) * SIZEOF_PTE H,
       tempPtep := r0PageTable + (KERNEL_STACK_BASE_VPN H - KERNEL_BASE_VPN H) * SIZEOF_PTE H - SIZEOF_PTE H,
       tempVAddr := KERNEL_STACK_BASE H - PAGESIZE H\<rparr>)"

definition halt_unless :: "bool \<Rightarrow> unit kernel" where
  "halt_unless b = (if b then retk () else haltk)"

definition init_frames_k :: "hw \<Rightarrow> nat \<Rightarrow> unit kernel" where
  "init_frames_k H pmem_size =
     bindk malloc_okk (\<lambda>ok. bindk (getk currKernelBrk) (\<lambda>b.
       let n = pmem_size div PAGESIZE H; res = initFrameList H ok n b in
       bindk (modk (\<lambda>s. s\<lparr>numFrames := n, frameList := snd res\<rparr>)) (\<lambda>_. halt_unless (fst res \<noteq> ERROR))))"

definition KernelStart :: "env \<Rightarrow> hw \<Rightarrow> nat \<Rightarrow> byte list list \<Rightarrow> nat \<Rightarrow> unit kernel" where
  "KernelStart E H doIdle cmd_args pmem_size =
     bindk (initializeRegionPageTable H) (\<lambda>r0. bindk (halt_unless (r0 \<noteq> None)) (\<lambda>_.
     bindk (initializeRegionPageTable H) (\<lambda>r1. bindk (halt_unless (r1 \<noteq> None)) (\<lambda>_.
     bindk (init_frames_k H pmem_size) (\<lambda>_.
     bindk (fill_r0 H (the r0)) (\<lambda>_.
     bindk (enable_vm H (the r0) (the r1)) (\<lambda>_.
     bindk (initBuffers H) (\<lambda>r. bindk (halt_unless (r \<noteq> ERROR)) (\<lambda>_.
     bindk initLockMap (\<lambda>r. bindk (halt_unless (r \<noteq> ERROR)) (\<lambda>_.
     bindk initCvarMap (\<lambda>r. bindk (halt_unless (r \<noteq> ERROR)) (\<lambda>_.
     bindk initPipeMap (\<lambda>r. bindk (halt_unless (r \<noteq> ERROR)) (\<lambda>_.
     bindk (initScheduler H) (\<lambda>r. bindk (halt_unless (r \<noteq> ERROR)) (\<lambda>_.
     bindk (initProcess H) (\<lambda>idle. bindk (halt_unless (idle \<noteq> None)) (\<lambda>_.
     bindk (LoadIdle H doIdle (the idle)) (\<lambda>r. bindk (halt_unless (r \<noteq> ERROR)) (\<lambda>_.
     bindk (initInitProcess H (the r1)) (\<lambda>ip. bindk (halt_unless (ip \<noteq> None)) (\<lambda>_.
     let args = (if cmd_args = [] then [map (\<lambda>c. word_of_nat (of_char c)) ''init''] else cmd_args) in
     bindk (LoadProgram H (open_file E (hd args)) (retk args) (the ip)) (\<lambda>r. bindk (halt_unless (r = SUCCESS)) (\<lambda>_.
     bindk (modk (\<lambda>s. s\<lparr>currPCB := the ip\<rparr>)) (\<lambda>_.
     bindk malloc_okk (\<lambda>ok. bindk (halt_unless ok) (\<lambda>_.
     bindk malloc_okk (\<lambda>ok. bindk (halt_unless ok) (\<lambda>_.
     enter_user))))))))))))))))))))))))))))))"

end
