(* ===== verification/Frames.thy ===== *)
theory Frames
  imports Sleepers
begin

text \<open>
  Frame conditions: \<open>keeps f m\<close> says that the kernel code \<open>m\<close>, however it ends, leaves the
  projection \<open>f\<close> of the state as it was. The rules follow the structure of the code, so that the
  frame condition of an operation is found by applying them. \<open>stays m\<close> says that \<open>m\<close>, when it
  returns to its caller, has not changed the running process; code that only ever leaves by a context
  switch, a halt or a fault (\<open>leaves\<close>) stays trivially.
\<close>

named_theorems keeps_rules \<open>frame rules for kernel code\<close>

definition keeps :: "('s \<Rightarrow> 'b) \<Rightarrow> ('a, 's) kcomp \<Rightarrow> bool" where
  "keeps f m \<longleftrightarrow> (\<forall>s t. (\<forall>x. m s = Done x t \<longrightarrow> f t = f s) \<and> (m s = Switch t \<longrightarrow> f t = f s) \<and>
     (m s = Halt t \<longrightarrow> f t = f s))"

lemma keepsD:
  "keeps f m \<Longrightarrow> m s = Done x t \<Longrightarrow> f t = f s" "keeps f m \<Longrightarrow> m s = Switch t \<Longrightarrow> f t = f s"
  by (auto simp: keeps_def)

lemma keeps_retk [keeps_rules]: "keeps f (retk x)"
  by (simp add: keeps_def retk_def)

lemma keeps_faultk [keeps_rules]: "keeps f (faultk e)"
  by (simp add: keeps_def faultk_def)

lemma keeps_haltk [keeps_rules]: "keeps f haltk"
  by (simp add: keeps_def haltk_def)

lemma keeps_getk [keeps_rules]: "keeps f (getk g)"
  by (simp add: keeps_def getk_def)

lemma keeps_fetch [keeps_rules]: "keeps f (fetch h p)"
  by (simp add: keeps_def fetch_def split: option.splits)

lemma keeps_modk [keeps_rules]: "(\<And>s. f (g s) = f s) \<Longrightarrow> keeps f (modk g)"
  by (simp add: keeps_def modk_def)

lemma keeps_switchk [keeps_rules]: "(\<And>s. f (g s) = f s) \<Longrightarrow> keeps f (switchk g)"
  by (simp add: keeps_def switchk_def)

lemma keeps_liftk [keeps_rules]: "keeps f (liftk r)"
  by (simp add: liftk_def keeps_rules split: sum.splits)

lemma keeps_nonnull [keeps_rules]: "keeps f (nonnull p)"
  by (simp add: nonnull_def keeps_rules split: option.splits)

lemma keeps_bindk [keeps_rules]: "keeps f m \<Longrightarrow> (\<And>x. keeps f (g x)) \<Longrightarrow> keeps f (bindk m g)"
  by (fastforce simp: keeps_def bindk_def split: outcome.splits)

lemma keeps_if [keeps_rules]:
  "(b \<Longrightarrow> keeps f m) \<Longrightarrow> (\<not> b \<Longrightarrow> keeps f n) \<Longrightarrow> keeps f (if b then m else n)"
  by simp

lemma keeps_option [keeps_rules]:
  "(v = None \<Longrightarrow> keeps f m) \<Longrightarrow> (\<And>x. v = Some x \<Longrightarrow> keeps f (g x)) \<Longrightarrow> keeps f (case v of None \<Rightarrow> m | Some x \<Rightarrow> g x)"
  by (cases v) auto

lemma keeps_prod [keeps_rules]: "(\<And>x y. keeps f (g x y)) \<Longrightarrow> keeps f (case v of (x, y) \<Rightarrow> g x y)"
  by (cases v) auto

lemma keeps_Let [keeps_rules]: "keeps f (g v) \<Longrightarrow> keeps f (Let v g)"
  by (simp add: Let_def)

lemma keeps_foldk [keeps_rules]: "(\<And>x. keeps f (g x)) \<Longrightarrow> keeps f (foldk g xs)"
  by (induction xs) (auto intro!: keeps_rules)

lemma keeps_foldrc [keeps_rules]: "(\<And>x. keeps f (g x)) \<Longrightarrow> keeps f (foldrc g xs)"
  by (induction xs) (auto intro!: keeps_rules)

lemma keeps_HashMap_iterate [keeps_rules]:
  assumes "\<And>k x. keeps f (g k x)"
  shows "keeps f (HashMap_iterate get g)"
proof -
  have "keeps f (set_iterate g st)" for st
    unfolding set_iterate_def by (intro keeps_rules assms)
  then show ?thesis unfolding HashMap_iterate_def by (intro keeps_rules)
qed

section \<open>Paging and allocation\<close>

text \<open>Everything below the kernel proper only touches fields of the machine state.\<close>

definition kernel_part :: "kstate \<Rightarrow> kstate" where
  "kernel_part s = s\<lparr>frameList := None, past := \<lparr>pfn = 0, isFree = False\<rparr>, ptes := Map.empty, REG_PTBR1 := 0,
     tlb_log := [], malloc_count := 0\<rparr>"

lemma keeps_mallock: "keeps kernel_part mallock"
  by (simp add: keeps_def mallock_def kernel_part_def)

lemma keeps_malloc_okk: "keeps kernel_part malloc_okk"
  unfolding malloc_okk_def by (intro keeps_rules keeps_mallock)

lemma keeps_getFramek: "keeps kernel_part getFramek"
  by (auto simp: keeps_def getFramek_def kernel_part_def split: sum.splits prod.splits)

lemma keeps_freeFramek: "keeps kernel_part (freeFramek p)"
  by (auto simp: keeps_def freeFramek_def kernel_part_def split: sum.splits)

lemma keeps_setPageTableEntryNoFlush: "keeps kernel_part (setPageTableEntryNoFlush a v p f)"
  unfolding setPageTableEntryNoFlush_def by (intro keeps_rules) (simp add: kernel_part_def)

lemma keeps_flush_pte: "keeps kernel_part (flush_pte H a)"
  unfolding flush_pte_def flushk_def by (intro keeps_rules) (simp add: kernel_part_def)

lemma keeps_setPageTableEntry: "keeps kernel_part (setPageTableEntry H a v p f)"
  unfolding setPageTableEntry_def by (intro keeps_rules keeps_setPageTableEntryNoFlush keeps_flush_pte)

lemma keeps_invalidatePageTableEntry: "keeps kernel_part (invalidatePageTableEntry H a)"
  unfolding invalidatePageTableEntry_def by (intro keeps_rules keeps_flush_pte) (simp add: kernel_part_def)

lemma keeps_initializeRegionPageTable: "keeps kernel_part (initializeRegionPageTable H)"
  unfolding initializeRegionPageTable_def
  by (intro keeps_rules keeps_mallock) (simp add: kernel_part_def)

text \<open>A projection that factors through \<open>kernel_part\<close> is kept by the operations above.\<close>

lemma keeps_via: "keeps g m \<Longrightarrow> (\<And>s. f (g s) = f s) \<Longrightarrow> keeps f m"
  unfolding keeps_def by metis

lemmas keeps_machine = keeps_mallock keeps_malloc_okk keeps_getFramek keeps_freeFramek
  keeps_setPageTableEntryNoFlush keeps_flush_pte keeps_setPageTableEntry keeps_invalidatePageTableEntry
  keeps_initializeRegionPageTable

section \<open>The scheduler and the synchronisation objects\<close>

text \<open>The scheduler never touches a lock, a condition variable or a pipe.\<close>

definition sync_part ::
  "kstate \<Rightarrow> (ptr HashMap option \<times> ptr HashMap option \<times> ptr HashMap option) \<times>
     (ptr \<Rightarrow> lock_t option) \<times> (ptr \<Rightarrow> ptr list option) \<times> (ptr \<Rightarrow> pipe_t option) \<times> int" where
  "sync_part s = ((lockMap s, cvarMap s, pipeMap s), locks s, cvars s, pipes s, nextSyncId s)"

lemma keeps_sync: "keeps kernel_part m \<Longrightarrow> keeps sync_part m"
  by (erule keeps_via) (simp add: sync_part_def kernel_part_def)

lemmas keeps_machine_sync [keeps_rules] = keeps_machine [THEN keeps_sync]

lemma keeps_get_pcb [keeps_rules]: "keeps f (get_pcb p)"
  unfolding get_pcb_def by (intro keeps_rules)

lemma keeps_upd_pcb [keeps_rules]: "keeps sync_part (upd_pcb p g)"
  unfolding upd_pcb_def by (intro keeps_rules) (simp add: sync_part_def)

lemma keeps_enq_ready [keeps_rules]: "keeps sync_part (enq_ready p)"
  unfolding enq_ready_def enqk_def by (intro keeps_rules) (simp add: sync_part_def set_readyQ_def)

lemma keeps_deq_ready [keeps_rules]: "keeps sync_part deq_ready"
  unfolding deq_ready_def deqk_def by (intro keeps_rules) (simp add: sync_part_def set_readyQ_def)

lemma keeps_blockedMap [keeps_rules]:
  "keeps sync_part (hm_insertk blockedMap set_blockedMap key x)" "keeps sync_part (hm_removek blockedMap set_blockedMap key)"
  unfolding hm_insertk_def hm_removek_def by (intro keeps_rules; simp add: sync_part_def set_blockedMap_def)+

lemma keeps_sleepingMap [keeps_rules]:
  "keeps sync_part (hm_insertk sleepingMap set_sleepingMap key x)" "keeps sync_part (hm_removek sleepingMap set_sleepingMap key)"
  unfolding hm_insertk_def hm_removek_def by (intro keeps_rules; simp add: sync_part_def set_sleepingMap_def)+

lemma keeps_switchBetween [keeps_rules]: "keeps sync_part (switchBetween H k old n)"
  unfolding switchBetween_def save_kctxt_def map_kernel_stack_def switch_r1_def flushk_def
  by (intro keeps_rules; simp add: sync_part_def)

lemma keeps_deq_switch [keeps_rules]: "keeps sync_part (deq_switch H k)"
  unfolding deq_switch_def by (intro keeps_rules)

lemma keeps_blockProcess [keeps_rules]: "keeps sync_part (blockProcess H k)"
  unfolding blockProcess_def by (intro keeps_rules)

lemma keeps_unblockProcess [keeps_rules]: "keeps sync_part (unblockProcess p)"
  unfolding unblockProcess_def by (intro keeps_rules)

lemma keeps_sleepProcess [keeps_rules]: "keeps sync_part (sleepProcess H k n)"
  unfolding sleepProcess_def by (intro keeps_rules)

lemma keeps_kickProcess [keeps_rules]: "keeps sync_part (kickProcess H k)"
  unfolding kickProcess_def by (intro keeps_rules)

section \<open>The running process\<close>

named_theorems stays_rules \<open>code that returns without changing the running process\<close>

definition stays :: "'a kernel \<Rightarrow> bool" where
  "stays m \<longleftrightarrow> (\<forall>s x t. m s = Done x t \<longrightarrow> currPCB t = currPCB s)"

definition leaves :: "'a kernel \<Rightarrow> bool" where
  "leaves m \<longleftrightarrow> (\<forall>s x t. m s \<noteq> Done x t)"

lemma staysD: "stays m \<Longrightarrow> m s = Done x t \<Longrightarrow> currPCB t = currPCB s"
  by (simp add: stays_def)

lemma stays_leaves: "leaves m \<Longrightarrow> stays m"
  by (simp add: stays_def leaves_def)

lemma leaves_bindk: "(\<And>x. leaves (f x)) \<Longrightarrow> leaves (bindk m f)"
  by (simp add: leaves_def bindk_eq_Done)

lemma leaves_switchk: "leaves (switchk g)"
  by (simp add: leaves_def switchk_def)

lemma leaves_prod: "(\<And>x y. leaves (f x y)) \<Longrightarrow> leaves (case v of (x, y) \<Rightarrow> f x y)"
  by (cases v) simp

lemma stays_keeps: "keeps currPCB m \<Longrightarrow> stays m"
  by (simp add: stays_def keeps_def)

lemma stays_part: "keeps kernel_part m \<Longrightarrow> stays m"
  by (rule stays_keeps, erule keeps_via) (simp add: kernel_part_def)

lemmas stays_machine [stays_rules] = keeps_machine [THEN stays_part]

lemma stays_basic [stays_rules]:
  "stays (retk x)" "stays (faultk e)" "stays haltk" "stays (getk g)" "stays (fetch h p)" "stays (liftk r)"
  "stays (nonnull v)" "stays (get_pcb p)" "stays (hm_findk gm i)" "stays (nthk xs i)"
  by (intro stays_keeps; simp add: get_pcb_def hm_findk_def nthk_def keeps_rules)+

lemma stays_modk [stays_rules]: "(\<And>s. currPCB (g s) = currPCB s) \<Longrightarrow> stays (modk g)"
  by (simp add: stays_def modk_def)

lemma stays_bindk [stays_rules]: "stays m \<Longrightarrow> (\<And>x. stays (f x)) \<Longrightarrow> stays (bindk m f)"
  by (fastforce simp: stays_def bindk_eq_Done)

lemma stays_cases [stays_rules]:
  "(b \<Longrightarrow> stays m) \<Longrightarrow> (\<not> b \<Longrightarrow> stays n) \<Longrightarrow> stays (if b then m else n)"
  "(v = None \<Longrightarrow> stays m) \<Longrightarrow> (\<And>x. v = Some x \<Longrightarrow> stays (g x)) \<Longrightarrow> stays (case v of None \<Rightarrow> m | Some x \<Rightarrow> g x)"
  "(\<And>x y. stays (h x y)) \<Longrightarrow> stays (case w of (x, y) \<Rightarrow> h x y)"
  "stays (k u) \<Longrightarrow> stays (Let u k)"
  by (auto split: option.splits prod.splits)

lemma stays_loops [stays_rules]:
  "(\<And>x. stays (f x)) \<Longrightarrow> stays (foldk f xs)" "(\<And>x. stays (g x)) \<Longrightarrow> stays (foldrc g xs)"
  by (induction xs) (auto intro!: stays_rules)

lemma stays_HashMap_iterate [stays_rules]: "(\<And>k x. stays (f k x)) \<Longrightarrow> stays (HashMap_iterate get f)"
  unfolding HashMap_iterate_def set_iterate_def by (intro stays_rules)

lemma stays_upd_pcb [stays_rules]: "stays (upd_pcb p f)"
  unfolding upd_pcb_def by (intro stays_rules) simp

lemma stays_enqk [stays_rules]: "(\<And>q s. currPCB (put q s) = currPCB s) \<Longrightarrow> stays (enqk get put x)"
  unfolding enqk_def by (intro stays_rules)

lemma stays_deqk [stays_rules]: "(\<And>q s. currPCB (put q s) = currPCB s) \<Longrightarrow> stays (deqk get put)"
  unfolding deqk_def by (intro stays_rules)

lemma stays_hm_insertk [stays_rules]: "(\<And>m s. currPCB (put m s) = currPCB s) \<Longrightarrow> stays (hm_insertk get put k x)"
  unfolding hm_insertk_def by (intro stays_rules)

lemma stays_hm_removek [stays_rules]: "(\<And>m s. currPCB (put m s) = currPCB s) \<Longrightarrow> stays (hm_removek get put k)"
  unfolding hm_removek_def by (intro stays_rules)

lemma stays_hm_newk [stays_rules]: "stays (hm_newk n)"
  by (auto simp: stays_def hm_newk_def Let_def split: sum.splits)

lemma stays_ready [stays_rules]: "stays (enq_ready p)" "stays deq_ready"
  unfolding enq_ready_def deq_ready_def by (intro stays_rules; simp add: set_readyQ_def)+

lemma stays_switchBetween [stays_rules]: "stays (switchBetween H k old n)"
  unfolding switchBetween_def by (intro stays_leaves leaves_bindk leaves_switchk)

lemma stays_deq_switch [stays_rules]: "stays (deq_switch H k)"
  unfolding deq_switch_def by (intro stays_rules)

lemma stays_blockProcess [stays_rules]: "stays (blockProcess H k)"
  unfolding blockProcess_def by (intro stays_rules) (simp add: set_blockedMap_def)

lemma stays_unblockProcess [stays_rules]: "stays (unblockProcess p)"
  unfolding unblockProcess_def by (intro stays_rules) (simp add: set_blockedMap_def)

end
