(* ===== verification/SyncProps.thy ===== *)
theory SyncProps
  imports SyncCalls Frames
begin

text \<open>
  Properties of the locks, condition variables and pipes. A lock refines an owner with a list of
  waiters, a pipe refines a bounded byte stream; wake-ups follow the order of arrival.
\<close>

section \<open>Locks\<close>

lemma upd_lock_run:
  "locks s lockp = Some l \<Longrightarrow> upd_lock lockp f s = Done () (s\<lparr>locks := (locks s)(lockp \<mapsto> f l)\<rparr>)"
  by (simp add: upd_lock_def kdefs)

lemma sched_ok_locks [simp]: "sched_ok H (s\<lparr>locks := L\<rparr>) = sched_ok H s" "places (s\<lparr>locks := L\<rparr>) = places s"
  by (rule sched_ok_cong; simp)+

lemma sched_ok_cvars [simp]: "sched_ok H (s\<lparr>cvars := L\<rparr>) = sched_ok H s" "places (s\<lparr>cvars := L\<rparr>) = places s"
  by (rule sched_ok_cong; simp)+

lemma sched_ok_pipes [simp]: "sched_ok H (s\<lparr>pipes := L\<rparr>) = sched_ok H s" "places (s\<lparr>pipes := L\<rparr>) = places s"
  by (rule sched_ok_cong; simp)+

lemma sched_ok_count [simp]:
  "sched_ok H (s\<lparr>malloc_count := n\<rparr>) = sched_ok H s" "places (s\<lparr>malloc_count := n\<rparr>) = places s"
  by (rule sched_ok_cong; simp)+

lemma sched_ok_pmem [simp]: "sched_ok H (s\<lparr>pmem := m\<rparr>) = sched_ok H s" "places (s\<lparr>pmem := m\<rparr>) = places s"
  by (rule sched_ok_cong; simp)+

lemma mallocs_ok_upd [simp]:
  "mallocs_ok (s\<lparr>locks := L\<rparr>) = mallocs_ok s" "mallocs_ok (s\<lparr>cvars := C\<rparr>) = mallocs_ok s"
  "mallocs_ok (s\<lparr>pipes := P\<rparr>) = mallocs_ok s" "mallocs_ok (s\<lparr>malloc_count := n\<rparr>) = mallocs_ok s"
  "mallocs_ok (s\<lparr>pmem := m\<rparr>) = mallocs_ok s"
  by (simp_all add: mallocs_ok_def)

lemma transmitters_upd [simp]:
  "transmitters (s\<lparr>locks := L\<rparr>) = transmitters s" "transmitters (s\<lparr>cvars := C\<rparr>) = transmitters s"
  "transmitters (s\<lparr>pipes := P\<rparr>) = transmitters s" "transmitters (s\<lparr>malloc_count := n\<rparr>) = transmitters s"
  by (simp_all add: transmitters_def)

lemma pid_of_upd [simp]:
  "pid_of (s\<lparr>locks := L\<rparr>) = pid_of s" "pid_of (s\<lparr>cvars := C\<rparr>) = pid_of s"
  "pid_of (s\<lparr>pipes := P\<rparr>) = pid_of s" "pid_of (s\<lparr>malloc_count := n\<rparr>) = pid_of s"
  by (simp_all add: pid_of_def fun_eq_iff)

lemma acquire_free:
  "locks s lockp = Some l \<Longrightarrow> ownerPcbp l = None \<Longrightarrow>
     acquire_loop H lockp s = Done SUCCESS (s\<lparr>locks := (locks s)(lockp \<mapsto> l\<lparr>ownerPcbp := Some (currPCB s)\<rparr>)\<rparr>)"
  by (simp add: acquire_loop_def upd_lock_run kdefs)

text \<open>A process that finds the lock taken queues up behind the other waiters and blocks.\<close>

lemma acquire_held:
  assumes H: "hw_ok H" and ok: "sched_ok H s" and mem: "mallocs_ok s"
    and tx: "currPCB s \<notin> set (transmitters s)" and rq: "readyQ s = Some (n # q)"
    and l: "locks s lockp = Some l" "ownerPcbp l = Some ow" "lock_waitingQ l = Some w"
  shows "\<exists>t bm bm'. acquire_loop H lockp s = Switch t \<and> sched_ok H t \<and> mset (places t) = mset (places s) \<and>
           currPCB t = n \<and> readyQ t = Some q \<and> blockedMap s = Some bm \<and> blockedMap t = Some bm' \<and>
           hm_map bm' = (hm_map bm)(pid_of s (currPCB s) \<mapsto> currPCB s) \<and>
           locks t = (locks s)(lockp \<mapsto> l\<lparr>lock_waitingQ := Some (w @ [currPCB s])\<rparr>)"
proof -
  define s1 where "s1 = s\<lparr>malloc_count := Suc (malloc_count s),
    locks := (locks s)(lockp \<mapsto> l\<lparr>lock_waitingQ := Some (w @ [currPCB s])\<rparr>)\<rparr>"
  have "\<exists>a. malloc_oracle s (malloc_count s) = Some a" using mem by (auto simp: mallocs_ok_def)
  then have e: "enq_lock lockp (currPCB s) s = Done SUCCESS s1"
    using l by (auto simp: enq_lock_def malloc_okk_run upd_lock_run kdefs s1_def)
  have "hw_ok H" "sched_ok H s1" "mallocs_ok s1" "currPCB s1 \<notin> set (transmitters s1)" "readyQ s1 = Some (n # q)"
    using assms by (simp_all add: s1_def)
  from blockProcess_run [OF this, of "KAcquire lockp"] obtain t hm hm' where
    t: "blockProcess H (KAcquire lockp) s1 = Switch t" "sched_ok H t" "mset (places t) = mset (places s1)"
      "currPCB t = n" "readyQ t = Some q" "blockedMap s1 = Some hm" "blockedMap t = Some hm'"
      "hm_map hm' = (hm_map hm)(pid_of s1 (currPCB s1) \<mapsto> currPCB s1)" "sync_same s1 t" by blast
  have "acquire_loop H lockp s = Switch t"
    using e t(1) l by (simp add: acquire_loop_def fetch_def bindk_def getk_def)
  with t show ?thesis by (auto simp: s1_def sync_same_def)
qed

lemma getLock_run:
  assumes "lockMap s = Some lm" "hm_ok lm" "0 \<le> i"
  shows "getLock i s = Done (hm_map lm i) s"
  using HashMap_find_ok [OF assms(2,3)] assms(1) by (simp add: getLock_def hm_findk_def kdefs)

lemma getCvar_run:
  assumes "cvarMap s = Some lm" "hm_ok lm" "0 \<le> i"
  shows "getCvar i s = Done (hm_map lm i) s"
  using HashMap_find_ok [OF assms(2,3)] assms(1) by (simp add: getCvar_def hm_findk_def kdefs)

lemma getPipe_run:
  assumes "pipeMap s = Some lm" "hm_ok lm" "0 \<le> i"
  shows "getPipe i s = Done (hm_map lm i) s"
  using HashMap_find_ok [OF assms(2,3)] assms(1) by (simp add: getPipe_def hm_findk_def kdefs)

lemma getLock_negative:
  assumes "lockMap s = Some lm" "hm_ok lm" "i < 0" "\<not> hm_size lm dvd i"
  shows "getLock i s = Fault OUT_OF_BOUNDS"
  using slot_neg [OF assms(2,3,4)] assms(1) by (simp add: getLock_def hm_findk_def kdefs HashMap_find_def)

lemma release_not_owner:
  assumes "lockMap s = Some lm" "hm_ok lm" "0 \<le> i" "hm_map lm i = Some lockp" "locks s lockp = Some l"
    "ownerPcbp l \<noteq> Some (currPCB s)"
  shows "KernelRelease i s = Done ERROR s"
  using getLock_run [OF assms(1-3)] assms(4-6) by (simp add: KernelRelease_def kdefs)

text \<open>The owner gives the lock up and the longest waiting process becomes ready.\<close>

lemma release_owner:
  assumes ok: "sched_ok H s" and mem: "mallocs_ok s"
    and lm: "lockMap s = Some lm" "hm_ok lm" "0 \<le> i" "hm_map lm i = Some lockp"
    and l: "locks s lockp = Some l" "ownerPcbp l = Some (currPCB s)" "lock_waitingQ l = Some (w # ws)"
    and bm: "blockedMap s = Some bm" "hm_map bm (pid_of s w) = Some w" and rq: "readyQ s = Some q"
  shows "\<exists>t bm'. KernelRelease i s = Done SUCCESS t \<and> sched_ok H t \<and> mset (places t) = mset (places s) \<and>
           readyQ t = Some (q @ [w]) \<and> blockedMap t = Some bm' \<and> hm_map bm' = (hm_map bm)(pid_of s w := None) \<and>
           locks t = (locks s)(lockp \<mapsto> l\<lparr>ownerPcbp := None, lock_waitingQ := Some ws\<rparr>)"
proof -
  define s1 where "s1 = s\<lparr>locks := (locks s)(lockp \<mapsto> l\<lparr>ownerPcbp := None, lock_waitingQ := Some ws\<rparr>)\<rparr>"
  have okb: "hm_ok bm" using ok bm(1) by (auto simp: sched_ok_def core_def map_ok_def)
  have "w \<in> set (places s)"
    using hm_procs_iff [OF okb, of w] bm by (auto simp: places_def others_def)
  then obtain wp where wp: "pcbs s w = Some wp" "0 \<le> pid wp" using ok by (auto simp: sched_ok_def core_def pcb_ok_def)
  then have pid: "pid_of s w = pid wp" by (simp add: pid_of_def)
  have "sched_ok H s1" "mallocs_ok s1" "blockedMap s1 = Some bm" "0 \<le> pid wp" "hm_map bm (pid wp) = Some w"
    using ok mem bm wp(2) pid by (simp_all add: s1_def)
  from unblockProcess_run [OF this] obtain t bm' where
    t: "unblockProcess (pid wp) s1 = Done SUCCESS t" "sched_ok H t" "mset (places t) = mset (places s1)"
      "readyQ t = Some (qitems (readyQ s1) @ [w])" "blockedMap t = Some bm'"
      "hm_map bm' = (hm_map bm)(pid wp := None)" "sync_same s1 t" by blast
  have "KernelRelease i s = Done SUCCESS t"
    using getLock_run [OF lm(1-3)] lm(4) l t(1) wp(1)
    by (simp add: KernelRelease_def bindk_def fetch_def getk_def upd_lock_run get_pcb_def s1_def)
  with t pid rq show ?thesis by (auto simp: s1_def sync_same_def)
qed

lemma release_no_waiter:
  assumes "lockMap s = Some lm" "hm_ok lm" "0 \<le> i" "hm_map lm i = Some lockp" "locks s lockp = Some l"
    "ownerPcbp l = Some (currPCB s)" "lock_waitingQ l = Some []"
  shows "KernelRelease i s = Done SUCCESS (s\<lparr>locks := (locks s)(lockp \<mapsto> l\<lparr>ownerPcbp := None\<rparr>)\<rparr>)"
  using getLock_run [OF assms(1-3)] assms(4-7)
  by (cases l) (simp add: KernelRelease_def bindk_def fetch_def getk_def upd_lock_run retk_def)

text \<open>Whatever the outcome, taking a lock never takes it away from an owner.\<close>

definition owners_kept :: "kstate \<Rightarrow> kstate \<Rightarrow> bool" where
  "owners_kept s t \<longleftrightarrow> (\<forall>a l ow. locks s a = Some l \<and> ownerPcbp l = Some ow \<longrightarrow>
     (\<exists>l'. locks t a = Some l' \<and> ownerPcbp l' = Some ow))"

lemma deq_ready_locks: "deq_ready s = Done r t \<Longrightarrow> locks t = locks s"
  by (auto simp: deq_ready_run)

end
