(* ===== verification/BrkProps.thy ===== *)
theory BrkProps
  imports Brk Frames
begin

text \<open>
  The case analysis of the two break calls computes one simple thing: the pages that start at or above
  one break and below the other. They are mapped to fresh frames when the break rises and freed when it
  falls.
\<close>

section \<open>The pages between two breaks\<close>

text \<open>The first page that lies wholly at or above an address.\<close>

definition up_vpn :: "hw \<Rightarrow> nat \<Rightarrow> nat" where
  "up_vpn H a = (a + PAGESIZE H - 1) div PAGESIZE H"

lemma up_vpn_cases:
  assumes "hw_ok H"
  shows "up_vpn H a = (if DOWN_TO_PAGE H a = a then vpn_of H a else vpn_of H a + 1)"
proof -
  let ?p = "PAGESIZE H"
  have p: "0 < ?p" using hw_okD(2) [OF assms] .
  have a: "a = a div ?p * ?p + a mod ?p" by simp
  show ?thesis
  proof (cases "a mod ?p = 0")
    case True
    with a have "a = a div ?p * ?p" by simp
    then obtain k where k: "a = k * ?p" by blast
    have "(k * ?p + (?p - 1)) div ?p = k" using p div_mult_self3 [of ?p k "?p - 1"] by (simp del: div_mult_self3)
    moreover have "k * ?p + ?p - 1 = k * ?p + (?p - 1)" using p by simp
    ultimately have "up_vpn H (k * ?p) = k" by (simp only: up_vpn_def)
    then show ?thesis unfolding k using p by (simp add: vpn_of_page [OF assms] hw_okD(3) [OF assms])
  next
    case False
    define q r where "q = a div ?p" and "r = a mod ?p"
    have r: "0 < r" "r < ?p" "a = q * ?p + r" using False p by (simp_all add: q_def r_def)
    have "a + ?p - 1 = (q + 1) * ?p + (r - 1)" using r by simp
    moreover have "((q + 1) * ?p + (r - 1)) div ?p = q + 1"
      using r p div_mult_self3 [of ?p "q + 1" "r - 1"] by (simp del: div_mult_self3)
    moreover have "DOWN_TO_PAGE H a \<noteq> a" using r by (simp add: hw_okD(3) [OF assms] q_def [symmetric])
    ultimately show ?thesis by (simp add: up_vpn_def vpn_of_page [OF assms] q_def)
  qed
qed

lemma up_vpn_le: "hw_ok H \<Longrightarrow> up_vpn H a \<le> v \<longleftrightarrow> a \<le> v * PAGESIZE H"
  using hw_okD(2) [of H] div_less_iff_less_mult [of "PAGESIZE H" "a + PAGESIZE H - 1" "Suc v"]
  by (simp add: up_vpn_def less_Suc_eq_le) linarith

definition ref_move_brk :: "hw \<Rightarrow> ptr \<Rightarrow> nat \<Rightarrow> nat \<Rightarrow> nat \<Rightarrow> rc kernel" where
  "ref_move_brk H table baseVpn currBrk addr =
     (if addr < currBrk
      then bindk (foldk (shrink_page H table baseVpn) [up_vpn H addr..<up_vpn H currBrk]) (\<lambda>_. retk SUCCESS)
      else foldrc (grow_page H table baseVpn) [up_vpn H currBrk..<up_vpn H addr])"

lemma move_brk_ref:
  assumes "hw_ok H"
  shows "move_brk H table baseVpn currBrk addr = ref_move_brk H table baseVpn currBrk addr"
proof -
  have vpn: "vpn_of H x = x div PAGESIZE H" for x using vpn_of_page [OF assms] .
  have dn: "DOWN_TO_PAGE H x = x div PAGESIZE H * PAGESIZE H" for x using hw_okD(3) [OF assms] .
  consider (below) "vpn_of H addr < vpn_of H currBrk" | (same) "vpn_of H addr = vpn_of H currBrk"
    | (above) "vpn_of H currBrk < vpn_of H addr" by linarith
  then show ?thesis
  proof cases
    case below
    then have "addr < currBrk" unfolding vpn using div_le_mono not_less by metis
    with below show ?thesis
      by (simp add: move_brk_def ref_move_brk_def shrink_pages_def up_vpn_cases [OF assms] Let_def del: upt_Suc)
  next
    case above
    then have "\<not> addr < currBrk" unfolding vpn using div_le_mono by (meson leD less_imp_le)
    with above show ?thesis
      by (simp add: move_brk_def ref_move_brk_def grow_pages_def up_vpn_cases [OF assms] Let_def del: upt_Suc)
  next
    case same
    have lo: "vpn_of H currBrk * PAGESIZE H \<le> addr" "vpn_of H currBrk * PAGESIZE H \<le> currBrk"
      unfolding same [symmetric] by (simp_all add: vpn) (metis same vpn div_times_less_eq_dividend)
    show ?thesis
      using same lo dn vpn
      by (auto simp: move_brk_def ref_move_brk_def grow_pages_def shrink_pages_def up_vpn_cases [OF assms] Let_def
          simp del: upt_Suc)
  qed
qed

section \<open>Mapping and freeing a range of pages\<close>

definition frames_ok :: "'z mmu_scheme \<Rightarrow> bool" where
  "frames_ok s \<longleftrightarrow> (\<exists>fl. frameList s = Some fl \<and> fl_ok fl (numFrames s)) \<and> \<not> isFree (past s)"

definition free_frames :: "'z mmu_scheme \<Rightarrow> nat set" where
  "free_frames s = (case frameList s of None \<Rightarrow> {} | Some fl \<Rightarrow> free_pfns fl)"

definition known_frames :: "'z mmu_scheme \<Rightarrow> nat set" where
  "known_frames s = (case frameList s of None \<Rightarrow> {} | Some fl \<Rightarrow> all_pfns fl)"

text \<open>The two states differ in page tables, frame list and flush log only.\<close>

definition paging_only :: "kstate \<Rightarrow> kstate \<Rightarrow> bool" where
  "paging_only s t \<longleftrightarrow> (\<exists>fl P l. t = s\<lparr>frameList := fl, ptes := P, tlb_log := l\<rparr>) \<and> dom (ptes t) = dom (ptes s)"

lemma paging_only_refl [simp]: "paging_only s s"
  unfolding paging_only_def by (rule conjI, rule exI [of _ "frameList s"], rule exI [of _ "ptes s"],
      rule exI [of _ "tlb_log s"], simp_all)

lemma paging_only_trans:
  assumes "paging_only s t" "paging_only t u"
  shows "paging_only s u"
proof -
  from assms obtain fl P l fl' P' l' where t: "t = s\<lparr>frameList := fl, ptes := P, tlb_log := l\<rparr>"
    and u: "u = t\<lparr>frameList := fl', ptes := P', tlb_log := l'\<rparr>" and d: "dom (ptes u) = dom (ptes s)"
    by (auto simp: paging_only_def)
  have "u = s\<lparr>frameList := fl', ptes := P', tlb_log := l'\<rparr>" by (simp add: t u)
  with d show ?thesis unfolding paging_only_def by blast
qed

lemma paging_only_mmu: "paging_only s t \<Longrightarrow> mmu_ok H t = mmu_ok H s"
proof -
  assume "paging_only s t"
  then have f: "REG_PTBR0 t = REG_PTBR0 s" "REG_PTBR1 t = REG_PTBR1 s" "REG_PTLR0 t = REG_PTLR0 s"
      "REG_PTLR1 t = REG_PTLR1 s" and d: "dom (ptes t) = dom (ptes s)" by (auto simp: paging_only_def)
  have "ptes t a = None \<longleftrightarrow> ptes s a = None" for a using d by (metis domIff)
  with f show ?thesis by (simp add: mmu_ok_def has_table_def)
qed

lemma user_entry:
  assumes "hw_ok H" "MAX_PT_LEN H \<le> v"
  shows "entry_at H (REG_PTBR1 s) (USER_BASE_VPN H) v u = Done (pte_of_vpn H s v) u"
proof -
  have "USER_BASE_VPN H = MAX_PT_LEN H"
    using hw_okD(2,4,5,10) [OF assms(1)] by (simp add: USER_BASE_VPN_def vpn_of_page [OF assms(1)])
  then show ?thesis using assms(2) by (simp add: entry_at_def pte_of_vpn_def retk_def)
qed

lemma walk_set:
  assumes "hw_ok H" "mmu_ok H s" "v < 2 * MAX_PT_LEN H"
  shows "walk H (s\<lparr>frameList := fl, ptes := (ptes s)(pte_of_vpn H s v \<mapsto> e), tlb_log := l\<rparr>) w =
           (if w = v then Some e else walk H s w)"
proof -
  have "walk H (s\<lparr>frameList := fl, ptes := P, tlb_log := l\<rparr>) w = walk H (s\<lparr>ptes := P, tlb_log := l\<rparr>) w" for P
    by (simp add: walk_def pte_of_vpn_def)
  then show ?thesis by (simp only: walk_upd [OF assms])
qed

lemma grow_step:
  assumes H: "hw_ok H" and mmu: "mmu_ok H s" and fr: "frames_ok s" and free: "free_frames s \<noteq> {}"
    and v: "MAX_PT_LEN H \<le> v" "v < 2 * MAX_PT_LEN H"
  shows "\<exists>t f. grow_page H (REG_PTBR1 s) (USER_BASE_VPN H) v s = Done SUCCESS t \<and> paging_only s t \<and>
           f \<in> free_frames s \<and> free_frames t = free_frames s - {f} \<and> frames_ok t \<and>
           walk H t = (walk H s)(v \<mapsto> \<lparr>pte_valid = True, pte_prot = {PROT_READ, PROT_WRITE}, pte_pfn = f\<rparr>)"
proof -
  from fr obtain fl where fl: "frameList s = Some fl" "fl_ok fl (numFrames s)" "\<not> isFree (past s)"
    by (auto simp: frames_ok_def)
  then obtain f fl' where f: "getFrame (Some fl) (past s) (numFrames s) = Inr (Some f, Some fl', past s)"
    "f \<in> free_pfns fl" "fl_ok fl' (numFrames s)" "free_pfns fl' = free_pfns fl - {f}"
    using getFrame_some [OF fl(2,3)] free by (auto simp: free_frames_def)
  let ?s1 = "s\<lparr>frameList := Some fl'\<rparr>" and ?p = "pte_of_vpn H s v"
  let ?e = "\<lparr>pte_valid = True, pte_prot = {PROT_READ, PROT_WRITE}, pte_pfn = f\<rparr>"
  have g: "getFramek s = Done (Some f) ?s1" using f(1) fl by (simp add: getFramek_def)
  have "mmu_ok H ?s1" using mmu by (simp add: mmu_ok_def has_table_def)
  from setPageTableEntry_vpn [OF H this v(2), where val = True and prot = "{PROT_READ, PROT_WRITE}" and p = f]
  obtain e where
    e: "walk H ?s1 v = Some e" "setPageTableEntry H (pte_of_vpn H ?s1 v) True {PROT_READ, PROT_WRITE} f ?s1 =
      Done () (?s1\<lparr>ptes := (ptes ?s1)(pte_of_vpn H ?s1 v \<mapsto> ?e), tlb_log := FLUSH_ADDR (v * PAGESIZE H) # tlb_log ?s1\<rparr>)"
    by (auto simp: pte_expand)
  have p1: "pte_of_vpn H ?s1 v = ?p" by (simp add: pte_of_vpn_def)
  define t where "t = s\<lparr>frameList := Some fl', ptes := (ptes s)(?p \<mapsto> ?e), tlb_log := FLUSH_ADDR (v * PAGESIZE H) # tlb_log s\<rparr>"
  have "grow_page H (REG_PTBR1 s) (USER_BASE_VPN H) v s = Done SUCCESS t"
    using g user_entry [OF H v(1), of s] e(2) p1 by (simp add: grow_page_def bindk_def retk_def t_def)
  moreover have "ptes s ?p \<noteq> None" using e(1) p1 by (auto simp: walk_def split: if_splits)
  then have "paging_only s t" unfolding paging_only_def t_def by auto
  moreover have "walk H t = (walk H s)(v \<mapsto> ?e)"
    using walk_set [OF H mmu v(2)] by (auto simp: t_def fun_eq_iff)
  ultimately show ?thesis using f fl by (auto simp: free_frames_def frames_ok_def t_def)
qed

lemma grow_range:
  assumes H: "hw_ok H" and "mmu_ok H s" "frames_ok s" "finite (free_frames s)" "n \<le> card (free_frames s)"
    "MAX_PT_LEN H \<le> lo" "lo + n \<le> 2 * MAX_PT_LEN H"
  shows "\<exists>t f. foldrc (grow_page H (REG_PTBR1 s) (USER_BASE_VPN H)) [lo..<lo + n] s = Done SUCCESS t \<and>
           paging_only s t \<and> inj_on f {lo..<lo + n} \<and> f ` {lo..<lo + n} \<subseteq> free_frames s \<and>
           free_frames t = free_frames s - f ` {lo..<lo + n} \<and> frames_ok t \<and>
           walk H t = (\<lambda>v. if v \<in> {lo..<lo + n}
             then Some \<lparr>pte_valid = True, pte_prot = {PROT_READ, PROT_WRITE}, pte_pfn = f v\<rparr> else walk H s v)"
  using assms(2-)
proof (induction n arbitrary: s lo)
  case 0
  show ?case by (rule exI [of _ s]) (use 0 in \<open>simp add: retk_def\<close>)
next
  case (Suc n)
  from Suc.prems have "free_frames s \<noteq> {}" "lo < 2 * MAX_PT_LEN H" by auto
  from grow_step [OF H Suc.prems(1,2) this(1) Suc.prems(5) this(2)] obtain s1 f0 where
    s1: "grow_page H (REG_PTBR1 s) (USER_BASE_VPN H) lo s = Done SUCCESS s1" "paging_only s s1" "f0 \<in> free_frames s"
      "free_frames s1 = free_frames s - {f0}" "frames_ok s1"
      "walk H s1 = (walk H s)(lo \<mapsto> \<lparr>pte_valid = True, pte_prot = {PROT_READ, PROT_WRITE}, pte_pfn = f0\<rparr>)" by blast
  have r: "REG_PTBR1 s1 = REG_PTBR1 s" using s1(2) by (auto simp: paging_only_def)
  have "mmu_ok H s1" using paging_only_mmu [OF s1(2)] Suc.prems(1) by simp
  moreover have "n \<le> card (free_frames s1)" using s1(3,4) Suc.prems(3,4) by simp
  moreover have "finite (free_frames s1)" "MAX_PT_LEN H \<le> Suc lo" "Suc lo + n \<le> 2 * MAX_PT_LEN H"
    using s1(4) Suc.prems by simp_all
  ultimately obtain t f where t: "foldrc (grow_page H (REG_PTBR1 s1) (USER_BASE_VPN H)) [Suc lo..<Suc lo + n] s1 = Done SUCCESS t"
      "paging_only s1 t" "inj_on f {Suc lo..<Suc lo + n}" "f ` {Suc lo..<Suc lo + n} \<subseteq> free_frames s1"
      "free_frames t = free_frames s1 - f ` {Suc lo..<Suc lo + n}" "frames_ok t"
      "walk H t = (\<lambda>v. if v \<in> {Suc lo..<Suc lo + n}
         then Some \<lparr>pte_valid = True, pte_prot = {PROT_READ, PROT_WRITE}, pte_pfn = f v\<rparr> else walk H s1 v)"
    using Suc.IH [of s1 "Suc lo"] s1(5) by blast
  let ?f = "f(lo := f0)"
  have set_eq: "{lo..<lo + Suc n} = insert lo {Suc lo..<Suc lo + n}" by auto
  have img: "?f ` {lo..<lo + Suc n} = insert f0 (f ` {Suc lo..<Suc lo + n})" unfolding set_eq by auto
  have "inj_on ?f {lo..<lo + Suc n}"
    using t(3,4) s1(4) unfolding set_eq by (auto simp: inj_on_def)
  moreover have "?f ` {lo..<lo + Suc n} \<subseteq> free_frames s" "free_frames t = free_frames s - ?f ` {lo..<lo + Suc n}"
    unfolding img using t(4,5) s1(3,4) by auto
  moreover have "[lo..<lo + Suc n] = lo # [Suc lo..<Suc lo + n]" by (simp add: upt_conv_Cons)
  then have "foldrc (grow_page H (REG_PTBR1 s) (USER_BASE_VPN H)) [lo..<lo + Suc n] s = Done SUCCESS t"
    using s1(1) t(1) r by (simp del: upt_Suc)
  moreover have "walk H t = (\<lambda>v. if v \<in> {lo..<lo + Suc n}
      then Some \<lparr>pte_valid = True, pte_prot = {PROT_READ, PROT_WRITE}, pte_pfn = ?f v\<rparr> else walk H s v)"
    unfolding t(7) s1(6) by (auto simp: fun_eq_iff)
  ultimately show ?case using paging_only_trans [OF s1(2) t(2)] t(6) by blast
qed

text \<open>The frame an entry names.\<close>

definition frame_at :: "hw \<Rightarrow> 'z mmu_scheme \<Rightarrow> nat \<Rightarrow> nat" where
  "frame_at H s v = (case walk H s v of None \<Rightarrow> 0 | Some e \<Rightarrow> pte_pfn e)"

lemma shrink_step:
  assumes H: "hw_ok H" and mmu: "mmu_ok H s" and fr: "frames_ok s" and vm: "REG_VM_ENABLE s"
    and v: "MAX_PT_LEN H \<le> v" "v < 2 * MAX_PT_LEN H"
  shows "\<exists>t. shrink_page H (REG_PTBR1 s) (USER_BASE_VPN H) v s = Done () t \<and> paging_only s t \<and> frames_ok t \<and>
           known_frames t = known_frames s \<and> free_frames t = free_frames s \<union> ({frame_at H s v} \<inter> known_frames s) \<and>
           walk H t = (walk H s)(v := map_option (\<lambda>e. e\<lparr>pte_valid := False\<rparr>) (walk H s v))"
proof -
  let ?p = "pte_of_vpn H s v"
  from walk_defined [OF mmu v(2)] obtain e where e: "ptes s ?p = Some e" "walk H s v = Some e" .
  from fr obtain fl where fl: "frameList s = Some fl" "fl_ok fl (numFrames s)" "\<not> isFree (past s)"
    by (auto simp: frames_ok_def)
  from freeFrame_ok [OF fl(2)] obtain fl' where
    f: "freeFrame (Some fl) (numFrames s) (pte_pfn e) = Inr (Some fl')" "fl_ok fl' (numFrames s)"
      "all_pfns fl' = all_pfns fl"
      "free_pfns fl' = (if pte_pfn e \<in> all_pfns fl then insert (pte_pfn e) (free_pfns fl) else free_pfns fl)" by blast
  let ?s1 = "s\<lparr>frameList := Some fl'\<rparr>"
  have g: "freeFramek (pte_pfn e) s = Done () ?s1" using f(1) fl by (simp add: freeFramek_def)
  have "mmu_ok H ?s1" "REG_VM_ENABLE ?s1" using mmu vm by (simp_all add: mmu_ok_def has_table_def)
  from invalidate_vpn [OF H this(1) v(2) this(2)] obtain e1 where
    e1: "walk H ?s1 v = Some e1" "invalidatePageTableEntry H (pte_of_vpn H ?s1 v) ?s1 =
      Done () (?s1\<lparr>ptes := (ptes ?s1)(pte_of_vpn H ?s1 v \<mapsto> e1\<lparr>pte_valid := False\<rparr>),
        tlb_log := FLUSH_ADDR (v * PAGESIZE H) # tlb_log ?s1\<rparr>)" by blast
  have p1: "pte_of_vpn H ?s1 v = ?p" "e1 = e" using e e1(1) v by (simp_all add: pte_of_vpn_def walk_def)
  define t where "t = s\<lparr>frameList := Some fl', ptes := (ptes s)(?p \<mapsto> e\<lparr>pte_valid := False\<rparr>),
    tlb_log := FLUSH_ADDR (v * PAGESIZE H) # tlb_log s\<rparr>"
  have "shrink_page H (REG_PTBR1 s) (USER_BASE_VPN H) v s = Done () t"
    using user_entry [OF H v(1), of s] e(1) g e1(2) p1
    by (simp add: shrink_page_def bindk_def fetch_def t_def)
  moreover have "paging_only s t" unfolding paging_only_def t_def using e(1) by auto
  moreover have "walk H t = (walk H s)(v := map_option (\<lambda>e. e\<lparr>pte_valid := False\<rparr>) (walk H s v))"
    using walk_set [OF H mmu v(2)] e(2) by (auto simp: t_def fun_eq_iff)
  ultimately show ?thesis
    using f fl e(2) by (intro exI [of _ t]) (auto simp: free_frames_def known_frames_def frames_ok_def frame_at_def t_def)
qed

lemma shrink_range:
  assumes H: "hw_ok H" and "mmu_ok H s" "frames_ok s" "REG_VM_ENABLE s" "MAX_PT_LEN H \<le> lo" "lo + n \<le> 2 * MAX_PT_LEN H"
  shows "\<exists>t. foldk (shrink_page H (REG_PTBR1 s) (USER_BASE_VPN H)) [lo..<lo + n] s = Done () t \<and> paging_only s t \<and>
           frames_ok t \<and> known_frames t = known_frames s \<and>
           free_frames t = free_frames s \<union> (frame_at H s ` {lo..<lo + n} \<inter> known_frames s) \<and>
           walk H t = (\<lambda>v. if v \<in> {lo..<lo + n} then map_option (\<lambda>e. e\<lparr>pte_valid := False\<rparr>) (walk H s v) else walk H s v)"
  using assms(2-)
proof (induction n arbitrary: s lo)
  case 0
  show ?case by (rule exI [of _ s]) (use 0 in \<open>simp add: retk_def\<close>)
next
  case (Suc n)
  from Suc.prems have "lo < 2 * MAX_PT_LEN H" by simp
  from shrink_step [OF H Suc.prems(1-4) this] obtain s1 where
    s1: "shrink_page H (REG_PTBR1 s) (USER_BASE_VPN H) lo s = Done () s1" "paging_only s s1" "frames_ok s1"
      "known_frames s1 = known_frames s" "free_frames s1 = free_frames s \<union> ({frame_at H s lo} \<inter> known_frames s)"
      "walk H s1 = (walk H s)(lo := map_option (\<lambda>e. e\<lparr>pte_valid := False\<rparr>) (walk H s lo))" by blast
  have r: "REG_PTBR1 s1 = REG_PTBR1 s" "REG_VM_ENABLE s1" using s1(2) Suc.prems(3) by (auto simp: paging_only_def)
  have "mmu_ok H s1" using paging_only_mmu [OF s1(2)] Suc.prems(1) by simp
  moreover have "MAX_PT_LEN H \<le> Suc lo" "Suc lo + n \<le> 2 * MAX_PT_LEN H" using Suc.prems by simp_all
  ultimately obtain t where t: "foldk (shrink_page H (REG_PTBR1 s1) (USER_BASE_VPN H)) [Suc lo..<Suc lo + n] s1 = Done () t"
      "paging_only s1 t" "frames_ok t" "known_frames t = known_frames s1"
      "free_frames t = free_frames s1 \<union> (frame_at H s1 ` {Suc lo..<Suc lo + n} \<inter> known_frames s1)"
      "walk H t = (\<lambda>v. if v \<in> {Suc lo..<Suc lo + n} then map_option (\<lambda>e. e\<lparr>pte_valid := False\<rparr>) (walk H s1 v) else walk H s1 v)"
    using Suc.IH [of s1 "Suc lo"] s1(3) r(2) by blast
  have set_eq: "{lo..<lo + Suc n} = insert lo {Suc lo..<Suc lo + n}" by auto
  have fa: "frame_at H s1 ` {Suc lo..<Suc lo + n} = frame_at H s ` {Suc lo..<Suc lo + n}"
    by (rule image_cong) (auto simp: frame_at_def s1(6))
  have "[lo..<lo + Suc n] = lo # [Suc lo..<Suc lo + n]" by (simp add: upt_conv_Cons)
  then have "foldk (shrink_page H (REG_PTBR1 s) (USER_BASE_VPN H)) [lo..<lo + Suc n] s = Done () t"
    using s1(1) t(1) r by (simp del: upt_Suc)
  moreover have "free_frames t = free_frames s \<union> (frame_at H s ` {lo..<lo + Suc n} \<inter> known_frames s)"
    unfolding t(5) fa s1(4,5) set_eq by auto
  moreover have "walk H t = (\<lambda>v. if v \<in> {lo..<lo + Suc n} then map_option (\<lambda>e. e\<lparr>pte_valid := False\<rparr>) (walk H s v)
      else walk H s v)"
    unfolding t(6) s1(6) by (auto simp: fun_eq_iff)
  ultimately show ?case using paging_only_trans [OF s1(2) t(2)] t(3,4) s1(4) by auto
qed

section \<open>The break of a process\<close>

text \<open>The running process with its active region 1 table and its break.\<close>

definition brk_ready :: "hw \<Rightarrow> kstate \<Rightarrow> nat \<Rightarrow> bool" where
  "brk_ready H s b \<longleftrightarrow> hw_ok H \<and> mmu_ok H s \<and> frames_ok s \<and> REG_VM_ENABLE s \<and> VMEM_1_BASE H \<le> b \<and> b < VMEM_1_LIMIT H \<and>
     (\<exists>pc. pcbs s (currPCB s) = Some pc \<and> brk pc = Some b \<and> r1PageTable pc = Some (REG_PTBR1 s))"

lemma up_vpn_user:
  assumes "hw_ok H" "VMEM_1_BASE H \<le> a" "a < VMEM_1_LIMIT H"
  shows "MAX_PT_LEN H \<le> up_vpn H a" "up_vpn H a \<le> 2 * MAX_PT_LEN H"
proof -
  have b: "VMEM_1_BASE H = MAX_PT_LEN H * PAGESIZE H" "VMEM_1_LIMIT H = 2 * MAX_PT_LEN H * PAGESIZE H"
    using hw_okD(4,5,6,10) [OF assms(1)] by simp_all
  then show "up_vpn H a \<le> 2 * MAX_PT_LEN H" using assms by (simp add: up_vpn_le)
  have "\<not> up_vpn H a < MAX_PT_LEN H"
  proof
    assume "up_vpn H a < MAX_PT_LEN H"
    then have "up_vpn H a \<le> MAX_PT_LEN H - 1" "0 < MAX_PT_LEN H" by simp_all
    then have "a \<le> (MAX_PT_LEN H - 1) * PAGESIZE H" using up_vpn_le [OF assms(1)] by simp
    also have "\<dots> < MAX_PT_LEN H * PAGESIZE H" using \<open>0 < MAX_PT_LEN H\<close> hw_okD(2) [OF assms(1)] by simp
    finally show False using b assms(2) by simp
  qed
  then show "MAX_PT_LEN H \<le> up_vpn H a" by simp
qed

lemma up_vpn_range: "hw_ok H \<Longrightarrow> v \<in> {up_vpn H a..<up_vpn H b} \<longleftrightarrow> a \<le> v * PAGESIZE H \<and> v * PAGESIZE H < b"
  using up_vpn_le [of H a v] up_vpn_le [of H b v] by auto

text \<open>The state of a successful call: the pages moved and the new break recorded.\<close>

lemma KernelBrk_via:
  assumes rdy: "brk_ready H s b" and a: "VMEM_1_BASE H \<le> addr" "addr < VMEM_1_LIMIT H"
    and mv: "ref_move_brk H (REG_PTBR1 s) (USER_BASE_VPN H) b addr s = Done r t" and only: "paging_only s t"
  shows "\<exists>pc. pcbs s (currPCB s) = Some pc \<and> KernelBrk H addr s =
    (if r = ERROR then Done ERROR t else Done SUCCESS (t\<lparr>pcbs := (pcbs s)(currPCB s \<mapsto> pc\<lparr>brk := Some addr\<rparr>)\<rparr>))"
proof -
  from rdy obtain pc where H: "hw_ok H" and pc: "pcbs s (currPCB s) = Some pc" "brk pc = Some b" "r1PageTable pc = Some (REG_PTBR1 s)"
    by (auto simp: brk_ready_def)
  have "pcbs t = pcbs s" using only by (auto simp: paging_only_def)
  with pc mv a show ?thesis
    by (auto simp: KernelBrk_def getAddressRegion_def bindk_def getk_def get_pcb_def fetch_def nonnull_def retk_def
        move_brk_ref [OF H] upd_pcb_def modk_def)
qed

lemma KernelBrk_grow_run:
  assumes rdy: "brk_ready H s b" and a: "b \<le> addr" "addr < VMEM_1_LIMIT H"
    and enough: "finite (free_frames s)" "up_vpn H addr - up_vpn H b \<le> card (free_frames s)"
  shows "\<exists>t f pages pc. pages = {v. b \<le> v * PAGESIZE H \<and> v * PAGESIZE H < addr} \<and>
           KernelBrk H addr s = Done SUCCESS (t\<lparr>pcbs := (pcbs s)(currPCB s \<mapsto> pc\<lparr>brk := Some addr\<rparr>)\<rparr>) \<and>
           pcbs s (currPCB s) = Some pc \<and> paging_only s t \<and>
           inj_on f pages \<and> f ` pages \<subseteq> free_frames s \<and> free_frames t = free_frames s - f ` pages \<and>
           walk H t = (\<lambda>v. if v \<in> pages
             then Some \<lparr>pte_valid = True, pte_prot = {PROT_READ, PROT_WRITE}, pte_pfn = f v\<rparr> else walk H s v)"
proof -
  let ?lo = "up_vpn H b" and ?hi = "up_vpn H addr"
  let ?pages = "{v. b \<le> v * PAGESIZE H \<and> v * PAGESIZE H < addr}"
  from rdy have H: "hw_ok H" and m: "mmu_ok H s" "frames_ok s" and bb: "VMEM_1_BASE H \<le> b" "b < VMEM_1_LIMIT H"
    by (auto simp: brk_ready_def)
  have "addr \<le> ?hi * PAGESIZE H" using up_vpn_le [OF H, of addr ?hi] by simp
  then have le: "?lo \<le> ?hi" using a(1) up_vpn_le [OF H, of b ?hi] by simp
  have aa: "VMEM_1_BASE H \<le> addr" using bb a by simp
  have n: "?lo + (?hi - ?lo) = ?hi" using le by simp
  have pages: "{?lo..<?hi} = ?pages" using up_vpn_range [OF H] by blast
  obtain t f where t: "foldrc (grow_page H (REG_PTBR1 s) (USER_BASE_VPN H)) [?lo..<?hi] s = Done SUCCESS t"
      "paging_only s t" "inj_on f ?pages" "f ` ?pages \<subseteq> free_frames s" "free_frames t = free_frames s - f ` ?pages"
      "walk H t = (\<lambda>v. if v \<in> ?pages
         then Some \<lparr>pte_valid = True, pte_prot = {PROT_READ, PROT_WRITE}, pte_pfn = f v\<rparr> else walk H s v)"
    using grow_range [OF H m enough, of ?lo] up_vpn_user(1) [OF H bb] up_vpn_user(2) [OF H aa a(2)]
    unfolding n pages by blast
  have "ref_move_brk H (REG_PTBR1 s) (USER_BASE_VPN H) b addr s = Done SUCCESS t"
    using t(1) a(1) by (simp add: ref_move_brk_def)
  from KernelBrk_via [OF rdy aa a(2) this t(2)] t(2-) show ?thesis by auto
qed

lemma KernelBrk_shrink_run:
  assumes rdy: "brk_ready H s b" and a: "VMEM_1_BASE H \<le> addr" "addr < b"
  shows "\<exists>t pages pc. pages = {v. addr \<le> v * PAGESIZE H \<and> v * PAGESIZE H < b} \<and>
           KernelBrk H addr s = Done SUCCESS (t\<lparr>pcbs := (pcbs s)(currPCB s \<mapsto> pc\<lparr>brk := Some addr\<rparr>)\<rparr>) \<and>
           pcbs s (currPCB s) = Some pc \<and> paging_only s t \<and> known_frames t = known_frames s \<and>
           free_frames t = free_frames s \<union> (frame_at H s ` pages \<inter> known_frames s) \<and>
           walk H t = (\<lambda>v. if v \<in> pages then map_option (\<lambda>e. e\<lparr>pte_valid := False\<rparr>) (walk H s v) else walk H s v)"
proof -
  let ?lo = "up_vpn H addr" and ?hi = "up_vpn H b"
  let ?pages = "{v. addr \<le> v * PAGESIZE H \<and> v * PAGESIZE H < b}"
  from rdy have H: "hw_ok H" and m: "mmu_ok H s" "frames_ok s" "REG_VM_ENABLE s"
    and bb: "VMEM_1_BASE H \<le> b" "b < VMEM_1_LIMIT H" by (auto simp: brk_ready_def)
  have "b \<le> ?hi * PAGESIZE H" using up_vpn_le [OF H, of b ?hi] by simp
  then have le: "?lo \<le> ?hi" using a(2) up_vpn_le [OF H, of addr ?hi] by simp
  have aa: "addr < VMEM_1_LIMIT H" using bb a by simp
  have n: "?lo + (?hi - ?lo) = ?hi" using le by simp
  have pages: "{?lo..<?hi} = ?pages" using up_vpn_range [OF H] by blast
  obtain t where t: "foldk (shrink_page H (REG_PTBR1 s) (USER_BASE_VPN H)) [?lo..<?hi] s = Done () t"
      "paging_only s t" "known_frames t = known_frames s"
      "free_frames t = free_frames s \<union> (frame_at H s ` ?pages \<inter> known_frames s)"
      "walk H t = (\<lambda>v. if v \<in> ?pages then map_option (\<lambda>e. e\<lparr>pte_valid := False\<rparr>) (walk H s v) else walk H s v)"
    using shrink_range [OF H m, of ?lo "?hi - ?lo"] up_vpn_user(1) [OF H a(1) aa] up_vpn_user(2) [OF H bb]
    unfolding n pages by blast
  have "ref_move_brk H (REG_PTBR1 s) (USER_BASE_VPN H) b addr s = Done SUCCESS t"
    using t(1) a(2) by (simp add: ref_move_brk_def bindk_def retk_def)
  from KernelBrk_via [OF rdy a(1) aa this t(2)] t(2-) show ?thesis by auto
qed

end
