(* ===== verification/Demo.thy ===== *)
theory Demo
  imports Traps SyncProps BrkProps
begin

text \<open>
  A small concrete machine: four processes on the hardware \<open>tiny_hw\<close>. Process 10 (pid 1) runs,
  20 (pid 0) is ready, 30 (pid 2) is blocked and 40 (pid 3) sleeps for one more tick. Lock 0 is held
  by 10 and 30 waits for it. The instances of the properties are taken at this state and at small
  variations of it.
\<close>

definition demo_pcb :: "int \<Rightarrow> ptr \<Rightarrow> nat list \<Rightarrow> int \<Rightarrow> PCB_t" where
  "demo_pcb i table pfns ticks =
     \<lparr>pid = i, brk = Some 40, uctxt = Some \<lparr>uc_code = 0, uc_addr = 0, uc_pc = 0, uc_sp = 0, uc_ebp = 0, uc_regs = [0, 0, 0]\<rparr>,
      kctxt = Some KStart, childrenMap = None, numChildren = 0, parent = None, zombieQ = None,
      r1PageTable = Some table, numRemainingDelayTicks = ticks, stackPfns = pfns\<rparr>"

definition demo_ptes :: "ptr \<Rightarrow> pte option" where
  "demo_ptes a =
     (if (1000 \<le> a \<and> a < 1032) \<or> (2000 \<le> a \<and> a < 2032) \<or> (3000 \<le> a \<and> a < 3032) \<or> (4000 \<le> a \<and> a < 4032) \<or>
         (5000 \<le> a \<and> a < 5032)
      then Some \<lparr>pte_valid = (a = 2000), pte_prot = (if a = 2000 then {PROT_READ, PROT_WRITE} else {}),
                 pte_pfn = (if a = 2000 then 7 else 0)\<rparr>
      else None)"

definition demo :: kstate where
  "demo =
     \<lparr>frameList = Some [\<lparr>pfn = 7, isFree = False\<rparr>, \<lparr>pfn = 8, isFree = True\<rparr>, \<lparr>pfn = 9, isFree = True\<rparr>],
      numFrames = 3, past = \<lparr>pfn = 0, isFree = False\<rparr>, ptes = demo_ptes,
      REG_PTBR0 = 1000, REG_PTLR0 = 8, REG_PTBR1 = 2000, REG_PTLR1 = 8, REG_VM_ENABLE = True, tlb_log = [],
      pmem = (\<lambda>f off. 5), malloc_oracle = (\<lambda>n. Some (100 + n)), malloc_count = 0,
      pcbs = [10 \<mapsto> demo_pcb 1 2000 [1, 2] 0, 20 \<mapsto> demo_pcb 0 3000 [3, 4] 0,
              30 \<mapsto> demo_pcb 2 4000 [5, 6] 0, 40 \<mapsto> demo_pcb 3 5000 [11, 12] 1],
      currPCB = 10, initPid = 1, nextPid = 4, nextSyncId = 2, readyQ = Some [20],
      blockedMap = Some \<lparr>hm_size = 2, sets = [Some [(2, 30)], Some []]\<rparr>,
      sleepingMap = Some \<lparr>hm_size = 2, sets = [Some [], Some [(3, 40)]]\<rparr>,
      currTransmitters = [None, None], transmittingQs = [Some [], Some []], readingQs = [Some [], Some []],
      errorCount = 0,
      lockMap = Some \<lparr>hm_size = 2, sets = [Some [(0, 50)], Some []]\<rparr>,
      cvarMap = Some \<lparr>hm_size = 2, sets = [Some [(4, 70)], Some []]\<rparr>,
      pipeMap = Some \<lparr>hm_size = 2, sets = [Some [], Some [(1, 60)]]\<rparr>,
      locks = [50 \<mapsto> \<lparr>ownerPcbp = Some 10, lock_waitingQ = Some [30]\<rparr>], cvars = [70 \<mapsto> [30]],
      pipes = [60 \<mapsto> \<lparr>pipe_buffer = Some [1, 2, 0, 0], pipe_numBytesWritten = 2, pipe_waitingQ = Some []\<rparr>],
      ttyBufs = [], r0StackBasePtep = 1024, tempPtep = 1020, tempVAddr = 20, kernelDataStart = 0,
      kernelDataEnd = 8, currKernelBrk = 8, tty_out = [],
      trapFrame = (\<lambda>p. \<lparr>uc_code = 0, uc_addr = 0, uc_pc = 0, uc_sp = 0, uc_ebp = 0, uc_regs = [0, 0, 0]\<rparr>)\<rparr>"

lemma demo_hm_ok:
  "hm_ok \<lparr>hm_size = 2, sets = [Some [(2, x)], Some []]\<rparr>" "hm_ok \<lparr>hm_size = 2, sets = [Some [], Some [(3, x)]]\<rparr>"
  "hm_ok \<lparr>hm_size = 2, sets = [Some [(0, x)], Some []]\<rparr>" "hm_ok \<lparr>hm_size = 2, sets = [Some [], Some [(1, x)]]\<rparr>"
  "hm_ok \<lparr>hm_size = 2, sets = [Some [(4, x)], Some []]\<rparr>"
  by (auto simp: hm_ok_def chain_wf_def chain_of_def nth_Cons split: nat.splits)

lemma demo_map_ok:
  assumes "hm_ok hm" "\<forall>(k, p) \<in> set (hm_items hm). pid_of s p = k"
  shows "map_ok s (Some hm)"
  using assms hm_items_iff [OF assms(1)] by (auto simp: map_ok_def)

lemma demo_table:
  "b \<in> {1000, 2000, 3000, 4000, 5000} \<Longrightarrow> ptes s = demo_ptes \<Longrightarrow> has_table tiny_hw s b"
  by (auto simp: has_table_def table_addrs_def tiny_hw_def demo_ptes_def)

lemma tiny_consts: "KSTACK_NPG tiny_hw = 2" "KERNEL_STACK_BASE_VPN tiny_hw = 6" "MAX_PT_LEN tiny_hw = 8"
    "SIZEOF_PTE tiny_hw = 4" "NUM_TERMINALS tiny_hw = 2"
  by (simp_all add: KSTACK_NPG_def KERNEL_STACK_BASE_VPN_def vpn_of_def tiny_hw_def)

lemma demo_places: "places demo = [10, 20, 30, 40]"
  by (simp add: places_def others_def transmitters_def slot_procs_def demo_def hm_procs_def hm_items_def chain_of_def)

lemma demo_pcb_ok: "p \<in> {10, 20, 30, 40} \<Longrightarrow> pcb_ok tiny_hw demo p"
  using demo_table [of 2000 demo] demo_table [of 3000 demo] demo_table [of 4000 demo] demo_table [of 5000 demo]
  by (auto simp: pcb_ok_def apart_def tiny_consts demo_def demo_pcb_def)

lemma demo_sched_ok: "sched_ok tiny_hw demo"
proof -
  have "mmu_ok tiny_hw demo"
    using demo_table [of 1000 demo] demo_table [of 2000 demo]
    by (simp add: mmu_ok_def tiny_consts) (simp add: demo_def)
  moreover have "stack_base_ok tiny_hw demo" by (simp add: stack_base_ok_def tiny_consts demo_def)
  moreover have "map_ok demo (blockedMap demo)" "map_ok demo (sleepingMap demo)"
    using demo_map_ok [OF demo_hm_ok(1) [of 30], of demo] demo_map_ok [OF demo_hm_ok(2) [of 40], of demo]
    by (simp_all add: demo_def hm_items_def chain_of_def pid_of_def demo_pcb_def)
  moreover have "tty_ok tiny_hw demo" by (simp add: tty_ok_def tiny_consts demo_def)
  moreover have "inj_on (pid_of demo) (set (places demo))"
    by (simp add: demo_places) (simp add: demo_def pid_of_def demo_pcb_def)
  moreover have "\<forall>p \<in> set (places demo). pcb_ok tiny_hw demo p" using demo_pcb_ok by (simp add: demo_places)
  moreover have "readyQ demo \<noteq> None" "distinct (places demo)" by (simp_all add: demo_places) (simp add: demo_def)
  ultimately show ?thesis by (simp add: sched_ok_def core_def) (simp add: demo_def demo_pcb_def)
qed

lemma demo_mallocs_ok: "mallocs_ok demo"
  by (simp add: mallocs_ok_def demo_def)

lemma demo_fields:
  "currPCB demo = 10" "readyQ demo = Some [20]" "transmitters demo = []"
  by (simp_all add: demo_def transmitters_def slot_procs_def)

lemma demo_mapped:
  assumes "ptes s = demo_ptes" "REG_PTBR1 s = 2000" "n \<le> 4" "f \<in> {PROT_READ, PROT_WRITE}"
  shows "mapped tiny_hw s f 32 n"
proof -
  have "translate tiny_hw s f (32 + i) = Some (7, i mod 4)" if "i < n" for i
  proof -
    have "(32 + i) div 4 = 8" using that assms(3) by simp
    moreover have "walk tiny_hw s 8 = Some \<lparr>pte_valid = True, pte_prot = {PROT_READ, PROT_WRITE}, pte_pfn = 7\<rparr>"
      using assms(1,2) by (simp add: walk_def pte_of_vpn_def tiny_hw_def demo_ptes_def)
    moreover have "PAGESIZE tiny_hw = 4" by (simp add: tiny_hw_def)
    moreover have "(32 + i) mod 4 = i mod 4" by presburger
    ultimately show ?thesis using assms(4) by (auto simp: translate_def)
  qed
  then show ?thesis by (simp add: mapped_def)
qed

lemma demo_paging: "ptes demo = demo_ptes" "REG_PTBR1 demo = 2000" "REG_PTBR0 demo = 1000"
  by (simp_all add: demo_def)

lemma demo_brk_ready: "brk_ready tiny_hw demo 40"
  using demo_sched_ok by (simp add: brk_ready_def sched_ok_def core_def tiny_hw_ok)
    (simp add: frames_ok_def fl_ok_def demo_def demo_pcb_def tiny_hw_def)

lemma demo_free: "free_frames demo = {8, 9}"
  by (auto simp: free_frames_def free_pfns_def demo_def)

text \<open>Variations: the lock is held by another process; a child of 10 has exited.\<close>

definition demo_lock20 :: kstate where
  "demo_lock20 = demo\<lparr>locks := [50 \<mapsto> \<lparr>ownerPcbp = Some 20, lock_waitingQ = Some [30]\<rparr>]\<rparr>"

definition demo_parent :: PCB_t where
  "demo_parent = (demo_pcb 1 2000 [1, 2] 0)\<lparr>zombieQ := Some [\<lparr>z_pid = 5, exit_status = 7\<rparr>], numChildren := 1\<rparr>"

definition demo_zombie :: kstate where
  "demo_zombie = demo\<lparr>pcbs := (pcbs demo)(10 \<mapsto> demo_parent)\<rparr>"

end
