(* ===== verification/PipeProps.thy ===== *)
theory PipeProps
  imports SyncProps
begin

text \<open>
  A pipe is a bounded byte stream: a write appends to its contents, a read removes a prefix and hands
  it to the reader, and both wake the process at the head of the waiting queue.
\<close>

section \<open>Contents of a pipe\<close>

definition pipe_ok :: "hw \<Rightarrow> pipe_t \<Rightarrow> bool" where
  "pipe_ok H p \<longleftrightarrow> (\<exists>b. pipe_buffer p = Some b \<and> length b = PIPE_MAX_BYTES H) \<and> pipe_waitingQ p \<noteq> None \<and>
     0 \<le> pipe_numBytesWritten p \<and> pipe_numBytesWritten p \<le> int (PIPE_MAX_BYTES H)"

definition pipe_contents :: "pipe_t \<Rightarrow> byte list" where
  "pipe_contents p = (case pipe_buffer p of None \<Rightarrow> [] | Some b \<Rightarrow> take (nat (pipe_numBytesWritten p)) b)"

lemma walk_pipes [simp]: "walk H (s\<lparr>pipes := P\<rparr>) v = walk H s v"
  by (simp add: walk_def pte_of_vpn_def)

lemma translate_pipes [simp]: "translate H (s\<lparr>pipes := P\<rparr>) need va = translate H s need va"
  by (simp add: translate_def)

lemma poke_pipes [simp]: "poke H (s\<lparr>pipes := P\<rparr>) va xs m = poke H s va xs m"
  by (induction xs arbitrary: va m) simp_all

lemma upd_pipe_run:
  "pipes s pipep = Some p \<Longrightarrow> upd_pipe pipep f s = Done () (s\<lparr>pipes := (pipes s)(pipep \<mapsto> f p)\<rparr>)"
  by (simp add: upd_pipe_def kdefs)

lemma buf_write_append:
  assumes "0 \<le> n" "n + int (length xs) \<le> int (length b)"
  shows "\<exists>b'. buf_write b n xs s = Done b' s \<and> length b' = length b \<and>
           take (nat (n + int (length xs))) b' = take (nat n) b @ xs"
proof -
  have n: "nat n + length xs \<le> length b" "nat (n + int (length xs)) = nat n + length xs"
    using assms by (simp_all add: nat_add_distrib)
  let ?b = "take (nat n) b @ xs @ drop (nat n + length xs) b"
  have "take (nat n + length xs) ?b = take (nat n) b @ xs" "length ?b = length b"
    using n(1) by (simp_all add: min_absorb2)
  then show ?thesis using assms n by (simp add: buf_write_def retk_def)
qed

lemma buf_shift:
  assumes "0 \<le> len" "0 < r" "len + r \<le> int (length b)"
  shows "\<exists>xs b'. buf_read b len r s = Done xs s \<and> buf_write b 0 xs s = Done b' s \<and> length b' = length b \<and>
           take (nat r) b' = drop (nat len) (take (nat (len + r)) b)"
proof -
  let ?xs = "take (nat r) (drop (nat len) b)"
  have l: "length ?xs = nat r" using assms by simp
  have "take (nat r) (?xs @ drop (length ?xs) b) = ?xs" using l by simp
  moreover have "?xs = drop (nat len) (take (nat (len + r)) b)"
    using assms by (simp add: drop_take nat_add_distrib)
  ultimately show ?thesis using assms l by (auto simp: buf_read_def buf_write_def retk_def)
qed

section \<open>Waking the head of the queue\<close>

definition woken :: "kstate \<Rightarrow> ptr list \<Rightarrow> ptr list" where
  "woken s ws = filter (\<lambda>w. w \<in> set (hm_procs (blockedMap s))) (take 1 ws)"

lemma blocked_lookup:
  assumes ok: "sched_ok H s" and bm: "blockedMap s = Some bm" and w: "w \<in> set (places s)"
  shows "hm_map bm (pid_of s w) = (if w \<in> set (hm_procs (blockedMap s)) then Some w else None)"
    and "0 \<le> pid_of s w" and "\<exists>wp. pcbs s w = Some wp \<and> pid wp = pid_of s w"
proof -
  have c: "core H s (places s)" using ok by (simp add: sched_ok_def)
  then have hm: "hm_ok bm" "\<And>k p. hm_map bm k = Some p \<Longrightarrow> pid_of s p = k"
    using bm by (auto simp: core_def map_ok_def)
  have sub: "set (hm_procs (blockedMap s)) \<subseteq> set (places s)" by (auto simp: places_def others_def)
  have inj: "inj_on (pid_of s) (set (places s))" using c by (simp add: core_def)
  show "hm_map bm (pid_of s w) = (if w \<in> set (hm_procs (blockedMap s)) then Some w else None)"
  proof (cases "hm_map bm (pid_of s w)")
    case None
    then have "w \<notin> set (hm_procs (blockedMap s))"
      using hm_procs_iff [OF hm(1), of w] hm(2) bm by auto
    then show ?thesis using None by simp
  next
    case (Some x)
    then have "x \<in> set (hm_procs (blockedMap s))" "pid_of s x = pid_of s w"
      using hm_procs_iff [OF hm(1), of x] hm(2) bm by auto
    with inj sub w have "x = w" by (meson inj_onD subsetD)
    with Some \<open>x \<in> _\<close> show ?thesis by simp
  qed
  show "0 \<le> pid_of s w" "\<exists>wp. pcbs s w = Some wp \<and> pid wp = pid_of s w"
    using c w by (auto simp: core_def pcb_ok_def pid_of_def)
qed

lemma wake_head_run:
  assumes ok: "sched_ok H s" and mem: "mallocs_ok s" and p: "pipes s pipep = Some p" "pipe_waitingQ p = Some ws"
    and ws: "set (take 1 ws) \<subseteq> set (places s)"
  shows "\<exists>t. wake_head pipep s = Done SUCCESS t \<and> sched_ok H t \<and> mset (places t) = mset (places s) \<and>
           sync_same s t \<and> currPCB t = currPCB s \<and> readyQ t = Some (qitems (readyQ s) @ woken s ws)"
proof (cases ws)
  case Nil
  from ok obtain rq where "readyQ s = Some rq" by (auto simp: sched_ok_def core_def)
  with Nil p ok show ?thesis
    by (auto simp: wake_head_def kdefs woken_def sync_same_def)
next
  case (Cons w rest)
  from ok obtain bm where bm: "blockedMap s = Some bm" by (auto simp: sched_ok_def core_def map_ok_def)
  have w: "w \<in> set (places s)" using ws Cons by simp
  note lk = blocked_lookup [OF ok bm w]
  from lk(3) obtain wp where wp: "pcbs s w = Some wp" "pid wp = pid_of s w" by auto
  have run: "wake_head pipep s = unblockProcess (pid wp) s"
    using p Cons wp by (simp add: wake_head_def fetch_def bindk_def get_pcb_def)
  show ?thesis
  proof (cases "w \<in> set (hm_procs (blockedMap s))")
    case True
    then have "hm_map bm (pid wp) = Some w" using lk(1) wp(2) by simp
    from unblockProcess_run [OF ok mem bm _ this] lk(2) wp(2) run True Cons
    show ?thesis by (auto simp: woken_def)
  next
    case False
    then have "hm_map bm (pid wp) = None" using lk(1) wp(2) by simp
    from unblockProcess_absent [OF ok bm _ this] lk(2) wp(2) run False Cons ok
    show ?thesis by (auto simp: woken_def sched_ok_def core_def)
  qed
qed

section \<open>Writing\<close>

lemma pipe_write_run:
  assumes ok: "sched_ok H s" and mem: "mallocs_ok s"
    and pm: "pipeMap s = Some pm" "hm_ok pm" "0 \<le> i" "hm_map pm i = Some pipep"
    and p: "pipes s pipep = Some p" "pipe_ok H p" "pipe_waitingQ p = Some ws" and ws: "set (take 1 ws) \<subseteq> set (places s)"
    and len: "0 < len" "pipe_numBytesWritten p + len \<le> int (PIPE_MAX_BYTES H)" "int (PIPE_MAX_BYTES H) \<le> INT_MAX"
    and buf: "mapped H s PROT_READ buf (nat len)"
  shows "\<exists>t p'. KernelPipeWrite H i buf len s = Done (RC len) t \<and> sched_ok H t \<and> mset (places t) = mset (places s) \<and>
           pipes t = (pipes s)(pipep \<mapsto> p') \<and> pipe_ok H p' \<and> pipe_waitingQ p' = Some ws \<and>
           pipe_contents p' = pipe_contents p @ bytes_at H s buf (nat len) \<and>
           readyQ t = Some (qitems (readyQ s) @ woken s ws)"
proof -
  let ?n = "pipe_numBytesWritten p" and ?xs = "bytes_at H s buf (nat len)"
  from p(2) obtain b where b: "pipe_buffer p = Some b" "length b = PIPE_MAX_BYTES H" "0 \<le> ?n"
    by (auto simp: pipe_ok_def)
  have add: "add_int ?n len s = Done (?n + len) s"
    using b(3) len by (simp add: add_int_def is_int_def retk_def)
  have "int (length ?xs) = len" using len by simp
  with buf_write_append [OF b(3), of ?xs b s] b len obtain b' where
    b': "buf_write b ?n ?xs s = Done b' s" "length b' = length b" "take (nat (?n + len)) b' = take (nat ?n) b @ ?xs"
    by auto
  define p' where "p' = p\<lparr>pipe_buffer := Some b', pipe_numBytesWritten := ?n + len\<rparr>"
  define s1 where "s1 = s\<lparr>pipes := (pipes s)(pipep \<mapsto> p')\<rparr>"
  have upd: "upd_pipe pipep (\<lambda>p. p\<lparr>pipe_buffer := Some b', pipe_numBytesWritten := ?n + len\<rparr>) s = Done () s1"
    using p(1) by (simp add: upd_pipe_run s1_def p'_def)
  have "sched_ok H s1" "mallocs_ok s1" "pipes s1 pipep = Some p'" "pipe_waitingQ p' = Some ws"
    "set (take 1 ws) \<subseteq> set (places s1)"
    using ok mem p ws by (simp_all add: s1_def p'_def)
  from wake_head_run [OF this] obtain t where t: "wake_head pipep s1 = Done SUCCESS t" "sched_ok H t"
    "mset (places t) = mset (places s1)" "sync_same s1 t" "readyQ t = Some (qitems (readyQ s1) @ woken s1 ws)" by blast
  have "KernelPipeWrite H i buf len s = Done (RC len) t"
    using getPipe_run [OF pm(1-3)] pm(4) p(1) len add b(1) copyin_run [OF buf] b'(1) upd t(1)
    by (simp add: KernelPipeWrite_def fetch_def bindk_def nonnull_def retk_def)
  moreover have "pipe_ok H p'" "pipe_contents p' = pipe_contents p @ ?xs"
    using b b' len p(3) by (simp_all add: p'_def pipe_ok_def pipe_contents_def)
  ultimately show ?thesis using t p(3)
    by (intro exI [of _ t] exI [of _ p']) (simp add: s1_def p'_def sync_same_def woken_def)
qed

text \<open>More bytes than fit are refused without a change.\<close>

lemma pipe_write_full:
  assumes "pipeMap s = Some pm" "hm_ok pm" "0 \<le> i" "hm_map pm i = Some pipep" "pipes s pipep = Some p"
    "0 < len" "int (PIPE_MAX_BYTES H) < pipe_numBytesWritten p + len" "pipe_numBytesWritten p + len \<le> INT_MAX"
  shows "KernelPipeWrite H i buf len s = Done ERROR s"
  using getPipe_run [OF assms(1-3)] assms(4-8)
  by (simp add: KernelPipeWrite_def fetch_def bindk_def add_int_def is_int_def INT_MAX_def retk_def)

lemma pipe_write_overflow:
  assumes "pipeMap s = Some pm" "hm_ok pm" "0 \<le> i" "hm_map pm i = Some pipep" "pipes s pipep = Some p"
    "0 < len" "INT_MAX < pipe_numBytesWritten p + len"
  shows "KernelPipeWrite H i buf len s = Fault OVERFLOW"
  using getPipe_run [OF assms(1-3)] assms(4-7)
  by (simp add: KernelPipeWrite_def fetch_def bindk_def add_int_def is_int_def faultk_def)

section \<open>Reading\<close>

lemma pipe_take_run:
  assumes ok: "sched_ok H s" and mem: "mallocs_ok s"
    and p: "pipes s pipep = Some p" "pipe_ok H p" "pipe_waitingQ p = Some (me # ws)" and ws: "set (take 1 ws) \<subseteq> set (places s)"
    and len: "0 < len" "len \<le> pipe_numBytesWritten p"
    and buf: "mapped H s PROT_WRITE buf (nat len)"
  shows "\<exists>t p'. pipe_take H pipep buf len s = Done (RC len) t \<and> sched_ok H t \<and> mset (places t) = mset (places s) \<and>
           pipes t = (pipes s)(pipep \<mapsto> p') \<and> pipe_ok H p' \<and> pipe_waitingQ p' = Some ws \<and>
           pipe_contents p' = drop (nat len) (pipe_contents p) \<and>
           pmem t = poke H s buf (take (nat len) (pipe_contents p)) (pmem s) \<and>
           readyQ t = Some (qitems (readyQ s) @ (if len < pipe_numBytesWritten p then woken s ws else []))"
proof -
  let ?n = "pipe_numBytesWritten p"
  from p(2) obtain b where b: "pipe_buffer p = Some b" "length b = PIPE_MAX_BYTES H" "?n \<le> int (length b)"
    by (auto simp: pipe_ok_def)
  define xs where "xs = take (nat len) (pipe_contents p)"
  have xs: "buf_read b 0 len = retk xs" "length xs = nat len"
    using b len by (simp_all add: buf_read_def xs_def pipe_contents_def min_absorb1)
  define p1 where "p1 = p\<lparr>pipe_waitingQ := Some ws\<rparr>"
  define s1 where "s1 = s\<lparr>pipes := (pipes s)(pipep \<mapsto> p1)\<rparr>"
  have d: "deq_pipe pipep s = Done (Some me) s1"
    using p by (simp add: deq_pipe_def kdefs upd_pipe_run s1_def p1_def)
  have map1: "mapped H s1 PROT_WRITE buf (length xs)"
    using buf xs(2) by (simp add: mapped_def s1_def)
  have poke1: "poke H s1 va ys m = poke H s va ys m" for va ys m
    by (simp add: s1_def)
  define p2 where "p2 = p1\<lparr>pipe_numBytesWritten := ?n - len\<rparr>"
  define s2 where "s2 = s\<lparr>pmem := poke H s buf xs (pmem s), pipes := (pipes s)(pipep \<mapsto> p2)\<rparr>"
  have u2: "upd_pipe pipep (\<lambda>p. p\<lparr>pipe_numBytesWritten := ?n - len\<rparr>) (s1\<lparr>pmem := poke H s1 buf xs (pmem s1)\<rparr>) = Done () s2"
    by (simp add: upd_pipe_def fetch_def bindk_def modk_def s1_def s2_def p2_def)
  have f1: "fetch pipes pipep s1 = Done p1 s1" by (simp add: fetch_def s1_def)
  show ?thesis
  proof (cases "len < ?n")
    case False
    then have "?n = len" using len by simp
    then have "pipe_take H pipep buf len s = Done (RC len) s2"
      using d f1 b(1) xs copyout_run [OF map1] u2
      by (simp add: pipe_take_def bindk_def nonnull_def retk_def Let_def p1_def)
    moreover have "pipe_ok H p2" "pipe_contents p2 = drop (nat len) (pipe_contents p)"
      using p(2) b \<open>?n = len\<close> by (simp_all add: p2_def p1_def pipe_ok_def pipe_contents_def)
    moreover obtain rq where "readyQ s = Some rq" using ok by (auto simp: sched_ok_def core_def)
    ultimately show ?thesis using ok False
      by (intro exI [of _ s2] exI [of _ p2]) (simp add: s2_def p2_def p1_def xs_def)
  next
    case True
    obtain rest b' where r: "buf_read b len (?n - len) s2 = Done rest s2" "buf_write b 0 rest s2 = Done b' s2"
      "length b' = length b" "take (nat (?n - len)) b' = drop (nat len) (take (nat ?n) b)"
      using buf_shift [of len "?n - len" b s2] True len b by auto
    define p3 where "p3 = p2\<lparr>pipe_buffer := Some b'\<rparr>"
    define s3 where "s3 = s2\<lparr>pipes := (pipes s2)(pipep \<mapsto> p3)\<rparr>"
    have u3: "upd_pipe pipep (\<lambda>p. p\<lparr>pipe_buffer := Some b'\<rparr>) s2 = Done () s3"
      by (simp add: upd_pipe_run s2_def s3_def p3_def)
    have "sched_ok H s3" "mallocs_ok s3" "pipes s3 pipep = Some p3" "pipe_waitingQ p3 = Some ws"
      "set (take 1 ws) \<subseteq> set (places s3)"
      using ok mem ws by (simp_all add: s3_def s2_def p3_def p2_def p1_def)
    from wake_head_run [OF this] obtain t where t: "wake_head pipep s3 = Done SUCCESS t" "sched_ok H t"
      "mset (places t) = mset (places s3)" "sync_same s3 t" "readyQ t = Some (qitems (readyQ s3) @ woken s3 ws)" by blast
    have "pipe_take H pipep buf len s = Done (RC len) t"
      using d f1 b(1) xs copyout_run [OF map1] u2 True r(1,2) u3 t(1)
      by (simp add: pipe_take_def bindk_def nonnull_def retk_def Let_def p1_def)
    moreover have "pipe_ok H p3" "pipe_contents p3 = drop (nat len) (pipe_contents p)"
      using p(2) b r True len by (simp_all add: p3_def p2_def p1_def pipe_ok_def pipe_contents_def)
    ultimately show ?thesis using t True
      by (intro exI [of _ t] exI [of _ p3])
         (simp add: s3_def s2_def p3_def p2_def p1_def sync_same_def woken_def xs_def)
  qed
qed

text \<open>A reader that finds nobody waiting and enough bytes reads at once.\<close>

lemma enq_pipe_run:
  assumes "mallocs_ok s" "pipes s pipep = Some p" "pipe_waitingQ p = Some ws"
  shows "enq_pipe pipep x s = Done SUCCESS (s\<lparr>malloc_count := Suc (malloc_count s),
           pipes := (pipes s)(pipep \<mapsto> p\<lparr>pipe_waitingQ := Some (ws @ [x])\<rparr>)\<rparr>)"
proof -
  have "\<exists>a. malloc_oracle s (malloc_count s) = Some a" using assms(1) by (auto simp: mallocs_ok_def)
  with assms(2,3) show ?thesis
    by (auto simp: enq_pipe_def malloc_okk_run bindk_def fetch_def upd_pipe_def modk_def retk_def)
qed

lemma walk_count [simp]: "walk H (s\<lparr>malloc_count := n\<rparr>) v = walk H s v"
  by (simp add: walk_def pte_of_vpn_def)

lemma translate_count [simp]: "translate H (s\<lparr>malloc_count := n\<rparr>) need va = translate H s need va"
  by (simp add: translate_def)

lemma poke_count [simp]: "poke H (s\<lparr>malloc_count := n\<rparr>) va xs m = poke H s va xs m"
  by (induction xs arbitrary: va m) simp_all

lemma pipe_read_now:
  assumes ok: "sched_ok H s" and mem: "mallocs_ok s"
    and pm: "pipeMap s = Some pm" "hm_ok pm" "0 \<le> i" "hm_map pm i = Some pipep"
    and p: "pipes s pipep = Some p" "pipe_ok H p" "pipe_waitingQ p = Some []"
    and len: "0 < len" "len \<le> pipe_numBytesWritten p"
    and buf: "mapped H s PROT_WRITE buf (nat len)"
  shows "\<exists>t p'. KernelPipeRead H i buf len s = Done (RC len) t \<and> sched_ok H t \<and> mset (places t) = mset (places s) \<and>
           pipes t = (pipes s)(pipep \<mapsto> p') \<and> pipe_ok H p' \<and> pipe_waitingQ p' = Some [] \<and>
           pipe_contents p' = drop (nat len) (pipe_contents p) \<and>
           pmem t = poke H s buf (take (nat len) (pipe_contents p)) (pmem s) \<and> readyQ t = readyQ s"
proof -
  define p1 where "p1 = p\<lparr>pipe_waitingQ := Some [currPCB s]\<rparr>"
  define s1 where "s1 = s\<lparr>malloc_count := Suc (malloc_count s), pipes := (pipes s)(pipep \<mapsto> p1)\<rparr>"
  have e: "enq_pipe pipep (currPCB s) s = Done SUCCESS s1"
    using enq_pipe_run [OF mem p(1,3)] by (simp add: s1_def p1_def)
  have "sched_ok H s1" "mallocs_ok s1" "pipes s1 pipep = Some p1" "pipe_ok H p1"
    "pipe_waitingQ p1 = Some (currPCB s # [])" "set (take 1 []) \<subseteq> set (places s1)" "0 < len"
    "len \<le> pipe_numBytesWritten p1" "mapped H s1 PROT_WRITE buf (nat len)"
    using ok mem p len buf by (simp_all add: s1_def p1_def pipe_ok_def mapped_def)
  from pipe_take_run [OF this] obtain t p' where t: "pipe_take H pipep buf len s1 = Done (RC len) t"
    "sched_ok H t" "mset (places t) = mset (places s1)" "pipes t = (pipes s1)(pipep \<mapsto> p')" "pipe_ok H p'"
    "pipe_waitingQ p' = Some []" "pipe_contents p' = drop (nat len) (pipe_contents p1)"
    "pmem t = poke H s1 buf (take (nat len) (pipe_contents p1)) (pmem s1)"
    "readyQ t = Some (qitems (readyQ s1) @ (if len < pipe_numBytesWritten p1 then woken s1 [] else []))" by blast
  have f: "fetch pipes pipep s = Done p s" "fetch pipes pipep s1 = Done p1 s1"
    using p(1) by (simp_all add: fetch_def s1_def)
  have "KernelPipeRead H i buf len s = Done (RC len) t"
    using getPipe_run [OF pm(1-3)] pm(4) p len e t(1) f
    by (simp add: KernelPipeRead_def bindk_def getk_def pipe_read_loop_def p1_def)
  moreover have "pipe_contents p1 = pipe_contents p" by (simp add: p1_def pipe_contents_def split: option.splits)
  moreover obtain rq where "readyQ s = Some rq" using ok by (auto simp: sched_ok_def core_def)
  ultimately show ?thesis using t
    by (intro exI [of _ t] exI [of _ p']) (simp add: s1_def woken_def)
qed

text \<open>Otherwise it queues up and blocks.\<close>

lemma pipe_read_waits:
  assumes H: "hw_ok H" and ok: "sched_ok H s" and mem: "mallocs_ok s"
    and tx: "currPCB s \<notin> set (transmitters s)" and rq: "readyQ s = Some (n # q)"
    and pm: "pipeMap s = Some pm" "hm_ok pm" "0 \<le> i" "hm_map pm i = Some pipep"
    and p: "pipes s pipep = Some p" "pipe_waitingQ p = Some ws"
    and len: "0 < len" "ws \<noteq> [] \<and> hd ws \<noteq> currPCB s \<or> ws = [] \<and> pipe_numBytesWritten p < len"
  shows "\<exists>t bm bm'. KernelPipeRead H i buf len s = Switch t \<and> sched_ok H t \<and> mset (places t) = mset (places s) \<and>
           currPCB t = n \<and> readyQ t = Some q \<and> blockedMap s = Some bm \<and> blockedMap t = Some bm' \<and>
           hm_map bm' = (hm_map bm)(pid_of s (currPCB s) \<mapsto> currPCB s) \<and>
           pipes t = (pipes s)(pipep \<mapsto> p\<lparr>pipe_waitingQ := Some (ws @ [currPCB s])\<rparr>)"
proof -
  define p1 where "p1 = p\<lparr>pipe_waitingQ := Some (ws @ [currPCB s])\<rparr>"
  define s1 where "s1 = s\<lparr>malloc_count := Suc (malloc_count s), pipes := (pipes s)(pipep \<mapsto> p1)\<rparr>"
  have e: "enq_pipe pipep (currPCB s) s = Done SUCCESS s1"
    using enq_pipe_run [OF mem p(1,2)] by (simp add: s1_def p1_def)
  have f: "fetch pipes pipep s = Done p s" "fetch pipes pipep s1 = Done p1 s1"
    using p(1) by (simp_all add: fetch_def s1_def)
  define k where "k = (if ws = [] then KPipeBytes pipep buf len else KPipeHead pipep buf len)"
  have "hw_ok H" "sched_ok H s1" "mallocs_ok s1" "currPCB s1 \<notin> set (transmitters s1)" "readyQ s1 = Some (n # q)"
    using assms by (simp_all add: s1_def)
  from blockProcess_run [OF this, of k] obtain t hm hm' where
    t: "blockProcess H k s1 = Switch t" "sched_ok H t" "mset (places t) = mset (places s1)"
      "currPCB t = n" "readyQ t = Some q" "blockedMap s1 = Some hm" "blockedMap t = Some hm'"
      "hm_map hm' = (hm_map hm)(pid_of s1 (currPCB s1) \<mapsto> currPCB s1)" "sync_same s1 t" by blast
  have "KernelPipeRead H i buf len s = Switch t"
    using getPipe_run [OF pm(1-3)] pm(4) p len e t(1) f
    by (cases ws) (auto simp: KernelPipeRead_def bindk_def getk_def pipe_read_loop_def p1_def k_def)
  with t show ?thesis by (auto simp: s1_def p1_def sync_same_def)
qed

end
