(* ===== verification/LockSafety.thy ===== *)
theory LockSafety
  imports PipeProps
begin

text \<open>
  Mutual exclusion: no call of one process takes a lock away from another, and a call that reports
  the lock as acquired makes its caller the owner of a lock that was free. Also the loop of
  \<^verbatim>\<open>KernelCvarBroadcast\<close>, which wakes every waiter in order of arrival.
\<close>

section \<open>Foreign locks are kept\<close>

definition holds :: "kstate \<Rightarrow> ptr \<Rightarrow> ptr \<Rightarrow> bool" where
  "holds s a p \<longleftrightarrow> (\<exists>l. locks s a = Some l \<and> ownerPcbp l = Some p)"

definition foreign_kept :: "kstate \<Rightarrow> kstate \<Rightarrow> bool" where
  "foreign_kept s t \<longleftrightarrow> (\<forall>a p. holds s a p \<and> p \<noteq> currPCB s \<longrightarrow> holds t a p)"

text \<open>The pointwise rule set: a part of a call that returns also keeps the running process.\<close>

definition safe_at :: "'a kernel \<Rightarrow> kstate \<Rightarrow> bool" where
  "safe_at m s \<longleftrightarrow> (\<forall>t. (\<forall>x. m s = Done x t \<longrightarrow> foreign_kept s t \<and> currPCB t = currPCB s) \<and>
     (m s = Switch t \<longrightarrow> foreign_kept s t))"

lemma foreign_kept_refl [simp]: "foreign_kept s s"
  by (simp add: foreign_kept_def)

lemma foreign_kept_locks: "locks t = locks s \<Longrightarrow> foreign_kept s t"
  by (simp add: foreign_kept_def holds_def)

lemma safe_bind:
  assumes "safe_at m s" "\<And>x t. m s = Done x t \<Longrightarrow> safe_at (f x) t"
  shows "safe_at (bindk m f) s"
proof (cases "m s")
  case (Done x t)
  with assms have "foreign_kept s t" "currPCB t = currPCB s" "safe_at (f x) t" by (auto simp: safe_at_def)
  then show ?thesis using Done unfolding safe_at_def foreign_kept_def by simp
qed (use assms in \<open>simp_all add: safe_at_def\<close>)

lemma safe_ret: "safe_at (retk x) s" "safe_at (getk g) s" "safe_at (faultk e) s" "safe_at haltk s"
    "safe_at (fetch h p) s" "safe_at (get_pcb p) s"
  by (auto simp: safe_at_def kdefs get_pcb_def split: option.splits)

lemma safe_modk: "locks (g s) = locks s \<Longrightarrow> currPCB (g s) = currPCB s \<Longrightarrow> safe_at (modk g) s"
  by (simp add: safe_at_def modk_def foreign_kept_locks)

lemma safe_keeps:
  assumes "keeps sync_part m" "\<And>x t. m s = Done x t \<Longrightarrow> currPCB t = currPCB s"
  shows "safe_at m s"
  using keepsD [OF assms(1)] assms(2)
  by (auto simp: safe_at_def sync_part_def intro!: foreign_kept_locks)

lemma safe_cases:
  "safe_at m s \<Longrightarrow> safe_at n s \<Longrightarrow> safe_at (if b then m else n) s"
  "safe_at m s \<Longrightarrow> (\<And>x. v = Some x \<Longrightarrow> safe_at (g x) s) \<Longrightarrow> safe_at (case v of None \<Rightarrow> m | Some x \<Rightarrow> g x) s"
  by (auto split: option.splits)

section \<open>The scheduler's part\<close>

lemma safe_stays: "keeps sync_part m \<Longrightarrow> stays m \<Longrightarrow> safe_at m s"
  by (erule safe_keeps) (rule staysD)

lemma safe_blockProcess: "safe_at (blockProcess H k) s"
  by (rule safe_stays [OF keeps_blockProcess stays_blockProcess])

lemma safe_unblockProcess: "safe_at (unblockProcess p) s"
  by (rule safe_stays [OF keeps_unblockProcess stays_unblockProcess])

lemma safe_malloc_okk: "safe_at malloc_okk s"
  by (simp add: safe_at_def malloc_okk_run foreign_kept_locks)

lemma safe_find: "safe_at (hm_findk get i) s"
  by (auto simp: safe_at_def hm_findk_def bindk_def getk_def liftk_def faultk_def retk_def split: sum.splits)

lemmas safe_parts = safe_ret safe_malloc_okk safe_find safe_blockProcess safe_unblockProcess

section \<open>Locks\<close>

lemma safe_upd_lock:
  assumes "\<And>l p. locks s a = Some l \<Longrightarrow> ownerPcbp l = Some p \<Longrightarrow> p \<noteq> currPCB s \<Longrightarrow> ownerPcbp (f l) = Some p"
  shows "safe_at (upd_lock a f) s"
  using assms by (auto simp: safe_at_def upd_lock_def fetch_def bindk_def modk_def foreign_kept_def holds_def
      split: option.splits)

lemma safe_enq_lock: "safe_at (enq_lock a p) s"
  unfolding enq_lock_def by (intro safe_bind safe_parts safe_upd_lock) simp

lemma safe_acquire_loop: "safe_at (acquire_loop H a) s"
  unfolding acquire_loop_def
proof (intro safe_bind safe_parts)
  fix l c and t t' :: kstate
  assume "fetch locks a s = Done l t" "getk currPCB t = Done c t'"
  then have [simp]: "t' = s" "locks s a = Some l" by (auto simp: fetch_def getk_def split: option.splits)
  have "safe_at (bindk (enq_lock a c) (\<lambda>r. if r = ERROR then retk ERROR else blockProcess H (KAcquire a))) s"
    by (intro safe_bind safe_enq_lock safe_cases safe_parts)
  moreover have "safe_at (bindk (upd_lock a (\<lambda>l. l\<lparr>ownerPcbp := Some c\<rparr>)) (\<lambda>_. retk SUCCESS)) s"
    if "ownerPcbp l = None" using that by (intro safe_bind safe_parts safe_upd_lock) simp
  ultimately show "safe_at (if ownerPcbp l \<noteq> None
      then bindk (enq_lock a c) (\<lambda>r. if r = ERROR then retk ERROR else blockProcess H (KAcquire a))
      else bindk (upd_lock a (\<lambda>l. l\<lparr>ownerPcbp := Some c\<rparr>)) (\<lambda>_. retk SUCCESS)) t'" by simp
qed

lemma safe_KernelAcquire: "safe_at (KernelAcquire H i) s"
  unfolding KernelAcquire_def getLock_def by (intro safe_bind safe_parts safe_cases safe_acquire_loop)

lemma safe_KernelRelease: "safe_at (KernelRelease i) s"
  unfolding KernelRelease_def getLock_def
proof (intro safe_bind safe_find safe_cases(2) safe_parts)
  fix m a l c and t t1 t2 :: kstate
  assume "fetch locks a t = Done l t1" "getk currPCB t1 = Done c t2"
  then have [simp]: "t2 = t" "locks t a = Some l" "c = currPCB t" by (auto simp: fetch_def getk_def split: option.splits)
  let ?u = "upd_lock a (\<lambda>l. l\<lparr>ownerPcbp := None, lock_waitingQ := snd (deq_q (lock_waitingQ l))\<rparr>)"
  have "safe_at (bindk ?u (\<lambda>_. case fst (deq_q (lock_waitingQ l)) of None \<Rightarrow> retk SUCCESS
      | Some w \<Rightarrow> bindk (get_pcb w) (\<lambda>wp. unblockProcess (pid wp)))) t" if "ownerPcbp l = Some c"
    using that by (intro safe_bind safe_parts safe_cases safe_upd_lock) simp_all
  then show "safe_at (if ownerPcbp l \<noteq> Some c \<or> lock_waitingQ l = None then retk ERROR
      else bindk ?u (\<lambda>_. case fst (deq_q (lock_waitingQ l)) of None \<Rightarrow> retk SUCCESS
      | Some w \<Rightarrow> bindk (get_pcb w) (\<lambda>wp. unblockProcess (pid wp)))) t2"
    by (auto intro: safe_ret)
qed

lemma safe_enq_cvar: "safe_at (enq_cvar a p) s"
  unfolding enq_cvar_def by (intro safe_bind safe_parts safe_modk) simp_all

lemma safe_deq_cvar: "safe_at (deq_cvar a) s"
  unfolding deq_cvar_def by (intro safe_bind safe_parts safe_modk) simp_all

lemma safe_KernelCvarWait: "safe_at (KernelCvarWait H c i) s"
  unfolding KernelCvarWait_def getCvar_def
  by (intro safe_bind safe_parts safe_cases safe_enq_cvar safe_KernelRelease)

lemma safe_KernelCvarSignal: "safe_at (KernelCvarSignal c) s"
  unfolding KernelCvarSignal_def getCvar_def by (intro safe_bind safe_parts safe_cases safe_deq_cvar)

lemma safe_broadcast_loop: "safe_at (broadcast_loop fuel a) s"
  by (induction fuel arbitrary: s) (auto intro!: safe_bind safe_parts safe_cases safe_deq_cvar)

lemma safe_KernelCvarBroadcast: "safe_at (KernelCvarBroadcast c) s"
  unfolding KernelCvarBroadcast_def getCvar_def
  by (intro safe_bind safe_parts safe_cases safe_broadcast_loop)

lemmas safe_calls = safe_KernelAcquire safe_acquire_loop safe_KernelRelease safe_KernelCvarWait
  safe_KernelCvarSignal safe_KernelCvarBroadcast

lemma safe_atD: "safe_at m s \<Longrightarrow> m s = Done x t \<or> m s = Switch t \<Longrightarrow> foreign_kept s t"
  by (auto simp: safe_at_def)

text \<open>Success means that the lock was free and now belongs to the caller.\<close>

lemma acquire_success:
  assumes "acquire_loop H a s = Done SUCCESS t"
  shows "\<exists>l. locks s a = Some l \<and> ownerPcbp l = None \<and> holds t a (currPCB s)"
  using assms blockProcess_returns [of H "KAcquire a"]
  by (auto simp: acquire_loop_def bindk_eq_Done fetch_def getk_def upd_lock_def modk_def retk_def holds_def
      split: option.splits if_splits)

section \<open>Broadcast\<close>

lemma deq_cvar_run:
  "cvars s a = Some q \<Longrightarrow> deq_cvar a s = Done (fst (deq_q (Some q))) (s\<lparr>cvars := (cvars s)(a := snd (deq_q (Some q)))\<rparr>)"
  by (simp add: deq_cvar_def fetch_def bindk_def modk_def retk_def)

lemma broadcast_run:
  assumes "sched_ok H s" "mallocs_ok s" "cvars s a = Some q" "distinct q" "set q \<subseteq> set (places s)" "length q < fuel"
  shows "\<exists>t. broadcast_loop fuel a s = Done SUCCESS t \<and> sched_ok H t \<and> mset (places t) = mset (places s) \<and>
           cvars t = (cvars s)(a \<mapsto> []) \<and>
           readyQ t = Some (qitems (readyQ s) @ filter (\<lambda>w. w \<in> set (hm_procs (blockedMap s))) q)"
  using assms
proof (induction q arbitrary: s fuel)
  case Nil
  then obtain n rq where "fuel = Suc n" "readyQ s = Some rq"
    by (cases fuel) (auto simp: sched_ok_def core_def)
  with Nil show ?case
    by (auto simp: deq_cvar_run bindk_def retk_def)
next
  case (Cons w q)
  then obtain n where n: "fuel = Suc n" "length q < n" by (cases fuel) auto
  define s1 where "s1 = s\<lparr>cvars := (cvars s)(a \<mapsto> q)\<rparr>"
  have s1: "sched_ok H s1" "mallocs_ok s1" "places s1 = places s" using Cons.prems by (simp_all add: s1_def)
  from s1(1) obtain bm where bm: "blockedMap s1 = Some bm" by (auto simp: sched_ok_def core_def map_ok_def)
  have w: "w \<in> set (places s1)" using Cons.prems(5) s1(3) by simp
  note lk = blocked_lookup [OF s1(1) bm w]
  from lk(3) obtain wp where wp: "pcbs s1 w = Some wp" "pid wp = pid_of s1 w" by auto
  have hm: "hm_ok bm" "\<And>k p. hm_map bm k = Some p \<Longrightarrow> pid_of s1 p = k"
    using s1(1) bm by (auto simp: sched_ok_def core_def map_ok_def)
  obtain t bm' where t: "unblockProcess (pid wp) s1 = Done SUCCESS t" "sched_ok H t"
    "mset (places t) = mset (places s1)" "blockedMap t = Some bm'" "sync_same s1 t"
    "readyQ t = Some (qitems (readyQ s1) @ (if w \<in> set (hm_procs (blockedMap s1)) then [w] else []))"
    "hm_map bm' = (hm_map bm)(pid wp := None)"
  proof (cases "w \<in> set (hm_procs (blockedMap s1))")
    case True
    then have "hm_map bm (pid wp) = Some w" using lk(1) wp(2) by simp
    from unblockProcess_run [OF s1(1,2) bm _ this] lk(2) wp(2) True that show ?thesis by auto
  next
    case False
    then have none: "hm_map bm (pid wp) = None" using lk(1) wp(2) by simp
    obtain rq where "readyQ s1 = Some rq" using s1(1) by (auto simp: sched_ok_def core_def)
    with unblockProcess_absent [OF s1(1) bm _ none] lk(2) wp(2) False that none show ?thesis
      by (auto simp: fun_upd_idem)
  qed
  have hm': "hm_ok bm'" using t(2,4) by (auto simp: sched_ok_def core_def map_ok_def)
  have still: "v \<in> set (hm_procs (blockedMap t)) \<longleftrightarrow> v \<in> set (hm_procs (blockedMap s))" if "v \<in> set q" for v
  proof -
    have v: "v \<noteq> w" "v \<in> set (places s1)" using that Cons.prems(4,5) s1(3) by auto
    have "pid_of s1 v \<noteq> pid wp"
      using v w wp(2) s1(1) by (auto simp: sched_ok_def core_def dest: inj_onD)
    then have "hm_map bm' (pid_of s1 v) = hm_map bm (pid_of s1 v)" by (simp add: t(7))
    moreover have "hm_map bm' k = Some v \<Longrightarrow> hm_map bm k = Some v" for k by (simp add: t(7) split: if_splits)
    ultimately have "(\<exists>k. hm_map bm' k = Some v) \<longleftrightarrow> (\<exists>k. hm_map bm k = Some v)" using hm(2) by metis
    then show ?thesis
      using hm_procs_iff [OF hm', of v] hm_procs_iff [OF hm(1), of v] bm t(4) by (simp add: s1_def)
  qed
  have "mallocs_ok t" using sync_same_mallocs [OF t(5)] s1(2) by simp
  moreover have "cvars t a = Some q" using t(5) by (simp add: sync_same_def s1_def)
  moreover have "set q \<subseteq> set (places t)"
    using Cons.prems(5) s1(3) mset_eq_setD [OF t(3)] by auto
  ultimately obtain u where u: "broadcast_loop n a t = Done SUCCESS u" "sched_ok H u"
    "mset (places u) = mset (places t)" "cvars u = (cvars t)(a \<mapsto> [])"
    "readyQ u = Some (qitems (readyQ t) @ filter (\<lambda>w. w \<in> set (hm_procs (blockedMap t))) q)"
    using Cons.IH [OF t(2) _ _ _ _ n(2)] Cons.prems(4) by (metis distinct.simps(2))
  have "broadcast_loop fuel a s = Done SUCCESS u"
    using n(1) Cons.prems(3) wp(1) t(1) u(1)
    by (simp add: deq_cvar_run bindk_def get_pcb_def fetch_def s1_def)
  moreover have "cvars u = (cvars s)(a \<mapsto> [])" using u(4) t(5) by (simp add: sync_same_def s1_def)
  moreover have "filter (\<lambda>w. w \<in> set (hm_procs (blockedMap t))) q = filter (\<lambda>w. w \<in> set (hm_procs (blockedMap s))) q"
    using still by (rule filter_cong [OF refl])
  then have "readyQ u = Some (qitems (readyQ s) @ filter (\<lambda>w. w \<in> set (hm_procs (blockedMap s))) (w # q))"
    using u(5) t(6) by (simp add: s1_def)
  ultimately show ?case using u(2,3) t(3) s1(3) by auto
qed

end
