(* ===== verification/Clock.thy ===== *)
theory Clock
  imports LockSafety Traps
begin

text \<open>
  The clock trap as a whole: sleepers whose delay is over become ready, then the running process goes to
  the end of the ready queue and the head runs. Between computing processes this is fair: a process at
  position \<open>i\<close> of the ready queue runs after \<open>i + 1\<close> ticks, however many sleepers wake up meanwhile.
\<close>

section \<open>What a tick leaves alone\<close>

definition tick_part :: "kstate \<Rightarrow> kstate" where
  "tick_part s = s\<lparr>malloc_count := 0, errorCount := 0, pcbs := Map.empty, readyQ := None, sleepingMap := None\<rparr>"

lemma keeps_tickDownSleepers: "keeps tick_part tickDownSleepers"
proof -
  have "keeps tick_part malloc_okk"
    by (auto simp: keeps_def malloc_okk_run tick_part_def)
  then have "keeps tick_part (enq_ready p)" for p
    unfolding enq_ready_def enqk_def by (intro keeps_rules) (simp_all add: tick_part_def set_readyQ_def)
  moreover have "keeps tick_part (upd_pcb p g)" for p g
    unfolding upd_pcb_def by (intro keeps_rules) (simp add: tick_part_def)
  moreover have "keeps tick_part (hm_removek sleepingMap set_sleepingMap k)" for k
    unfolding hm_removek_def by (intro keeps_rules) (simp add: tick_part_def set_sleepingMap_def)
  ultimately have "keeps tick_part (tickDownSleeper k x)" for k x
    unfolding tickDownSleeper_def by (intro keeps_rules) (simp_all add: tick_part_def)
  then show ?thesis
    unfolding tickDownSleepers_def by (intro keeps_rules) (simp add: tick_part_def)
qed

text \<open>So every field but those five is as before.\<close>

lemma tick_field:
  assumes "tickDownSleepers s = Done r t" "\<And>u. f (tick_part u) = f u"
  shows "f t = f s"
  using keepsD(1) [OF keeps_tickDownSleepers assms(1)] assms(2) by metis

section \<open>The clock trap\<close>

text \<open>The sleepers a tick wakes, in the order they become ready.\<close>

definition waking :: "kstate \<Rightarrow> ptr list" where
  "waking s = filter (expires s) (hm_procs (sleepingMap s))"

lemma handleTrapClock_run:
  assumes H: "hw_ok H" and ok: "sched_ok H s" and mem: "mallocs_ok s"
    and tx: "currPCB s \<notin> set (transmitters s)" and rq: "readyQ s = Some (n # q)"
  shows "\<exists>t. handleTrapClock H s = Switch t \<and> sched_ok H t \<and> mset (places t) = mset (places s) \<and>
           currPCB t = n \<and> readyQ t = Some (q @ waking s @ [currPCB s]) \<and>
           currTransmitters t = currTransmitters s \<and> mallocs_ok t"
proof -
  from ok obtain hm where hm: "sleepingMap s = Some hm" by (auto simp: sched_ok_def core_def map_ok_def)
  from tickDownSleepers_run [OF ok mem hm] rq obtain s1 where
    s1: "tickDownSleepers s = Done SUCCESS s1" "sched_ok H s1" "mset (places s1) = mset (places s)"
      "readyQ s1 = Some (n # q @ waking s)" "currPCB s1 = currPCB s" by (auto simp: waking_def hm)
  have tx1: "currTransmitters s1 = currTransmitters s" "mallocs_ok s1"
    using tick_field [OF s1(1), of currTransmitters] tick_field [OF s1(1), of malloc_oracle] mem
    by (simp_all add: tick_part_def mallocs_ok_def)
  then have "currPCB s1 \<notin> set (transmitters s1)" using tx s1(5) by (simp add: transmitters_def)
  from kickProcess_run [OF H s1(2) tx1(2) this s1(4), of KClock] obtain t where
    t: "kickProcess H KClock s1 = Switch t" "sched_ok H t" "mset (places t) = mset (places s1)" "currPCB t = n"
      "readyQ t = Some ((q @ waking s) @ [currPCB s1])" "currTransmitters t = currTransmitters s1" "sync_same s1 t"
    by blast
  have "handleTrapClock H s = Switch t" using s1(1) t(1) by (simp add: handleTrapClock_def bindk_def)
  with t s1 tx1 show ?thesis by (simp add: sync_same_mallocs)
qed

lemma handleTrapClock_idle:
  assumes ok: "sched_ok H s" and mem: "mallocs_ok s" and rq: "readyQ s = Some []" and none: "waking s = []"
  shows "\<exists>t. handleTrapClock H s = Done () t \<and> sched_ok H t \<and> currPCB t = currPCB s \<and> readyQ t = Some []"
proof -
  from ok obtain hm where hm: "sleepingMap s = Some hm" by (auto simp: sched_ok_def core_def map_ok_def)
  from tickDownSleepers_run [OF ok mem hm] rq none obtain s1 where
    s1: "tickDownSleepers s = Done SUCCESS s1" "sched_ok H s1" "readyQ s1 = Some []" "currPCB s1 = currPCB s"
    by (auto simp: waking_def hm)
  then show ?thesis
    by (intro exI [of _ s1]) (simp add: handleTrapClock_def bindk_def kickProcess_alone retk_def)
qed

section \<open>Fairness\<close>

text \<open>Clock traps in a row, each taken by the process the last one switched to.\<close>

fun ticks :: "hw \<Rightarrow> nat \<Rightarrow> kstate \<Rightarrow> kstate option" where
  "ticks H 0 s = Some s"
| "ticks H (Suc n) s =
     (case handleTrapClock H s of Switch t \<Rightarrow> ticks H n t | Done u t \<Rightarrow> ticks H n t | _ \<Rightarrow> None)"

lemma next_not_transmitting:
  assumes "sched_ok H s" "readyQ s = Some q" "n \<in> set q"
  shows "n \<notin> set (transmitters s)"
  using assms by (auto simp: sched_ok_def core_def places_def others_def)

lemma ticks_reach:
  assumes H: "hw_ok H" and "sched_ok H s" "mallocs_ok s" "currPCB s \<notin> set (transmitters s)"
    "readyQ s = Some (xs @ p # ys)"
  shows "\<exists>t. ticks H (Suc (length xs)) s = Some t \<and> currPCB t = p \<and> sched_ok H t \<and> mset (places t) = mset (places s)"
  using assms(2-)
proof (induction xs arbitrary: s ys)
  case Nil
  then show ?case using handleTrapClock_run [OF H Nil.prems(1-3), of p ys] by auto
next
  case (Cons x xs)
  then obtain t where t: "handleTrapClock H s = Switch t" "sched_ok H t" "mset (places t) = mset (places s)"
    "currPCB t = x" "readyQ t = Some ((xs @ p # ys) @ waking s @ [currPCB s])"
    "currTransmitters t = currTransmitters s" "mallocs_ok t"
    using handleTrapClock_run [OF H Cons.prems(1-3), of x "xs @ p # ys"] by auto
  have "x \<notin> set (transmitters s)" using next_not_transmitting [OF Cons.prems(1,4)] by simp
  then have "currPCB t \<notin> set (transmitters t)" using t(4,6) by (simp add: transmitters_def)
  with Cons.IH [of t "ys @ waking s @ [currPCB s]"] t show ?case by auto
qed

end
