(* ===== verification/ExitWait.thy ===== *)
theory ExitWait
  imports LockSafety GeneralCalls
begin

text \<open>
  The hand-over of an exit status: an exiting child leaves a zombie at the end of its parent's queue and
  wakes the parent if it is blocked; \<^verbatim>\<open>KernelWait\<close> takes the oldest zombie, stores the status in
  the parent's memory and returns the child's pid.
\<close>

section \<open>Leaving a zombie\<close>

lemma leave_zombie_run:
  assumes ok: "sched_ok H s" and mem: "mallocs_ok s" and c: "pcbs s c = Some cc" and ne: "c \<noteq> pp"
    and pp: "pcbs s pp = Some ppc" "pp \<in> set (places s)"
  shows "\<exists>t. leave_zombie c pp status s = Done SUCCESS t \<and> sched_ok H t \<and> mset (places t) = mset (places s) \<and>
           pcbs t = (pcbs s)(pp \<mapsto> ppc\<lparr>zombieQ := Some (qitems (zombieQ ppc) @ [\<lparr>z_pid = pid cc, exit_status = status\<rparr>])\<rparr>) \<and>
           readyQ t = Some (qitems (readyQ s) @ (if pp \<in> set (hm_procs (blockedMap s)) then [pp] else [])) \<and>
           currPCB t = currPCB s \<and> sync_same s t"
proof -
  let ?z = "\<lparr>z_pid = pid cc, exit_status = status\<rparr>"
  define m where "m = (if zombieQ ppc = None then malloc_count s + 3 else malloc_count s + 2)"
  define s1 where "s1 = s\<lparr>malloc_count := m,
    pcbs := (pcbs s)(pp \<mapsto> ppc\<lparr>zombieQ := Some (qitems (zombieQ ppc) @ [?z])\<rparr>)\<rparr>"
  have al: "\<exists>a. malloc_oracle s n = Some a" for n using mem by (auto simp: mallocs_ok_def)
  from al [of "malloc_count s"] al [of "Suc (malloc_count s)"] al [of "Suc (Suc (malloc_count s))"] obtain a0 a1 a2 where
    a: "malloc_oracle s (malloc_count s) = Some a0" "malloc_oracle s (Suc (malloc_count s)) = Some a1"
      "malloc_oracle s (Suc (Suc (malloc_count s))) = Some a2" by blast
  define s0 where "s0 = s\<lparr>malloc_count := m\<rparr>"
  have "sched_ok H s0" "pcbs s0 pp = Some ppc" using ok pp by (simp_all add: s0_def)
  from sched_ok_pcb_upd [OF this, of "ppc\<lparr>zombieQ := Some (qitems (zombieQ ppc) @ [?z])\<rparr>"]
  have s1: "sched_ok H s1" "places s1 = places s" by (simp_all add: s0_def s1_def)
  have mem1: "mallocs_ok s1" using mem by (simp add: mallocs_ok_def s1_def)
  from ok obtain bm where bm: "blockedMap s = Some bm" by (auto simp: sched_ok_def core_def map_ok_def)
  note lk = blocked_lookup [OF ok bm pp(2)]
  have pid: "pid_of s pp = pid ppc" using pp by (simp add: pid_of_def)
  have bm1: "blockedMap s1 = Some bm" by (simp add: s1_def bm)
  obtain t where t: "unblockProcess (pid ppc) s1 = Done SUCCESS t" "sched_ok H t" "mset (places t) = mset (places s1)"
    "readyQ t = Some (qitems (readyQ s) @ (if pp \<in> set (hm_procs (blockedMap s)) then [pp] else []))"
    "currPCB t = currPCB s" "pcbs t = pcbs s1" "sync_same s1 t"
  proof (cases "pp \<in> set (hm_procs (blockedMap s))")
    case True
    then have "hm_map bm (pid ppc) = Some pp" "0 \<le> pid ppc" using lk pid by simp_all
    from unblockProcess_run [OF s1(1) mem1 bm1 this(2,1)] True that show ?thesis by (auto simp: s1_def)
  next
    case False
    then have none: "hm_map bm (pid ppc) = None" "0 \<le> pid ppc" using lk pid by simp_all
    obtain bm' where rem: "hm_removek blockedMap set_blockedMap (pid ppc) s1 = Done None (s1\<lparr>blockedMap := Some bm'\<rparr>)"
      using hm_removek_run [of blockedMap s1 bm "pid ppc" set_blockedMap] bm1 none ok bm
      by (auto simp: sched_ok_def core_def map_ok_def set_blockedMap_def)
    have "unblockProcess (pid ppc) s1 = Done SUCCESS (s1\<lparr>blockedMap := Some bm'\<rparr>)"
      using rem bm1 by (simp add: unblockProcess_def bindk_def getk_def retk_def)
    moreover obtain rq where "readyQ s = Some rq" using ok by (auto simp: sched_ok_def core_def)
    ultimately show ?thesis using unblockProcess_absent [OF s1(1) bm1 none(2,1)] False that
      by (auto simp: s1_def sync_same_def)
  qed
  have "leave_zombie c pp status s = Done SUCCESS t"
  proof (cases "zombieQ ppc")
    case None
    then have "s1 = s\<lparr>malloc_count := Suc (Suc (Suc (malloc_count s))), pcbs := (pcbs s)(pp \<mapsto> ppc\<lparr>zombieQ := Some [?z]\<rparr>)\<rparr>"
      by (simp add: s1_def m_def)
    with None t(1) a c pp ne show ?thesis
      by (simp add: leave_zombie_def bindk_def get_pcb_def fetch_def malloc_okk_run upd_pcb_def modk_def retk_def
          Let_def make_q_def)
  next
    case (Some zs)
    then have "s1 = s\<lparr>malloc_count := Suc (Suc (malloc_count s)), pcbs := (pcbs s)(pp \<mapsto> ppc\<lparr>zombieQ := Some (zs @ [?z])\<rparr>)\<rparr>"
      by (simp add: s1_def m_def)
    with Some t(1) a c pp ne show ?thesis
      by (simp add: leave_zombie_def bindk_def get_pcb_def fetch_def malloc_okk_run upd_pcb_def modk_def retk_def
          Let_def make_q_def)
  qed
  with t s1(2) show ?thesis by (intro exI [of _ t]) (simp add: s1_def sync_same_def)
qed

section \<open>Collecting it\<close>

lemma wait_collect_run:
  assumes "pcbs s (currPCB s) = Some pc" "zombieQ pc = Some (z # zs)" "mapped H s PROT_WRITE status_ptr 4"
  shows "wait_collect H status_ptr s = Done (RC (z_pid z))
           (s\<lparr>pcbs := (pcbs s)(currPCB s \<mapsto> pc\<lparr>zombieQ := Some zs\<rparr>),
              pmem := poke H s status_ptr (int_bytes (exit_status z)) (pmem s)\<rparr>)"
proof -
  let ?s = "s\<lparr>pcbs := (pcbs s)(currPCB s \<mapsto> pc\<lparr>zombieQ := Some zs\<rparr>)\<rparr>"
  have w: "walk H ?s v = walk H s v" for v by (simp add: walk_def pte_of_vpn_def)
  then have tr: "translate H ?s need va = translate H s need va" for need va by (simp add: translate_def)
  have "poke H ?s va xs m = poke H s va xs m" for va xs m by (induction xs arbitrary: va m) (simp_all add: tr)
  moreover have "mapped H ?s PROT_WRITE status_ptr (length (int_bytes (exit_status z)))"
    using assms(3) by (simp add: mapped_def tr)
  from copyout_run [OF this] have "store_int H status_ptr (exit_status z) ?s =
      Done () (?s\<lparr>pmem := poke H ?s status_ptr (int_bytes (exit_status z)) (pmem s)\<rparr>)" by (simp add: store_int_def)
  ultimately show ?thesis using assms(1,2)
    by (simp add: wait_collect_def bindk_def getk_def get_pcb_def fetch_def upd_pcb_def modk_def retk_def)
qed

lemma wait_empty:
  assumes "pcbs s (currPCB s) = Some pc" "qitems (zombieQ pc) = []"
  shows "\<exists>t. wait_collect H status_ptr s = Done ERROR t"
  using assms by (cases "zombieQ pc")
    (auto simp: wait_collect_def bindk_def getk_def get_pcb_def fetch_def upd_pcb_def modk_def retk_def)

end
