(* ===== verification/TtyProps.thy ===== *)
theory TtyProps
  imports Traps SyncProps
begin

text \<open>
  A terminal write is sent in batches of at most \<^verbatim>\<open>TERMINAL_MAX_LINE\<close> bytes. Each round hands one
  batch to the terminal, records in the saved context how far it got and gives up the processor; the
  batches put together are the user's data. The second part is about the check of user buffers.
\<close>

section \<open>Batches\<close>

fun batches :: "nat \<Rightarrow> byte list \<Rightarrow> byte list list" where
  "batches m xs = (if m = 0 \<or> xs = [] then [] else take m xs # batches m (drop m xs))"

declare batches.simps [simp del]

lemma concat_batches: "0 < m \<Longrightarrow> concat (batches m xs) = xs"
  by (induction m xs rule: batches.induct) (subst batches.simps, auto)

lemma batches_bound: "b \<in> set (batches m xs) \<Longrightarrow> b \<noteq> [] \<and> length b \<le> m"
proof (induction m xs rule: batches.induct)
  case (1 m xs)
  from 1(2) have ne: "\<not> (m = 0 \<or> xs = [])" by (subst (asm) batches.simps) (auto split: if_splits)
  from 1(2) ne have "b = take m xs \<or> b \<in> set (batches m (drop m xs))" by (subst (asm) batches.simps) auto
  then show ?case using 1(1) [OF ne] ne by auto
qed

lemma batches_step: "0 < m \<Longrightarrow> xs \<noteq> [] \<Longrightarrow> batches m xs = take m xs # batches m (drop m xs)"
  by (subst batches.simps) simp

section \<open>One round of transmission\<close>

lemma transmit_round:
  assumes H: "hw_ok H" and ok: "sched_ok H s" and mem: "mallocs_ok s" and own: "own_slot s i"
    and rq: "readyQ s = Some (n # q)" and sent: "0 \<le> k" "k < int (length d)" and m: "0 < TERMINAL_MAX_LINE H"
  shows "\<exists>t b pc. b = take (TERMINAL_MAX_LINE H) (drop (nat k) d) \<and>
           transmit_loop H (Suc fuel) (int i) d (int (length d)) k s = Switch t \<and> sched_ok H t \<and>
           mset (places t) = mset (places s) \<and> currPCB t = n \<and> readyQ t = Some q \<and>
           currTransmitters t = (currTransmitters s)[i := Some (currPCB s)] \<and> tty_out t = tty_out s @ [(int i, b)] \<and>
           pcbs t (currPCB s) = Some pc \<and> kctxt pc = Some (KTtyBatch (int i) d (int (length d)) (k + int (length b)))"
proof -
  define b where "b = take (TERMINAL_MAX_LINE H) (drop (nat k) d)"
  let ?size = "min (int (TERMINAL_MAX_LINE H)) (int (length d) - k)"
  have len: "int (length (drop (nat k) d)) = int (length d) - k" using sent by simp
  have size: "?size = int (length b)" unfolding len [symmetric] b_def by (simp add: min.commute)
  have "take (min (TERMINAL_MAX_LINE H) (length (drop (nat k) d))) (drop (nat k) d) = b"
    by (simp add: b_def min_def)
  moreover have nsize: "nat ?size = min (TERMINAL_MAX_LINE H) (length (drop (nat k) d))"
    unfolding len [symmetric] by simp
  ultimately have tk: "take (nat ?size) (drop (nat k) d) = b" by (simp only:)
  define s1 where "s1 = s\<lparr>tty_out := tty_out s @ [(int i, b)]\<rparr>"
  have tx: "TtyTransmit (int i) b s = Done () s1" by (simp add: TtyTransmit_def modk_def s1_def)
  have eq: "sched_ok H s1 = sched_ok H s" "places s1 = places s" by (rule sched_ok_cong; simp add: s1_def)+
  have "sched_ok H s1" "mallocs_ok s1" "own_slot s1 i" "readyQ s1 = Some (n # q)"
    using eq ok mem own rq by (simp_all add: s1_def mallocs_ok_def own_slot_def)
  from waitTransmitter_run [OF H this, of "KTtyBatch (int i) d (int (length d)) (k + ?size)"] obtain t where
    t: "waitTransmitter H (KTtyBatch (int i) d (int (length d)) (k + ?size)) (int i) s1 = Switch t" "sched_ok H t"
      "mset (places t) = mset (places s1)" "currPCB t = n" "readyQ t = Some q"
      "currTransmitters t = (currTransmitters s1)[i := Some (currPCB s1)]"
      "pcbs t = switched_pcbs (KTtyBatch (int i) d (int (length d)) (k + ?size)) (Some (currPCB s1)) n (pcbs s1)"
      "tty_out t = tty_out s1" by blast
  from ok obtain pc where "pcbs s1 (currPCB s1) = Some pc" by (auto simp: sched_ok_def s1_def)
  from switched_pcbs_old [of "pcbs s1" "currPCB s1" pc "KTtyBatch (int i) d (int (length d)) (k + ?size)" n, OF this]
  obtain pc' where pc': "pcbs t (currPCB s) = Some pc'"
    "kctxt pc' = Some (KTtyBatch (int i) d (int (length d)) (k + int (length b)))"
    unfolding t(7) size by (auto simp: s1_def)
  have "transmit_loop H (Suc fuel) (int i) d (int (length d)) k s = Switch t"
    using sent tx t(1) tk by (simp add: bindk_def Let_def)
  then show ?thesis
    using t pc' eq(2) by (intro exI [of _ t] exI [of _ b] exI [of _ pc']) (simp add: s1_def b_def)
qed

text \<open>After the last batch the terminal is free and the next writer becomes ready.\<close>

lemma transmit_end:
  assumes ok: "sched_ok H s" and mem: "mallocs_ok s" and i: "i < NUM_TERMINALS H"
    and own: "own_slot s i" and xs: "transmittingQs s ! i = Some xs" and sent: "len \<le> k"
  shows "\<exists>t. transmit_loop H (Suc fuel) (int i) d len k s = Done (RC len) t \<and> sched_ok H t \<and>
           mset (places t) = mset (places s) \<and> readyQ t = Some (qitems (readyQ s) @ take 1 xs) \<and>
           transmittingQs t = (transmittingQs s)[i := Some (drop 1 xs)] \<and>
           currTransmitters t = (currTransmitters s)[i := None] \<and> currPCB t = currPCB s"
proof -
  from unblockTransmitter_run [OF ok mem i own xs] obtain t where
    t: "unblockTransmitter (int i) s = Done SUCCESS t" "sched_ok H t" "mset (places t) = mset (places s)"
      "readyQ t = Some (qitems (readyQ s) @ take 1 xs)" "transmittingQs t = (transmittingQs s)[i := Some (drop 1 xs)]"
      "currTransmitters t = (currTransmitters s)[i := None]" "currPCB t = currPCB s" by blast
  then show ?thesis using sent by (intro exI [of _ t]) (simp add: bindk_def retk_def)
qed

end
