(* ===== verification/BufferChecks.thy ===== *)
theory BufferChecks
  imports GeneralCalls
begin

text \<open>
  What the checks on user memory guarantee. \<^verbatim>\<open>isValidBuffer\<close> looks at one entry per started page of
  the length, from the page of the address on: for a page-aligned buffer that is exactly the pages it
  touches.
\<close>

section \<open>The loop of \<open>isValidBuffer\<close>\<close>

definition page_has :: "hw \<Rightarrow> 'z mmu_scheme \<Rightarrow> prot_flag set \<Rightarrow> nat \<Rightarrow> bool" where
  "page_has H s prot v = (case walk H s v of None \<Rightarrow> False | Some e \<Rightarrow> pte_valid e \<and> prot \<subseteq> pte_prot e)"

lemma next_entry:
  "MAX_PT_LEN H \<le> v \<Longrightarrow> pte_of_vpn H s v + SIZEOF_PTE H = pte_of_vpn H s (Suc v)"
  by (simp add: pte_of_vpn_def Suc_diff_le)

lemma buffer_loop_run:
  assumes "mmu_ok H s" "MAX_PT_LEN H \<le> v" "v + n \<le> 2 * MAX_PT_LEN H"
  shows "buffer_loop H prot n (pte_of_vpn H s v) s = Done (\<forall>i < n. page_has H s prot (v + i)) s"
  using assms(2,3)
proof (induction n arbitrary: v)
  case 0
  then show ?case by (simp add: retk_def)
next
  case (Suc n)
  then have "v < 2 * MAX_PT_LEN H" by simp
  from walk_defined [OF assms(1) this] obtain e where e: "ptes s (pte_of_vpn H s v) = Some e" "walk H s v = Some e" .
  have all: "(\<forall>i < Suc n. page_has H s prot (v + i)) \<longleftrightarrow>
      page_has H s prot v \<and> (\<forall>i < n. page_has H s prot (Suc v + i))" by (simp add: All_less_Suc2)
  have "buffer_loop H prot n (pte_of_vpn H s (Suc v)) s = Done (\<forall>i < n. page_has H s prot (Suc v + i)) s"
    using Suc.IH [of "Suc v"] Suc.prems by simp
  with e Suc.prems(1) show ?case
    unfolding all by (auto simp: bindk_def fetch_def retk_def next_entry page_has_def)
qed

lemma translate_page:
  "translate H s f va \<noteq> None \<longleftrightarrow> page_has H s {f} (va div PAGESIZE H)"
  by (auto simp: translate_def page_has_def split: option.splits)

lemma all_pages:
  assumes "0 < (p::nat)"
  shows "(\<forall>i < n. P (v + i div p)) \<longleftrightarrow> (\<forall>j < (n + p - 1) div p. P (v + j))"
proof -
  have "(\<exists>i < n. i div p = j) \<longleftrightarrow> j < (n + p - 1) div p" for j
  proof
    assume "\<exists>i < n. i div p = j"
    then obtain i where "i < n" "i div p = j" by blast
    then have "j * p < n" using div_times_less_eq_dividend [of i p] by (metis le_less_trans)
    then have "Suc j * p \<le> n + p - 1" by simp
    then have "Suc j \<le> (n + p - 1) div p" using assms by (simp add: less_eq_div_iff_mult_less_eq)
    then show "j < (n + p - 1) div p" by simp
  next
    assume "j < (n + p - 1) div p"
    then have "Suc j * p \<le> n + p - 1" using assms by (simp add: Suc_le_eq [symmetric] less_eq_div_iff_mult_less_eq)
    then have "j * p < n" using assms by simp
    then show "\<exists>i < n. i div p = j" using assms by (intro exI [of _ "j * p"]) simp
  qed
  then show ?thesis by metis
qed

lemma isValidBuffer_run:
  assumes H: "hw_ok H" and mmu: "mmu_ok H s" and buf: "VMEM_1_BASE H \<le> buf" "0 < len"
    and fits: "buf div PAGESIZE H + (nat len + PAGESIZE H - 1) div PAGESIZE H \<le> 2 * MAX_PT_LEN H"
  shows "isValidBuffer H buf len prot s =
    Done (\<forall>j < (nat len + PAGESIZE H - 1) div PAGESIZE H. page_has H s prot (buf div PAGESIZE H + j)) s"
proof -
  let ?p = "PAGESIZE H" and ?n = "(nat len + PAGESIZE H - 1) div PAGESIZE H"
  have p: "0 < ?p" using hw_okD(2) [OF H] .
  have b: "VMEM_1_BASE H = MAX_PT_LEN H * ?p" using hw_okD(4,5,10) [OF H] by simp
  have "MAX_PT_LEN H * ?p div ?p \<le> buf div ?p" using buf(1) unfolding b by (rule div_le_mono)
  then have v: "MAX_PT_LEN H \<le> buf div ?p" using p by simp
  have "1 \<le> ?n" using buf(2) p by (simp add: less_eq_div_iff_mult_less_eq)
  then have lt: "buf div ?p < 2 * MAX_PT_LEN H" using fits by linarith
  have "USER_BASE_VPN H = MAX_PT_LEN H" using p b by (simp add: USER_BASE_VPN_def vpn_of_page [OF H])
  then have "entry_of_vpn H s (vpn_of H buf) = Some (pte_of_vpn H s (buf div ?p))"
    using v lt by (simp add: entry_of_vpn_def vpn_of_page [OF H] pte_of_vpn_def)
  moreover have "0 < VMEM_1_BASE H" using b p hw_okD(7) [OF H] by auto
  then have "buf \<noteq> 0" using buf(1) by simp
  ultimately show ?thesis
    using buffer_loop_run [OF mmu v fits, of prot] buf(2) by (simp add: isValidBuffer_def bindk_def getk_def)
qed

text \<open>For an aligned buffer the check is exact.\<close>

lemma isValidBuffer_aligned:
  assumes H: "hw_ok H" and mmu: "mmu_ok H s" and buf: "VMEM_1_BASE H \<le> buf" "PAGESIZE H dvd buf" "0 < len"
    and fits: "buf + nat len \<le> VMEM_1_LIMIT H"
  shows "isValidBuffer H buf len {f} s = Done (mapped H s f buf (nat len)) s"
proof -
  let ?p = "PAGESIZE H" and ?n = "(nat len + PAGESIZE H - 1) div PAGESIZE H"
  have p: "0 < ?p" using hw_okD(2) [OF H] .
  obtain q where q: "buf = q * ?p" using buf(2) by (metis dvd_def mult.commute)
  have l: "VMEM_1_LIMIT H = 2 * MAX_PT_LEN H * ?p" using hw_okD(4,5,6,10) [OF H] by simp
  have "q * ?p + nat len \<le> 2 * MAX_PT_LEN H * ?p" using fits q l by simp
  then have "nat len \<le> (2 * MAX_PT_LEN H - q) * ?p" by (simp add: diff_mult_distrib)
  then have "?n \<le> ((2 * MAX_PT_LEN H - q) * ?p + (?p - 1)) div ?p" by (intro div_le_mono) (use p in simp)
  also have "\<dots> = 2 * MAX_PT_LEN H - q" using p div_mult_self3 [of ?p "2 * MAX_PT_LEN H - q" "?p - 1"]
    by (simp del: div_mult_self3)
  finally have n: "?n \<le> 2 * MAX_PT_LEN H - q" .
  have "1 \<le> ?n" using buf(3) p by (simp add: less_eq_div_iff_mult_less_eq)
  then have "buf div ?p + ?n \<le> 2 * MAX_PT_LEN H" using n q p by simp
  from isValidBuffer_run [OF H mmu buf(1,3) this, of "{f}"]
  have "isValidBuffer H buf len {f} s = Done (\<forall>j < ?n. page_has H s {f} (q + j)) s" using q p by simp
  moreover have "mapped H s f buf (nat len) \<longleftrightarrow> (\<forall>i < nat len. page_has H s {f} (q + i div ?p))"
    using p unfolding mapped_def translate_page q by simp
  ultimately show ?thesis using all_pages [OF p, of "nat len" "\<lambda>v. page_has H s {f} v" q] by simp
qed

end
