(* ===== verification/Wlp.thy ===== *)
theory Wlp
  imports Frames
begin

text \<open>
  Partial correctness of kernel code: weakest liberal preconditions, with an equation for each combinator
  and a rule for code known by its frame condition.
\<close>

section \<open>Weakest liberal preconditions\<close>

text \<open>
  \<open>wlp m Q R s\<close>: if \<open>m\<close> returns from \<open>s\<close> then with \<open>Q\<close>, if it switches then with \<open>R\<close>. Nothing is
  said when it faults or halts.
\<close>

definition wlp :: "('a, 's) kcomp \<Rightarrow> ('a \<Rightarrow> 's \<Rightarrow> bool) \<Rightarrow> ('s \<Rightarrow> bool) \<Rightarrow> 's \<Rightarrow> bool" where
  "wlp m Q R s \<longleftrightarrow> (\<forall>x t. m s = Done x t \<longrightarrow> Q x t) \<and> (\<forall>t. m s = Switch t \<longrightarrow> R t)"

named_theorems wlp_simps \<open>weakest liberal preconditions of the combinators\<close>

lemma wlp_bindk [wlp_simps]: "wlp (bindk m f) Q R s \<longleftrightarrow> wlp m (\<lambda>x. wlp (f x) Q R) R s"
  unfolding wlp_def bindk_eq_Done bindk_eq_Switch by blast

lemma wlp_basic [wlp_simps]:
  "wlp (retk x) Q R s \<longleftrightarrow> Q x s"
  "wlp (getk g) Q' R s \<longleftrightarrow> Q' (g s) s"
  "wlp (modk h) Q'' R s \<longleftrightarrow> Q'' () (h s)"
  "wlp (faultk e) Q R s" "wlp haltk Q R s"
  "wlp (fetch hp p) Q3 R s \<longleftrightarrow> (\<forall>x. hp s p = Some x \<longrightarrow> Q3 x s)"
  "wlp (liftk r) Q4 R s \<longleftrightarrow> (\<forall>x. r = Inr x \<longrightarrow> Q4 x s)"
  by (auto simp: wlp_def kdefs split: option.splits sum.splits)

lemma wlp_cases [wlp_simps]:
  "wlp (if b then m else n) Q R s \<longleftrightarrow> (b \<longrightarrow> wlp m Q R s) \<and> (\<not> b \<longrightarrow> wlp n Q R s)"
  "wlp (case v of None \<Rightarrow> m | Some x \<Rightarrow> f x) Q R s \<longleftrightarrow>
     (v = None \<longrightarrow> wlp m Q R s) \<and> (\<forall>x. v = Some x \<longrightarrow> wlp (f x) Q R s)"
  "wlp (case w of (x, y) \<Rightarrow> g x y) Q R s \<longleftrightarrow> (\<forall>x y. w = (x, y) \<longrightarrow> wlp (g x y) Q R s)"
  by (auto split: option.splits prod.splits)

lemma wlp_mono:
  "wlp m Q R s \<Longrightarrow> (\<And>x t. Q x t \<Longrightarrow> Q' x t) \<Longrightarrow> (\<And>t. R t \<Longrightarrow> R' t) \<Longrightarrow> wlp m Q' R' s"
  by (auto simp: wlp_def)

lemma wlp_mallock [wlp_simps]:
  "wlp mallock Q R s \<longleftrightarrow> Q (malloc_oracle s (malloc_count s)) (s\<lparr>malloc_count := Suc (malloc_count s)\<rparr>)"
  "wlp malloc_okk Q' R s \<longleftrightarrow> Q' (malloc_oracle s (malloc_count s) \<noteq> None) (s\<lparr>malloc_count := Suc (malloc_count s)\<rparr>)"
  by (simp_all add: wlp_def mallock_def malloc_okk_run)

lemma wlp_keeps:
  assumes "keeps f m" "\<And>x t. f t = f s \<Longrightarrow> Q x t" "\<And>t. f t = f s \<Longrightarrow> R t"
  shows "wlp m Q R s"
  using assms unfolding wlp_def keeps_def by blast

section \<open>Code that returns\<close>

text \<open>\<open>steady f m\<close>: the code does not switch, and keeps \<open>f\<close> when it returns.\<close>

definition steady :: "('s \<Rightarrow> 'b) \<Rightarrow> ('a, 's) kcomp \<Rightarrow> bool" where
  "steady f m \<longleftrightarrow> (\<forall>s. wlp m (\<lambda>_ t. f t = f s) (\<lambda>_. False) s)"

named_theorems steady_rules \<open>code that returns and keeps a part of the state\<close>

lemma steady_basic [steady_rules]:
  "steady f (retk x)" "steady f (getk g)" "steady f (faultk e)" "steady f haltk" "steady f (fetch h p)" "steady f (liftk r)"
  "steady f (nonnull v)"
  by (auto simp: steady_def wlp_basic nonnull_def split: option.splits)

lemma steady_accessors [steady_rules]: "steady f (get_pcb p)" "steady f (nthk xs i)"
  by (simp_all add: get_pcb_def nthk_def steady_basic)

lemma steady_modk [steady_rules]: "(\<And>s. f (g s) = f s) \<Longrightarrow> steady f (modk g)"
  by (simp add: steady_def wlp_basic)

lemma steady_bindk [steady_rules]:
  assumes "steady f m" "\<And>x. steady f (g x)"
  shows "steady f (bindk m g)"
  unfolding steady_def wlp_bindk
proof
  fix s
  have "wlp (g x) (\<lambda>_ u. f u = f s) (\<lambda>_. False) t" if "f t = f s" for x t
    using assms(2) [of x, unfolded steady_def, rule_format, of t] unfolding that .
  then show "wlp m (\<lambda>x. wlp (g x) (\<lambda>_ t. f t = f s) (\<lambda>_. False)) (\<lambda>_. False) s"
    by (rule wlp_mono [OF assms(1) [unfolded steady_def, rule_format]])
qed

lemma steady_cases [steady_rules]:
  "(b \<Longrightarrow> steady f m) \<Longrightarrow> (\<not> b \<Longrightarrow> steady f n) \<Longrightarrow> steady f (if b then m else n)"
  "(v = None \<Longrightarrow> steady f m) \<Longrightarrow> (\<And>x. v = Some x \<Longrightarrow> steady f (g x)) \<Longrightarrow> steady f (case v of None \<Rightarrow> m | Some x \<Rightarrow> g x)"
  "(\<And>x y. steady f (h x y)) \<Longrightarrow> steady f (case w of (x, y) \<Rightarrow> h x y)"
  "steady f (k u) \<Longrightarrow> steady f (Let u k)"
  by (auto split: option.splits prod.splits)

lemma steady_loops [steady_rules]:
  "(\<And>x. steady f (g x)) \<Longrightarrow> steady f (foldk g xs)" "(\<And>x. steady f (h x)) \<Longrightarrow> steady f (foldrc h xs)"
  by (induction xs) (auto intro!: steady_rules)

lemma steady_HashMap_iterate [steady_rules]: "(\<And>k x. steady f (g k x)) \<Longrightarrow> steady f (HashMap_iterate get g)"
  unfolding HashMap_iterate_def set_iterate_def by (intro steady_rules)

lemma steady_wlp: "steady f m \<Longrightarrow> (\<And>x t. f t = f s \<Longrightarrow> Q x t) \<Longrightarrow> wlp m Q R s"
  unfolding steady_def by (rule wlp_mono [where Q = "\<lambda>_ t. f t = f s" and R = "\<lambda>_. False"]) simp_all

lemma steady_then:
  "steady f m \<Longrightarrow> (\<And>x t. f t = f s \<Longrightarrow> wlp (g x) Q R t) \<Longrightarrow> wlp (bindk m g) Q R s"
  unfolding wlp_bindk by (rule steady_wlp)

lemma steady_weaken:
  assumes "steady g m" "\<And>s t. g t = g s \<Longrightarrow> f t = f s"
  shows "steady f m"
  using assms(1) unfolding steady_def by (blast intro: wlp_mono assms(2))

section \<open>Loops with an invariant\<close>

lemma wlp_conj:
  assumes "wlp m Q R s" "wlp m Q' R' s" "\<And>x t. Q x t \<Longrightarrow> Q' x t \<Longrightarrow> Q'' x t" "\<And>t. R t \<Longrightarrow> R' t \<Longrightarrow> R'' t"
  shows "wlp m Q'' R'' s"
  using assms by (auto simp: wlp_def)

lemma wlp_foldk_in:
  assumes "\<And>x u. x \<in> set xs \<Longrightarrow> I u \<Longrightarrow> wlp (f x) (\<lambda>_. I) R u" "I s"
  shows "wlp (foldk f xs) (\<lambda>_. I) R s"
  using assms
proof (induction xs arbitrary: s)
  case Nil
  then show ?case by (simp add: wlp_basic)
next
  case (Cons x xs)
  show ?case unfolding foldk.simps wlp_bindk
    by (rule wlp_mono [OF Cons.prems(1)]) (use Cons in auto)
qed

lemma wlp_foldk_upt:
  assumes "\<And>i u. i < n \<Longrightarrow> I i u \<Longrightarrow> wlp (f i) (\<lambda>_. I (Suc i)) R u" "I 0 s"
  shows "wlp (foldk f [0..<n]) (\<lambda>_. I n) R s"
proof -
  have "wlp (foldk f [k..<n]) (\<lambda>_. I n) R u" if "I k u" "k \<le> n" for k u
    using that
  proof (induction "n - k" arbitrary: k u)
    case 0
    then show ?case by (simp add: wlp_basic)
  next
    case (Suc d)
    then have k: "[k..<n] = k # [Suc k..<n]" by (simp add: upt_conv_Cons)
    show ?case unfolding k foldk.simps wlp_bindk
      by (rule wlp_mono [OF assms(1)]) (use Suc in auto)
  qed
  then show ?thesis using assms(2) by simp
qed

lemma wlp_foldrc_in:
  assumes "\<And>x u. x \<in> set xs \<Longrightarrow> I u \<Longrightarrow> wlp (f x) (\<lambda>_. I) R u" "I s"
  shows "wlp (foldrc f xs) (\<lambda>_. I) R s"
  using assms
proof (induction xs arbitrary: s)
  case Nil
  then show ?case by (simp add: wlp_basic)
next
  case (Cons x xs)
  show ?case unfolding foldrc.simps wlp_bindk
    by (rule wlp_mono [OF Cons.prems(1)]) (use Cons in \<open>auto simp: wlp_cases(1) wlp_basic\<close>)
qed

lemma wlp_foldrc_upt:
  assumes "\<And>i u. i < n \<Longrightarrow> I i u \<Longrightarrow> wlp (f i) (\<lambda>r v. if r = ERROR then E v else I (Suc i) v) R u" "I 0 s"
  shows "wlp (foldrc f [0..<n]) (\<lambda>r v. if r = ERROR then E v else I n v) R s"
proof -
  have "wlp (foldrc f [k..<n]) (\<lambda>r v. if r = ERROR then E v else I n v) R u" if "I k u" "k \<le> n" for k u
    using that
  proof (induction "n - k" arbitrary: k u)
    case 0
    then show ?case by (simp add: wlp_basic)
  next
    case (Suc d)
    then have k: "[k..<n] = k # [Suc k..<n]" by (simp add: upt_conv_Cons)
    show ?case unfolding k foldrc.simps wlp_bindk
      by (rule wlp_mono [OF assms(1)]) (use Suc in \<open>auto simp: wlp_cases(1) wlp_basic\<close>)
  qed
  then show ?thesis using assms(2) by simp
qed

text \<open>Code that does not switch, code that does not return.\<close>

abbreviation returning :: "('a, 's) kcomp \<Rightarrow> bool" where
  "returning m \<equiv> steady (\<lambda>_. ()) m"

lemma wlp_returning: "returning m \<Longrightarrow> wlp m Q R s \<Longrightarrow> wlp m Q R' s"
  by (auto simp: steady_def wlp_def)

lemma wlp_leaves: "leaves m \<Longrightarrow> wlp m Q R s \<Longrightarrow> wlp m Q' R s"
  by (auto simp: leaves_def wlp_def)

lemma returning_still: "steady f m \<Longrightarrow> returning m"
  by (erule steady_weaken) simp

end
