(* ===== verification/MachineFrames.thy ===== *)
theory MachineFrames
  imports LockSafety Clock
begin

text \<open>
  The frame conditions of the whole kernel: every call and handler that is not about a lock, a
  condition variable or a pipe leaves these objects alone (\<open>keeps sync_part\<close>), and no kernel code that
  returns has changed the running process (\<open>stays\<close>). \<open>quiet\<close> is both together.
\<close>

definition quiet :: "'a kernel \<Rightarrow> bool" where
  "quiet m \<longleftrightarrow> keeps sync_part m \<and> stays m"

named_theorems quiet_rules \<open>code that keeps the synchronisation objects and the running process\<close>

lemma quietI: "keeps sync_part m \<Longrightarrow> stays m \<Longrightarrow> quiet m"
  by (simp add: quiet_def)

lemma quietD: "quiet m \<Longrightarrow> keeps sync_part m" "quiet m \<Longrightarrow> stays m"
  by (simp_all add: quiet_def)

lemma quiet_leaves: "keeps sync_part m \<Longrightarrow> leaves m \<Longrightarrow> quiet m"
  by (rule quietI) (simp_all add: stays_leaves)

section \<open>The rules\<close>

lemma quiet_basic [quiet_rules]:
  "quiet (retk x)" "quiet (faultk e)" "quiet haltk" "quiet (getk g)" "quiet (fetch h p)" "quiet (liftk r)"
  "quiet (nonnull v)" "quiet (get_pcb p)" "quiet (nthk xs i)"
  by (rule quietI; simp add: keeps_rules stays_rules nthk_def)+

lemma quiet_modk [quiet_rules]:
  "(\<And>s. sync_part (g s) = sync_part s \<and> currPCB (g s) = currPCB s) \<Longrightarrow> quiet (modk g)"
  by (intro quietI keeps_rules stays_rules) simp_all

lemma quiet_bindk [quiet_rules]: "quiet m \<Longrightarrow> (\<And>x. quiet (f x)) \<Longrightarrow> quiet (bindk m f)"
  by (simp add: quiet_def keeps_bindk stays_bindk)

lemma quiet_cases [quiet_rules]:
  "(b \<Longrightarrow> quiet m) \<Longrightarrow> (\<not> b \<Longrightarrow> quiet n) \<Longrightarrow> quiet (if b then m else n)"
  "(v = None \<Longrightarrow> quiet m) \<Longrightarrow> (\<And>x. v = Some x \<Longrightarrow> quiet (g x)) \<Longrightarrow> quiet (case v of None \<Rightarrow> m | Some x \<Rightarrow> g x)"
  "(\<And>x y. quiet (h x y)) \<Longrightarrow> quiet (case w of (x, y) \<Rightarrow> h x y)"
  "quiet (k u) \<Longrightarrow> quiet (Let u k)"
  by (auto split: option.splits prod.splits)

lemma quiet_loops [quiet_rules]:
  "(\<And>x. quiet (f x)) \<Longrightarrow> quiet (foldk f xs)" "(\<And>x. quiet (g x)) \<Longrightarrow> quiet (foldrc g xs)"
  by (induction xs) (auto intro!: quiet_rules)

lemma quiet_HashMap_iterate [quiet_rules]: "(\<And>k x. quiet (f k x)) \<Longrightarrow> quiet (HashMap_iterate get f)"
  by (simp add: quiet_def keeps_HashMap_iterate stays_HashMap_iterate)

lemma quiet_machine [quiet_rules]:
  "quiet mallock" "quiet malloc_okk" "quiet getFramek" "quiet (freeFramek p)"
  "quiet (setPageTableEntryNoFlush a v pr p)" "quiet (flush_pte H a)" "quiet (setPageTableEntry H a v pr p)"
  "quiet (invalidatePageTableEntry H a)" "quiet (initializeRegionPageTable H)"
  by (rule quietI; intro keeps_machine_sync stays_machine)+

lemma quiet_scheduler [quiet_rules]:
  "quiet (upd_pcb p g)" "quiet (enq_ready p)" "quiet deq_ready" "quiet (switchBetween H k old n)"
  "quiet (deq_switch H k)" "quiet (blockProcess H k)" "quiet (unblockProcess i)"
  "quiet (hm_removek sleepingMap set_sleepingMap i)" "quiet (hm_insertk sleepingMap set_sleepingMap i p)"
  by (rule quietI; intro keeps_rules stays_rules; simp add: set_sleepingMap_def)+

lemma quiet_hm_newk [quiet_rules]: "quiet (hm_newk n)"
  by (auto simp: quiet_def keeps_def stays_def hm_newk_def Let_def sync_part_def split: sum.splits)

lemma quiet_hm_insertk:
  "(\<And>m s. sync_part (put m s) = sync_part s \<and> currPCB (put m s) = currPCB s) \<Longrightarrow> quiet (hm_insertk get put k x)"
  unfolding hm_insertk_def by (intro quiet_rules)

section \<open>User memory\<close>

lemma quiet_copyin [quiet_rules]: "quiet (copyin H va n)"
  by (induction n arbitrary: va) (auto intro!: quiet_rules)

lemma quiet_copyout [quiet_rules]: "quiet (copyout H va xs)"
  by (induction xs arbitrary: va) (auto intro!: quiet_rules simp: sync_part_def)

lemma quiet_memory [quiet_rules]:
  "quiet (memmovek H d a n)" "quiet (store_int H va v)" "quiet (load_int H va)" "quiet (load_ptr H va)"
  "quiet (add_int x y)" "quiet (entry_at H t b w)" "quiet (getAddressProt H a r)"
  unfolding memmovek_def store_int_def load_int_def load_ptr_def add_int_def entry_at_def getAddressProt_def
  by (intro quiet_rules)+

lemma quiet_buffer_loop [quiet_rules]: "quiet (buffer_loop H pr n p)"
  by (induction n arbitrary: p) (auto intro!: quiet_rules)

lemma quiet_scan_nul [quiet_rules]: "quiet (scan_nul H n p)"
  by (induction n arbitrary: p) (auto intro!: quiet_rules)

lemma quiet_string_loop [quiet_rules]: "quiet (string_loop H e n c b)"
  by (induction n arbitrary: c b) (auto intro!: quiet_rules)

lemma quiet_checks [quiet_rules]: "quiet (isValidBuffer H b len pr)" "quiet (isValidString H str)"
  unfolding isValidBuffer_def isValidString_def by (intro quiet_rules)+

lemma quiet_check_args [quiet_rules]: "quiet (check_args H n a)"
  by (induction n arbitrary: a) (auto intro!: quiet_rules)

section \<open>Processes\<close>

lemma quiet_brk [quiet_rules]: "quiet (KernelBrk H a)"
  unfolding KernelBrk_def move_brk_def shrink_pages_def shrink_page_def grow_pages_def grow_page_def
  by (intro quiet_rules)

lemma quiet_leave_zombie [quiet_rules]: "quiet (leave_zombie c pp st)"
  unfolding leave_zombie_def by (intro quiet_rules)

lemma quiet_delete_process [quiet_rules]: "quiet (delete_process H p)"
  unfolding delete_process_def free_r1_frames_def free_stack_frames_def
  by (intro quiet_rules) (simp_all add: sync_part_def)

lemma quiet_exitProcess [quiet_rules]: "quiet (exitProcess H st)"
  unfolding exitProcess_def removeParent_def by (intro quiet_rules)

lemma quiet_KernelExit [quiet_rules]: "quiet (KernelExit H st)"
  unfolding KernelExit_def by (intro quiet_rules)

lemma quiet_initPCB [quiet_rules]: "quiet (initPCB H)"
  unfolding initPCB_def init_stack_frames_def add_stack_frame_def by (intro quiet_rules) (simp_all add: sync_part_def)

lemma quiet_copy_r1_pages [quiet_rules]: "quiet (copy_r1_pages H a b)"
  unfolding copy_r1_pages_def by (intro quiet_rules)

lemma keeps_forkTo: "keeps sync_part (forkTo H k p)"
proof -
  have "keeps sync_part (memmovek H d a n)" for d a n by (rule quietD) (rule quiet_rules)
  then show ?thesis
    unfolding forkTo_def save_kctxt_def fork_kernel_stack_def switch_r1_def flushk_def
    by (intro keeps_rules; simp add: sync_part_def)
qed

lemma quiet_forkTo [quiet_rules]: "quiet (forkTo H k p)"
  by (rule quiet_leaves [OF keeps_forkTo]) (unfold forkTo_def, intro leaves_bindk leaves_switchk)

lemma quiet_forkProcess [quiet_rules]: "quiet (forkProcess H k p)"
  unfolding forkProcess_def by (intro quiet_rules)

lemma quiet_fork_return [quiet_rules]: "quiet (fork_return p c)"
  unfolding fork_return_def by (intro quiet_rules)

lemma quiet_KernelFork [quiet_rules]: "quiet (KernelFork H)"
  unfolding KernelFork_def
  by (intro quiet_rules quiet_hm_insertk) (simp_all add: set_children_def sync_part_def split: option.splits)

lemma quiet_execProcess [quiet_rules]: "quiet execProcess"
proof (rule quiet_leaves)
  show "keeps sync_part execProcess"
    unfolding execProcess_def execTo_def save_kctxt_def by (intro keeps_rules) simp
  show "leaves execProcess"
    unfolding execProcess_def execTo_def by (intro leaves_bindk leaves_switchk)
qed

lemma quiet_KernelExec [quiet_rules]:
  "(\<And>f a p. quiet (load f a p)) \<Longrightarrow> quiet (KernelExec H n load x y)"
  unfolding KernelExec_def by (intro quiet_rules)

lemma quiet_wait_collect [quiet_rules]: "quiet (wait_collect H p)"
  unfolding wait_collect_def by (intro quiet_rules)

lemma quiet_sleepProcess [quiet_rules]: "quiet (sleepProcess H k n)"
  unfolding sleepProcess_def by (intro quiet_rules)

lemma quiet_calls [quiet_rules]:
  "quiet (KernelWait H p)" "quiet KernelGetPid" "quiet (KernelDelay H n)"
  unfolding KernelWait_def KernelGetPid_def KernelDelay_def by (intro quiet_rules)+

section \<open>Terminals\<close>

lemma quiet_enq_deq_tty:
  "(\<And>q s. sync_part (put q s) = sync_part s \<and> currPCB (put q s) = currPCB s) \<Longrightarrow> quiet (enq_tty get put i p)"
  "(\<And>q s. sync_part (put q s) = sync_part s \<and> currPCB (put q s) = currPCB s) \<Longrightarrow> quiet (deq_tty get put i)"
  unfolding enq_tty_def deq_tty_def by (intro quiet_rules; simp)+

lemma quiet_tty_queues [quiet_rules]:
  "quiet (enq_tty transmittingQs set_transmittingQs i p)" "quiet (deq_tty transmittingQs set_transmittingQs i)"
  "quiet (enq_tty readingQs set_readingQs i p)" "quiet (deq_tty readingQs set_readingQs i)"
  by (intro quiet_enq_deq_tty; simp add: set_transmittingQs_def set_readingQs_def sync_part_def)+

lemma quiet_set_transmitter [quiet_rules]: "quiet (set_transmitter i v)"
  unfolding set_transmitter_def by (intro quiet_rules) (simp add: sync_part_def)

lemma quiet_ready_if_some [quiet_rules]: "quiet (ready_if_some m)"
  unfolding ready_if_some_def by (intro quiet_rules)

lemma quiet_terminal [quiet_rules]:
  "quiet (isTtyTransmitAvailable i)" "quiet (blockTransmitter H k i)" "quiet (unblockTransmitter i)"
  "quiet (waitTransmitter H k i)" "quiet (signalTransmitter H k i)" "quiet (blockReader H k i)" "quiet (unblockReader i)"
  unfolding isTtyTransmitAvailable_def blockTransmitter_def unblockTransmitter_def waitTransmitter_def
    signalTransmitter_def blockReader_def unblockReader_def
  by (intro quiet_rules)+

lemma quiet_upd_ttyBuf [quiet_rules]: "quiet (upd_ttyBuf i f)"
  unfolding upd_ttyBuf_def get_ttyBuf_def by (intro quiet_rules) (simp add: sync_part_def)

lemma quiet_ttyBuf [quiet_rules]:
  "quiet (writeBuffer H l n i)" "quiet (readBuffer H i b m)" "quiet (KernelTtyRead H i b m)"
  unfolding KernelTtyRead_def readBuffer_def writeBuffer_def read_line_def get_ttyBuf_def by (intro quiet_rules)+

lemma quiet_TtyTransmit [quiet_rules]: "quiet (TtyTransmit i b)"
  unfolding TtyTransmit_def by (intro quiet_rules) (simp add: sync_part_def)

lemma quiet_transmit_loop [quiet_rules]: "quiet (transmit_loop H n i d len b)"
  by (induction n arbitrary: b) (auto intro!: quiet_rules)

lemma quiet_await_terminal [quiet_rules]: "quiet (await_terminal H n i d len)"
  by (induction n) (auto intro!: quiet_rules)

lemma quiet_KernelTtyWrite [quiet_rules]: "quiet (KernelTtyWrite H n i b len)"
  unfolding KernelTtyWrite_def by (intro quiet_rules)

section \<open>Loading a program\<close>

lemma quiet_strings [quiet_rules]: "quiet (load_string H n p)"
  by (induction n arbitrary: p) (auto intro!: quiet_rules)

lemma quiet_load_args [quiet_rules]: "quiet (load_args H n p)"
  by (induction n arbitrary: p) (auto intro!: quiet_rules)

lemma quiet_store_args [quiet_rules]: "quiet (store_args H cpp cp as)"
  by (induction as arbitrary: cpp cp) (auto intro!: quiet_rules)

lemma quiet_load_parts [quiet_rules]:
  "quiet (free_region1 H t)" "quiet (map_pages H t f n)" "quiet (protect_text H t f n)"
  "quiet (read_segment H exe a b n)" "quiet (upd_uctxt p g)" "quiet (build_stack H as)"
  unfolding free_region1_def map_pages_def protect_text_def read_segment_def upd_uctxt_def build_stack_def entry_nth_def
  by (intro quiet_rules)+

lemma quiet_load_segments [quiet_rules]: "quiet (load_segments H exe li p t n)"
  unfolding load_segments_def by (intro quiet_rules)

lemma quiet_LoadProgram [quiet_rules]: "quiet get_args \<Longrightarrow> quiet (LoadProgram H file get_args p)"
  unfolding LoadProgram_def by (intro quiet_rules)

lemma quiet_load_exec [quiet_rules]: "quiet (load_exec E H f a p)"
  unfolding load_exec_def by (intro quiet_rules)

section \<open>Traps and continuations\<close>

lemma quiet_finish_call [quiet_rules]: "quiet (finish_call r)"
  unfolding finish_call_def by (intro quiet_rules) (simp add: sync_part_def)

lemma quiet_reg [quiet_rules]: "quiet (reg u i)" "quiet (reg_ptr u i)"
  unfolding reg_ptr_def reg_def by (intro quiet_rules)+

lemma quiet_tick [quiet_rules]: "quiet tickDownSleepers"
  unfolding tickDownSleepers_def tickDownSleeper_def by (intro quiet_rules) (simp_all add: sync_part_def)

lemma quiet_handlers [quiet_rules]:
  "quiet (handleTrapClock H)" "quiet (handleTrapIllegal H)" "quiet (handleTrapMemory H u)" "quiet (handleTrapMath H)"
  "quiet (handleTtyReceive H l n u)" "quiet (handleTtyTransmit H u)" "quiet handleTrapDisk" "quiet handleNothing"
  unfolding handleTrapClock_def kickProcess_def handleTrapIllegal_def handleTrapMemory_def grow_stack_def
    handleTrapMath_def handleTtyReceive_def handleTtyTransmit_def handleTrapDisk_def handleNothing_def
  by (intro quiet_rules)+

lemma quiet_enter_user [quiet_rules]: "quiet enter_user"
  unfolding enter_user_def by (intro quiet_rules) (simp add: sync_part_def)

end
