(* ===== verification/MachineSafety.thy ===== *)
theory MachineSafety
  imports MachineFrames
begin

text \<open>
  Mutual exclusion for the whole machine. Whatever the running process does (user code, any system
  call, any trap, or going on from any saved kernel context), a lock held by another process is still
  held by it afterwards; so a lock is kept as long as its owner does not run.
\<close>

section \<open>The remaining calls\<close>

lemma safe_quiet: "quiet m \<Longrightarrow> safe_at m s"
  by (auto dest: quietD intro: safe_stays)

lemma safe_split:
  "(b \<Longrightarrow> safe_at m s) \<Longrightarrow> (\<not> b \<Longrightarrow> safe_at n s) \<Longrightarrow> safe_at (if b then m else n) s"
  "(\<And>x y. v = (x, y) \<Longrightarrow> safe_at (h x y) s) \<Longrightarrow> safe_at (case v of (x, y) \<Rightarrow> h x y) s"
  "safe_at (k w) s \<Longrightarrow> safe_at (Let w k) s"
  "(u = None \<Longrightarrow> safe_at m s) \<Longrightarrow> (\<And>x. u = Some x \<Longrightarrow> safe_at (g x) s) \<Longrightarrow>
     safe_at (case u of None \<Rightarrow> m | Some x \<Rightarrow> g x) s"
  by (auto split: prod.splits option.splits)

lemma safe_hm_insertk:
  "(\<And>m s. locks (put m s) = locks s \<and> currPCB (put m s) = currPCB s) \<Longrightarrow> safe_at (hm_insertk get put k x) s"
  unfolding hm_insertk_def
  by (intro safe_bind safe_split safe_modk safe_ret safe_malloc_okk safe_quiet [OF quiet_basic(6)]) simp_all

lemma safe_hm_removek:
  "(\<And>m s. locks (put m s) = locks s \<and> currPCB (put m s) = currPCB s) \<Longrightarrow> safe_at (hm_removek get put k) s"
  unfolding hm_removek_def
  by (intro safe_bind safe_split safe_modk safe_ret safe_quiet [OF quiet_basic(6)]) simp_all

lemma safe_register_sync:
  "(\<And>m s. locks (put m s) = locks s \<and> currPCB (put m s) = currPCB s) \<Longrightarrow> safe_at (register_sync H get put i p) s"
  unfolding register_sync_def
  by (intro safe_bind safe_hm_insertk safe_modk safe_ret safe_quiet [OF quiet_memory(5)]
      safe_quiet [OF quiet_memory(2)] safe_quiet [OF quiet_memory(3)]) simp_all

lemmas safe_sync_parts = safe_quiet [OF quiet_machine(1)] safe_malloc_okk safe_ret safe_hm_removek safe_find
  safe_register_sync

text \<open>A new lock is placed where there was none.\<close>

lemma safe_initLock: "safe_at (initLock H i) s"
  unfolding initLock_def
proof (intro safe_bind safe_split safe_sync_parts)
  fix m a ok and heap :: "ptr \<Rightarrow> lock_t option" and t u t' :: kstate
  assume "getk locks t = Done heap u" "\<not> heap a \<noteq> None" "malloc_okk u = Done ok t'"
  then have fresh: "locks t' a = None" by (auto simp: getk_def malloc_okk_run)
  then show "safe_at (modk (\<lambda>s. s\<lparr>locks := (locks s)(a \<mapsto> \<lparr>ownerPcbp = None, lock_waitingQ = make_q ok\<rparr>)\<rparr>)) t'"
    by (auto simp: safe_at_def modk_def foreign_kept_def holds_def)
qed (simp_all add: set_lockMap_def)

text \<open>A lock is freed only when it has no owner.\<close>

lemma safe_deleteLock: "safe_at (deleteLock i) s"
  unfolding deleteLock_def
proof (intro safe_bind safe_split safe_sync_parts safe_upd_lock)
  fix m a ok l and s' t t' u u' :: kstate
  assume "fetch locks a u = Done l u'" "\<not> (ownerPcbp l \<noteq> None \<or> peek_q (lock_waitingQ l) \<noteq> None)"
  then have "locks u' a = Some l" "ownerPcbp l = None" by (auto simp: fetch_def split: option.splits)
  then show "safe_at (modk (\<lambda>s. s\<lparr>locks := (locks s)(a := None)\<rparr>)) u'"
    by (auto simp: safe_at_def modk_def foreign_kept_def holds_def)
qed (simp_all add: set_lockMap_def)

lemma safe_cvar_calls: "safe_at (KernelCvarInit H i) s" "safe_at (deleteCvar c) s"
  unfolding KernelCvarInit_def initCvar_def deleteCvar_def
  by (intro safe_bind safe_split safe_sync_parts safe_modk; simp add: set_cvarMap_def)+

lemma safe_upd_pipe: "safe_at (upd_pipe p f) s"
  unfolding upd_pipe_def by (intro safe_bind safe_ret safe_modk) simp_all

lemma safe_pipe_parts: "safe_at (enq_pipe p w) s" "safe_at (deq_pipe p) s" "safe_at (wake_head p) s"
    "safe_at (buf_read bs i n) s" "safe_at (buf_write bs i xs) s" "safe_at (nonnull v) s"
    "safe_at (copyin H va len) s" "safe_at (copyout H va xs) s" "safe_at (add_int x y) s"
  unfolding enq_pipe_def deq_pipe_def wake_head_def buf_read_def buf_write_def
  by (intro safe_bind safe_split safe_ret safe_upd_pipe safe_malloc_okk safe_unblockProcess
      safe_quiet [OF quiet_basic(7)] safe_quiet [OF quiet_copyin] safe_quiet [OF quiet_copyout]
      safe_quiet [OF quiet_memory(5)])+

lemma safe_pipe_read_loop: "safe_at (pipe_read_loop H p b n) s"
  unfolding pipe_read_loop_def pipe_take_def
  by (intro safe_bind safe_split safe_parts safe_upd_pipe safe_pipe_parts)

lemma safe_pipe_calls:
  "safe_at (KernelPipeInit H idp) s" "safe_at (deletePipe i) s" "safe_at (KernelPipeRead H i b n) s"
  "safe_at (KernelPipeWrite H i b n) s"
  unfolding KernelPipeInit_def initPipe_def deletePipe_def KernelPipeRead_def KernelPipeWrite_def getPipe_def
  by (intro safe_bind safe_split safe_sync_parts safe_modk safe_blockProcess safe_upd_pipe safe_pipe_parts
      safe_pipe_read_loop; simp add: set_pipeMap_def)+

lemma safe_KernelReclaim: "safe_at (KernelReclaim i) s"
  unfolding KernelReclaim_def getLock_def getCvar_def getPipe_def
  by (intro safe_bind safe_split safe_find safe_ret safe_deleteLock safe_cvar_calls safe_pipe_calls)

section \<open>One machine step\<close>

lemma safe_finish: "safe_at m s \<Longrightarrow> safe_at (bindk m finish_call) s"
  by (intro safe_bind safe_quiet [OF quiet_finish_call])

lemmas safe_sync_calls = safe_calls safe_initLock safe_cvar_calls safe_pipe_calls safe_KernelReclaim

lemma safe_dispatch_call: "safe_at (dispatch_call E H u code) s"
  unfolding dispatch_call_def KernelLockInit_def
  by (cases code) (simp_all, (intro safe_bind safe_quiet [OF quiet_reg(1)] safe_quiet [OF quiet_reg(2)]
      safe_sync_calls safe_ret safe_quiet [OF quiet_KernelFork] safe_quiet [OF quiet_KernelExit]
      safe_quiet [OF quiet_KernelExec [OF quiet_load_exec]]
      safe_quiet [OF quiet_calls(1)] safe_quiet [OF quiet_calls(2)] safe_quiet [OF quiet_calls(3)]
      safe_quiet [OF quiet_brk] safe_quiet [OF quiet_ttyBuf(3)] safe_quiet [OF quiet_KernelTtyWrite])+)

lemma safe_interruptVector: "safe_at (interruptVector E H t u) s"
  unfolding interruptVector_def handleTrapKernel_def
  by (cases t) (simp_all add: safe_finish safe_dispatch_call safe_quiet quiet_handlers quiet_basic split: option.splits)

lemma safe_resume: "safe_at (resume E H k) s"
  unfolding resume_def cvar_reacquire_def
  by (cases k) (simp_all del: transmit_loop.simps, (intro safe_finish safe_sync_calls safe_pipe_read_loop safe_ret
      safe_quiet [OF quiet_finish_call] safe_quiet [OF quiet_enter_user] safe_quiet [OF quiet_wait_collect]
      safe_quiet [OF quiet_fork_return] safe_quiet [OF quiet_await_terminal] safe_quiet [OF quiet_transmit_loop]
      safe_quiet [OF quiet_ttyBuf(2)])+)

inductive_cases step_userE: "step E H (User, s) (md, t)"
inductive_cases step_resumeE: "step E H (Resume, s) (md, t)"

lemma after_cases: "after out = Some (md, t) \<Longrightarrow> out = Done () t \<or> out = Switch t"
  by (cases out) auto

lemma step_keeps_foreign:
  assumes "step E H (md, s) (md', t)"
  shows "foreign_kept s t"
proof (cases md)
  case User
  have "foreign_kept s (s\<lparr>pmem := m, trapFrame := f\<rparr>)" for m f by (simp add: foreign_kept_locks)
  with assms User show ?thesis
    by (auto elim!: step_userE dest!: after_cases intro: safe_atD [OF safe_interruptVector])
next
  case Resume
  with assms show ?thesis
    by (auto elim!: step_resumeE dest!: after_cases intro: safe_atD [OF safe_resume])
qed

section \<open>Runs of the machine\<close>

text \<open>A step while a process other than \<open>p\<close> is running.\<close>

definition step_without :: "env \<Rightarrow> hw \<Rightarrow> ptr \<Rightarrow> mode \<times> kstate \<Rightarrow> mode \<times> kstate \<Rightarrow> bool" where
  "step_without E H p x y \<longleftrightarrow> step E H x y \<and> currPCB (snd x) \<noteq> p"

lemma run_keeps_lock:
  assumes "(step_without E H p)\<^sup>*\<^sup>* x y" "holds (snd x) a p"
  shows "holds (snd y) a p"
  using assms
proof (induction rule: rtranclp_induct)
  case base
  then show ?case by simp
next
  case (step y z)
  then have "foreign_kept (snd y) (snd z)"
    by (cases y, cases z) (auto simp: step_without_def intro: step_keeps_foreign)
  with step show ?case by (auto simp: foreign_kept_def step_without_def)
qed

lemma held_not_acquired: "holds s a p \<Longrightarrow> acquire_loop H a s \<noteq> Done SUCCESS t"
  by (auto simp: holds_def dest: acquire_success)

end
