(* ===== verification/Registry.thy ===== *)
theory Registry
  imports Wlp MachineSafety
begin

text \<open>
  The registry of synchronisation objects. Locks, condition variables and pipes share one counter of
  identifiers; \<open>registry_ok\<close> says that the three hash maps are well formed, that no identifier is
  used twice (not even in two maps, which \<^verbatim>\<open>KernelReclaim\<close> relies on), that every identifier
  is one already given out, and that different identifiers name different live objects. It holds
  after boot and after every step of the machine.
\<close>

section \<open>Hash maps under any key\<close>

text \<open>Also for the negative keys a user program may pass, when they do not fault.\<close>

lemma HashMap_remove_any:
  assumes "hm_ok hm" "HashMap_remove (Some hm) k = Inr (r, m')"
  obtains hm' where "m' = Some hm'" "hm_ok hm'" "r = hm_map hm k" "hm_map hm' = (hm_map hm)(k := None)"
proof (cases "0 \<le> k")
  case True
  with HashMap_remove_ok [OF assms(1) True] assms(2) that show ?thesis by auto
next
  case False
  then have neg: "k < 0" "hm_map hm k = None" using hm_map_neg [OF assms(1)] by auto
  have dvd: "hm_size hm dvd k"
    by (rule ccontr) (use assms slot_neg [OF assms(1) neg(1)] in \<open>simp add: HashMap_remove_def\<close>)
  have n: "0 < length (sets hm)" using assms(1) unfolding hm_ok_def by linarith
  with assms(1) obtain ns where ns: "sets hm ! 0 = Some ns" "distinct (map fst ns)"
    "\<And>k. k \<in> fst ` set ns \<Longrightarrow> 0 \<le> k" by (rule hm_chainE) blast
  have "0 < hm_size hm" using assms(1) unfolding hm_ok_def by (rule conjunct1)
  then have "k smod hm_size hm = 0" using dvd neg by (simp add: smod_neg mod_eq_0_iff_dvd)
  then have sl: "slot hm (k smod hm_size hm) = Inr 0" using n by (simp add: slot_def)
  have k: "k \<notin> fst ` set ns" using ns(3) [of k] neg by auto
  then have "filter (\<lambda>n. fst n \<noteq> k) ns = ns" by (auto simp: filter_id_conv)
  with ns remove_node_snd [OF ns(2), of k] remove_node_fst [of ns k] k
  have "set_remove (sets hm ! 0) k = (None, Some ns)" by (simp add: set_remove_def map_of_eq_None_iff)
  moreover have "(sets hm)[0 := Some ns] = sets hm" using ns(1) by (metis list_update_id)
  ultimately have "HashMap_remove (Some hm) k = Inr (None, Some hm)"
    using sl by (simp add: HashMap_remove_def)
  then have "r = None" "m' = Some hm" using assms(2) by simp_all
  then show ?thesis using neg assms(1) that [of hm] by (simp add: fun_upd_idem)
qed

lemma HashMap_insert_any:
  assumes "hm_ok hm" "0 \<le> k" "HashMap_insert ok (Some hm) k (Some x) = Inr (r, m')"
  obtains hm' where "m' = Some hm'" "hm_ok hm'"
    "r = ERROR \<and> hm_map hm' = hm_map hm \<or> r = SUCCESS \<and> hm_map hm' = (hm_map hm)(k \<mapsto> x)"
proof (cases "ok \<and> hm_map hm k = None")
  case True
  with HashMap_insert_new [OF assms(1,2), of x] assms(3) that show ?thesis by auto
next
  case False
  with HashMap_insert_nomem [OF assms(1,2), of x] HashMap_insert_dup [OF assms(1,2), of ok x] assms(1,3) that
  show ?thesis by (cases ok) auto
qed

section \<open>The invariant\<close>

definition ids :: "ptr HashMap option \<Rightarrow> int set" where
  "ids m = (case m of None \<Rightarrow> {} | Some hm \<Rightarrow> dom (hm_map hm))"

definition reg_ok :: "int \<Rightarrow> ptr HashMap option \<Rightarrow> (ptr \<Rightarrow> 'o option) \<Rightarrow> bool" where
  "reg_ok n m heap \<longleftrightarrow> (\<exists>hm. m = Some hm \<and> hm_ok hm \<and> dom (hm_map hm) \<subseteq> {0..<n} \<and>
     ran (hm_map hm) \<subseteq> dom heap \<and> inj_on (hm_map hm) (dom (hm_map hm)))"

definition registry_ok :: "kstate \<Rightarrow> bool" where
  "registry_ok s \<longleftrightarrow> 0 \<le> nextSyncId s \<and> reg_ok (nextSyncId s) (lockMap s) (locks s) \<and>
     reg_ok (nextSyncId s) (cvarMap s) (cvars s) \<and> reg_ok (nextSyncId s) (pipeMap s) (pipes s) \<and>
     ids (lockMap s) \<inter> ids (cvarMap s) = {} \<and> ids (lockMap s) \<inter> ids (pipeMap s) = {} \<and>
     ids (cvarMap s) \<inter> ids (pipeMap s) = {}"

lemma registry_sync: "sync_part t = sync_part s \<Longrightarrow> registry_ok t = registry_ok s"
  by (simp add: registry_ok_def sync_part_def)

lemma reg_ok_mono: "reg_ok n m heap \<Longrightarrow> n \<le> n' \<Longrightarrow> dom heap \<subseteq> dom heap' \<Longrightarrow> reg_ok n' m heap'"
  unfolding reg_ok_def by (elim exE conjE, intro exI conjI; assumption?) (auto simp: subset_iff)

lemma registry_grow:
  assumes "registry_ok s" "lockMap t = lockMap s" "cvarMap t = cvarMap s" "pipeMap t = pipeMap s"
    "nextSyncId t = nextSyncId s" "dom (locks s) \<subseteq> dom (locks t)" "dom (cvars s) \<subseteq> dom (cvars t)"
    "dom (pipes s) \<subseteq> dom (pipes t)"
  shows "registry_ok t"
  using assms(1) reg_ok_mono [OF _ order_refl assms(6)] reg_ok_mono [OF _ order_refl assms(7)]
    reg_ok_mono [OF _ order_refl assms(8)]
  by (simp add: registry_ok_def assms(2-5))

lemma reg_ok_remove:
  assumes "reg_ok n (Some hm) heap" "hm_ok hm'" "hm_map hm' = (hm_map hm)(k := None)"
    and "\<And>a. a \<in> dom heap \<Longrightarrow> hm_map hm k \<noteq> Some a \<Longrightarrow> a \<in> dom heap'"
  shows "reg_ok n (Some hm') heap'" "ids (Some hm') \<subseteq> ids (Some hm)"
proof -
  have sub: "dom (hm_map hm') \<subseteq> dom (hm_map hm)" by (auto simp: assms(3) split: if_splits)
  have inj: "inj_on (hm_map hm) (dom (hm_map hm))" using assms(1) by (simp add: reg_ok_def)
  then have "inj_on (hm_map hm') (dom (hm_map hm'))" by (auto simp: assms(3) inj_on_def)
  moreover have "ran (hm_map hm') \<subseteq> dom heap'"
  proof
    fix a
    assume "a \<in> ran (hm_map hm')"
    then obtain j where j: "j \<noteq> k" "hm_map hm j = Some a" by (auto simp: assms(3) ran_def split: if_splits)
    then have "hm_map hm k \<noteq> Some a" using inj by (metis domI inj_onD)
    moreover have "a \<in> dom heap" using assms(1) j(2) by (auto simp: reg_ok_def ran_def)
    ultimately show "a \<in> dom heap'" using assms(4) by blast
  qed
  ultimately show "reg_ok n (Some hm') heap'" using sub assms(1,2) by (auto simp: reg_ok_def)
  show "ids (Some hm') \<subseteq> ids (Some hm)" using sub by (simp add: ids_def)
qed

lemma reg_ok_insert:
  assumes "reg_ok n (Some hm) heap" "hm_ok hm'" "hm_map hm' = (hm_map hm)(n \<mapsto> a)"
    and "0 \<le> n" "a \<in> dom heap" "a \<notin> ran (hm_map hm)"
  shows "reg_ok (n + 1) (Some hm') heap" "ids (Some hm') = insert n (ids (Some hm))"
proof -
  have new: "n \<notin> dom (hm_map hm)" using assms(1) by (auto simp: reg_ok_def)
  have "inj_on (hm_map hm') (dom (hm_map hm'))"
    using assms(1,6) by (auto simp: assms(3) reg_ok_def inj_on_def ran_def)
  moreover have "ran (hm_map hm') \<subseteq> dom heap" using assms(1,5) new by (auto simp: assms(3) reg_ok_def)
  moreover have "dom (hm_map hm') \<subseteq> {0..<n + 1}" using assms(1,4) by (fastforce simp: assms(3) reg_ok_def)
  ultimately show "reg_ok (n + 1) (Some hm') heap" using assms(2) by (simp add: reg_ok_def)
  show "ids (Some hm') = insert n (ids (Some hm))" by (simp add: ids_def assms(3))
qed

section \<open>Code that keeps it\<close>

definition registers :: "'a kernel \<Rightarrow> bool" where
  "registers m \<longleftrightarrow> (\<forall>s. registry_ok s \<longrightarrow> wlp m (\<lambda>_. registry_ok) registry_ok s)"

named_theorems reg_rules \<open>code that keeps the registry well formed\<close>

lemma reg_quiet: "quiet m \<Longrightarrow> registers m"
  unfolding registers_def using registry_sync
  by (blast dest: quietD(1) intro: wlp_keeps)

lemma reg_bindk [reg_rules]: "registers m \<Longrightarrow> (\<And>x. registers (f x)) \<Longrightarrow> registers (bindk m f)"
  unfolding registers_def wlp_bindk by (blast intro: wlp_mono)

lemma reg_cases [reg_rules]:
  "(b \<Longrightarrow> registers m) \<Longrightarrow> (\<not> b \<Longrightarrow> registers n) \<Longrightarrow> registers (if b then m else n)"
  "(v = None \<Longrightarrow> registers m) \<Longrightarrow> (\<And>x. v = Some x \<Longrightarrow> registers (g x)) \<Longrightarrow> registers (case v of None \<Rightarrow> m | Some x \<Rightarrow> g x)"
  "(\<And>x y. registers (h x y)) \<Longrightarrow> registers (case w of (x, y) \<Rightarrow> h x y)"
  "registers (k u) \<Longrightarrow> registers (Let u k)"
  by (auto split: option.splits prod.splits)

lemma reg_find [reg_rules]: "registers (hm_findk get i)"
  unfolding hm_findk_def by (intro reg_quiet quiet_rules)

lemma dom_put: "v \<noteq> None \<Longrightarrow> dom h \<subseteq> dom (h(a := v))"
  by auto

lemma reg_upd_lock [reg_rules]: "registers (upd_lock a f)"
  unfolding registers_def upd_lock_def by (clarsimp simp: wlp_simps) (erule registry_grow; simp add: dom_put subset_insertI)

lemma reg_upd_pipe [reg_rules]: "registers (upd_pipe a f)"
  unfolding registers_def upd_pipe_def by (clarsimp simp: wlp_simps) (erule registry_grow; simp add: dom_put subset_insertI)

lemma queue_stays: "snd (enq_q ok (Some q) p) \<noteq> None" "snd (deq_q (Some q)) \<noteq> None"
  by (cases q; simp add: enq_q_def)+

lemma reg_cvar_queue [reg_rules]: "registers (enq_cvar a p)" "registers (deq_cvar a)"
proof -
  have grow: "registry_ok (s\<lparr>cvars := (cvars s)(a := v)\<rparr>)" "registry_ok (s\<lparr>malloc_count := c, cvars := (cvars s)(a := v)\<rparr>)"
    if "registry_ok s" "v \<noteq> None" for s v c
    using that by (auto elim!: registry_grow simp: dom_put simp del: dom_fun_upd)
  show "registers (enq_cvar a p)" "registers (deq_cvar a)"
    by (simp_all add: registers_def enq_cvar_def deq_cvar_def wlp_simps queue_stays grow)
qed

section \<open>Creating and deleting objects\<close>

lemma wlp_store_load:
  assumes "4 \<le> PAGESIZE H" "is_int n" "\<And>m. wlp (f n) Q R (s\<lparr>pmem := m\<rparr>)"
  shows "wlp (bindk (store_int H idp n) (\<lambda>_. bindk (load_int H idp) f)) Q R s"
proof -
  have no_switch: "store_int H idp n s \<noteq> Switch t" "load_int H idp t \<noteq> Switch t'" for t t'
    using copyout_run [of H s idp "int_bytes n"] copyout_fault [of H s idp "int_bytes n"]
      copyin_run [of H t idp 4] copyin_fault [of H t idp 4]
    by (cases "mapped H s PROT_WRITE idp (length (int_bytes n))";
        cases "mapped H t PROT_READ idp 4"; simp add: store_int_def load_int_def bindk_def retk_def)+
  have "wlp (f k) Q R u" if "store_int H idp n s = Done () t" "load_int H idp t = Done k u" for k t u
    using load_stored_int [OF assms(1,2) that] assms(3) by auto
  with no_switch show ?thesis by (fastforce simp: wlp_def bindk_eq_Done bindk_eq_Switch)
qed

text \<open>The registration of \<open>p\<close> under the next identifier, in whichever of the three maps.\<close>

lemma wlp_register_sync:
  assumes "4 \<le> PAGESIZE H" "get s = Some hm" "hm_ok hm" "0 \<le> nextSyncId s"
    and get: "\<And>s n m c. get (s\<lparr>nextSyncId := n, pmem := m, malloc_count := c\<rparr>) = get s"
    and Q: "\<And>r hm' m c. hm_ok hm' \<Longrightarrow> hm_map hm' = hm_map hm \<or> hm_map hm' = (hm_map hm)(nextSyncId s \<mapsto> p) \<Longrightarrow>
       Q r (put (Some hm') (s\<lparr>nextSyncId := nextSyncId s + 1, pmem := m, malloc_count := c\<rparr>))"
  shows "wlp (register_sync H get put idp p) Q R s"
proof -
  let ?n = "nextSyncId s"
  have "wlp (hm_insertk get put ?n p) Q R (s\<lparr>nextSyncId := ?n + 1, pmem := m\<rparr>)" for m
  proof -
    have "Q r (put m' (s\<lparr>nextSyncId := ?n + 1, pmem := m, malloc_count := c\<rparr>))"
      if "HashMap_insert ok (get s) ?n (Some p) = Inr (r, m')" for ok r m' c
      using that assms(2) HashMap_insert_any [OF assms(3,4), of ok p r m'] Q by metis
    moreover have "get (s\<lparr>nextSyncId := ?n + 1, pmem := m, malloc_count := c\<rparr>) = get s" for c by (rule get)
    ultimately show ?thesis
      by (simp add: hm_insertk_def wlp_simps)
  qed
  then have "wlp (bindk (store_int H idp ?n) (\<lambda>_. bindk (load_int H idp) (\<lambda>key. hm_insertk get put key p))) Q R
      (s\<lparr>nextSyncId := ?n + 1\<rparr>)" if "is_int (?n + 1)"
    using that assms(4) by (intro wlp_store_load assms(1)) (simp_all add: is_int_def)
  then show ?thesis by (simp add: register_sync_def wlp_basic wlp_cases wlp_bindk [of "getk _"] wlp_bindk [of "add_int _ _"]
     wlp_bindk [of "modk _"] wlp_bindk [of "faultk _"] add_int_def)
qed

text \<open>The three creations: the new object lies where there was none, so no identifier names it yet.\<close>

lemma registry_okD:
  assumes "registry_ok s"
  obtains lm cm pm where "lockMap s = Some lm" "cvarMap s = Some cm" "pipeMap s = Some pm"
    "hm_ok lm" "hm_ok cm" "hm_ok pm" "0 \<le> nextSyncId s"
  using assms by (auto simp: registry_ok_def reg_ok_def)

lemma registry_fields:
  "registry_ok (s\<lparr>malloc_count := c\<rparr>) = registry_ok s" "registry_ok (s\<lparr>pmem := m\<rparr>) = registry_ok s"
  by (rule registry_sync; simp add: sync_part_def)+

lemma fresh_in_ran: "reg_ok n (Some hm) heap \<Longrightarrow> heap a = None \<Longrightarrow> a \<notin> ran (hm_map hm)"
  by (auto simp: reg_ok_def)

lemma reg_ok_registered:
  assumes "reg_ok n (Some hm) heap" "0 \<le> n" "heap a = None" "hm_ok hm'"
    "hm_map hm' = hm_map hm \<or> hm_map hm' = (hm_map hm)(n \<mapsto> a)"
  shows "reg_ok (n + 1) (Some hm') (heap(a \<mapsto> x))" "ids (Some hm') \<subseteq> insert n (ids (Some hm))"
proof -
  have grown: "reg_ok n (Some hm) (heap(a \<mapsto> x))" by (rule reg_ok_mono [OF assms(1)]) auto
  have "reg_ok (n + 1) (Some hm') (heap(a \<mapsto> x)) \<and> ids (Some hm') \<subseteq> insert n (ids (Some hm))"
    using assms(5)
  proof
    assume same: "hm_map hm' = hm_map hm"
    then have "reg_ok n (Some hm') (heap(a \<mapsto> x))" using grown assms(4) by (simp add: reg_ok_def)
    with same show ?thesis by (auto intro: reg_ok_mono simp: ids_def)
  next
    assume "hm_map hm' = (hm_map hm)(n \<mapsto> a)"
    from reg_ok_insert [OF grown assms(4) this assms(2)] fresh_in_ran [OF assms(1,3)] show ?thesis by auto
  qed
  then show "reg_ok (n + 1) (Some hm') (heap(a \<mapsto> x))" "ids (Some hm') \<subseteq> insert n (ids (Some hm))" by auto
qed

lemma next_id_unused: "reg_ok n m heap \<Longrightarrow> n \<notin> ids m"
  by (fastforce simp: reg_ok_def ids_def)

lemma reg_ok_later: "reg_ok n m heap \<Longrightarrow> reg_ok (n + 1) m heap"
  by (erule reg_ok_mono) simp_all

lemma registry_add_lock:
  assumes "registry_ok s" "lockMap s = Some hm" "locks s a = None" "hm_ok hm'"
    "hm_map hm' = hm_map hm \<or> hm_map hm' = (hm_map hm)(nextSyncId s \<mapsto> a)"
    "lockMap t = Some hm'" "locks t = (locks s)(a \<mapsto> x)" "nextSyncId t = nextSyncId s + 1"
    "cvarMap t = cvarMap s" "cvars t = cvars s" "pipeMap t = pipeMap s" "pipes t = pipes s"
  shows "registry_ok t"
proof -
  note parts = assms(1) [unfolded registry_ok_def]
  from parts have old: "reg_ok (nextSyncId s) (Some hm) (locks s)" "0 \<le> nextSyncId s"
    by (simp_all add: assms(2))
  note new = reg_ok_registered(1) [OF old assms(3,4,5), of x] reg_ok_registered(2) [OF old assms(3,4,5)]
  have "nextSyncId s \<notin> ids (cvarMap s)" "nextSyncId s \<notin> ids (pipeMap s)"
    using parts by (blast dest: next_id_unused)+
  with parts new show ?thesis
    unfolding registry_ok_def assms(6-) assms(2) by (auto intro: reg_ok_later)
qed

lemma registry_add_cvar:
  assumes "registry_ok s" "cvarMap s = Some hm" "cvars s a = None" "hm_ok hm'"
    "hm_map hm' = hm_map hm \<or> hm_map hm' = (hm_map hm)(nextSyncId s \<mapsto> a)"
    "cvarMap t = Some hm'" "cvars t = (cvars s)(a \<mapsto> x)" "nextSyncId t = nextSyncId s + 1"
    "lockMap t = lockMap s" "locks t = locks s" "pipeMap t = pipeMap s" "pipes t = pipes s"
  shows "registry_ok t"
proof -
  note parts = assms(1) [unfolded registry_ok_def]
  from parts have old: "reg_ok (nextSyncId s) (Some hm) (cvars s)" "0 \<le> nextSyncId s"
    by (simp_all add: assms(2))
  note new = reg_ok_registered(1) [OF old assms(3,4,5), of x] reg_ok_registered(2) [OF old assms(3,4,5)]
  have "nextSyncId s \<notin> ids (lockMap s)" "nextSyncId s \<notin> ids (pipeMap s)"
    using parts by (blast dest: next_id_unused)+
  with parts new show ?thesis
    unfolding registry_ok_def assms(6-) assms(2) by (auto intro: reg_ok_later)
qed

lemma registry_add_pipe:
  assumes "registry_ok s" "pipeMap s = Some hm" "pipes s a = None" "hm_ok hm'"
    "hm_map hm' = hm_map hm \<or> hm_map hm' = (hm_map hm)(nextSyncId s \<mapsto> a)"
    "pipeMap t = Some hm'" "pipes t = (pipes s)(a \<mapsto> x)" "nextSyncId t = nextSyncId s + 1"
    "lockMap t = lockMap s" "locks t = locks s" "cvarMap t = cvarMap s" "cvars t = cvars s"
  shows "registry_ok t"
proof -
  note parts = assms(1) [unfolded registry_ok_def]
  from parts have old: "reg_ok (nextSyncId s) (Some hm) (pipes s)" "0 \<le> nextSyncId s"
    by (simp_all add: assms(2))
  note new = reg_ok_registered(1) [OF old assms(3,4,5), of x] reg_ok_registered(2) [OF old assms(3,4,5)]
  have "nextSyncId s \<notin> ids (lockMap s)" "nextSyncId s \<notin> ids (cvarMap s)"
    using parts by (blast dest: next_id_unused)+
  with parts new show ?thesis
    unfolding registry_ok_def assms(6-) assms(2) by (auto intro: reg_ok_later)
qed


lemma reg_initLock:
  assumes "4 \<le> PAGESIZE H"
  shows "registers (initLock H idp)"
proof -
  have "wlp (register_sync H lockMap set_lockMap idp a) (\<lambda>_. registry_ok) registry_ok
      (s\<lparr>malloc_count := c, locks := (locks s)(a \<mapsto> x)\<rparr>)"
    if ok: "registry_ok s" and a: "locks s a = None" for s a x c
  proof (rule registry_okD [OF ok])
    fix lm cm pm
    assume m: "lockMap s = Some lm" "cvarMap s = Some cm" "pipeMap s = Some pm" "hm_ok lm" "hm_ok cm" "hm_ok pm"
      "0 \<le> nextSyncId s"
    show ?thesis
      by (rule wlp_register_sync [OF assms, where hm = lm])
        (use m in \<open>simp_all add: set_lockMap_def registry_add_lock [OF ok _ a]\<close>)
  qed
  then show ?thesis
    by (simp add: registers_def initLock_def wlp_simps registry_fields)
qed

lemma reg_initCvar:
  assumes "4 \<le> PAGESIZE H"
  shows "registers (initCvar H idp)"
proof -
  have "wlp (register_sync H cvarMap set_cvarMap idp a) (\<lambda>_. registry_ok) registry_ok
      (s\<lparr>malloc_count := c, cvars := (cvars s)(a \<mapsto> x)\<rparr>)"
    if ok: "registry_ok s" and a: "cvars s a = None" for s a x c
  proof (rule registry_okD [OF ok])
    fix lm cm pm
    assume m: "lockMap s = Some lm" "cvarMap s = Some cm" "pipeMap s = Some pm" "hm_ok lm" "hm_ok cm" "hm_ok pm"
      "0 \<le> nextSyncId s"
    show ?thesis
      by (rule wlp_register_sync [OF assms, where hm = cm])
        (use m in \<open>simp_all add: set_cvarMap_def registry_add_cvar [OF ok _ a]\<close>)
  qed
  then show ?thesis
    by (simp add: registers_def initCvar_def wlp_simps registry_fields)
qed

lemma reg_initPipe:
  assumes "4 \<le> PAGESIZE H"
  shows "registers (initPipe H idp)"
proof -
  have "wlp (register_sync H pipeMap set_pipeMap idp a) (\<lambda>_. registry_ok) registry_ok
      (s\<lparr>malloc_count := c, pipes := (pipes s)(a \<mapsto> x)\<rparr>)"
    if ok: "registry_ok s" and a: "pipes s a = None" for s a x c
  proof (rule registry_okD [OF ok])
    fix lm cm pm
    assume m: "lockMap s = Some lm" "cvarMap s = Some cm" "pipeMap s = Some pm" "hm_ok lm" "hm_ok cm" "hm_ok pm"
      "0 \<le> nextSyncId s"
    show ?thesis
      by (rule wlp_register_sync [OF assms, where hm = pm])
        (use m in \<open>simp_all add: set_pipeMap_def registry_add_pipe [OF ok _ a]\<close>)
  qed
  then show ?thesis
    by (simp add: registers_def initPipe_def wlp_simps registry_fields)
qed


lemma registry_remove_lock:
  assumes "registry_ok s" "lockMap s = Some hm" "hm_ok hm'" "hm_map hm' = (hm_map hm)(k := None)"
    "\<And>a. a \<in> dom (locks s) \<Longrightarrow> hm_map hm k \<noteq> Some a \<Longrightarrow> a \<in> dom (locks t)"
    "lockMap t = Some hm'" "nextSyncId t = nextSyncId s"
    "cvarMap t = cvarMap s" "cvars t = cvars s" "pipeMap t = pipeMap s" "pipes t = pipes s"
  shows "registry_ok t"
proof -
  note parts = assms(1) [unfolded registry_ok_def]
  from parts have "reg_ok (nextSyncId s) (Some hm) (locks s)" by (simp add: assms(2))
  note new = reg_ok_remove [OF this assms(3,4,5)]
  with parts show ?thesis unfolding registry_ok_def assms(6-) assms(2) by blast
qed

lemma registry_remove_cvar:
  assumes "registry_ok s" "cvarMap s = Some hm" "hm_ok hm'" "hm_map hm' = (hm_map hm)(k := None)"
    "\<And>a. a \<in> dom (cvars s) \<Longrightarrow> hm_map hm k \<noteq> Some a \<Longrightarrow> a \<in> dom (cvars t)"
    "cvarMap t = Some hm'" "nextSyncId t = nextSyncId s"
    "lockMap t = lockMap s" "locks t = locks s" "pipeMap t = pipeMap s" "pipes t = pipes s"
  shows "registry_ok t"
proof -
  note parts = assms(1) [unfolded registry_ok_def]
  from parts have "reg_ok (nextSyncId s) (Some hm) (cvars s)" by (simp add: assms(2))
  note new = reg_ok_remove [OF this assms(3,4,5)]
  with parts show ?thesis unfolding registry_ok_def assms(6-) assms(2) by blast
qed

lemma registry_remove_pipe:
  assumes "registry_ok s" "pipeMap s = Some hm" "hm_ok hm'" "hm_map hm' = (hm_map hm)(k := None)"
    "\<And>a. a \<in> dom (pipes s) \<Longrightarrow> hm_map hm k \<noteq> Some a \<Longrightarrow> a \<in> dom (pipes t)"
    "pipeMap t = Some hm'" "nextSyncId t = nextSyncId s"
    "lockMap t = lockMap s" "locks t = locks s" "cvarMap t = cvarMap s" "cvars t = cvars s"
  shows "registry_ok t"
proof -
  note parts = assms(1) [unfolded registry_ok_def]
  from parts have "reg_ok (nextSyncId s) (Some hm) (pipes s)" by (simp add: assms(2))
  note new = reg_ok_remove [OF this assms(3,4,5)]
  with parts show ?thesis unfolding registry_ok_def assms(6-) assms(2) by blast
qed

lemma reg_deleteLock: "registers (deleteLock i)"
proof -
  have "wlp (deleteLock i) (\<lambda>_. registry_ok) registry_ok s" if ok: "registry_ok s" for s
  proof -
    from ok obtain hm where hm: "lockMap s = Some hm" "hm_ok hm" by (rule registry_okD) blast
    show ?thesis
      unfolding deleteLock_def hm_removek_def upd_lock_def set_lockMap_def
      by (simp add: wlp_simps hm(1), intro allI impI, erule HashMap_remove_any [OF hm(2)])
        (auto intro!: registry_remove_lock [OF ok hm(1)])
  qed
  then show ?thesis by (simp add: registers_def)
qed

lemma reg_deleteCvar: "registers (deleteCvar i)"
proof -
  have "wlp (deleteCvar i) (\<lambda>_. registry_ok) registry_ok s" if ok: "registry_ok s" for s
  proof -
    from ok obtain hm where hm: "cvarMap s = Some hm" "hm_ok hm" by (rule registry_okD) blast
    show ?thesis
      unfolding deleteCvar_def hm_removek_def upd_lock_def set_cvarMap_def
      by (simp add: wlp_simps hm(1), intro allI impI, erule HashMap_remove_any [OF hm(2)])
        (auto intro!: registry_remove_cvar [OF ok hm(1)])
  qed
  then show ?thesis by (simp add: registers_def)
qed

lemma reg_deletePipe: "registers (deletePipe i)"
proof -
  have "wlp (deletePipe i) (\<lambda>_. registry_ok) registry_ok s" if ok: "registry_ok s" for s
  proof -
    from ok obtain hm where hm: "pipeMap s = Some hm" "hm_ok hm" by (rule registry_okD) blast
    show ?thesis
      unfolding deletePipe_def hm_removek_def upd_lock_def set_pipeMap_def
      by (simp add: wlp_simps hm(1), intro allI impI, erule HashMap_remove_any [OF hm(2)])
        (auto intro!: registry_remove_pipe [OF ok hm(1)])
  qed
  then show ?thesis by (simp add: registers_def)
qed


section \<open>The calls\<close>

lemmas reg_parts = reg_rules reg_quiet [OF quiet_basic(1)] reg_quiet [OF quiet_basic(2)] reg_quiet [OF quiet_basic(4)]
  reg_quiet [OF quiet_basic(5)] reg_quiet [OF quiet_basic(7)] reg_quiet [OF quiet_basic(8)]
  reg_quiet [OF quiet_machine(2)] reg_quiet [OF quiet_scheduler(6)] reg_quiet [OF quiet_scheduler(7)]
  reg_quiet [OF quiet_copyin] reg_quiet [OF quiet_copyout] reg_quiet [OF quiet_memory(5)]

lemma reg_acquire_loop: "registers (acquire_loop H a)"
  unfolding acquire_loop_def enq_lock_def by (intro reg_parts)

lemma reg_lock_calls: "registers (KernelAcquire H i)" "registers (KernelRelease i)"
  unfolding KernelAcquire_def KernelRelease_def getLock_def by (intro reg_parts reg_acquire_loop)+

lemma reg_broadcast_loop: "registers (broadcast_loop n a)"
  by (induction n) (auto intro!: reg_parts)

lemma reg_cvar_calls:
  "registers (KernelCvarWait H c i)" "registers (KernelCvarSignal c)" "registers (KernelCvarBroadcast c)"
  unfolding KernelCvarWait_def KernelCvarSignal_def KernelCvarBroadcast_def getCvar_def
  by (intro reg_parts reg_lock_calls reg_broadcast_loop)+

lemma reg_pipe_parts: "registers (enq_pipe p w)" "registers (deq_pipe p)" "registers (wake_head p)"
    "registers (buf_read bs i n)" "registers (buf_write bs i xs)"
  unfolding enq_pipe_def deq_pipe_def wake_head_def buf_read_def buf_write_def by (intro reg_parts)+

lemma reg_pipe_read_loop: "registers (pipe_read_loop H p b n)"
  unfolding pipe_read_loop_def pipe_take_def by (intro reg_parts reg_pipe_parts)

lemma reg_pipe_calls: "registers (KernelPipeRead H i b n)" "registers (KernelPipeWrite H i b n)"
  unfolding KernelPipeRead_def KernelPipeWrite_def getPipe_def
  by (intro reg_parts reg_pipe_parts reg_pipe_read_loop)+

lemma reg_KernelReclaim: "registers (KernelReclaim i)"
  unfolding KernelReclaim_def getLock_def getCvar_def getPipe_def
  by (intro reg_parts reg_deleteLock reg_deleteCvar reg_deletePipe)

lemmas reg_calls = reg_lock_calls reg_cvar_calls reg_pipe_calls reg_KernelReclaim

lemma reg_dispatch_call:
  assumes "4 \<le> PAGESIZE H"
  shows "registers (dispatch_call E H u code)"
  unfolding dispatch_call_def KernelLockInit_def KernelCvarInit_def KernelPipeInit_def
  by (cases code) (simp_all, (intro reg_bindk reg_quiet [OF quiet_reg(1)] reg_quiet [OF quiet_reg(2)] reg_calls
      reg_initLock [OF assms] reg_initCvar [OF assms] reg_initPipe [OF assms]
      reg_quiet [OF quiet_basic(1)] reg_quiet [OF quiet_KernelFork] reg_quiet [OF quiet_KernelExit]
      reg_quiet [OF quiet_KernelExec [OF quiet_load_exec]]
      reg_quiet [OF quiet_calls(1)] reg_quiet [OF quiet_calls(2)] reg_quiet [OF quiet_calls(3)]
      reg_quiet [OF quiet_brk] reg_quiet [OF quiet_ttyBuf(3)] reg_quiet [OF quiet_KernelTtyWrite])+)

lemma reg_finish: "registers m \<Longrightarrow> registers (bindk m finish_call)"
  by (intro reg_bindk reg_quiet [OF quiet_finish_call])

lemma reg_interruptVector: "4 \<le> PAGESIZE H \<Longrightarrow> registers (interruptVector E H t u)"
  unfolding interruptVector_def handleTrapKernel_def
  by (cases t) (simp_all add: reg_finish reg_dispatch_call reg_quiet quiet_handlers quiet_basic split: option.splits)

lemma reg_resume: "registers (resume E H k)"
  unfolding resume_def cvar_reacquire_def
  by (cases k) (simp_all del: transmit_loop.simps, (intro reg_finish reg_lock_calls reg_acquire_loop reg_pipe_read_loop
      reg_quiet [OF quiet_basic(1)] reg_quiet [OF quiet_finish_call] reg_quiet [OF quiet_enter_user]
      reg_quiet [OF quiet_wait_collect] reg_quiet [OF quiet_fork_return] reg_quiet [OF quiet_await_terminal]
      reg_quiet [OF quiet_transmit_loop] reg_quiet [OF quiet_ttyBuf(2)])+)

lemma registersD:
  "registers m \<Longrightarrow> registry_ok s \<Longrightarrow> m s = Done x t \<or> m s = Switch t \<Longrightarrow> registry_ok t"
  unfolding registers_def wlp_def by blast

lemma step_registry:
  assumes "4 \<le> PAGESIZE H" "step E H (md, s) (md', t)" "registry_ok s"
  shows "registry_ok t"
proof (cases md)
  case User
  have "registry_ok (s\<lparr>pmem := m, trapFrame := f\<rparr>)" for m f
    using assms(3) registry_sync [of "s\<lparr>pmem := m, trapFrame := f\<rparr>" s] by (simp add: sync_part_def)
  with assms(2,3) User show ?thesis
    by (auto elim!: step_userE dest!: after_cases intro: registersD [OF reg_interruptVector [OF assms(1)]])
next
  case Resume
  with assms(2,3) show ?thesis
    by (auto elim!: step_resumeE dest!: after_cases intro: registersD [OF reg_resume])
qed

lemma run_registry:
  assumes "4 \<le> PAGESIZE H" "(step E H)\<^sup>*\<^sup>* x y" "registry_ok (snd x)"
  shows "registry_ok (snd y)"
  using assms(2,3)
proof (induction rule: rtranclp_induct)
  case base
  then show ?case by simp
next
  case (step y z)
  then show ?case by (cases y, cases z) (auto intro: step_registry [OF assms(1)])
qed

end
