(* ===== verification/Boot.thy ===== *)
theory Boot
  imports Registry
begin

text \<open>
  \<^verbatim>\<open>KernelStart\<close> as far as the synchronisation objects are concerned: when it reaches user mode
  the three maps are empty and the counter of identifiers is zero.
\<close>

definition empty_map :: "ptr HashMap option \<Rightarrow> bool" where
  "empty_map m \<longleftrightarrow> (\<exists>hm. m = Some hm \<and> hm_ok hm \<and> hm_map hm = Map.empty)"

text \<open>What holds after \<^verbatim>\<open>initLockMap\<close>, \<^verbatim>\<open>initCvarMap\<close> and \<^verbatim>\<open>initPipeMap\<close>.\<close>

definition booting :: "nat \<Rightarrow> kstate \<Rightarrow> bool" where
  "booting n s \<longleftrightarrow> mallocs_ok s \<and> (0 < n \<longrightarrow> empty_map (lockMap s)) \<and> (1 < n \<longrightarrow> empty_map (cvarMap s)) \<and>
     (2 < n \<longrightarrow> empty_map (pipeMap s))"

lemma wlp_hm_newk:
  assumes "mallocs_ok s" "0 < n" "\<And>hm c. hm_ok hm \<Longrightarrow> hm_map hm = Map.empty \<Longrightarrow> Q (Some hm) (s\<lparr>malloc_count := c\<rparr>)"
  shows "wlp (hm_newk n) Q R s"
proof -
  obtain hm where "HashMap_new True True (\<lambda>i. True) n = Inr (Some hm)" "hm_ok hm" "hm_map hm = (Map.empty :: int \<Rightarrow> 'a option)"
    using HashMap_new_ok [OF assms(2), of "\<lambda>i. True"] by blast
  with assms(1,3) show ?thesis by (simp add: wlp_def hm_newk_def mallocs_ok_def)
qed

lemma wlp_init_maps:
  "booting 0 s \<Longrightarrow> wlp initLockMap (\<lambda>_. booting 1) R s"
  "booting 1 s \<Longrightarrow> wlp initCvarMap (\<lambda>_. booting 2) R s"
  "booting 2 s \<Longrightarrow> wlp initPipeMap (\<lambda>_. booting 3) R s"
  unfolding initLockMap_def initCvarMap_def initPipeMap_def wlp_bindk
  by (rule wlp_hm_newk; simp add: wlp_simps booting_def SYNC_MAP_HASH_BUCKETS_def set_lockMap_def set_cvarMap_def
      set_pipeMap_def mallocs_ok_def empty_map_def)+

lemma booted: "booting 3 s \<Longrightarrow> registry_ok (s\<lparr>nextPid := n, nextSyncId := 0\<rparr>)"
  by (auto simp: booting_def empty_map_def registry_ok_def reg_ok_def ids_def)

section \<open>The start of the kernel\<close>

text \<open>Before the maps: only the machine changes, and the allocator stays what it is.\<close>

definition malloc_part :: "kstate \<Rightarrow> nat \<Rightarrow> ptr option" where
  "malloc_part s = malloc_oracle s"

lemma boots_keeps: "keeps malloc_part m \<Longrightarrow> booting 0 s \<Longrightarrow> (\<And>x t. booting 0 t \<Longrightarrow> Q x t) \<Longrightarrow> (\<And>t. R t) \<Longrightarrow> wlp m Q R s"
  by (erule wlp_keeps) (simp_all add: booting_def malloc_part_def mallocs_ok_def)

lemma keeps_malloc_part: "keeps kernel_part m \<Longrightarrow> keeps malloc_part m"
  by (erule keeps_via) (simp add: malloc_part_def kernel_part_def)

lemmas keeps_machine_malloc = keeps_machine [THEN keeps_malloc_part]

lemma keeps_boot:
  "keeps malloc_part (initializeRegionPageTable H)"
  "keeps malloc_part (init_frames_k H n)" "keeps malloc_part (fill_r0 H a)" "keeps malloc_part (enable_vm H a c)"
  "keeps malloc_part (initBuffers H)"
  unfolding halt_unless_def init_frames_k_def fill_r0_def enable_vm_def initBuffers_def
  by (intro keeps_rules keeps_machine_malloc; simp add: malloc_part_def)+

lemma reg_halt_unless: "registers (halt_unless b)"
  unfolding halt_unless_def by (intro reg_cases reg_quiet quiet_basic)

lemma quiet_initPids: "quiet (initProcess H)" "quiet (LoadIdle H d p)"
  unfolding initProcess_def LoadIdle_def by (intro quiet_rules)+

lemma quiet_initInitProcess: "quiet (initInitProcess H t)"
  unfolding initInitProcess_def by (intro quiet_rules) (simp_all add: sync_part_def)

lemma wlp_initScheduler: "booting 3 s \<Longrightarrow> wlp (initScheduler H) (\<lambda>_. registry_ok) registry_ok s"
proof -
  assume b: "booting 3 s"
  let ?rest = "bindk malloc_okk (\<lambda>ok. bindk (modk (set_readyQ (make_q ok))) (\<lambda>_.
       if \<not> ok then retk ERROR else
       bindk (hm_newk BLOCKED_MAP_HASH_BUCKETS) (\<lambda>bm. bindk (modk (set_blockedMap bm)) (\<lambda>_.
         if bm = None then retk ERROR else
         bindk (hm_newk SLEEPING_MAP_HASH_BUCKETS) (\<lambda>sm. bindk (modk (set_sleepingMap sm)) (\<lambda>_.
           if sm = None then retk ERROR else
           foldrc init_tty_queues [0..<NUM_TERMINALS H]))))))"
  have "quiet (init_tty_queues i)" for i
    unfolding init_tty_queues_def by (intro quiet_rules) (simp_all add: sync_part_def)
  then have "quiet ?rest"
    by (intro quiet_rules) (simp_all add: sync_part_def set_readyQ_def set_blockedMap_def set_sleepingMap_def)
  then have "registers ?rest" by (rule reg_quiet)
  then show ?thesis
    unfolding initScheduler_def wlp_bindk [of "modk _"] wlp_basic registers_def using booted [OF b] by blast
qed

lemma wlp_then: "wlp m (\<lambda>x t. wlp (f x) Q R t) R s \<Longrightarrow> wlp (bindk m f) Q R s"
  by (simp add: wlp_bindk)

lemma boots_then:
  "keeps malloc_part m \<Longrightarrow> booting 0 s \<Longrightarrow> (\<And>x t. booting 0 t \<Longrightarrow> wlp (f x) Q (\<lambda>_. True) t) \<Longrightarrow>
     wlp (bindk m f) Q (\<lambda>_. True) s"
  by (rule wlp_then, erule boots_keeps) simp_all

lemma halt_then: "(b \<Longrightarrow> wlp (f ()) Q R s) \<Longrightarrow> wlp (bindk (halt_unless b) f) Q R s"
  by (simp add: halt_unless_def wlp_simps)

lemma maps_then:
  "booting 0 s \<Longrightarrow> (\<And>x t. booting 1 t \<Longrightarrow> wlp (f x) Q (\<lambda>_. True) t) \<Longrightarrow> wlp (bindk initLockMap f) Q (\<lambda>_. True) s"
  "booting 1 s \<Longrightarrow> (\<And>x t. booting 2 t \<Longrightarrow> wlp (f x) Q (\<lambda>_. True) t) \<Longrightarrow> wlp (bindk initCvarMap f) Q (\<lambda>_. True) s"
  "booting 2 s \<Longrightarrow> (\<And>x t. booting 3 t \<Longrightarrow> wlp (f x) Q (\<lambda>_. True) t) \<Longrightarrow> wlp (bindk initPipeMap f) Q (\<lambda>_. True) s"
  by (rule wlp_then, erule wlp_init_maps [THEN wlp_mono]; simp)+

lemma scheduler_then:
  "booting 3 s \<Longrightarrow> (\<And>x t. registry_ok t \<Longrightarrow> wlp (f x) Q (\<lambda>_. True) t) \<Longrightarrow> wlp (bindk (initScheduler H) f) Q (\<lambda>_. True) s"
  by (rule wlp_then, erule wlp_initScheduler [THEN wlp_mono]; simp)

text \<open>After \<^verbatim>\<open>initScheduler\<close> nothing touches the synchronisation objects any more.\<close>

lemma reg_set_current: "registers (modk (\<lambda>s. s\<lparr>currPCB := p\<rparr>))"
proof -
  have "registry_ok (s\<lparr>currPCB := p\<rparr>) = registry_ok s" for s
    by (rule registry_sync) (simp add: sync_part_def)
  then show ?thesis by (simp add: registers_def wlp_basic)
qed

lemma registers_wlp: "registers m \<Longrightarrow> registry_ok s \<Longrightarrow> wlp m (\<lambda>_. registry_ok) (\<lambda>_. True) s"
  unfolding registers_def by (blast intro: wlp_mono)

lemma start_registry:
  assumes "mallocs_ok s"
  shows "wlp (KernelStart E H d args n) (\<lambda>_. registry_ok) (\<lambda>_. True) s"
proof -
  have "booting 0 s" using assms by (simp add: booting_def)
  then show ?thesis
    unfolding KernelStart_def
    by (intro boots_then [OF keeps_boot(1)] boots_then [OF keeps_boot(2)] boots_then [OF keeps_boot(3)]
        boots_then [OF keeps_boot(4)] boots_then [OF keeps_boot(5)] halt_then maps_then scheduler_then
        registers_wlp reg_bindk reg_cases reg_halt_unless reg_set_current reg_quiet [OF quiet_initPids(1)]
        reg_quiet [OF quiet_initPids(2)] reg_quiet [OF quiet_initInitProcess] reg_quiet [OF quiet_machine(2)]
        reg_quiet [OF quiet_enter_user] reg_quiet [OF quiet_LoadProgram [OF quiet_basic(1)]])
qed

end
