(* ===== verification/BootDemo.thy ===== *)
theory BootDemo
  imports Boot Demo
begin

text \<open>
  A machine on which \<^verbatim>\<open>KernelStart\<close> runs to the end: sixteen-byte pages, fifteen frames, one
  terminal, and a program with one page of text. The boot is evaluated step by step inside the logic by
  rewriting with the rules of \<open>run\<close>, which runs kernel code from a state and, through \<open>bindr\<close>, the rest
  on its outcome.
\<close>

section \<open>The machine\<close>

definition boot_hw :: hw where
  "boot_hw = \<lparr>PAGESIZE = 16, PAGESHIFT = 4, DOWN_TO_PAGE = (\<lambda>a. a div 16 * 16), PMEM_BASE = 0,
     VMEM_0_BASE = 0, VMEM_0_LIMIT = 80, VMEM_1_BASE = 80, VMEM_1_LIMIT = 160, MAX_PT_LEN = 5,
     KERNEL_STACK_BASE = 48, KERNEL_STACK_LIMIT = 80, KERNEL_STACK_MAXSIZE = 32,
     SIZEOF_PTE = 4, NUM_TERMINALS = 1, TERMINAL_MAX_LINE = 8,
     SIZEOF_PTR = 4, POST_ARGV_NULL_SPACE = 1, INITIAL_STACK_FRAME_SIZE = 0\<rparr>"

lemma boot_hw_ok: "hw_ok boot_hw"
  by (simp add: hw_ok_def boot_hw_def)

definition boot_env :: env where
  "boot_env = \<lparr>decode_call = (\<lambda>n. None),
     open_file = (\<lambda>name. Some \<lparr>exe_info = Some \<lparr>li_entry = 80, t_vaddr = 80, t_npg = 1, t_faddr = 0,
        id_vaddr = 96, id_npg = 0, id_faddr = 16, id_end = 96, ud_npg = 0, ud_end = 96\<rparr>,
        exe_read = (\<lambda>off n. replicate n 7)\<rparr>),
     env_fuel = 20\<rparr>"

definition blank_uctxt :: UserContext where
  "blank_uctxt = \<lparr>uc_code = 0, uc_addr = 0, uc_pc = 0, uc_sp = 0, uc_ebp = 0, uc_regs = []\<rparr>"

definition power_on :: kstate where
  "power_on = \<lparr>frameList = None, numFrames = 0, past = \<lparr>pfn = 0, isFree = False\<rparr>, ptes = Map.empty,
     REG_PTBR0 = 0, REG_PTLR0 = 0, REG_PTBR1 = 0, REG_PTLR1 = 0, REG_VM_ENABLE = False, tlb_log = [],
     pmem = (\<lambda>f off. 0), malloc_oracle = (\<lambda>n. Some (1000 + 100 * n)), malloc_count = 0,
     pcbs = Map.empty, currPCB = 0, initPid = 0, nextPid = 0, nextSyncId = 0, readyQ = None, blockedMap = None,
     sleepingMap = None, currTransmitters = [None], transmittingQs = [None], readingQs = [None],
     errorCount = 0, lockMap = None, cvarMap = None, pipeMap = None, locks = Map.empty, cvars = Map.empty,
     pipes = Map.empty, ttyBufs = [], r0StackBasePtep = 0, tempPtep = 0, tempVAddr = 0, kernelDataStart = 16,
     kernelDataEnd = 16, currKernelBrk = 16, tty_out = [], trapFrame = (\<lambda>p. blank_uctxt)\<rparr>"

fun returns :: "('a, 's) outcome \<Rightarrow> bool" where
  "returns (Done x s) = True"
| "returns (Switch s) = False"
| "returns (Halt s) = False"
| "returns (Fault e) = False"

lemma boot_hw_sel [simp]: "PAGESIZE boot_hw = 16" "PAGESHIFT boot_hw = 4" "DOWN_TO_PAGE boot_hw a = a div 16 * 16"
  "VMEM_0_BASE boot_hw = 0" "VMEM_1_BASE boot_hw = 80" "VMEM_1_LIMIT boot_hw = 160" "MAX_PT_LEN boot_hw = 5"
  "KERNEL_STACK_BASE boot_hw = 48" "KERNEL_STACK_LIMIT boot_hw = 80" "KERNEL_STACK_MAXSIZE boot_hw = 32"
  "SIZEOF_PTE boot_hw = 4" "NUM_TERMINALS boot_hw = 1" "SIZEOF_PTR boot_hw = 4" "POST_ARGV_NULL_SPACE boot_hw = 1"
  "INITIAL_STACK_FRAME_SIZE boot_hw = 0" "PMEM_BASE boot_hw = 0" "VMEM_0_LIMIT boot_hw = 80"
  by (simp_all add: boot_hw_def)

section \<open>Evaluation\<close>

definition run :: "('a, 's) kcomp \<Rightarrow> 's \<Rightarrow> ('a, 's) outcome" where
  "run m s = m s"

definition bindr :: "('a, 's) outcome \<Rightarrow> ('a \<Rightarrow> ('b, 's) kcomp) \<Rightarrow> ('b, 's) outcome" where
  "bindr r f = (case r of Done x t \<Rightarrow> run (f x) t | Switch t \<Rightarrow> Switch t | Halt t \<Rightarrow> Halt t | Fault e \<Rightarrow> Fault e)"

lemma bindr_simps: "bindr (Done x t) f = run (f x) t" "bindr (Halt t) f = Halt t" "bindr (Fault e) f = Fault e"
  by (simp_all add: bindr_def)

lemma run_simps:
  "run (bindk m f) s = bindr (run m s) f"
  "run (retk x) s = Done x s" "run (getk g) s = Done (g s) s" "run (modk h) s = Done () (h s)"
  "run (faultk e) s = Fault e" "run haltk s = Halt s"
  "run (fetch hp p) s = (case hp s p of None \<Rightarrow> Fault DANGLING | Some x \<Rightarrow> Done x s)"
  "run (liftk r) s = (case r of Inl e \<Rightarrow> Fault e | Inr x \<Rightarrow> Done x s)"
  "run (nonnull v) s = (case v of None \<Rightarrow> Fault NULL_DEREF | Some x \<Rightarrow> Done x s)"
  "run (if b then m1 else m2) s = (if b then run m1 s else run m2 s)"
  "run (case v2 of None \<Rightarrow> m1 | Some y \<Rightarrow> f2 y) s = (case v2 of None \<Rightarrow> run m1 s | Some y \<Rightarrow> run (f2 y) s)"
  "run (case v3 of (a, b) \<Rightarrow> f3 a b) s = run (f3 (fst v3) (snd v3)) s"
  "run (Let v4 f4) s = run (f4 v4) s"
  "run (foldk f5 []) s = Done () s" "run (foldk f5 (x5 # xs5)) s = bindr (run (f5 x5) s) (\<lambda>_. foldk f5 xs5)"
  "run (foldrc f6 []) s = Done SUCCESS s"
  "run (foldrc f6 (x6 # xs6)) s = bindr (run (f6 x6) s) (\<lambda>r. if r = ERROR then retk ERROR else foldrc f6 xs6)"
  "run mallock s' = Done (malloc_oracle s' (malloc_count s')) (s'\<lparr>malloc_count := Suc (malloc_count s')\<rparr>)"
  "run malloc_okk s' = Done (malloc_oracle s' (malloc_count s') \<noteq> None) (s'\<lparr>malloc_count := Suc (malloc_count s')\<rparr>)"
  by (simp_all add: run_def bindr_def kdefs mallock_def malloc_okk_run Let_def split: option.splits sum.splits outcome.splits prod.splits)

lemma run_frames:
  "run getFramek s = (case getFrame (frameList s) (past s) (numFrames s) of
     Inl e \<Rightarrow> Fault e | Inr rc \<Rightarrow> Done (fst rc) (s\<lparr>frameList := fst (snd rc), past := snd (snd rc)\<rparr>))"
  "run (freeFramek p) s = (case freeFrame (frameList s) (numFrames s) p of
     Inl e \<Rightarrow> Fault e | Inr fl \<Rightarrow> Done () (s\<lparr>frameList := fl\<rparr>))"
  by (simp_all add: run_def getFramek_def freeFramek_def split: sum.splits prod.splits)

lemma run_hm_newk:
  "run (hm_newk n) s =
     (case HashMap_new (malloc_oracle s (malloc_count s) \<noteq> None) (malloc_oracle s (malloc_count s + 1) \<noteq> None)
             (\<lambda>i. malloc_oracle s (malloc_count s + (2 + i)) \<noteq> None) n of
        Inl e \<Rightarrow> Fault e | Inr hm \<Rightarrow> Done hm (s\<lparr>malloc_count := malloc_count s + 2 + n\<rparr>))"
  by (simp add: run_def hm_newk_def Let_def split: sum.splits)

lemma init_frames_step: "init_frames H b (numeral k) a =
   \<lparr>pfn = vpn_of H a mod 2 ^ 24, isFree = \<not> (a < b \<or> (KERNEL_STACK_BASE H \<le> a \<and> a < KERNEL_STACK_LIMIT H))\<rparr>
     # init_frames H b (numeral k - 1) (a + PAGESIZE H)"
proof -
  obtain n where "numeral k = Suc n" by (metis numeral_eq_Suc)
  then show ?thesis unfolding \<open>numeral k = Suc n\<close> by simp
qed

lemma boot_frames: "init_frames boot_hw 16 15 0 = [\<lparr>pfn = 0, isFree = False\<rparr>, \<lparr>pfn = 1, isFree = True\<rparr>, \<lparr>pfn = 2, isFree = True\<rparr>, \<lparr>pfn = 3, isFree = False\<rparr>, \<lparr>pfn = 4, isFree = False\<rparr>, \<lparr>pfn = 5, isFree = True\<rparr>, \<lparr>pfn = 6, isFree = True\<rparr>, \<lparr>pfn = 7, isFree = True\<rparr>, \<lparr>pfn = 8, isFree = True\<rparr>, \<lparr>pfn = 9, isFree = True\<rparr>, \<lparr>pfn = 10, isFree = True\<rparr>, \<lparr>pfn = 11, isFree = True\<rparr>, \<lparr>pfn = 12, isFree = True\<rparr>, \<lparr>pfn = 13, isFree = True\<rparr>, \<lparr>pfn = 14, isFree = True\<rparr>]"
  by (simp add: init_frames_step vpn_of_def)

lemma free_scan_step: "free_scan (f # fs) n p = (if n = 0 then Inr (f # fs) else if pfn f = p then Inr (f\<lparr>isFree := True\<rparr> # fs)
      else (case free_scan fs (n - 1) p of Inl e \<Rightarrow> Inl e | Inr fs' \<Rightarrow> Inr (f # fs')))"
  by (cases n) auto

lemma run_copyout:
  "run (copyout H va []) s = Done () s"
  "run (copyout H va (x # xs)) s = (case translate H s PROT_WRITE va of None \<Rightarrow> Fault UNMAPPED
     | Some fo \<Rightarrow> run (copyout H (Suc va) xs) (s\<lparr>pmem := (pmem s)(fst fo := (pmem s (fst fo))(snd fo := x))\<rparr>))"
  by (simp_all add: run_def kdefs split: option.splits prod.splits)

lemma replicate_step: "replicate (numeral k) x = x # replicate (numeral k - 1) x"
  by (simp add: numeral_eq_Suc)

lemma bindr_weak_cong: "r = r' \<Longrightarrow> bindr r f = bindr r' f"
  by simp

lemmas ev = run_simps bindr_simps
  initializeRegionPageTable_def halt_unless_def init_frames_k_def upt_rec
  initFrameList_def fill_r0_def r0_prot_def enable_vm_def initBuffers_def setPageTableEntry_def setPageTableEntryNoFlush_def flush_pte_def flushk_def
  getVirtualAddr_def vpn_of_def KERNEL_STACK_BASE_VPN_def KERNEL_BASE_VPN_def USER_BASE_VPN_def

lemmas boot_eval = ev power_on_def KernelStart_def initLockMap_def initCvarMap_def initPipeMap_def initScheduler_def init_tty_queues_def
    initProcess_def LoadIdle_def initInitProcess_def LoadProgram_def enter_user_def initPCB_def
    init_stack_frames_def add_stack_frame_def blank_pcb_def HashMap_new_def set_new_def SYNC_MAP_HASH_BUCKETS_def CHILDREN_MAP_HASH_BUCKETS_def
    BLOCKED_MAP_HASH_BUCKETS_def SLEEPING_MAP_HASH_BUCKETS_def TOTAL_READ_BUFFER_PAGES_def
    TTY_READ_BUFFER_SIZE_def run_frames run_hm_newk boot_frames getFrame_def load_segments_def
    build_stack_def upd_uctxt_def upd_pcb_def get_pcb_def enq_ready_def enqk_def enq_q_def make_q_def
    set_lockMap_def set_cvarMap_def set_pipeMap_def set_readyQ_def set_blockedMap_def set_sleepingMap_def
    boot_env_def arg_sp_def arg_cpp_def arg_cp_def args_size_def r1_index_def free_region1_def map_pages_def
    entry_nth_def protect_text_def read_segment_def KSTACK_NPG_def store_int_def run_copyout replicate_step
    free_scan_step translate_def walk_def pte_of_vpn_def int_bytes_def upt_4 invalidatePageTableEntry_def
    freeFrame_def

lemma boot_returns: "returns (run (KernelStart boot_env boot_hw 77 [[]] 240) power_on)"
  by (simp add: boot_eval cong: bindr_weak_cong)

lemma boot_runs: "\<exists>s. KernelStart boot_env boot_hw 77 [[]] 240 power_on = Done () s"
  using boot_returns by (cases "KernelStart boot_env boot_hw 77 [[]] 240 power_on") (simp_all add: run_def)

lemma power_on_mallocs: "mallocs_ok power_on"
  by (simp add: mallocs_ok_def power_on_def)

end
