(* ===== verification/SchedPart.thy ===== *)
theory SchedPart
  imports Boot
begin

text \<open>
  The part of the state the scheduler depends on, \<open>sched_part\<close>: the queues and maps, the tables that exist
  and the registers that point at them, and of each process control block the identifier, the kernel
  stack, the page table and the saved context. All the code below the scheduler returns without having
  changed it (\<open>steady sched_part\<close>): paging, user memory, the synchronisation objects and their registry,
  the terminal buffers and program loading.
\<close>

section \<open>What the scheduler depends on\<close>

definition view :: "PCB_t \<Rightarrow> int \<times> nat list \<times> ptr option \<times> kcont option" where
  "view c = (pid c, stackPfns c, r1PageTable c, kctxt c)"

definition sched_part :: "kstate \<Rightarrow>
    (ptr set \<times> nat \<times> nat \<times> nat \<times> nat \<times> (nat \<Rightarrow> ptr option) \<times> ptr) \<times>
    (ptr queue \<times> ptr HashMap option \<times> ptr HashMap option \<times> ptr option list \<times> ptr queue list \<times> ptr queue list) \<times>
    (ptr \<Rightarrow> (int \<times> nat list \<times> ptr option \<times> kcont option) option) \<times> int \<times> ptr" where
  "sched_part s =
     ((dom (ptes s), REG_PTBR0 s, REG_PTLR0 s, REG_PTBR1 s, REG_PTLR1 s, malloc_oracle s, r0StackBasePtep s),
      (readyQ s, blockedMap s, sleepingMap s, currTransmitters s, transmittingQs s, readingQs s),
      (\<lambda>p. map_option view (pcbs s p)), nextPid s, currPCB s)"

abbreviation settled :: "'a kernel \<Rightarrow> bool" where
  "settled m \<equiv> steady sched_part m"

text \<open>
  Most of this code does not touch the frames, the page table entries and the breaks either
  (\<open>still\<close>).
\<close>

definition still_part :: "kstate \<Rightarrow> _" where
  "still_part s = (sched_part s, ptes s, (frameList s, numFrames s, past s), tempPtep s, \<lambda>p. map_option brk (pcbs s p))"

abbreviation still :: "'a kernel \<Rightarrow> bool" where
  "still m \<equiv> steady still_part m"

lemma still_settled: "still m \<Longrightarrow> settled m"
  by (erule steady_weaken) (simp add: still_part_def)

section \<open>The machine\<close>

lemma settled_pte [steady_rules]: "settled (setPageTableEntryNoFlush a v p f)"
  by (auto simp: steady_def setPageTableEntryNoFlush_def wlp_simps sched_part_def)

lemma still_mallock [steady_rules]: "still mallock" "still malloc_okk"
  by (simp_all add: steady_def wlp_simps still_part_def sched_part_def)

lemmas settled_mallock [steady_rules] = still_mallock [THEN still_settled]

lemma settled_frames [steady_rules]: "settled getFramek" "settled (freeFramek p)"
  by (auto simp: steady_def wlp_def getFramek_def freeFramek_def sched_part_def split: sum.splits prod.splits)

lemma still_flush [steady_rules]: "still (flushk f)" "still (flush_pte H a)"
  unfolding flush_pte_def flushk_def by (intro steady_rules; simp add: still_part_def sched_part_def)+

lemmas settled_flush [steady_rules] = still_flush [THEN still_settled]

lemma settled_setpte [steady_rules]: "settled (setPageTableEntry H a v p f)"
  unfolding setPageTableEntry_def by (intro steady_rules)

lemma settled_invalidate [steady_rules]: "settled (invalidatePageTableEntry H a)"
proof -
  have "settled (bindk (fetch ptes a) (\<lambda>e. modk (\<lambda>s. s\<lparr>ptes := (ptes s)(a \<mapsto> e\<lparr>pte_valid := False\<rparr>)\<rparr>)))"
    by (auto simp: steady_def wlp_simps sched_part_def)
  from steady_bindk [OF this, of "\<lambda>_. bindk (getk REG_VM_ENABLE) (\<lambda>vm. if vm then flush_pte H a else retk ())"]
  show ?thesis unfolding invalidatePageTableEntry_def bindk_assoc by (simp add: steady_rules)
qed

lemma still_upd_pcb [steady_rules]:
  assumes "\<And>c. view (f c) = view c \<and> brk (f c) = brk c"
  shows "still (upd_pcb p f)"
  using assms by (auto simp: steady_def upd_pcb_def get_pcb_def wlp_simps still_part_def sched_part_def fun_eq_iff)

lemma settled_upd_pcb [steady_rules]:
  assumes "\<And>c. view (f c) = view c"
  shows "settled (upd_pcb p f)"
  using assms by (auto simp: steady_def upd_pcb_def get_pcb_def wlp_simps sched_part_def fun_eq_iff)

lemma still_memory [steady_rules]: "still (copyin H va n)" "still (copyout H va xs)" "still (memmovek H a b n)"
proof -
  show c: "still (copyin H va n)" for va n
    by (induction n arbitrary: va) (auto intro!: steady_rules)
  show d: "still (copyout H va xs)" for va xs
    by (induction xs arbitrary: va) (auto intro!: steady_rules simp: still_part_def sched_part_def)
  show "still (memmovek H a b n)" unfolding memmovek_def by (intro steady_rules c d)
qed

lemmas settled_memory [steady_rules] = still_memory [THEN still_settled]

lemma still_user_memory [steady_rules]:
  "still (store_int H va v)" "still (load_int H va)" "still (load_ptr H va)" "still (add_int x y)"
  "still (entry_at H t b w)" "still (entry_nth H t j)" "still (getAddressProt H a r)"
  unfolding store_int_def load_int_def load_ptr_def add_int_def entry_at_def entry_nth_def getAddressProt_def
  by (intro steady_rules)+

lemmas settled_user_memory [steady_rules] = still_user_memory [THEN still_settled]

lemma still_loops [steady_rules]:
  "still (buffer_loop H pr n p)" "still (scan_nul H n p)" "still (load_string H n p)"
  by (induction n arbitrary: p) (auto intro!: steady_rules)

lemmas settled_loops [steady_rules] = still_loops [THEN still_settled]

lemma still_string_loop [steady_rules]: "still (string_loop H e n c b)"
  by (induction n arbitrary: c b) (auto intro!: steady_rules)

lemmas settled_string_loop [steady_rules] = still_string_loop [THEN still_settled]

lemma still_checks [steady_rules]: "still (isValidBuffer H b len pr)" "still (isValidString H str)"
  unfolding isValidBuffer_def isValidString_def by (intro steady_rules)+

lemmas settled_checks [steady_rules] = still_checks [THEN still_settled]

lemma still_args [steady_rules]: "still (check_args H n a)" "still (load_args H n a)"
  by (induction n arbitrary: a) (auto intro!: steady_rules)

lemmas settled_args [steady_rules] = still_args [THEN still_settled]

section \<open>Hash maps and synchronisation objects\<close>

lemma still_hm_newk [steady_rules]: "still (hm_newk n)"
  by (auto simp: steady_def wlp_def hm_newk_def still_part_def sched_part_def Let_def split: sum.splits)

lemmas settled_hm_newk [steady_rules] = still_hm_newk [THEN still_settled]

lemma still_hm_findk [steady_rules]: "still (hm_findk get k)"
  unfolding hm_findk_def by (intro steady_rules)

lemmas settled_hm_findk [steady_rules] = still_hm_findk [THEN still_settled]

lemma still_hm_put:
  assumes "\<And>m s. still_part (put m s) = still_part s"
  shows "still (hm_insertk get put k x)" "still (hm_removek get put k)"
  unfolding hm_insertk_def hm_removek_def by (intro steady_rules assms)+

lemma sync_maps_part:
  "still_part (set_lockMap m s) = still_part s" "still_part (set_cvarMap m s) = still_part s"
  "still_part (set_pipeMap m s) = still_part s"
  by (simp_all add: still_part_def set_lockMap_def set_cvarMap_def set_pipeMap_def sched_part_def)

lemmas still_sync_maps [steady_rules] = sync_maps_part [THEN still_hm_put(1)] sync_maps_part [THEN still_hm_put(2)]

lemma still_init_maps [steady_rules]: "still initLockMap" "still initCvarMap" "still initPipeMap"
  unfolding initLockMap_def initCvarMap_def initPipeMap_def by (intro steady_rules; simp add: sync_maps_part)+

lemmas settled_init_maps [steady_rules] = still_init_maps [THEN still_settled]

lemma still_register_sync [steady_rules]:
  assumes "\<And>m s. still_part (put m s) = still_part s"
  shows "still (register_sync H get put idp p)"
  unfolding register_sync_def by (intro steady_rules still_hm_put assms) (simp add: still_part_def sched_part_def)

lemma still_objects [steady_rules]:
  "still (upd_lock a f)" "still (enq_lock a p)" "still (enq_cvar a p)" "still (deq_cvar a)"
  "still (upd_pipe a g)" "still (enq_pipe a p)" "still (deq_pipe a)" "still (buf_read bs i n)" "still (buf_write bs i xs)"
  unfolding enq_lock_def enq_cvar_def deq_cvar_def enq_pipe_def deq_pipe_def upd_lock_def upd_pipe_def buf_read_def buf_write_def
  by (intro steady_rules; simp add: still_part_def sched_part_def)+

lemmas settled_objects [steady_rules] = still_objects [THEN still_settled]

lemma still_create [steady_rules]: "still (initLock H a)" "still (initCvar H a)" "still (initPipe H a)"
  unfolding initLock_def initCvar_def initPipe_def
  by (intro steady_rules sync_maps_part; simp add: still_part_def sched_part_def)+

lemmas settled_create [steady_rules] = still_create [THEN still_settled]

lemma still_KernelReclaim [steady_rules]: "still (KernelReclaim i)"
  unfolding KernelReclaim_def getLock_def getCvar_def getPipe_def deleteLock_def deleteCvar_def deletePipe_def
  by (intro steady_rules; simp add: still_part_def sched_part_def)

lemmas settled_KernelReclaim [steady_rules] = still_KernelReclaim [THEN still_settled]

section \<open>Processes, terminals and programs\<close>

lemma settled_KernelBrk [steady_rules]: "settled (KernelBrk H a)"
  unfolding KernelBrk_def move_brk_def shrink_pages_def shrink_page_def grow_pages_def grow_page_def
  by (intro steady_rules) (simp add: view_def)

lemma settled_free_r1_frames [steady_rules]: "settled (free_r1_frames H b)" "settled (free_stack_frames H fs)"
  unfolding free_r1_frames_def free_stack_frames_def by (intro steady_rules)+

lemma still_removeParent [steady_rules]: "still (removeParent k p)"
  unfolding removeParent_def by (intro steady_rules) (simp add: view_def)

lemmas settled_removeParent [steady_rules] = still_removeParent [THEN still_settled]

lemma settled_copy_r1_pages [steady_rules]: "settled (copy_r1_pages H a b)"
  unfolding copy_r1_pages_def by (intro steady_rules)

lemma still_fork_return [steady_rules]: "still (fork_return p c)"
  unfolding fork_return_def by (intro steady_rules)

lemmas settled_fork_return [steady_rules] = still_fork_return [THEN still_settled]

lemma still_wait_collect [steady_rules]: "still (wait_collect H p)"
  unfolding wait_collect_def by (intro steady_rules) (simp add: view_def)

lemmas settled_wait_collect [steady_rules] = still_wait_collect [THEN still_settled]

lemma still_GetPid [steady_rules]: "still KernelGetPid"
  unfolding KernelGetPid_def by (intro steady_rules)

lemmas settled_GetPid [steady_rules] = still_GetPid [THEN still_settled]

lemma still_children [steady_rules]: "still (hm_insertk (get_children p) (set_children p) k c)"
  by (rule still_hm_put) (auto simp: set_children_def still_part_def sched_part_def view_def fun_eq_iff split: option.splits)

lemmas settled_children [steady_rules] = still_children [THEN still_settled]

lemma still_terminals [steady_rules]:
  "still (get_ttyBuf t)" "still (upd_ttyBuf t f)" "still (TtyTransmit t b)" "still (isTtyTransmitAvailable t)"
  unfolding get_ttyBuf_def upd_ttyBuf_def TtyTransmit_def isTtyTransmitAvailable_def
  by (intro steady_rules; simp add: still_part_def sched_part_def)+

lemmas settled_terminals [steady_rules] = still_terminals [THEN still_settled]

lemma still_upd_uctxt [steady_rules]: "still (upd_uctxt p f)"
  unfolding upd_uctxt_def by (intro steady_rules) (simp add: view_def)

lemmas settled_upd_uctxt [steady_rules] = still_upd_uctxt [THEN still_settled]

lemma settled_LoadIdle [steady_rules]: "settled (LoadIdle H d p)"
  unfolding LoadIdle_def by (intro steady_rules)

lemma still_store_args [steady_rules]: "still (store_args H cpp cp as)"
  by (induction as arbitrary: cpp cp) (auto intro!: steady_rules)

lemmas settled_store_args [steady_rules] = still_store_args [THEN still_settled]

lemma still_load_parts [steady_rules]: "still (read_segment H exe a b n)" "still (build_stack H as)"
  unfolding read_segment_def build_stack_def by (intro steady_rules)+

lemmas settled_segment [steady_rules] = still_load_parts [THEN still_settled]

lemma settled_load_parts [steady_rules]:
  "settled (free_region1 H t)" "settled (map_pages H t f n)" "settled (protect_text H t f n)"
  unfolding free_region1_def map_pages_def protect_text_def by (intro steady_rules)+

lemma settled_LoadProgram [steady_rules]: "settled args \<Longrightarrow> settled (LoadProgram H file args p)"
  unfolding LoadProgram_def load_segments_def by (intro steady_rules; simp add: view_def)

lemma settled_load_exec [steady_rules]: "settled (load_exec E H f a p)"
  unfolding load_exec_def by (intro steady_rules)

lemma still_enter_user [steady_rules]: "still enter_user"
  unfolding enter_user_def by (intro steady_rules) (simp add: still_part_def sched_part_def)

lemmas settled_enter_user [steady_rules] = still_enter_user [THEN still_settled]

lemma still_reg [steady_rules]: "still (reg u i)" "still (reg_ptr u i)"
  unfolding reg_ptr_def reg_def by (intro steady_rules)+

lemmas settled_reg [steady_rules] = still_reg [THEN still_settled]

lemma still_finish_call [steady_rules]: "still (finish_call r)"
  unfolding finish_call_def by (intro steady_rules) (simp add: still_part_def sched_part_def)

lemmas settled_finish_call [steady_rules] = still_finish_call [THEN still_settled]

lemma settled_early [steady_rules]:
  "settled (init_frames_k H n)" "settled (fill_r0 H a)" "settled (initBuffers H)"
  unfolding init_frames_k_def halt_unless_def fill_r0_def initBuffers_def
  by (intro steady_rules; simp add: sched_part_def)+

end
