(* ===== verification/BootSched.thy ===== *)
theory BootSched
  imports SchedPart
begin

text \<open>
  \<^verbatim>\<open>KernelStart\<close> as far as the scheduler is concerned: when it enters user mode, the page
  tables and the kernel stack are set up, the two processes it made (idle in the ready queue, init
  running) are well formed and in one place each, and all maps and terminal queues are empty.
\<close>

section \<open>New page tables\<close>

text \<open>Blocks of the allocator do not overlap: those at different addresses are a whole table apart.\<close>

definition blocks_apart :: "hw \<Rightarrow> 'z mmu_scheme \<Rightarrow> bool" where
  "blocks_apart H s \<longleftrightarrow> (\<forall>i j a b. malloc_oracle s i = Some a \<longrightarrow> malloc_oracle s j = Some b \<longrightarrow> a \<noteq> b \<longrightarrow> apart H a b)"

definition from_malloc :: "'z mmu_scheme \<Rightarrow> ptr \<Rightarrow> bool" where
  "from_malloc s b \<longleftrightarrow> (\<exists>i. malloc_oracle s i = Some b)"

definition refilled :: "ptr set \<Rightarrow> pte \<Rightarrow> (ptr \<Rightarrow> pte option) \<Rightarrow> ptr \<Rightarrow> pte option" where
  "refilled X e P a = (if a \<in> X then Some e else P a)"

abbreviation invalid_pte :: pte where
  "invalid_pte \<equiv> \<lparr>pte_valid = False, pte_prot = {}, pte_pfn = 0\<rparr>"

lemma fill_run:
  "foldk (\<lambda>i. modk (\<lambda>s. s\<lparr>ptes := (ptes s)(b + i * z \<mapsto> e)\<rparr>)) [0..<n] s =
     Done () (s\<lparr>ptes := refilled ((\<lambda>i. b + i * z) ` {..<n}) e (ptes s)\<rparr>)"
proof (induction n)
  case 0
  have "refilled {} e (ptes s) = ptes s" by (simp add: refilled_def fun_eq_iff)
  then show ?case by (simp add: retk_def)
next
  case (Suc n)
  have eq: "(refilled ((\<lambda>i. b + i * z) ` {..<n}) e (ptes s))(b + n * z \<mapsto> e) = refilled ((\<lambda>i. b + i * z) ` {..<Suc n}) e (ptes s)"
    by (auto simp: fun_eq_iff lessThan_Suc refilled_def)
  show ?case
    unfolding upt_Suc_append [OF le0] foldk_append bindk_def Suc.IH
    by (simp add: bindk_def modk_def retk_def eq)
qed

definition blank_table :: "hw \<Rightarrow> ptr \<Rightarrow> (ptr \<Rightarrow> pte option) \<Rightarrow> ptr \<Rightarrow> pte option" where
  "blank_table H b = refilled (table_addrs H b) invalid_pte"

lemma wlp_blank_table:
  assumes none: "\<And>c. Q None (s\<lparr>malloc_count := c\<rparr>)"
    and some: "\<And>b c. from_malloc s b \<Longrightarrow> dom (ptes s) \<inter> table_addrs H b = {} \<Longrightarrow>
       Q (Some b) (s\<lparr>malloc_count := c, ptes := blank_table H b (ptes s)\<rparr>)"
  shows "wlp (initializeRegionPageTable H) Q R s"
proof -
  let ?s = "s\<lparr>malloc_count := Suc (malloc_count s)\<rparr>"
  let ?loop = "\<lambda>b. foldk (\<lambda>i. modk (\<lambda>s. s\<lparr>ptes := (ptes s)(b + i * SIZEOF_PTE H \<mapsto>
      \<lparr>pte_valid = False, pte_prot = {}, pte_pfn = 0\<rparr>)\<rparr>)) [0..<MAX_PT_LEN H]"
  have "wlp (bindk (?loop b) (\<lambda>_. retk (Some b))) Q R ?s"
    if b: "malloc_oracle s (malloc_count s) = Some b"
      and free: "\<not> (\<exists>i\<in>{0..<MAX_PT_LEN H}. ptes s (b + i * SIZEOF_PTE H) \<noteq> None)" for b
  proof -
    have d: "dom (ptes s) \<inter> table_addrs H b = {}" using free by (auto simp: table_addrs_def)
    have "from_malloc s b" using b by (auto simp: from_malloc_def)
    from some [OF this d] have "Q (Some b) (?s\<lparr>ptes := blank_table H b (ptes s)\<rparr>)" by simp
    moreover have "(\<lambda>i. b + i * SIZEOF_PTE H) ` {..<MAX_PT_LEN H} = table_addrs H b" by (auto simp: table_addrs_def)
    ultimately have "?loop b ?s = Done () (?s\<lparr>ptes := blank_table H b (ptes s)\<rparr>)" "Q (Some b) (?s\<lparr>ptes := blank_table H b (ptes s)\<rparr>)"
      using fill_run [of b "SIZEOF_PTE H" invalid_pte "MAX_PT_LEN H" ?s] by (simp_all add: blank_table_def)
    then show ?thesis by (simp add: wlp_def bindk_def retk_def)
  qed
  then show ?thesis using none by (auto simp: initializeRegionPageTable_def wlp_simps)
qed

lemma wlp_new_table:
  assumes "\<And>c. Q None (s\<lparr>malloc_count := c\<rparr>)"
    and some: "\<And>b P c. from_malloc s b \<Longrightarrow> dom (ptes s) \<inter> table_addrs H b = {} \<Longrightarrow>
       dom P = dom (ptes s) \<union> table_addrs H b \<Longrightarrow> Q (Some b) (s\<lparr>malloc_count := c, ptes := P\<rparr>)"
  shows "wlp (initializeRegionPageTable H) Q R s"
proof (rule wlp_blank_table)
  show "Q (Some b) (s\<lparr>malloc_count := c, ptes := blank_table H b (ptes s)\<rparr>)"
    if "from_malloc s b" "dom (ptes s) \<inter> table_addrs H b = {}" for b c
    by (rule some [OF that]) (auto simp: blank_table_def refilled_def dom_def)
qed (rule assms)

lemma new_table:
  assumes "dom P = dom (ptes s) \<union> table_addrs H b" "ptes t = P"
  shows "has_table H t b" "has_table H s a \<Longrightarrow> has_table H t a"
  using assms by (auto simp: has_table_def)

lemma tables_differ:
  assumes "0 < MAX_PT_LEN H" "has_table H s a" "dom (ptes s) \<inter> table_addrs H b = {}"
  shows "a \<noteq> b"
  using assms by (force simp: has_table_def table_addrs_def)

section \<open>The stages of the boot\<close>

definition base_ok :: "hw \<Rightarrow> kstate \<Rightarrow> ptr \<Rightarrow> ptr \<Rightarrow> bool" where
  "base_ok H s r0 r1 \<longleftrightarrow> mallocs_ok s \<and> blocks_apart H s \<and> from_malloc s r0 \<and> from_malloc s r1 \<and>
     has_table H s r0 \<and> has_table H s r1 \<and> r0 \<noteq> r1"

definition paging_on :: "hw \<Rightarrow> kstate \<Rightarrow> ptr \<Rightarrow> ptr \<Rightarrow> bool" where
  "paging_on H s r0 r1 \<longleftrightarrow> base_ok H s r0 r1 \<and> REG_PTBR0 s = r0 \<and> REG_PTBR1 s = r1 \<and>
     REG_PTLR0 s = MAX_PT_LEN H \<and> REG_PTLR1 s = MAX_PT_LEN H \<and> stack_base_ok H s"

definition tty_blank :: "hw \<Rightarrow> kstate \<Rightarrow> bool" where
  "tty_blank H s \<longleftrightarrow> currTransmitters s = replicate (NUM_TERMINALS H) None \<and>
     length (transmittingQs s) = NUM_TERMINALS H \<and> length (readingQs s) = NUM_TERMINALS H"

definition queues_empty :: "hw \<Rightarrow> kstate \<Rightarrow> bool" where
  "queues_empty H s \<longleftrightarrow> empty_map (blockedMap s) \<and> empty_map (sleepingMap s) \<and>
     currTransmitters s = replicate (NUM_TERMINALS H) None \<and>
     transmittingQs s = replicate (NUM_TERMINALS H) (Some []) \<and> readingQs s = replicate (NUM_TERMINALS H) (Some [])"

lemma has_table_dom_iff: "has_table H s b \<longleftrightarrow> table_addrs H b \<subseteq> dom (ptes s)"
  by (auto simp: has_table_def)

lemma settled_preds:
  assumes "sched_part t = sched_part s"
  shows "base_ok H t r0 r1 = base_ok H s r0 r1" "paging_on H t r0 r1 = paging_on H s r0 r1"
    "tty_blank H t = tty_blank H s" "queues_empty H t = queues_empty H s" "readyQ t = readyQ s" "nextPid t = nextPid s"
  using assms
  by (simp_all add: sched_part_def base_ok_def paging_on_def tty_blank_def queues_empty_def has_table_dom_iff
      mallocs_ok_def blocks_apart_def from_malloc_def stack_base_ok_def)

lemma paging_on_mmu: "paging_on H s r0 r1 \<Longrightarrow> mmu_ok H s \<and> stack_base_ok H s"
  by (auto simp: paging_on_def base_ok_def mmu_ok_def from_malloc_def blocks_apart_def apart_def)

section \<open>The queues\<close>

lemma foldrc_snoc:
  "foldrc f (xs @ [x]) = bindk (foldrc f xs) (\<lambda>r. if r = ERROR then retk ERROR else bindk (f x) (\<lambda>r.
     if r = ERROR then retk ERROR else retk SUCCESS))"
proof (induction xs)
  case (Cons y xs)
  have "foldrc f ((y # xs) @ [x]) = bindk (f y) (\<lambda>r. if r = ERROR then retk ERROR
     else bindk (foldrc f xs) (\<lambda>r. if r = ERROR then retk ERROR else bindk (f x) (\<lambda>r.
     if r = ERROR then retk ERROR else retk SUCCESS)))" unfolding append_Cons foldrc.simps Cons.IH ..
  also have "\<dots> = bindk (f y) (\<lambda>r. bindk (if r = ERROR then retk ERROR else foldrc f xs)
     (\<lambda>r. if r = ERROR then retk ERROR else bindk (f x) (\<lambda>r. if r = ERROR then retk ERROR else retk SUCCESS)))"
    by (intro arg_cong [of _ _ "bindk (f y)"] ext) simp
  also have "\<dots> = bindk (foldrc f (y # xs)) (\<lambda>r. if r = ERROR then retk ERROR else bindk (f x) (\<lambda>r.
     if r = ERROR then retk ERROR else retk SUCCESS))" by (simp add: bindk_assoc)
  finally show ?case .
qed (simp cong: if_cong)

lemma tty_queues_run:
  assumes "mallocs_ok s" "length (transmittingQs s) = m" "length (readingQs s) = m" "n \<le> m"
  shows "\<exists>c. foldrc init_tty_queues [0..<n] s =
           Done SUCCESS (s\<lparr>malloc_count := c, transmittingQs := replicate n (Some []) @ drop n (transmittingQs s),
             readingQs := replicate n (Some []) @ drop n (readingQs s)\<rparr>)"
  using assms(4)
proof (induction n)
  case 0
  then show ?case by (intro exI [of _ "malloc_count s"]) (simp add: retk_def)
next
  case (Suc n)
  let ?t = "\<lambda>n c. s\<lparr>malloc_count := c, transmittingQs := replicate n (Some []) @ drop n (transmittingQs s),
             readingQs := replicate n (Some []) @ drop n (readingQs s)\<rparr>"
  from Suc obtain c where c: "foldrc init_tty_queues [0..<n] s = Done SUCCESS (?t n c)" by auto
  have upd: "(replicate n (Some []) @ drop n qs)[n := Some []] = replicate (Suc n) (Some []) @ drop (Suc n) qs"
    if "n < length qs" for qs :: "ptr queue list"
    using that by (simp add: list_update_append Cons_nth_drop_Suc [symmetric] replicate_append_same)
  have "init_tty_queues n (?t n c) = Done SUCCESS (?t (Suc n) (Suc (Suc c)))"
    using assms(1-3) Suc.prems upd
    by (auto simp: init_tty_queues_def mallocs_ok_def bindk_def malloc_okk_run modk_def retk_def make_q_def)
  then have "foldrc init_tty_queues [0..<Suc n] s = Done SUCCESS (?t (Suc n) (Suc (Suc c)))"
    using c by (simp add: foldrc_snoc) (simp add: retk_def)
  then show ?case by blast
qed

definition fresh_start :: "hw \<Rightarrow> kstate \<Rightarrow> ptr \<Rightarrow> ptr \<Rightarrow> bool" where
  "fresh_start H s r0 r1 \<longleftrightarrow> paging_on H s r0 r1 \<and> queues_empty H s \<and> readyQ s = Some [] \<and> nextPid s = 0"

lemma wlp_fresh_start:
  assumes "paging_on H s r0 r1" "tty_blank H s"
  shows "wlp (initScheduler H) (\<lambda>_ t. fresh_start H t r0 r1) (\<lambda>_. True) s"
proof -
  let ?N = "NUM_TERMINALS H"
  have mem: "mallocs_ok s" using assms(1) by (simp add: paging_on_def base_ok_def)
  then have some: "\<exists>a. malloc_oracle s n = Some a" for n by (auto simp: mallocs_ok_def)
  have len: "length (transmittingQs s) = ?N" "length (readingQs s) = ?N" "currTransmitters s = replicate ?N None"
    using assms(2) by (simp_all add: tty_blank_def)
  have final: "wlp (foldrc init_tty_queues [0..<?N]) (\<lambda>_ t. fresh_start H t r0 r1) (\<lambda>_. True) u"
    if u: "paging_on H u r0 r1" "length (transmittingQs u) = ?N" "length (readingQs u) = ?N"
      "currTransmitters u = replicate ?N None" "readyQ u = Some []" "nextPid u = 0"
      "empty_map (blockedMap u)" "empty_map (sleepingMap u)" for u
  proof -
    have "mallocs_ok u" using u(1) by (simp add: paging_on_def base_ok_def)
    from tty_queues_run [OF this u(2,3) order_refl] obtain d where
      d: "foldrc init_tty_queues [0..<?N] u = Done SUCCESS (u\<lparr>malloc_count := d,
             transmittingQs := replicate ?N (Some []), readingQs := replicate ?N (Some [])\<rparr>)" using u(2,3) by auto
    have "fresh_start H (u\<lparr>malloc_count := d, transmittingQs := replicate ?N (Some []),
        readingQs := replicate ?N (Some [])\<rparr>) r0 r1"
      using u by (simp add: fresh_start_def queues_empty_def paging_on_def base_ok_def mallocs_ok_def
          blocks_apart_def from_malloc_def has_table_def stack_base_ok_def)
    then show ?thesis unfolding wlp_def d by simp
  qed
  show ?thesis
    unfolding initScheduler_def
    apply (simp add: wlp_simps make_q_def set_readyQ_def some mallocs_ok_def)
    apply (rule wlp_hm_newk, simp add: some mallocs_ok_def, simp add: BLOCKED_MAP_HASH_BUCKETS_def)
    apply (simp add: wlp_simps set_blockedMap_def)
    apply (rule wlp_hm_newk, simp add: some mallocs_ok_def, simp add: SLEEPING_MAP_HASH_BUCKETS_def)
    apply (simp add: wlp_simps set_sleepingMap_def)
    apply (rule final; use assms(1) len in \<open>simp add: paging_on_def base_ok_def mallocs_ok_def blocks_apart_def
        from_malloc_def has_table_def stack_base_ok_def empty_map_def\<close>)
    done
qed

section \<open>New processes\<close>

lemma wlp_getFramek:
  "(\<And>r fl x. Q r (s\<lparr>frameList := fl, past := x\<rparr>)) \<Longrightarrow> wlp getFramek Q R s"
  by (auto simp: wlp_def getFramek_def split: sum.splits prod.splits)

definition with_frames :: "kstate \<Rightarrow> ptr \<Rightarrow> PCB_t \<Rightarrow> nat list \<Rightarrow> frame_t list option \<Rightarrow> frame_t \<Rightarrow> kstate" where
  "with_frames s p c fs fl x = s\<lparr>frameList := fl, past := x, pcbs := (pcbs s)(p \<mapsto> c\<lparr>stackPfns := stackPfns c @ fs\<rparr>)\<rparr>"

lemma with_frames_none: "pcbs s p = Some c \<Longrightarrow> s = with_frames s p c [] (frameList s) (past s)"
  by (simp add: with_frames_def fun_upd_idem)

lemma wlp_stack_frame:
  "wlp (add_stack_frame p) (\<lambda>r t. \<exists>fl x fs'. t = with_frames s p c fs' fl x \<and> (r \<noteq> ERROR \<longrightarrow> (\<exists>f. fs' = fs @ [f]))) R
     (with_frames s p c fs fl0 x0)"
proof -
  have same: "with_frames s p c fs fl0 x0\<lparr>frameList := fl, past := x\<rparr> = with_frames s p c fs fl x" for fl x
    by (simp add: with_frames_def)
  have more: "(with_frames s p c fs fl x)\<lparr>pcbs := (pcbs (with_frames s p c fs fl x))(p \<mapsto>
      (c\<lparr>stackPfns := stackPfns c @ fs\<rparr>)\<lparr>stackPfns := stackPfns c @ fs @ [f]\<rparr>)\<rparr> = with_frames s p c (fs @ [f]) fl x" for fl x f
    by (simp add: with_frames_def)
  show ?thesis
    unfolding wlp_bindk add_stack_frame_def
    by (rule wlp_getFramek, simp only: same wlp_cases wlp_basic)
      (auto simp: wlp_simps upd_pcb_def get_pcb_def with_frames_def)
qed

text \<open>The stack frames collected so far; nothing else of the process changes.\<close>

lemma wlp_stack_frames:
  assumes "pcbs s p = Some c"
  shows "wlp (foldrc (\<lambda>i. add_stack_frame p) [0..<n])
     (\<lambda>r t. \<exists>fl x fs. t = with_frames s p c fs fl x \<and> (r \<noteq> ERROR \<longrightarrow> length fs = n)) R s"
proof (induction n)
  case 0
  have "\<exists>fl x. s = with_frames s p c [] fl x" using with_frames_none [OF assms] by blast
  then show ?case by (auto simp: wlp_simps intro: exI [of _ "[]"])
next
  case (Suc n)
  have one_more: "\<exists>fl' x' fs'. with_frames s p c (fs @ [f]) fl x = with_frames s p c fs' fl' x' \<and> length fs' = Suc (length fs)"
    for fs f fl x
    by (intro exI [of _ fl] exI [of _ x] exI [of _ "fs @ [f]"]) simp
  have "wlp (bindk (add_stack_frame p) (\<lambda>r. if r = ERROR then retk ERROR else retk SUCCESS))
     (\<lambda>r t. \<exists>fl x fs. t = with_frames s p c fs fl x \<and> (r \<noteq> ERROR \<longrightarrow> length fs = Suc n)) R (with_frames s p c fs fl x)"
    if "length fs = n" for fl x fs
    unfolding wlp_bindk
    by (rule wlp_mono [OF wlp_stack_frame [where s = s and c = c]]) (use that one_more in \<open>auto simp: wlp_simps\<close>)
  then show ?case
    unfolding upt_Suc_append [OF le0] foldrc_snoc wlp_bindk [of "foldrc _ _"]
    by (intro wlp_mono [OF Suc.IH]) (auto simp: wlp_simps)
qed

text \<open>A new process with the identifier \<open>n\<close> and the saved context \<open>k\<close>, its table not one of \<open>X\<close>.\<close>

definition proc_ready :: "hw \<Rightarrow> kstate \<Rightarrow> ptr \<Rightarrow> int \<Rightarrow> ptr set \<Rightarrow> kcont option \<Rightarrow> bool" where
  "proc_ready H s p n X k \<longleftrightarrow> (\<exists>c b. pcbs s p = Some c \<and> pid c = n \<and> length (stackPfns c) = KSTACK_NPG H \<and>
     kctxt c = k \<and> r1PageTable c = Some b \<and> has_table H s b \<and> from_malloc s b \<and> b \<notin> X)"

lemma settled_proc_ready:
  assumes "sched_part t = sched_part s"
  shows "proc_ready H t p n X k = proc_ready H s p n X k"
proof -
  from assms have d: "dom (ptes t) = dom (ptes s)" and v: "\<And>p. map_option view (pcbs t p) = map_option view (pcbs s p)"
    by (simp_all add: sched_part_def fun_eq_iff)
  from assms have m: "from_malloc t b = from_malloc s b" for b by (simp add: sched_part_def from_malloc_def)
  have eq: "proc_ready H u p n X k \<longleftrightarrow> (\<exists>fs b. map_option view (pcbs u p) = Some (n, fs, Some b, k) \<and>
      length fs = KSTACK_NPG H \<and> table_addrs H b \<subseteq> dom (ptes u) \<and> from_malloc u b \<and> b \<notin> X)" for u :: kstate
    by (auto simp: proc_ready_def view_def has_table_dom_iff)
  show ?thesis unfolding eq d v m ..
qed

lemma wlp_hm_newk_any: "(\<And>m c. Q m (s\<lparr>malloc_count := c\<rparr>)) \<Longrightarrow> wlp (hm_newk n) Q R s"
  by (auto simp: wlp_def hm_newk_def Let_def split: sum.splits)

lemma wlp_ignore: "(\<And>t. Q None t) \<Longrightarrow> wlp (bindk m (\<lambda>_. retk None)) Q (\<lambda>_. True) s"
  unfolding wlp_bindk wlp_basic by (simp add: wlp_def)

text \<open>What the creation of a process block leaves as it was.\<close>

definition queue_part :: "kstate \<Rightarrow>
    ptr queue \<times> ptr HashMap option \<times> ptr HashMap option \<times> ptr option list \<times> ptr queue list \<times> ptr queue list" where
  "queue_part s = (readyQ s, blockedMap s, sleepingMap s, currTransmitters s, transmittingQs s, readingQs s)"

lemma grown_tables:
  assumes "paging_on H s r0 r1" "from_malloc s b" "dom (ptes s) \<inter> table_addrs H b = {}" "0 < MAX_PT_LEN H"
    and t: "dom (ptes t) = dom (ptes s) \<union> table_addrs H b" "malloc_oracle t = malloc_oracle s"
      "REG_PTBR0 t = REG_PTBR0 s" "REG_PTBR1 t = REG_PTBR1 s" "REG_PTLR0 t = REG_PTLR0 s" "REG_PTLR1 t = REG_PTLR1 s"
      "r0StackBasePtep t = r0StackBasePtep s"
  shows "paging_on H t r0 r1" "has_table H t b" "from_malloc t b" "b \<notin> {r0, r1}"
proof -
  have "has_table H s r0" "has_table H s r1" using assms(1) by (simp_all add: paging_on_def base_ok_def)
  then show "b \<notin> {r0, r1}" using tables_differ [OF assms(4) _ assms(3)] by blast
  show "from_malloc t b" using assms(2) by (simp add: from_malloc_def t(2))
  show "has_table H t b" by (simp add: has_table_dom_iff t(1))
  show "paging_on H t r0 r1"
    using assms(1) by (auto simp: paging_on_def base_ok_def mallocs_ok_def blocks_apart_def from_malloc_def
        has_table_dom_iff stack_base_ok_def t)
qed

definition made :: "hw \<Rightarrow> kstate \<Rightarrow> ptr \<Rightarrow> ptr \<Rightarrow> ptr option \<Rightarrow> kstate \<Rightarrow> bool" where
  "made H s r0 r1 r t \<longleftrightarrow> (\<forall>p. r = Some p \<longrightarrow> paging_on H t r0 r1 \<and> queue_part t = queue_part s \<and>
     nextPid t = nextPid s + 1 \<and> proc_ready H t p (nextPid s) {r0, r1} None)"

lemma made_None [simp]: "made H s r0 r1 None t"
  by (simp add: made_def)

lemma wlp_initPCB:
  assumes len: "0 < MAX_PT_LEN H" and pg: "paging_on H s r0 r1"
  shows "wlp (initPCB H) (made H s r0 r1) (\<lambda>_. True) s"
proof -
  let ?Q = "made H s r0 r1"
  have drop: "wlp (bindk m (\<lambda>_. retk None)) ?Q (\<lambda>_. True) v" for v and m :: "unit kernel"
    by (rule wlp_ignore) simp
  have frames: "wlp (bindk (init_stack_frames H p) (\<lambda>r. if r = ERROR then bindk (delete_process H p) (\<lambda>_. retk None)
        else retk (Some p))) ?Q (\<lambda>_. True) u"
    if u: "pcbs u p = Some (blank_pcb (nextPid s) None cm (Some b))" "paging_on H u r0 r1" "has_table H u b"
      "from_malloc u b" "b \<notin> {r0, r1}" "queue_part u = queue_part s" "nextPid u = nextPid s + 1" for u p cm b
  proof -
    have "?Q (Some p) (with_frames u p (blank_pcb (nextPid s) None cm (Some b)) fs fl x)" if "length fs = KSTACK_NPG H" for fs fl x
      using that u by (simp add: made_def with_frames_def blank_pcb_def proc_ready_def paging_on_def base_ok_def
          mallocs_ok_def blocks_apart_def from_malloc_def has_table_def stack_base_ok_def queue_part_def)
    then show ?thesis
      unfolding wlp_bindk [of "init_stack_frames _ _"] unfolding init_stack_frames_def
      by (intro wlp_mono [OF wlp_stack_frames [OF u(1)]]) (auto simp: wlp_cases wlp_basic drop)
  qed
  have table: "wlp (initializeRegionPageTable H) (\<lambda>pt. wlp (bindk (modk (\<lambda>s. s\<lparr>pcbs := (pcbs s)(p \<mapsto>
        blank_pcb (nextPid s0) None cm pt)\<rparr>)) (\<lambda>_.
      if pt = None then bindk (delete_process H p) (\<lambda>_. retk None)
      else bindk (init_stack_frames H p) (\<lambda>r. if r = ERROR then bindk (delete_process H p) (\<lambda>_. retk None)
        else retk (Some p)))) ?Q (\<lambda>_. True)) (\<lambda>_. True) v"
    if v: "paging_on H v r0 r1" "queue_part v = queue_part s" "nextPid v = nextPid s + 1" "nextPid s0 = nextPid s" for v p cm s0
  proof (rule wlp_new_table, goal_cases)
    case (1 c)
    show ?case by (simp add: wlp_bindk [of "modk _"] wlp_basic drop)
  next
    case (2 b P c)
    let ?u = "v\<lparr>malloc_count := c, ptes := P, pcbs := (pcbs v)(p \<mapsto> blank_pcb (nextPid s) None cm (Some b))\<rparr>"
    have "paging_on H ?u r0 r1" "has_table H ?u b" "from_malloc ?u b" "b \<notin> {r0, r1}"
      using grown_tables [OF v(1) 2(1,2) len, of ?u] 2(3) by simp_all
    moreover have "queue_part ?u = queue_part s" "nextPid ?u = nextPid s + 1" using v by (simp_all add: queue_part_def)
    ultimately show ?case using v(4) by (simp add: wlp_bindk [of "modk _"] wlp_basic frames)
  qed
  have pg': "paging_on H (s\<lparr>nextPid := n, malloc_count := c\<rparr>) r0 r1" for c n
    using pg by (simp add: paging_on_def base_ok_def mallocs_ok_def blocks_apart_def from_malloc_def has_table_def
        stack_base_ok_def)
  show ?thesis
    unfolding initPCB_def
    by (simp add: wlp_bindk [of mallock] wlp_bindk [of "getk _"] wlp_bindk [of "modk _"] wlp_bindk [of malloc_okk]
        wlp_basic wlp_mallock wlp_cases,
      intro impI allI, rule wlp_then, rule wlp_hm_newk_any, simp add: wlp_cases wlp_basic,
      intro impI, rule wlp_then, rule table [simplified]; simp add: pg' queue_part_def)
qed

definition one_ready :: "hw \<Rightarrow> kstate \<Rightarrow> ptr \<Rightarrow> ptr \<Rightarrow> ptr \<Rightarrow> bool" where
  "one_ready H s r0 r1 i \<longleftrightarrow> paging_on H s r0 r1 \<and> queues_empty H s \<and> readyQ s = Some [i] \<and> nextPid s = 1 \<and>
     proc_ready H s i 0 {r0, r1} None"

lemma wlp_initProcess:
  assumes "0 < MAX_PT_LEN H" "fresh_start H s r0 r1"
  shows "wlp (initProcess H) (\<lambda>r t. \<forall>i. r = Some i \<longrightarrow> one_ready H t r0 r1 i) (\<lambda>_. True) s"
proof -
  have "wlp (bindk (enq_ready p) (\<lambda>r. retk (if r = ERROR then None else Some p)))
      (\<lambda>r t. \<forall>i. r = Some i \<longrightarrow> one_ready H t r0 r1 i) (\<lambda>_. True) t"
    if "made H s r0 r1 (Some p) t" for p t
  proof -
    have t: "paging_on H t r0 r1" "queue_part t = queue_part s" "nextPid t = 1" "proc_ready H t p 0 {r0, r1} None"
      using that assms(2) by (simp_all add: made_def fresh_start_def)
    then have "malloc_oracle t (malloc_count t) \<noteq> None" "readyQ t = Some []" "queues_empty H t"
      using assms(2) by (simp_all add: paging_on_def base_ok_def mallocs_ok_def queue_part_def fresh_start_def queues_empty_def)
    with t show ?thesis
      by (simp add: wlp_def bindk_def enq_ready_run Let_def retk_def enq_q_def one_ready_def paging_on_def base_ok_def mallocs_ok_def
          blocks_apart_def from_malloc_def has_table_def stack_base_ok_def queues_empty_def proc_ready_def)
  qed
  moreover have "wlp (initPCB H) (made H s r0 r1) (\<lambda>_. True) s"
    using assms by (intro wlp_initPCB) (simp_all add: fresh_start_def)
  ultimately show ?thesis
    unfolding initProcess_def
    by (intro wlp_then wlp_mono [OF \<open>wlp (initPCB H) _ _ _\<close>]) (auto simp: wlp_cases wlp_basic)
qed

lemma wlp_boot_frames:
  assumes "pcbs s p = Some c"
  shows "wlp (foldk (\<lambda>i. bindk (fetch ptes (base + i * SIZEOF_PTE H)) (\<lambda>e.
       upd_pcb p (\<lambda>c. c\<lparr>stackPfns := stackPfns c @ [pte_pfn e]\<rparr>))) [0..<n])
     (\<lambda>_ t. \<exists>fs. length fs = n \<and> t = with_frames s p c fs (frameList s) (past s)) R s"
proof (induction n)
  case 0
  then show ?case using with_frames_none [OF assms] by (simp add: wlp_basic)
next
  case (Suc n)
  have one_more: "\<exists>fs'. length fs' = Suc n \<and> with_frames s p c (fs @ [f]) fl x = with_frames s p c fs' fl x"
    if "length fs = n" for fs f fl x
    by (intro exI [of _ "fs @ [f]"]) (simp add: that)
  have step: "wlp (upd_pcb p (\<lambda>c. c\<lparr>stackPfns := stackPfns c @ [f]\<rparr>)) Q R (with_frames s p c fs fl x)"
    if "Q () (with_frames s p c (fs @ [f]) fl x)" for f Q fs fl x
    using that by (simp add: wlp_simps upd_pcb_def get_pcb_def with_frames_def)
  show ?case
    unfolding upt_Suc_append [OF le0] foldk_append foldk.simps wlp_bindk [of "foldk _ _"]
    by (intro wlp_mono [OF Suc.IH]) (elim exE conjE; simp only: wlp_bindk wlp_basic; intro allI impI step; simp only: wlp_basic; rule one_more; assumption)+
qed

text \<open>Both processes made: \<^verbatim>\<open>i\<close> is idle in the ready queue, \<^verbatim>\<open>p\<close> is init.\<close>

definition both_ready :: "hw \<Rightarrow> kstate \<Rightarrow> ptr \<Rightarrow> ptr \<Rightarrow> ptr \<Rightarrow> ptr \<Rightarrow> bool" where
  "both_ready H s r0 r1 i p \<longleftrightarrow> paging_on H s r0 r1 \<and> queues_empty H s \<and> readyQ s = Some [i] \<and> p \<noteq> i \<and>
     proc_ready H s i 0 {r0, r1} None \<and> proc_ready H s p 1 (- {r1}) (Some KStart) \<and> nextPid s = 2"

lemma settled_ready:
  assumes "sched_part t = sched_part s"
  shows "one_ready H t r0 r1 i = one_ready H s r0 r1 i" "both_ready H t r0 r1 i p = both_ready H s r0 r1 i p"
proof -
  from assms have "map_option view (pcbs t p) = map_option view (pcbs s p)"
    by (simp add: sched_part_def fun_eq_iff)
  then show "one_ready H t r0 r1 i = one_ready H s r0 r1 i" "both_ready H t r0 r1 i p = both_ready H s r0 r1 i p"
    by (simp_all add: one_ready_def both_ready_def settled_preds [OF assms] settled_proc_ready [OF assms])
qed

lemma init_frames_ready:
  assumes "paging_on H s r0 r1" "queues_empty H s" "readyQ s = Some [i]" "proc_ready H s i 0 {r0, r1} None"
    "pcbs s p = None" "length fs = KSTACK_NPG H" "nextPid s = 2"
  shows "both_ready H (with_frames (s\<lparr>pcbs := (pcbs s)(p \<mapsto> blank_pcb 1 (Some KStart) cm (Some r1))\<rparr>) p
     (blank_pcb 1 (Some KStart) cm (Some r1)) fs fl x) r0 r1 i p"
proof -
  have "p \<noteq> i" using assms(4,5) by (auto simp: proc_ready_def)
  moreover have "has_table H s r1" using assms(1) by (simp add: paging_on_def base_ok_def)
  ultimately show ?thesis
    using assms by (simp add: both_ready_def with_frames_def blank_pcb_def proc_ready_def paging_on_def base_ok_def view_def
        mallocs_ok_def blocks_apart_def from_malloc_def has_table_def stack_base_ok_def queues_empty_def)
qed

lemma wlp_initInitProcess:
  assumes "one_ready H s r0 r1 i"
  shows "wlp (initInitProcess H r1) (\<lambda>r t. \<forall>p. r = Some p \<longrightarrow> both_ready H t r0 r1 i p) (\<lambda>_. True) s"
proof -
  let ?Q = "\<lambda>r t. \<forall>p. r = Some p \<longrightarrow> both_ready H t r0 r1 i p"
  let ?blank = "\<lambda>cm. blank_pcb 1 (Some KStart) cm (Some r1)"
  have frames: "wlp (foldk (\<lambda>i. bindk (fetch ptes (base + i * SIZEOF_PTE H)) (\<lambda>e.
        upd_pcb p (\<lambda>c. c\<lparr>stackPfns := stackPfns c @ [pte_pfn e]\<rparr>))) [0..<KSTACK_NPG H])
      (\<lambda>_. wlp (retk (Some p)) ?Q (\<lambda>_. True)) R (u\<lparr>pcbs := (pcbs u)(p \<mapsto> ?blank cm)\<rparr>)"
    if u: "paging_on H u r0 r1" "queues_empty H u" "readyQ u = Some [i]" "proc_ready H u i 0 {r0, r1} None"
      "pcbs u p = None" "nextPid u = 2" for u p cm base R
    by (rule wlp_mono [OF wlp_boot_frames [where c = "?blank cm"]]) (auto simp: wlp_basic intro: init_frames_ready [OF u(1-5) _ u(6)])
  have s: "paging_on H (s\<lparr>nextPid := n, initPid := m, malloc_count := c\<rparr>) r0 r1"
    "queues_empty H (s\<lparr>nextPid := n, initPid := m, malloc_count := c\<rparr>)"
    "proc_ready H (s\<lparr>nextPid := n, initPid := m, malloc_count := c\<rparr>) i 0 {r0, r1} None" for n m c
    using assms by (simp_all add: one_ready_def paging_on_def base_ok_def mallocs_ok_def blocks_apart_def from_malloc_def
        has_table_def stack_base_ok_def queues_empty_def proc_ready_def)
  have n: "nextPid s = 1" using assms by (simp add: one_ready_def)
  show ?thesis
    unfolding initInitProcess_def
    apply (simp add: wlp_bindk [of mallock] wlp_bindk [of "getk _"] wlp_bindk [of "modk _"] wlp_bindk [of malloc_okk]
        wlp_basic wlp_mallock wlp_cases)
    apply (intro impI allI, rule wlp_then, rule wlp_hm_newk_any)
    apply (simp add: wlp_bindk wlp_basic)
    apply (simp add: n, rule frames [where u = "s\<lparr>nextPid := 2, initPid := 1, malloc_count := c\<rparr>" for c, simplified]; (rule s | simp add: assms [unfolded one_ready_def]))
    done
qed

section \<open>The invariant\<close>

lemma empty_map_ok: "empty_map m \<Longrightarrow> map_ok s m"
  by (auto simp: empty_map_def map_ok_def)

lemma empty_map_procs:
  assumes "empty_map m"
  shows "hm_procs m = []"
proof -
  from assms obtain hm where hm: "m = Some hm" "hm_ok hm" "hm_map hm = Map.empty" by (auto simp: empty_map_def)
  have "hm_items hm = []" using hm_items_iff [OF hm(2)] hm(3) by (cases "hm_items hm") force+
  then show ?thesis by (simp add: hm_procs_def hm)
qed

text \<open>Init runs, idle is the only ready process, all other places are empty.\<close>

definition booted :: "hw \<Rightarrow> kstate \<Rightarrow> bool" where
  "booted H s \<longleftrightarrow> (\<exists>r0 r1 i. both_ready H s r0 r1 i (currPCB s))"

lemma booted_places:
  assumes "both_ready H s r0 r1 i (currPCB s)"
  shows "others s = [i]" "transmitters s = []" "places s = [currPCB s, i]" "map_ok s (blockedMap s)" "map_ok s (sleepingMap s)" "tty_ok H s"
proof -
  have b: "queues_empty H s" "readyQ s = Some [i]" using assms by (auto simp: both_ready_def)
  then have maps: "hm_procs (blockedMap s) = []" "hm_procs (sleepingMap s) = []"
      and ok: "map_ok s (blockedMap s)" "map_ok s (sleepingMap s)"
    by (simp_all add: queues_empty_def empty_map_ok empty_map_procs)
  have none: "concat (map slot_procs (currTransmitters s)) = []" "concat (map qitems (transmittingQs s)) = []"
      "concat (map qitems (readingQs s)) = []"
    using b(1) by (simp_all add: queues_empty_def slot_procs_def concat_replicate_trivial map_replicate_const [symmetric])
  show "others s = [i]" "transmitters s = []" "places s = [currPCB s, i]" "map_ok s (blockedMap s)" "map_ok s (sleepingMap s)"
    using b maps none ok by (simp_all add: places_def others_def transmitters_def)
  show "tty_ok H s" using b(1) by (auto simp: tty_ok_def queues_empty_def)
qed

section \<open>The start of the kernel\<close>

definition one_table :: "hw \<Rightarrow> kstate \<Rightarrow> ptr \<Rightarrow> bool" where
  "one_table H s r0 \<longleftrightarrow> mallocs_ok s \<and> blocks_apart H s \<and> tty_blank H s \<and> from_malloc s r0 \<and> has_table H s r0"

lemma wlp_first_table:
  assumes "mallocs_ok s" "blocks_apart H s" "tty_blank H s"
  shows "wlp (initializeRegionPageTable H) (\<lambda>r t. r \<noteq> None \<longrightarrow> one_table H t (the r)) (\<lambda>_. True) s"
  using assms
  by (intro wlp_new_table)
    (auto simp: one_table_def mallocs_ok_def blocks_apart_def tty_blank_def from_malloc_def has_table_dom_iff)

lemma wlp_second_table:
  assumes "0 < MAX_PT_LEN H" "one_table H s r0"
  shows "wlp (initializeRegionPageTable H) (\<lambda>r t. r \<noteq> None \<longrightarrow> base_ok H t r0 (the r) \<and> tty_blank H t) (\<lambda>_. True) s"
proof (rule wlp_new_table)
  fix b c and P :: "ptr \<Rightarrow> pte option"
  assume b: "from_malloc s b" "dom (ptes s) \<inter> table_addrs H b = {}" "dom P = dom (ptes s) \<union> table_addrs H b"
  have "r0 \<noteq> b" using tables_differ [OF assms(1) _ b(2)] assms(2) by (auto simp: one_table_def)
  then show "Some b \<noteq> None \<longrightarrow> base_ok H (s\<lparr>malloc_count := c, ptes := P\<rparr>) r0 (the (Some b)) \<and>
      tty_blank H (s\<lparr>malloc_count := c, ptes := P\<rparr>)"
    using assms(2) b by (auto simp: one_table_def base_ok_def mallocs_ok_def blocks_apart_def tty_blank_def from_malloc_def
        has_table_dom_iff)
qed simp

lemma wlp_enable_vm:
  assumes "hw_ok H" "base_ok H s r0 r1 \<and> tty_blank H s"
  shows "wlp (enable_vm H r0 r1) (\<lambda>_ t. paging_on H t r0 r1 \<and> tty_blank H t) (\<lambda>_. True) s"
proof -
  have "KERNEL_BASE_VPN H = 0" using assms(1) by (simp add: hw_ok_def KERNEL_BASE_VPN_def vpn_of_def)
  then show ?thesis
    using assms(2) by (simp add: enable_vm_def wlp_basic paging_on_def base_ok_def mallocs_ok_def blocks_apart_def
        tty_blank_def from_malloc_def has_table_def stack_base_ok_def)
qed

lemma checked_then:
  assumes "wlp m (\<lambda>r t. c r \<longrightarrow> P r t) (\<lambda>_. True) s" "\<And>r t. c r \<Longrightarrow> P r t \<Longrightarrow> wlp (f r) Q (\<lambda>_. True) t"
  shows "wlp (bindk m (\<lambda>r. bindk (halt_unless (c r)) (\<lambda>_. f r))) Q (\<lambda>_. True) s"
  by (rule wlp_then, rule wlp_mono [OF assms(1)], rule halt_then) (simp_all add: assms(2))

lemma settled_then:
  assumes "steady sched_part m" "P s" "\<And>s t. sched_part t = sched_part s \<Longrightarrow> P t = P s"
    "\<And>x t. P t \<Longrightarrow> wlp (f x) Q (\<lambda>_. True) t"
  shows "wlp (bindk m f) Q (\<lambda>_. True) s"
  by (rule steady_then [OF assms(1)], rule assms(4), rule assms(3) [THEN iffD2], assumption, rule assms(2))

lemma settled_checked:
  assumes "steady sched_part m" "P s" "\<And>s t. sched_part t = sched_part s \<Longrightarrow> P t = P s"
    "\<And>x t. P t \<Longrightarrow> wlp (f x) Q (\<lambda>_. True) t"
  shows "wlp (bindk m (\<lambda>r. bindk (halt_unless (c r)) (\<lambda>_. f r))) Q (\<lambda>_. True) s"
  by (rule settled_then [where P = P, OF assms(1,2)], rule assms(3), assumption, rule halt_then, rule assms(4))

lemma wlp_last_steps:
  assumes "both_ready H s r0 r1 i p"
  shows "wlp (bindk (LoadProgram H file (retk args) p) (\<lambda>r. bindk (halt_unless (r = SUCCESS)) (\<lambda>_.
     bindk (modk (\<lambda>s. s\<lparr>currPCB := p\<rparr>)) (\<lambda>_.
     bindk malloc_okk (\<lambda>ok. bindk (halt_unless ok) (\<lambda>_.
     bindk malloc_okk (\<lambda>ok. bindk (halt_unless ok) (\<lambda>_.
     enter_user)))))))) (\<lambda>_. booted H) (\<lambda>_. True) s"
proof -
  have ready: "sched_part t = sched_part s \<Longrightarrow>
      (both_ready H t r0 r1 i p \<and> currPCB t = p) = (both_ready H s r0 r1 i p \<and> currPCB s = p)" for s t
    using settled_ready(2) [of t s H r0 r1 i p] by (simp add: sched_part_def)
  have now: "both_ready H (t\<lparr>currPCB := q\<rparr>) r0 r1 i p = both_ready H t r0 r1 i p" for t q
    by (simp add: both_ready_def paging_on_def base_ok_def queues_empty_def mallocs_ok_def blocks_apart_def
        from_malloc_def has_table_def stack_base_ok_def proc_ready_def)
  show ?thesis
    apply (rule settled_checked [OF settled_LoadProgram [OF steady_basic(1)], where P = "\<lambda>s. both_ready H s r0 r1 i p"])
      apply (rule assms, erule settled_ready)
    apply (simp only: wlp_bindk [of "modk _"] wlp_basic)
    apply (rule settled_checked [OF settled_mallock(2), where P = "\<lambda>s. both_ready H s r0 r1 i p \<and> currPCB s = p"])
      apply (simp add: now, erule ready)
    apply (rule settled_checked [OF settled_mallock(2), where P = "\<lambda>s. both_ready H s r0 r1 i p \<and> currPCB s = p"])
      apply (assumption, erule ready)
    apply (rule steady_wlp [OF settled_enter_user])
    apply (drule ready, auto simp: booted_def)
    done
qed

text \<open>From the scheduler on.\<close>

lemma wlp_processes:
  assumes len: "0 < MAX_PT_LEN H" and v: "paging_on H s r0 r1" "tty_blank H s"
  shows "wlp (bindk (initScheduler H) (\<lambda>r. bindk (halt_unless (r \<noteq> ERROR)) (\<lambda>_.
     bindk (initProcess H) (\<lambda>idle. bindk (halt_unless (idle \<noteq> None)) (\<lambda>_.
     bindk (LoadIdle H doIdle (the idle)) (\<lambda>r. bindk (halt_unless (r \<noteq> ERROR)) (\<lambda>_.
     bindk (initInitProcess H r1) (\<lambda>ip. bindk (halt_unless (ip \<noteq> None)) (\<lambda>_.
     bindk (LoadProgram H file (retk args) (the ip)) (\<lambda>r. bindk (halt_unless (r = SUCCESS)) (\<lambda>_.
     bindk (modk (\<lambda>s. s\<lparr>currPCB := the ip\<rparr>)) (\<lambda>_.
     bindk malloc_okk (\<lambda>ok. bindk (halt_unless ok) (\<lambda>_.
     bindk malloc_okk (\<lambda>ok. bindk (halt_unless ok) (\<lambda>_.
     enter_user))))))))))))))) ) (\<lambda>_. booted H) (\<lambda>_. True) s"
  apply (rule checked_then [where P = "\<lambda>r t. fresh_start H t r0 r1"])
   apply (rule wlp_mono [OF wlp_fresh_start [OF v]]; simp)
  apply (rule checked_then [where P = "\<lambda>r t. one_ready H t r0 r1 (the r)"])
   apply (rule wlp_mono [OF wlp_initProcess [OF len]], assumption; auto)
  subgoal for _ _ idle t
    apply (rule settled_checked [where P = "\<lambda>t. one_ready H t r0 r1 (the idle)", OF settled_LoadIdle _ settled_ready(1)],
        assumption, assumption)
    apply (rule checked_then [where P = "\<lambda>r t. both_ready H t r0 r1 (the idle) (the r)"])
     apply (rule wlp_mono [OF wlp_initInitProcess], assumption; auto)
    apply (erule wlp_last_steps)
    done
  done

lemma KernelStart_boots:
  assumes "hw_ok H" "mallocs_ok s" "blocks_apart H s" "tty_blank H s"
  shows "wlp (KernelStart E H d args n) (\<lambda>_. booted H) (\<lambda>_. True) s"
proof -
  have len: "0 < MAX_PT_LEN H" using assms(1) by (simp add: hw_ok_def)
  let ?P = "\<lambda>r0 r1 s. base_ok H s (the r0) (the r1) \<and> tty_blank H s"
  let ?V = "\<lambda>r0 r1 s. paging_on H s (the r0) (the r1) \<and> tty_blank H s"
  have P: "sched_part t = sched_part s \<Longrightarrow> ?P r0 r1 t = ?P r0 r1 s" for s t r0 r1
    by (simp only: settled_preds [of t s])
  have V: "sched_part t = sched_part s \<Longrightarrow> ?V r0 r1 t = ?V r0 r1 s" for s t r0 r1
    by (simp only: settled_preds [of t s])
  show ?thesis
    unfolding KernelStart_def Let_def
    apply (rule checked_then [OF wlp_first_table [OF assms(2-4)]])
    apply (rule checked_then [OF wlp_second_table [OF len]], assumption)
    subgoal for r0 t r1 t'
      apply (rule settled_then [where P = "?P r0 r1", OF settled_early(1) _ P], assumption, assumption)
      apply (rule settled_then [where P = "?P r0 r1", OF settled_early(2) _ P], assumption, assumption)
      apply (rule wlp_then, rule wlp_mono [OF wlp_enable_vm [OF assms(1)]], assumption)
       apply (rule settled_checked [where P = "?V r0 r1", OF settled_early(3) _ V], assumption, assumption)
       apply (rule settled_checked [where P = "?V r0 r1", OF settled_init_maps(1) _ V], assumption, assumption)
       apply (rule settled_checked [where P = "?V r0 r1", OF settled_init_maps(2) _ V], assumption, assumption)
       apply (rule settled_checked [where P = "?V r0 r1", OF settled_init_maps(3) _ V], assumption, assumption)
       apply (erule conjE, rule wlp_processes [OF len], assumption, assumption)
      apply simp
      done
    done
qed

end
