(* ===== verification/ExecArgs.thy ===== *)
theory ExecArgs
  imports LoadProgram Wlp
begin

text \<open>
  The argument list that \<^verbatim>\<open>LoadProgram\<close> builds at the top of the new stack: where its parts lie, and
  that reading it back gives the arguments. Memory is seen as a function from virtual addresses to
  bytes; the writes of \<^verbatim>\<open>strcpy\<close> and of the pointers replace ranges of it.
\<close>

section \<open>Memory as the process sees it\<close>

definition overwrite :: "nat \<Rightarrow> byte list \<Rightarrow> (nat \<Rightarrow> byte) \<Rightarrow> (nat \<Rightarrow> byte)" where
  "overwrite va xs img v = (if va \<le> v \<and> v < va + length xs then xs ! (v - va) else img v)"

text \<open>The pages from \<open>a\<close> to the end of region 1 are readable and writable, and none is mapped twice.\<close>

definition usable :: "hw \<Rightarrow> 'z mmu_scheme \<Rightarrow> nat \<Rightarrow> bool" where
  "usable H s a \<longleftrightarrow> (let n = VMEM_1_LIMIT H - a in mapped H s PROT_READ a n \<and> mapped H s PROT_WRITE a n \<and> spread H s a n)"

text \<open>\<open>image H s a t\<close>: from \<open>a\<close> on, the memory of \<open>s\<close> reads as \<open>img\<close>.\<close>

definition image :: "hw \<Rightarrow> 'z mmu_scheme \<Rightarrow> nat \<Rightarrow> (nat \<Rightarrow> byte) \<Rightarrow> bool" where
  "image H s a img \<longleftrightarrow> (\<forall>v. a \<le> v \<longrightarrow> v < VMEM_1_LIMIT H \<longrightarrow> cell H s PROT_READ v = img v)"

lemma usable_pmem [simp]: "usable H (s\<lparr>pmem := m\<rparr>) a = usable H s a"
  by (simp add: usable_def mapped_def spread_def Let_def)

lemma usable_at:
  assumes "usable H s a" "a \<le> v" "v < VMEM_1_LIMIT H"
  obtains f off where "translate H s PROT_READ v = Some (f, off)" "translate H s PROT_WRITE v = Some (f, off)"
proof -
  from assms(2,3) have "v - a < VMEM_1_LIMIT H - a" "a + (v - a) = v" by simp_all
  with assms(1) have "translate H s PROT_READ v \<noteq> None" "translate H s PROT_WRITE v \<noteq> None"
    unfolding usable_def mapped_def Let_def by metis+
  then show ?thesis using that translate_rw by fastforce
qed

lemma usable_inj:
  assumes "usable H s a" "a \<le> v" "v < VMEM_1_LIMIT H" "a \<le> w" "w < VMEM_1_LIMIT H"
    "translate H s PROT_WRITE v = translate H s PROT_WRITE w"
  shows "v = w"
proof -
  from assms(2-5) have "v - a < VMEM_1_LIMIT H - a" "w - a < VMEM_1_LIMIT H - a" "a + (v - a) = v" "a + (w - a) = w"
    by simp_all
  moreover have "translate H s PROT_WRITE v \<noteq> None" using usable_at [OF assms(1-3)] by (metis option.distinct(1))
  ultimately have "v - a = w - a"
    using assms(1,6) unfolding usable_def spread_def Let_def by metis
  then show ?thesis using assms(2,4) by simp
qed

lemma usable_range:
  assumes "usable H s a" "a \<le> va" "va + n \<le> VMEM_1_LIMIT H"
  shows "mapped H s PROT_READ va n" "mapped H s PROT_WRITE va n" "spread H s va n"
proof -
  have "\<exists>c. translate H s PROT_READ (va + i) = Some c \<and> translate H s PROT_WRITE (va + i) = Some c" if "i < n" for i
    using usable_at [OF assms(1), of "va + i"] assms(2,3) that by (metis add.commute add_less_mono1 le_add2 le_trans less_le_trans)
  then show "mapped H s PROT_READ va n" "mapped H s PROT_WRITE va n" by (fastforce simp: mapped_def)+
  show "spread H s va n"
    using usable_inj [OF assms(1), of "va + i" "va + j" for i j] assms(2,3) by (auto simp: spread_def)
qed

lemma copyout_image:
  assumes "usable H s a" "image H s a img" "a \<le> va" "va + length xs \<le> VMEM_1_LIMIT H"
  shows "\<exists>m. copyout H va xs s = Done () (s\<lparr>pmem := m\<rparr>) \<and> image H (s\<lparr>pmem := m\<rparr>) a (overwrite va xs img)"
proof -
  note range = usable_range [OF assms(1,3,4)]
  let ?m = "poke H s va xs (pmem s)"
  have "cell H (s\<lparr>pmem := ?m\<rparr>) PROT_READ v = overwrite va xs img v" if v: "a \<le> v" "v < VMEM_1_LIMIT H" for v
  proof -
    obtain f off where t: "translate H s PROT_READ v = Some (f, off)" "translate H s PROT_WRITE v = Some (f, off)"
      using usable_at [OF assms(1) v] .
    show ?thesis
    proof (cases "va \<le> v \<and> v < va + length xs")
      case True
      then have "?m f off = xs ! (v - va)"
        using poke_at [of "v - va" xs H s va f off "pmem s"] t(2) range(3) by (simp add: less_diff_conv2)
      then show ?thesis using True t by (simp add: cell_def overwrite_def)
    next
      case False
      have "translate H s PROT_WRITE (va + i) \<noteq> Some (f, off)" if "i < length xs" for i
        using usable_inj [OF assms(1) v, of "va + i"] t(2) False that assms(3,4) by force
      then have "?m f off = pmem s f off" by (rule poke_other)
      moreover have "cell H s PROT_READ v = img v" using assms(2) v by (simp add: image_def)
      ultimately show ?thesis using False t by (auto simp: cell_def overwrite_def)
    qed
  qed
  then show ?thesis using copyout_run [OF range(2)] by (auto simp: image_def)
qed

section \<open>Ranges\<close>

lemma overwrite_append: "overwrite (va + length xs) ys (overwrite va xs img) = overwrite va (xs @ ys) img"
  by (auto simp: overwrite_def fun_eq_iff nth_append)

lemma overwrite_commute:
  "va + length xs \<le> vb \<or> vb + length ys \<le> va \<Longrightarrow> overwrite va xs (overwrite vb ys img) = overwrite vb ys (overwrite va xs img)"
  by (auto simp: overwrite_def fun_eq_iff)

lemma overwrite_Nil [simp]: "overwrite va [] img = img"
  by (auto simp: overwrite_def fun_eq_iff)

text \<open>What a range of memory reads as.\<close>

definition reads :: "(nat \<Rightarrow> byte) \<Rightarrow> nat \<Rightarrow> nat \<Rightarrow> byte list" where
  "reads img va n = map (\<lambda>i. img (va + i)) [0..<n]"

lemma copyin_image:
  assumes "usable H s a" "image H s a img" "a \<le> va" "va + n \<le> VMEM_1_LIMIT H"
  shows "copyin H va n s = Done (reads img va n) s"
  using copyin_run [OF usable_range(1) [OF assms(1,3,4)]] assms(2-4) by (simp add: bytes_at_def image_def reads_def)

lemma length_reads [simp]: "length (reads img va n) = n"
  by (simp add: reads_def)

lemma reads_add: "reads img va (m + n) = reads img va m @ reads img (va + m) n"
  by (intro nth_equalityI) (auto simp: reads_def nth_append)

lemma reads_split:
  assumes "reads img va k = xs @ ys"
  shows "reads img va (length xs) = xs" "reads img (va + length xs) (length ys) = ys"
proof -
  have "k = length xs + length ys" using arg_cong [OF assms, of length] by simp
  with assms reads_add [of img va "length xs" "length ys"] 
  show "reads img va (length xs) = xs" "reads img (va + length xs) (length ys) = ys" by simp_all
qed

lemma reads_overwrite:
  "n = length xs \<Longrightarrow> reads (overwrite va xs img) va n = xs"
  "v + n \<le> va \<or> va + length xs \<le> v \<Longrightarrow> reads (overwrite va xs img) v n = reads img v n"
  by (intro nth_equalityI; auto simp: overwrite_def reads_def)+

section \<open>Building\<close>

text \<open>The addresses of the arguments, and their characters with the nulls.\<close>

primrec arg_ptrs :: "nat \<Rightarrow> byte list list \<Rightarrow> nat list" where
  "arg_ptrs cp [] = []"
| "arg_ptrs cp (a # as) = cp # arg_ptrs (cp + length a + 1) as"

definition ptr_bytes :: "nat list \<Rightarrow> byte list" where
  "ptr_bytes ps = concat (map (\<lambda>p. int_bytes (int p)) ps)"

definition arg_bytes :: "byte list list \<Rightarrow> byte list" where
  "arg_bytes args = concat (map (\<lambda>a. a @ [0]) args)"

lemma arg_bytes_simps [simp]: "arg_bytes [] = []" "arg_bytes (a # as) = a @ 0 # arg_bytes as"
  by (simp_all add: arg_bytes_def)

lemma ptr_bytes_simps [simp]: "ptr_bytes [] = []" "ptr_bytes (p # ps) = int_bytes (int p) @ ptr_bytes ps"
  by (simp_all add: ptr_bytes_def)

lemma length_arg_ptrs [simp]: "length (arg_ptrs cp args) = length args"
  by (induction args arbitrary: cp) simp_all

lemma length_ptr_bytes [simp]: "length (ptr_bytes ps) = 4 * length ps"
  by (induction ps) simp_all

lemma length_arg_bytes [simp]: "length (arg_bytes args) = args_size args"
  by (induction args) (simp_all add: args_size_def)

lemma args_size_simps [simp]: "args_size [] = 0" "args_size (a # as) = length a + 1 + args_size as"
  by (simp_all add: args_size_def)

lemma store_args_image:
  assumes "usable H s a" "image H s a img" "SIZEOF_PTR H = 4" "a \<le> cpp" "cpp + 4 * length args \<le> cp"
    "cp + args_size args \<le> VMEM_1_LIMIT H"
  shows "\<exists>m. store_args H cpp cp args s = Done (cpp + 4 * length args) (s\<lparr>pmem := m\<rparr>) \<and>
     image H (s\<lparr>pmem := m\<rparr>) a (overwrite cpp (ptr_bytes (arg_ptrs cp args)) (overwrite cp (arg_bytes args) img))"
  using assms
proof (induction args arbitrary: cpp cp s img)
  case Nil
  then show ?case by (intro exI [of _ "pmem s"]) (simp add: retk_def)
next
  case (Cons x xs)
  let ?p = "int_bytes (int cp)"
  from Cons.prems copyout_image [of H s a img cpp ?p] obtain m1 where
    m1: "copyout H cpp ?p s = Done () (s\<lparr>pmem := m1\<rparr>)" "image H (s\<lparr>pmem := m1\<rparr>) a (overwrite cpp ?p img)" by auto
  from Cons.prems copyout_image [OF _ m1(2), of cp "x @ [0]"] obtain m2 where
    m2: "copyout H cp (x @ [0]) (s\<lparr>pmem := m1\<rparr>) = Done () (s\<lparr>pmem := m2\<rparr>)"
      "image H (s\<lparr>pmem := m2\<rparr>) a (overwrite cp (x @ [0]) (overwrite cpp ?p img))" by auto
  from Cons.prems Cons.IH [OF _ m2(2), of "cpp + 4" "cp + length x + 1"] obtain m3 where
    m3: "store_args H (cpp + 4) (cp + length x + 1) xs (s\<lparr>pmem := m2\<rparr>) = Done (cpp + 4 + 4 * length xs) (s\<lparr>pmem := m3\<rparr>)"
      "image H (s\<lparr>pmem := m3\<rparr>) a (overwrite (cpp + 4) (ptr_bytes (arg_ptrs (cp + length x + 1) xs))
         (overwrite (cp + length x + 1) (arg_bytes xs) (overwrite cp (x @ [0]) (overwrite cpp ?p img))))" by auto
  have "overwrite (cpp + 4) (ptr_bytes (arg_ptrs (cp + length x + 1) xs))
         (overwrite (cp + length x + 1) (arg_bytes xs) (overwrite cp (x @ [0]) (overwrite cpp ?p img))) =
      overwrite cpp (ptr_bytes (arg_ptrs cp (x # xs))) (overwrite cp (arg_bytes (x # xs)) img)"
    (is "overwrite _ ?ps _ = _")
  proof -
    have "overwrite (cp + length x + 1) (arg_bytes xs) (overwrite cp (x @ [0]) (overwrite cpp ?p img)) =
        overwrite cp (arg_bytes (x # xs)) (overwrite cpp ?p img)"
      using overwrite_append [of cp "x @ [0]" "arg_bytes xs"] by simp
    also have "\<dots> = overwrite cpp ?p (overwrite cp (arg_bytes (x # xs)) img)"
      using Cons.prems(5) by (intro overwrite_commute) simp
    finally show ?thesis using overwrite_append [of cpp ?p ?ps] by simp
  qed
  with m1(1) m2(1) m3 Cons.prems(3) show ?case by (auto simp: store_int_def bindk_def)
qed

definition arg_layout :: "(nat \<Rightarrow> byte) \<Rightarrow> nat \<Rightarrow> nat \<Rightarrow> byte list list \<Rightarrow> bool" where
  "arg_layout img p cp args \<longleftrightarrow> reads img p (4 * length args + 4) = ptr_bytes (arg_ptrs cp args) @ int_bytes 0 \<and>
     reads img cp (args_size args) = arg_bytes args"

section \<open>Reading\<close>

lemma load_string_image:
  assumes "usable H s a" "image H s a img" "a \<le> p" "p + length x + 1 \<le> VMEM_1_LIMIT H" "length x < fuel"
    "reads img p (length x + 1) = x @ [0]" "0 \<notin> set x"
  shows "load_string H fuel p s = Done x s"
  using assms(3-7)
proof (induction x arbitrary: p fuel)
  case Nil
  then obtain k where "fuel = Suc k" by (cases fuel) auto
  with Nil copyin_image [OF assms(1,2), of p 1] show ?case by (simp add: bindk_def retk_def)
next
  case (Cons b bs)
  then obtain k where k: "fuel = Suc k" "length bs < k" by (cases fuel) auto
  have r: "reads img p 1 = [b]" "reads img (Suc p) (length bs + 1) = bs @ [0]" 
    using reads_split [of img p "length (b # bs) + 1" "[b]" "bs @ [0]"] Cons.prems(4) by simp_all
  have "copyin H p 1 s = Done (reads img p 1) s"
    using Cons.prems by (intro copyin_image [OF assms(1,2)]) simp_all
  then have "copyin H p 1 s = Done [b] s" unfolding r(1) .
  moreover have "load_string H k (Suc p) s = Done bs s" using Cons k r by (intro Cons.IH) simp_all
  ultimately show ?case using k Cons.prems(5) by (simp add: bindk_def retk_def)
qed

lemma ptr_read_back: "p < 2 ^ 32 \<Longrightarrow> bytes_nat (int_bytes (int p)) = p"
  using bytes_nat_int_bytes [of "int p"] by simp

lemma load_args_image:
  assumes "usable H s a" "image H s a img" "SIZEOF_PTR H = 4" "VMEM_1_LIMIT H \<le> 2 ^ 32"
    "a \<le> p" "p + 4 * length args + 4 \<le> VMEM_1_LIMIT H" "a \<le> cp" "0 < cp" "cp + args_size args \<le> VMEM_1_LIMIT H"
    "arg_layout img p cp args" "\<forall>x \<in> set args. 0 \<notin> set x" "length args < fuel"
  shows "load_args H fuel p s = Done args s"
  using assms(5-12)
proof (induction args arbitrary: p cp fuel)
  case Nil
  then obtain k where "fuel = Suc k" by (cases fuel) auto
  with Nil copyin_image [OF assms(1,2), of p 4] bytes_nat_int_bytes [of 0] show ?case
    by (simp add: arg_layout_def load_ptr_def bindk_def retk_def)
next
  case (Cons x xs)
  then obtain k where k: "fuel = Suc k" "length xs < k" by (cases fuel) auto
  have "reads img p (4 * length (x # xs) + 4) = int_bytes (int cp) @ ptr_bytes (arg_ptrs (cp + length x + 1) xs) @ int_bytes 0"
    "reads img cp (args_size (x # xs)) = (x @ [0]) @ arg_bytes xs"
    using Cons.prems by (simp_all add: arg_layout_def)
  from this [THEN reads_split(1)] this [THEN reads_split(2)]
  have r: "reads img p 4 = int_bytes (int cp)" "reads img cp (length x + 1) = x @ [0]"
    "arg_layout img (p + 4) (cp + length x + 1) xs"
    by (simp_all add: arg_layout_def algebra_simps)
  have "copyin H p 4 s = Done (reads img p 4) s"
    using Cons.prems by (intro copyin_image [OF assms(1,2)]) simp_all
  then have "copyin H p 4 s = Done (int_bytes (int cp)) s" unfolding r(1) .
  moreover have "bytes_nat (int_bytes (int cp)) = cp"
    using Cons.prems assms(4) by (intro ptr_read_back) simp
  moreover have "load_string H (VMEM_1_LIMIT H) cp s = Done x s"
    using Cons.prems r(2) by (intro load_string_image [OF assms(1,2)]) simp_all
  moreover have "load_args H k (p + 4) s = Done xs s" using Cons.prems k r(3) by (intro Cons.IH) simp_all
  ultimately show ?case using k Cons.prems(4) assms(3) by (simp add: load_ptr_def bindk_def retk_def)
qed

section \<open>The stack of the new program\<close>

text \<open>The room the arguments need.\<close>

definition args_fit :: "hw \<Rightarrow> byte list list \<Rightarrow> bool" where
  "args_fit H args \<longleftrightarrow> SIZEOF_PTR H = 4 \<and> VMEM_1_LIMIT H \<le> 2 ^ 32 \<and> is_int (int (length args)) \<and>
     args_size args + (length args + 3 + POST_ARGV_NULL_SPACE H) * 4 \<le> VMEM_1_LIMIT H"

lemma arg_positions:
  assumes "args_fit H args"
  defines "cpp \<equiv> arg_cpp H (args_size args) (length args)" and "cp \<equiv> arg_cp H (args_size args)"
  shows "cpp + 4 * length args + 12 \<le> cp" "cp + args_size args = VMEM_1_LIMIT H" "8 dvd cpp"
proof -
  let ?n = "(length args + 3 + POST_ARGV_NULL_SPACE H) * 4"
  have fit: "args_size args + ?n \<le> VMEM_1_LIMIT H" "SIZEOF_PTR H = 4" using assms(1) by (auto simp: args_fit_def)
  then show "cp + args_size args = VMEM_1_LIMIT H" by (simp add: cp_def arg_cp_def)
  have "?n \<le> cp" using fit(1) by (simp add: cp_def arg_cp_def)
  moreover have "cpp \<le> cp - ?n" using fit(2) by (simp add: cpp_def cp_def arg_cpp_def)
  ultimately show "cpp + 4 * length args + 12 \<le> cp" by simp
  show "8 dvd cpp" by (simp add: cpp_def arg_cpp_def)
qed

lemma build_stack_image:
  assumes "args_fit H args" "usable H s (arg_cpp H (args_size args) (length args))"
  defines "cpp \<equiv> arg_cpp H (args_size args) (length args)" and "cp \<equiv> arg_cp H (args_size args)"
  shows "\<exists>m img. build_stack H args s = Done () (s\<lparr>pmem := m\<rparr>) \<and> image H (s\<lparr>pmem := m\<rparr>) cpp img \<and>
     reads img cpp 4 = int_bytes (int (length args)) \<and> arg_layout img (cpp + 4) cp args \<and>
     reads img (cpp + 4 * length args + 8) 4 = int_bytes 0"
proof -
  let ?n = "length args" and ?L = "VMEM_1_LIMIT H" and ?ps = "ptr_bytes (arg_ptrs cp args)"
  let ?zeros = "replicate (?L - cpp) (0 :: byte)"
  have pos: "cpp + 4 * ?n + 12 \<le> cp" "cp + args_size args = ?L" and ptr: "SIZEOF_PTR H = 4"
    using arg_positions [OF assms(1)] assms(1) by (simp_all add: cpp_def cp_def args_fit_def)
  have us: "usable H (s\<lparr>pmem := m\<rparr>) cpp" for m using assms(2) by (simp add: cpp_def)
  have start: "image H s cpp (cell H s PROT_READ)" by (simp add: image_def)
  note at = copyout_image [OF us, simplified]
  let ?i0 = "overwrite cpp ?zeros (cell H s PROT_READ)"
  obtain m0 where m0: "copyout H cpp ?zeros s = Done () (s\<lparr>pmem := m0\<rparr>)" "image H (s\<lparr>pmem := m0\<rparr>) cpp ?i0"
    using copyout_image [of H s cpp "cell H s PROT_READ" cpp ?zeros] us [of "pmem s"] start pos by auto
  let ?i1 = "overwrite cpp (int_bytes (int ?n)) ?i0"
  obtain m1 where m1: "copyout H cpp (int_bytes (int ?n)) (s\<lparr>pmem := m0\<rparr>) = Done () (s\<lparr>pmem := m1\<rparr>)"
      "image H (s\<lparr>pmem := m1\<rparr>) cpp ?i1"
    using at [OF m0(2), of cpp "int_bytes (int ?n)"] pos by auto
  let ?i2 = "overwrite (cpp + 4) ?ps (overwrite cp (arg_bytes args) ?i1)"
  obtain m2 where m2: "store_args H (cpp + 4) cp args (s\<lparr>pmem := m1\<rparr>) = Done (cpp + 4 + 4 * ?n) (s\<lparr>pmem := m2\<rparr>)"
      "image H (s\<lparr>pmem := m2\<rparr>) cpp ?i2"
    using store_args_image [OF us m1(2) ptr, of "cpp + 4" args cp] pos by auto
  let ?i3 = "overwrite (cpp + 4 + 4 * ?n) (int_bytes 0) ?i2"
  obtain m3 where m3: "copyout H (cpp + 4 + 4 * ?n) (int_bytes 0) (s\<lparr>pmem := m2\<rparr>) = Done () (s\<lparr>pmem := m3\<rparr>)"
      "image H (s\<lparr>pmem := m3\<rparr>) cpp ?i3"
    using at [OF m2(2), of "cpp + 4 + 4 * ?n" "int_bytes 0"] pos by auto
  let ?i4 = "overwrite (cpp + 4 + 4 * ?n + 4) (int_bytes 0) ?i3"
  obtain m4 where m4: "copyout H (cpp + 4 + 4 * ?n + 4) (int_bytes 0) (s\<lparr>pmem := m3\<rparr>) = Done () (s\<lparr>pmem := m4\<rparr>)"
      "image H (s\<lparr>pmem := m4\<rparr>) cpp ?i4"
    using at [OF m3(2), of "cpp + 4 + 4 * ?n + 4" "int_bytes 0"] pos by auto
  have run: "build_stack H args s = Done () (s\<lparr>pmem := m4\<rparr>)"
    using m0(1) m1(1) m2(1) m3(1) m4(1)
    by (simp add: build_stack_def Let_def store_int_def bindk_def ptr cpp_def cp_def)
  have argc: "reads ?i4 cpp 4 = int_bytes (int ?n)" using pos by (simp add: reads_overwrite)
  have argv: "reads ?i4 (cpp + 4) (4 * ?n) = ?ps" using pos by (simp add: reads_overwrite)
  have nul: "reads ?i4 (cpp + 4 + 4 * ?n) 4 = int_bytes 0" using pos by (simp add: reads_overwrite)
  have strs: "reads ?i4 cp (args_size args) = arg_bytes args" using pos by (simp add: reads_overwrite)
  have envp: "reads ?i4 (cpp + 4 * ?n + 8) 4 = int_bytes 0"
    using reads_overwrite(1) [of 4 "int_bytes 0" "cpp + 4 + 4 * ?n + 4" ?i3] by (simp add: algebra_simps)
  have "arg_layout ?i4 (cpp + 4) cp args"
    unfolding arg_layout_def reads_add argv nul using strs by simp
  then show ?thesis using run m4(2) argc envp by blast
qed

lemma args_roundtrip:
  assumes "args_fit H args" "usable H s (arg_cpp H (args_size args) (length args))" "\<forall>x \<in> set args. 0 \<notin> set x"
    "length args < fuel"
  shows "\<exists>m. build_stack H args s = Done () (s\<lparr>pmem := m\<rparr>) \<and>
     load_int H (arg_cpp H (args_size args) (length args)) (s\<lparr>pmem := m\<rparr>) = Done (int (length args)) (s\<lparr>pmem := m\<rparr>) \<and>
     load_args H fuel (arg_cpp H (args_size args) (length args) + 4) (s\<lparr>pmem := m\<rparr>) = Done args (s\<lparr>pmem := m\<rparr>)"
proof -
  let ?cpp = "arg_cpp H (args_size args) (length args)" and ?cp = "arg_cp H (args_size args)"
  have pos: "?cpp + 4 * length args + 12 \<le> ?cp" "?cp + args_size args = VMEM_1_LIMIT H"
    using arg_positions [OF assms(1)] by simp_all
  from build_stack_image [OF assms(1,2)] obtain m img where
    m: "build_stack H args s = Done () (s\<lparr>pmem := m\<rparr>)" "image H (s\<lparr>pmem := m\<rparr>) ?cpp img"
      "reads img ?cpp 4 = int_bytes (int (length args))" "arg_layout img (?cpp + 4) ?cp args" by blast
  have us: "usable H (s\<lparr>pmem := m\<rparr>) ?cpp" using assms(2) by simp
  have "copyin H ?cpp 4 (s\<lparr>pmem := m\<rparr>) = Done (reads img ?cpp 4) (s\<lparr>pmem := m\<rparr>)"
    using pos by (intro copyin_image [OF us m(2)]) simp_all
  then have "load_int H ?cpp (s\<lparr>pmem := m\<rparr>) = Done (int (length args)) (s\<lparr>pmem := m\<rparr>)"
    using assms(1) by (simp add: m(3) load_int_def bindk_def retk_def bytes_int_int_bytes args_fit_def)
  moreover have "load_args H fuel (?cpp + 4) (s\<lparr>pmem := m\<rparr>) = Done args (s\<lparr>pmem := m\<rparr>)"
    using pos assms(1,3,4) by (intro load_args_image [OF us m(2) _ _ _ _ _ _ _ m(4)]) (simp_all add: args_fit_def)
  ultimately show ?thesis using m(1) by blast
qed

section \<open>After LoadProgram\<close>

text \<open>What only writes memory.\<close>

definition but_memory :: "kstate \<Rightarrow> kstate" where
  "but_memory s = s\<lparr>pmem := (\<lambda>f off. 0)\<rparr>"

lemma but_memoryD: "but_memory t = but_memory s \<Longrightarrow> t = s\<lparr>pmem := pmem t\<rparr>"
proof -
  assume "but_memory t = but_memory s"
  then have "(but_memory t)\<lparr>pmem := pmem t\<rparr> = (but_memory s)\<lparr>pmem := pmem t\<rparr>" by simp
  then show ?thesis by (simp add: but_memory_def)
qed

lemma memory_copyout: "keeps but_memory (copyout H va xs)"
  by (induction xs arbitrary: va) (auto intro!: keeps_rules simp: but_memory_def)

lemma memory_store_args: "keeps but_memory (store_args H cpp cp as)"
  by (induction as arbitrary: cpp cp) (auto intro!: keeps_rules memory_copyout simp: store_int_def)

lemma memory_build_stack: "keeps but_memory (build_stack H args)"
  unfolding build_stack_def store_int_def Let_def by (intro keeps_rules memory_copyout memory_store_args)

text \<open>What does not touch the user context of a process.\<close>

definition uctxt_of :: "ptr \<Rightarrow> kstate \<Rightarrow> UserContext option option" where
  "uctxt_of p s = map_option uctxt (pcbs s p)"

lemma uctxt_machine: "keeps kernel_part m \<Longrightarrow> keeps (uctxt_of p) m"
  by (erule keeps_via) (simp add: uctxt_of_def kernel_part_def)

lemma uctxt_memory:
  "keeps (uctxt_of p) (copyin H va n)" "keeps (uctxt_of p) (copyout H va xs)"
proof -
  show "keeps (uctxt_of p) (copyin H va n)"
    by (induction n arbitrary: va) (auto intro!: keeps_rules)
  show "keeps (uctxt_of p) (copyout H va xs)"
    by (induction xs arbitrary: va) (auto intro!: keeps_rules simp: uctxt_of_def)
qed

lemma uctxt_upd_pcb:
  "(\<And>c. uctxt (f c) = uctxt c) \<Longrightarrow> keeps (uctxt_of p) (upd_pcb q f)"
  by (auto simp: keeps_def upd_pcb_def get_pcb_def bindk_def fetch_def modk_def uctxt_of_def split: option.splits)

lemma uctxt_load_segments: "keeps (uctxt_of p) (load_segments H exe li q table n)"
  unfolding load_segments_def free_region1_def map_pages_def protect_text_def read_segment_def entry_nth_def Let_def
  by (intro keeps_rules uctxt_memory keeps_machine [THEN uctxt_machine] uctxt_upd_pcb; simp)

lemma wlp_pcb:
  "wlp (get_pcb p) Q R s \<longleftrightarrow> (\<forall>c. pcbs s p = Some c \<longrightarrow> Q c s)"
  "wlp (nonnull v) Q' R s \<longleftrightarrow> (\<forall>x. v = Some x \<longrightarrow> Q' x s)"
  by (auto simp: get_pcb_def nonnull_def wlp_simps split: option.splits)

lemma wlp_upd_uctxt:
  "wlp (upd_uctxt p f) Q R s \<longleftrightarrow> (\<forall>c u. pcbs s p = Some c \<longrightarrow> uctxt c = Some u \<longrightarrow>
     Q () (s\<lparr>pcbs := (pcbs s)(p \<mapsto> c\<lparr>uctxt := Some (f u)\<rparr>)\<rparr>))"
  by (auto simp: upd_uctxt_def upd_pcb_def get_pcb_def nonnull_def wlp_simps split: option.splits)

text \<open>The last part: the entry point and the arguments.\<close>

lemma wlp_last_part:
  assumes "uctxt_of p s = Some (Some u)"
  shows "wlp (bindk (upd_uctxt p (\<lambda>u. u\<lparr>uc_pc := e\<rparr>)) (\<lambda>_. bindk (build_stack H args) (\<lambda>_. retk SUCCESS)))
     (\<lambda>r t. uctxt_of p t = Some (Some (u\<lparr>uc_pc := e\<rparr>)) \<and> (\<exists>v. build_stack H args v = Done () t)) (\<lambda>_. True) s"
proof -
  have stack: "wlp (build_stack H args) (\<lambda>_ t. uctxt_of p t = uctxt_of p v \<and> (\<exists>v. build_stack H args v = Done () t)) (\<lambda>_. True) v" for v
  proof -
    have "keeps (uctxt_of p) (build_stack H args)"
      by (rule keeps_via [OF memory_build_stack]) (simp add: but_memory_def uctxt_of_def)
    then show ?thesis by (auto simp: wlp_def keeps_def)
  qed
  show ?thesis
    using assms
    by (auto simp: wlp_upd_uctxt wlp_bindk wlp_basic uctxt_of_def intro!: wlp_mono [OF stack])
qed

text \<open>A program that was loaded finds its arguments, its entry point and its stack pointer.\<close>

lemma wlp_LoadProgram:
  assumes "get_args s = Done args s"
  shows "wlp (LoadProgram H (Some exe) get_args proc) (\<lambda>r t. r = SUCCESS \<longrightarrow>
     (\<exists>li u v. exe_info exe = Some li \<and> uctxt_of proc t = Some (Some u) \<and>
       uc_sp u = arg_sp H (args_size args) (length args) \<and> uc_pc u = li_entry li \<and> build_stack H args v = Done () t)) (\<lambda>_. True) s"
proof -
  let ?Q = "\<lambda>r t. r = SUCCESS \<longrightarrow> (\<exists>li u v. exe_info exe = Some li \<and> uctxt_of proc t = Some (Some u) \<and>
       uc_sp u = arg_sp H (args_size args) (length args) \<and> uc_pc u = li_entry li \<and> build_stack H args v = Done () t)"
  have args: "wlp get_args Q R s \<longleftrightarrow> Q args s" for Q R using assms by (simp add: wlp_def)
  have rest: "wlp (bindk (load_segments H exe li proc table n) (\<lambda>r. if r \<noteq> SUCCESS then retk r else
       bindk (upd_uctxt proc (\<lambda>u. u\<lparr>uc_pc := li_entry li\<rparr>)) (\<lambda>_. bindk (build_stack H args) (\<lambda>_. retk SUCCESS))))
      ?Q (\<lambda>_. True) v"
    if "exe_info exe = Some li" "uctxt_of proc v = Some (Some u)" "uc_sp u = arg_sp H (args_size args) (length args)"
    for li table n v u
    unfolding wlp_bindk [of "load_segments _ _ _ _ _ _"]
    using that
    by (intro wlp_keeps [OF uctxt_load_segments [of proc]])
       (auto simp: wlp_cases wlp_basic intro!: wlp_mono [OF wlp_last_part])
  have mid: "wlp (bindk (get_pcb proc) (\<lambda>pc. bindk (nonnull (r1PageTable pc)) (\<lambda>table.
       bindk (load_segments H exe li proc table n) (\<lambda>r. if r \<noteq> SUCCESS then retk r else
       bindk (upd_uctxt proc (\<lambda>u. u\<lparr>uc_pc := li_entry li\<rparr>)) (\<lambda>_. bindk (build_stack H args) (\<lambda>_. retk SUCCESS))))))
      ?Q (\<lambda>_. True) v"
    if "exe_info exe = Some li" "uctxt_of proc v = Some (Some u)" "uc_sp u = arg_sp H (args_size args) (length args)"
    for li n v u
    unfolding wlp_bindk [of "get_pcb _"] wlp_bindk [of "nonnull _"] wlp_pcb
    by (intro allI impI rest [OF that])
  show ?thesis
    unfolding LoadProgram_def Let_def
    apply (simp only: option.case wlp_bindk [of "upd_uctxt _ _"] wlp_bindk [of get_args] wlp_bindk [of malloc_okk]
        wlp_basic wlp_cases wlp_mallock args wlp_upd_uctxt)
    apply (intro allI impI conjI)
        apply (simp, simp, simp, simp)
    by (rule mid, assumption, simp add: uctxt_of_def, simp)
qed

text \<open>Writing memory does not change which pages are usable.\<close>

lemma usable_memory: "but_memory t = but_memory s \<Longrightarrow> usable H t a = usable H s a"
  using but_memoryD [of t s] by (metis usable_pmem)

lemma loaded_program:
  assumes "LoadProgram H (Some exe) get_args proc s = Done SUCCESS t" "get_args s = Done args s" "args_fit H args"
    "usable H t (arg_cpp H (args_size args) (length args))" "\<forall>x \<in> set args. 0 \<notin> set x" "length args < fuel"
  shows "\<exists>li u. exe_info exe = Some li \<and> uctxt_of proc t = Some (Some u) \<and>
     uc_sp u = arg_sp H (args_size args) (length args) \<and> uc_pc u = li_entry li \<and>
     load_int H (arg_cpp H (args_size args) (length args)) t = Done (int (length args)) t \<and>
     load_args H fuel (arg_cpp H (args_size args) (length args) + 4) t = Done args t"
proof -
  from wlp_LoadProgram [where get_args = get_args and s = s and args = args and H = H and exe = exe and proc = proc] assms(1,2) obtain li u v where
    li: "exe_info exe = Some li" "uctxt_of proc t = Some (Some u)" "uc_sp u = arg_sp H (args_size args) (length args)"
      "uc_pc u = li_entry li" and v: "build_stack H args v = Done () t" by (auto simp: wlp_def)
  have "but_memory t = but_memory v" using memory_build_stack v by (auto simp: keeps_def)
  then have "usable H v (arg_cpp H (args_size args) (length args))" using usable_memory assms(4) by blast
  from args_roundtrip [OF assms(3) this assms(5,6)] v li show ?thesis by auto
qed

section \<open>The stack pages\<close>

text \<open>\<^verbatim>\<open>stack_npg\<close> as \<^verbatim>\<open>LoadProgram\<close> computes it.\<close>

definition stack_pages :: "hw \<Rightarrow> nat \<Rightarrow> nat" where
  "stack_pages H sp = vpn_of H (VMEM_1_LIMIT H - DOWN_TO_PAGE H sp)"

lemma stack_pages_bounds:
  assumes "hw_ok H" "sp \<le> VMEM_1_LIMIT H" "0 \<le> d" "int (stack_pages H sp) + d + int n < int (MAX_PT_LEN H)"
  shows "VMEM_1_BASE H + (MAX_PT_LEN H - stack_pages H sp) * PAGESIZE H = DOWN_TO_PAGE H sp"
    "DOWN_TO_PAGE H sp \<le> sp"
    "VMEM_1_BASE H + (nat d + n) * PAGESIZE H + PAGESIZE H \<le> DOWN_TO_PAGE H sp"
proof -
  let ?P = "PAGESIZE H" and ?M = "MAX_PT_LEN H" and ?q = "sp div PAGESIZE H"
  have P: "0 < ?P" "?P = 2 ^ PAGESHIFT H" using assms(1) by (simp_all add: hw_ok_def)
  have base: "VMEM_1_BASE H = ?M * ?P" "VMEM_1_LIMIT H = 2 * ?M * ?P" and down: "DOWN_TO_PAGE H sp = ?q * ?P"
    using assms(1) by (simp_all add: hw_ok_def)
  have q: "?q \<le> 2 * ?M" using div_le_mono [OF assms(2), of ?P] P by (simp add: base)
  have "VMEM_1_LIMIT H - DOWN_TO_PAGE H sp = (2 * ?M - ?q) * ?P" by (simp add: base down diff_mult_distrib)
  then have n: "stack_pages H sp = 2 * ?M - ?q" using P by (simp add: stack_pages_def vpn_of_def)
  then have le: "stack_pages H sp \<le> ?M" "?M - stack_pages H sp = ?q - ?M" "?M \<le> ?q" "?M + (nat d + n) + 1 \<le> ?q"
    using assms(3,4) q by linarith+
  show "VMEM_1_BASE H + (?M - stack_pages H sp) * ?P = DOWN_TO_PAGE H sp"
    unfolding base down le(2) using le(3) by (simp add: diff_mult_distrib)
  show "DOWN_TO_PAGE H sp \<le> sp" by (simp add: down)
  show "VMEM_1_BASE H + (nat d + n) * ?P + ?P \<le> DOWN_TO_PAGE H sp"
    using mult_le_mono1 [OF le(4), of ?P] by (simp add: base down algebra_simps)
qed

text \<open>A program is loaded only when its pages and the stack leave one page free between them.\<close>

lemma loaded_room:
  assumes "LoadProgram H (Some exe) get_args proc s = Done SUCCESS t" "get_args s = Done args s" "exe_info exe = Some li"
  shows "int (stack_pages H (arg_sp H (args_size args) (length args))) + r1_index H (id_vaddr li) +
     int (id_npg li + ud_npg li) < int (MAX_PT_LEN H)"
  using assms
  by (auto simp: LoadProgram_def Let_def bindk_eq_Done stack_pages_def retk_def split: if_splits)

end
