(* ===== verification/ExecDemo.thy ===== *)
theory ExecDemo
  imports ExecArgs BootDemo
begin

text \<open>A program loaded on the machine of the boot, with one argument, evaluated in the same way.\<close>

definition exec_ptes :: "ptr \<Rightarrow> pte option" where
  "exec_ptes a = (if a \<in> set [1000, 1004, 1008, 1012, 1016, 1100, 1104, 1108, 1112, 1116]
     then Some \<lparr>pte_valid = False, pte_prot = {}, pte_pfn = 0\<rparr> else None)"

definition exec_state :: kstate where
  "exec_state = power_on\<lparr>frameList := Some (init_frames boot_hw 16 15 0), numFrames := 15, ptes := exec_ptes,
     REG_PTBR0 := 1000, REG_PTLR0 := 5, REG_PTBR1 := 1100, REG_PTLR1 := 5, REG_VM_ENABLE := True,
     currPCB := 20, pcbs := [20 \<mapsto> blank_pcb 1 (Some KStart) None (Some 1100)]\<rparr>"

definition exec_file :: executable where
  "exec_file = \<lparr>exe_info = Some \<lparr>li_entry = 80, t_vaddr = 80, t_npg = 1, t_faddr = 0,
        id_vaddr = 96, id_npg = 0, id_faddr = 16, id_end = 96, ud_npg = 0, ud_end = 96\<rparr>,
        exe_read = (\<lambda>off n. replicate n 7)\<rparr>"

definition exec_args :: "byte list list" where
  "exec_args = [[105]]"

text \<open>The tables the program was loaded with: the two stack pages have frames of their own.\<close>

fun loaded :: "(rc, kstate) outcome \<Rightarrow> bool" where
  "loaded (Done r t) = (r = SUCCESS \<and> REG_PTBR0 t = 1000 \<and> REG_PTBR1 t = 1100 \<and>
     (\<exists>f g. f \<noteq> g \<and> ptes t 1112 = Some \<lparr>pte_valid = True, pte_prot = {PROT_READ, PROT_WRITE}, pte_pfn = f\<rparr> \<and>
       ptes t 1116 = Some \<lparr>pte_valid = True, pte_prot = {PROT_READ, PROT_WRITE}, pte_pfn = g\<rparr>))"
| "loaded (Switch t) = False"
| "loaded (Halt t) = False"
| "loaded (Fault e) = False"

lemma exec_loads: "loaded (run (LoadProgram boot_hw (Some exec_file) (retk exec_args) 20) exec_state)"
  by (simp add: ev power_on_def exec_state_def exec_ptes_def exec_file_def exec_args_def LoadProgram_def blank_pcb_def
    run_frames boot_frames getFrame_def load_segments_def
    build_stack_def upd_uctxt_def upd_pcb_def get_pcb_def 
    arg_sp_def arg_cpp_def arg_cp_def args_size_def r1_index_def free_region1_def map_pages_def
    entry_nth_def protect_text_def read_segment_def store_int_def run_copyout replicate_step
    free_scan_step translate_def walk_def pte_of_vpn_def int_bytes_def upt_4 invalidatePageTableEntry_def
    freeFrame_def
    cong: bindr_weak_cong)

lemma exec_runs:
  "\<exists>t. LoadProgram boot_hw (Some exec_file) (retk exec_args) 20 exec_state = Done SUCCESS t \<and>
     loaded (Done SUCCESS t)"
  using exec_loads
  by (cases "LoadProgram boot_hw (Some exec_file) (retk exec_args) 20 exec_state") (simp_all add: run_def)

lemma exec_positions:
  "arg_cpp boot_hw (args_size exec_args) (length exec_args) = 136" "arg_sp boot_hw (args_size exec_args) (length exec_args) = 136"
  "args_fit boot_hw exec_args"
  by (simp_all add: arg_cpp_def arg_cp_def arg_sp_def args_size_def exec_args_def args_fit_def is_int_def INT_MAX_def)

lemma exec_usable:
  assumes "loaded (Done SUCCESS t)"
  shows "usable boot_hw t 136"
proof -
  from assms obtain f g where fg: "f \<noteq> g"
    "REG_PTBR1 t = 1100" "ptes t 1112 = Some \<lparr>pte_valid = True, pte_prot = {PROT_READ, PROT_WRITE}, pte_pfn = f\<rparr>"
    "ptes t 1116 = Some \<lparr>pte_valid = True, pte_prot = {PROT_READ, PROT_WRITE}, pte_pfn = g\<rparr>" by auto
  have tr: "translate boot_hw t need (136 + i) = Some (if i < 8 then f else g, (136 + i) mod 16)"
    if "i < 24" "need = PROT_READ \<or> need = PROT_WRITE" for i need
  proof (cases "i < 8")
    case True
    then have "(136 + i) div 16 = 8" by simp
    then show ?thesis using that fg True by (auto simp: translate_def walk_def pte_of_vpn_def vpn_of_def)
  next
    case False
    then have "(136 + i) div 16 = 9" using that by simp
    then show ?thesis using that fg False by (auto simp: translate_def walk_def pte_of_vpn_def vpn_of_def)
  qed
  have "spread boot_hw t 136 24"
    unfolding spread_def
  proof (intro allI impI)
    fix i j
    assume ij: "i < 24" "j < 24" "translate boot_hw t PROT_WRITE (136 + i) = translate boot_hw t PROT_WRITE (136 + j)"
    then have "(i < 8) = (j < 8)" "(136 + i) mod 16 = (136 + j) mod 16" using tr fg(1) by (auto split: if_splits)
    moreover have "i - 8 < 16" "j - 8 < 16" using ij(1,2) by simp_all
    ultimately show "i = j" by (cases "i < 8") (auto simp: mod_if)
  qed
  then show ?thesis using tr by (simp add: usable_def mapped_def)
qed

end
