(* ===== verification/World.thy ===== *)
theory World
  imports BootSched
begin

text \<open>
  The invariant of the scheduler for the whole machine. \<open>sched_ok\<close> of \<open>Scheduler_Props\<close> is strengthened so
  that every kernel operation preserves it: the tables come from the allocator, no two processes share one,
  every pid was given out, and a process whose saved context is inside a terminal write is the one its
  terminal is working for.
\<close>

section \<open>Processes and queues\<close>

definition table_of :: "kstate \<Rightarrow> ptr \<Rightarrow> ptr option" where
  "table_of s p = (case pcbs s p of None \<Rightarrow> None | Some c \<Rightarrow> r1PageTable c)"

definition saved_at :: "kstate \<Rightarrow> ptr \<Rightarrow> kcont option" where
  "saved_at s p = (case pcbs s p of None \<Rightarrow> None | Some c \<Rightarrow> kctxt c)"

definition machine_base :: "hw \<Rightarrow> kstate \<Rightarrow> bool" where
  "machine_base H s \<longleftrightarrow> hw_ok H \<and> mallocs_ok s \<and> blocks_apart H s \<and> from_malloc s (REG_PTBR0 s) \<and>
     has_table H s (REG_PTBR0 s) \<and> REG_PTLR0 s = MAX_PT_LEN H \<and> REG_PTLR1 s = MAX_PT_LEN H \<and> stack_base_ok H s \<and>
     0 \<le> nextPid s"

definition proc_ok :: "hw \<Rightarrow> kstate \<Rightarrow> ptr \<Rightarrow> bool" where
  "proc_ok H s p \<longleftrightarrow> (\<exists>c b. pcbs s p = Some c \<and> length (stackPfns c) = KSTACK_NPG H \<and> 0 \<le> pid c \<and>
     pid c < nextPid s \<and> r1PageTable c = Some b \<and> from_malloc s b \<and> has_table H s b \<and> b \<noteq> REG_PTBR0 s)"

text \<open>
  \<open>A\<close> remembers blocks of an earlier state, by address and identifier, and whether they were in one of the
  places: as long as such a block exists this has not changed.
\<close>

type_synonym memory = "(ptr \<times> int \<times> bool) set"

definition kept :: "memory \<Rightarrow> kstate \<Rightarrow> ptr list \<Rightarrow> bool" where
  "kept A s ps \<longleftrightarrow> (\<forall>(p, n, b) \<in> A. n < nextPid s \<and> (\<forall>c. pcbs s p = Some c \<longrightarrow> pid c = n \<longrightarrow> (p \<in> set ps \<longleftrightarrow> b)))"

lemma keptI:
  "(\<And>p n b. (p, n, b) \<in> A \<Longrightarrow> n < nextPid s) \<Longrightarrow>
   (\<And>p c b. (p, pid c, b) \<in> A \<Longrightarrow> pcbs s p = Some c \<Longrightarrow> p \<in> set ps \<longleftrightarrow> b) \<Longrightarrow> kept A s ps"
  by (auto simp: kept_def)

lemma keptD:
  "kept A s ps \<Longrightarrow> (p, n, b) \<in> A \<Longrightarrow> n < nextPid s"
  "kept A s ps \<Longrightarrow> (p, pid c, b) \<in> A \<Longrightarrow> pcbs s p = Some c \<Longrightarrow> p \<in> set ps \<longleftrightarrow> b"
  by (auto simp: kept_def)

definition procs :: "hw \<Rightarrow> memory \<Rightarrow> kstate \<Rightarrow> ptr list \<Rightarrow> bool" where
  "procs H A s ps \<longleftrightarrow> machine_base H s \<and> distinct ps \<and> (\<forall>p \<in> set ps. proc_ok H s p) \<and>
     inj_on (pid_of s) (set ps) \<and> inj_on (table_of s) (set ps) \<and> kept A s ps"

definition queues :: "hw \<Rightarrow> kstate \<Rightarrow> bool" where
  "queues H s \<longleftrightarrow> readyQ s \<noteq> None \<and> map_ok s (blockedMap s) \<and> map_ok s (sleepingMap s) \<and> tty_ok H s"

text \<open>What \<open>procs\<close> and \<open>queues\<close> depend on.\<close>

definition mem_part :: "kstate \<Rightarrow> ptr set \<times> nat \<times> nat \<times> nat \<times> (nat \<Rightarrow> ptr option) \<times> ptr \<times> int" where
  "mem_part s = (dom (ptes s), REG_PTBR0 s, REG_PTLR0 s, REG_PTLR1 s, malloc_oracle s, r0StackBasePtep s, nextPid s)"

lemma mem_part_eq:
  "mem_part t = mem_part s \<longleftrightarrow> dom (ptes t) = dom (ptes s) \<and> REG_PTBR0 t = REG_PTBR0 s \<and> REG_PTLR0 t = REG_PTLR0 s \<and>
     REG_PTLR1 t = REG_PTLR1 s \<and> malloc_oracle t = malloc_oracle s \<and> r0StackBasePtep t = r0StackBasePtep s \<and> nextPid t = nextPid s"
  by (auto simp: mem_part_def)

lemma machine_base_cong: "mem_part t = mem_part s \<Longrightarrow> machine_base H t = machine_base H s"
  by (auto simp: mem_part_eq machine_base_def mallocs_ok_def blocks_apart_def from_malloc_def has_table_dom_iff stack_base_ok_def)

lemma proc_ok_cong:
  assumes "mem_part t = mem_part s" "same_pcbs (pcbs s) (pcbs t)"
  shows "proc_ok H t p = proc_ok H s p"
proof -
  have eq: "map_option (\<lambda>c. (pid c, stackPfns c, r1PageTable c)) (pcbs t p) =
      map_option (\<lambda>c. (pid c, stackPfns c, r1PageTable c)) (pcbs s p)"
    using assms(2) by (simp add: same_pcbs_def)
  then show ?thesis
    using assms(1)
    by (cases "pcbs s p"; cases "pcbs t p") (auto simp: proc_ok_def mem_part_eq from_malloc_def has_table_dom_iff)
qed

lemma same_pcbs_table: "same_pcbs (pcbs s) (pcbs t) \<Longrightarrow> table_of t p = table_of s p"
  by (simp add: same_pcbs_def table_of_def split: option.splits) (metis (no_types, lifting) Pair_inject option.map_disc_iff option.map(2) option.inject option.distinct(1))

lemma kept_cong:
  assumes "kept A s ps" "nextPid t = nextPid s" "same_pcbs (pcbs s) (pcbs t)" "set qs = set ps"
  shows "kept A t qs"
proof -
  have "\<exists>c'. pcbs s p = Some c' \<and> pid c' = pid c" if "pcbs t p = Some c" for p c
    using assms(3) that by (cases "pcbs s p") (auto simp: same_pcbs_def dest!: spec [of _ p])
  then show ?thesis using assms by (fastforce simp: kept_def)
qed

lemma procs_cong:
  assumes "procs H A s ps" "mem_part t = mem_part s" "same_pcbs (pcbs s) (pcbs t)" "mset qs = mset ps"
  shows "procs H A t qs"
proof -
  have "set qs = set ps" "distinct qs = distinct ps"
    using assms(4) mset_eq_setD mset_eq_imp_distinct_iff by blast+
  then show ?thesis
    using assms(1) machine_base_cong [OF assms(2)] proc_ok_cong [OF assms(2,3)]
      same_pcbs_pid_of [OF assms(3)] same_pcbs_table [OF assms(3)]
      kept_cong [OF _ _ assms(3), of A ps qs] assms(2)
    by (simp add: procs_def inj_on_def mem_part_eq)
qed

lemma queues_cong:
  assumes "queues H s" "same_pcbs (pcbs s) (pcbs t)" "queue_part t = queue_part s"
  shows "queues H t"
  using assms(1,3) same_pcbs_pid_of [OF assms(2)]
  by (simp add: queues_def queue_part_def map_ok_def tty_ok_def)

section \<open>Switching\<close>

text \<open>The loops over the kernel stack change entries of existing tables only.\<close>

definition entries_part :: "kstate \<Rightarrow> ptr set \<times> kstate" where
  "entries_part s = (dom (ptes s), s\<lparr>ptes := Map.empty, tlb_log := []\<rparr>)"

lemma steady_entries: "steady entries_part (setPageTableEntry H a v p f)"
  unfolding setPageTableEntry_def setPageTableEntryNoFlush_def flush_pte_def flushk_def bindk_assoc
  by (auto simp: steady_def wlp_simps entries_part_def)

lemma map_stack_entries: "steady entries_part (map_kernel_stack H)"
  unfolding map_kernel_stack_def by (intro steady_rules steady_entries)

lemma entries_partD: "entries_part t = entries_part s \<Longrightarrow> dom (ptes t) = dom (ptes s) \<and> (\<exists>P l. t = s\<lparr>ptes := P, tlb_log := l\<rparr>)"
proof -
  assume "entries_part t = entries_part s"
  then have d: "dom (ptes t) = dom (ptes s)" and e: "t\<lparr>ptes := Map.empty, tlb_log := []\<rparr> = s\<lparr>ptes := Map.empty, tlb_log := []\<rparr>"
    by (simp_all add: entries_part_def)
  from arg_cong [OF e, of "\<lambda>u. u\<lparr>ptes := ptes t, tlb_log := tlb_log t\<rparr>"]
  have "t = s\<lparr>ptes := ptes t, tlb_log := tlb_log t\<rparr>" by simp
  with d show ?thesis by blast
qed

definition moved_to :: "kcont \<Rightarrow> ptr option \<Rightarrow> ptr \<Rightarrow> kstate \<Rightarrow> kstate \<Rightarrow> bool" where
  "moved_to k old n s t \<longleftrightarrow> mem_part t = mem_part s \<and> queue_part t = queue_part s \<and> currPCB t = n \<and>
     pcbs t = switched_pcbs k old n (pcbs s) \<and> Some (REG_PTBR1 t) = table_of s n"

lemma wlp_pcbs:
  "wlp (switchk f) Q R s \<longleftrightarrow> R (f s)"
  "wlp (get_pcb p) Q4 R s \<longleftrightarrow> (\<forall>pc. pcbs s p = Some pc \<longrightarrow> Q4 pc s)"
  "wlp (upd_pcb p g) Q3 R s \<longleftrightarrow> (\<forall>pc. pcbs s p = Some pc \<longrightarrow> Q3 () (s\<lparr>pcbs := (pcbs s)(p \<mapsto> g pc)\<rparr>))"
  "wlp (nonnull v) Q5 R s \<longleftrightarrow> (\<forall>x. v = Some x \<longrightarrow> Q5 x s)"
  by (simp add: wlp_def switchk_def) (auto simp: wlp_simps get_pcb_def upd_pcb_def nonnull_def split: option.splits)

lemma wlp_switch_parts:
  "wlp (save_kctxt c k) Q' R s \<longleftrightarrow> (\<forall>pc. pcbs s c = Some pc \<longrightarrow> kctxt pc \<noteq> None \<longrightarrow>
     Q' () (s\<lparr>pcbs := (pcbs s)(c \<mapsto> pc\<lparr>kctxt := Some k\<rparr>)\<rparr>))"
  "wlp switch_r1 Q'' R s \<longleftrightarrow> (\<forall>pc. pcbs s (currPCB s) = Some pc \<longrightarrow>
     Q'' () (s\<lparr>REG_PTBR1 := (case r1PageTable pc of None \<Rightarrow> 0 | Some b \<Rightarrow> b), tlb_log := TLB_FLUSH_1 # tlb_log s\<rparr>))"
  by (auto simp: wlp_simps wlp_pcbs save_kctxt_def switch_r1_def flushk_def)

text \<open>What the last part of a switch does to the new process.\<close>

lemma switched_pcbs_cases:
  assumes "h1 = (case old of None \<Rightarrow> h | Some c \<Rightarrow> h(c := map_option (\<lambda>pc. pc\<lparr>kctxt := Some k\<rparr>) (h c)))" "h1 n = Some pc"
  shows "kctxt pc = None \<Longrightarrow> h1(n \<mapsto> pc\<lparr>kctxt := Some KStart\<rparr>) = switched_pcbs k old n h"
    "kctxt pc \<noteq> None \<Longrightarrow> h1 = switched_pcbs k old n h"
  using assms by (auto simp: switched_pcbs_def Let_def)

lemma wlp_switchBetween:
  assumes "table_of s n \<noteq> None"
  shows "wlp (switchBetween H k old n) Q (moved_to k old n s) s"
proof -
  define h1 where "h1 = (case old of None \<Rightarrow> pcbs s | Some c \<Rightarrow> (pcbs s)(c := map_option (\<lambda>pc. pc\<lparr>kctxt := Some k\<rparr>) (pcbs s c)))"
  have save: "wlp (case old of None \<Rightarrow> retk () | Some c \<Rightarrow> save_kctxt c k) (\<lambda>_ u. u = s\<lparr>pcbs := h1\<rparr>) R s" for R
    by (auto simp: wlp_cases wlp_basic wlp_switch_parts h1_def)
  have table: "map_option r1PageTable (h1 n) = map_option r1PageTable (pcbs s n)"
    by (auto simp: h1_def option.map_comp comp_def split: option.splits)
  have rest: "wlp (bindk (get_pcb n) (\<lambda>pc. bindk (if kctxt pc = None
            then bindk malloc_okk (\<lambda>ok. if ok then upd_pcb n (\<lambda>c. c\<lparr>kctxt := Some KStart\<rparr>) else faultk NULL_DEREF)
            else retk ()) (\<lambda>_. bindk switch_r1 (\<lambda>_. switchk id)))) Q (moved_to k old n s) u"
    if u: "u = s\<lparr>pcbs := h1, currPCB := n, ptes := P, tlb_log := l\<rparr>" "dom P = dom (ptes s)" for u P l
  proof -
    from assms obtain b where b: "table_of s n = Some b" by blast
    then have "r1PageTable pc = Some b" if "h1 n = Some pc" for pc
      using table that by (auto simp: table_of_def split: option.splits)
    with switched_pcbs_cases [OF h1_def] b u(2) show ?thesis
      by (auto simp: wlp_simps wlp_pcbs wlp_switch_parts u(1) moved_to_def mem_part_def queue_part_def)
  qed
  show ?thesis
    unfolding switchBetween_def wlp_bindk [of "case old of None \<Rightarrow> _ | Some c \<Rightarrow> _ c"]
    apply (rule wlp_mono [OF save [of "\<lambda>_. False"]])
     apply (simp only: wlp_bindk [of "modk _"] wlp_basic)
     apply (rule steady_then [OF map_stack_entries])
     apply (drule entries_partD, elim conjE exE)
     apply (simp, rule rest [OF refl], simp)
    apply simp
    done
qed

section \<open>The invariant\<close>

text \<open>The terminal a process is sending to, by its saved context.\<close>

definition sending :: "kcont option \<Rightarrow> int option" where
  "sending k = (case k of Some (KTtyBatch t d n i) \<Rightarrow> Some t | _ \<Rightarrow> None)"

definition slots_ok :: "(ptr \<Rightarrow> kcont option) \<Rightarrow> kstate \<Rightarrow> bool" where
  "slots_ok f s \<longleftrightarrow>
     (\<forall>j < length (currTransmitters s). \<forall>p. currTransmitters s ! j = Some p \<longrightarrow> sending (f p) = Some (int j)) \<and>
     (\<forall>p \<in> set (others s). sending (f p) = None)"

text \<open>The contexts the idle process can be saved in: it makes no system calls.\<close>

definition idle_ctx :: "kcont option \<Rightarrow> bool" where
  "idle_ctx k \<longleftrightarrow> k \<in> {None, Some KStart, Some KClock, Some KTtySignal}"

definition live :: "hw \<Rightarrow> memory \<Rightarrow> ptr \<Rightarrow> kstate \<Rightarrow> bool" where
  "live H A i s \<longleftrightarrow> procs H A s (places s) \<and> queues H s \<and> Some (REG_PTBR1 s) = table_of s (currPCB s) \<and>
     saved_at s (currPCB s) \<noteq> None \<and> slots_ok (saved_at s) s \<and> idle_ctx (saved_at s i) \<and>
     i \<in> set (currPCB s # qitems (readyQ s))"

text \<open>User code, or kernel code that was entered by a trap.\<close>

definition calm :: "hw \<Rightarrow> memory \<Rightarrow> ptr \<Rightarrow> kstate \<Rightarrow> bool" where
  "calm H A i s \<longleftrightarrow> live H A i s \<and> currPCB s \<notin> set (transmitters s)"

text \<open>The current process has just been switched in.\<close>

definition resuming :: "hw \<Rightarrow> memory \<Rightarrow> ptr \<Rightarrow> kstate \<Rightarrow> bool" where
  "resuming H A i s \<longleftrightarrow> live H A i s \<and> (currPCB s \<in> set (transmitters s) \<longleftrightarrow> sending (saved_at s (currPCB s)) \<noteq> None)"

text \<open>The current process has been put aside, its context is about to be saved as \<open>f\<close> says.\<close>

definition parked :: "hw \<Rightarrow> memory \<Rightarrow> ptr \<Rightarrow> (ptr \<Rightarrow> kcont option) \<Rightarrow> kstate \<Rightarrow> bool" where
  "parked H A i f s \<longleftrightarrow> procs H A s (vacated s) \<and> queues H s \<and> slots_ok f s \<and> idle_ctx (f i) \<and> i \<in> set (qitems (readyQ s))"

definition leaving :: "kcont \<Rightarrow> ptr option \<Rightarrow> kstate \<Rightarrow> ptr \<Rightarrow> kcont option" where
  "leaving k old s = (case old of None \<Rightarrow> saved_at s | Some c \<Rightarrow> (saved_at s)(c := Some k))"

lemma sending_simps [simp]: "sending None = None" "sending (Some KStart) = None"
  by (simp_all add: sending_def)

lemma saved_switched:
  assumes "pcbs t = switched_pcbs k old n (pcbs s)" "\<And>c. old = Some c \<Longrightarrow> pcbs s c \<noteq> None" "pcbs s n \<noteq> None"
  shows "saved_at t p = (if p = n \<and> leaving k old s n = None then Some KStart else leaving k old s p)"
  using assms
  by (auto simp: saved_at_def switched_pcbs_def Let_def leaving_def split: option.splits)

lemma moved_same: "moved_to k old n s t \<Longrightarrow> same_pcbs (pcbs s) (pcbs t)"
  by (simp add: moved_to_def same_pcbs_switched)

text \<open>Everything the invariant asks for, from what a switch does.\<close>

lemma moved_live:
  assumes "moved_to k old n s t" "procs H A s ps" "queues H s" "n \<in> set ps" "\<And>c. old = Some c \<Longrightarrow> pcbs s c \<noteq> None"
    "mset (places t) = mset ps" "slots_ok (leaving k old s) s" "idle_ctx (leaving k old s i)"
    "i \<in> set (n # qitems (readyQ s))"
  shows "live H A i t" "sending (saved_at t n) = sending (leaving k old s n)"
proof -
  note m = assms(1) [unfolded moved_to_def]
  have n: "pcbs s n \<noteq> None" using assms(2,4) by (auto simp: procs_def proc_ok_def)
  have saved: "saved_at t p = (if p = n \<and> leaving k old s n = None then Some KStart else leaving k old s p)" for p
    using m n assms(5) by (intro saved_switched) auto
  have send: "sending (saved_at t p) = sending (leaving k old s p)" for p by (simp add: saved)
  then show "sending (saved_at t n) = sending (leaving k old s n)" .
  have q: "queue_part t = queue_part s" "currPCB t = n" using m by simp_all
  then have slots: "slots_ok (saved_at t) t"
    using assms(7) by (simp add: slots_ok_def send others_def queue_part_def)
  have "procs H A t (places t)" using procs_cong [OF assms(2)] m moved_same [OF assms(1)] assms(6) by blast
  moreover have "queues H t" using queues_cong [OF assms(3)] moved_same [OF assms(1)] q(1) by blast
  moreover have "Some (REG_PTBR1 t) = table_of t n" using m same_pcbs_table [OF moved_same [OF assms(1)]] by simp
  moreover have "saved_at t n \<noteq> None" "idle_ctx (saved_at t i)" using assms(8) by (auto simp: saved idle_ctx_def)
  ultimately show "live H A i t" using slots assms(9) q by (simp add: live_def queue_part_def)
qed

lemma queues_readyQ: "queues H s \<Longrightarrow> queues H (s\<lparr>readyQ := Some q\<rparr>)"
  by (simp add: queues_def map_ok_def tty_ok_def pid_of_def)

lemma procs_readyQ: "procs H A (s\<lparr>readyQ := q\<rparr>) ps = procs H A s ps"
  by (intro iffI; erule procs_cong; simp add: mem_part_def)

lemma wlp_switch_ready:
  assumes "parked H A i (leaving k old s) s" "readyQ s = Some (n # q)" "\<And>c. old = Some c \<Longrightarrow> pcbs s c \<noteq> None"
  shows "wlp (switchBetween H k old n) Q (resuming H A i) (s\<lparr>readyQ := Some q\<rparr>)"
proof -
  let ?s = "s\<lparr>readyQ := Some q\<rparr>"
  note pk = assms(1) [unfolded parked_def]
  have n: "n \<in> set (vacated s)" using assms(2) by (simp add: vacated_def others_def)
  have "n \<notin> set (transmitters s)" using pk assms(2) by (auto simp: procs_def vacated_def others_def)
  then have tx: "filter (\<lambda>p. p \<noteq> n) (transmitters s) = transmitters s" by (auto intro!: filter_True)
  have leave: "leaving k old ?s = leaving k old s" by (simp add: leaving_def saved_at_def fun_eq_iff split: option.splits)
  have send: "sending (leaving k old s n) = None" using pk assms(2) by (auto simp: slots_ok_def others_def)
  have "resuming H A i t" if m: "moved_to k old n ?s t" for t
  proof -
    have q: "queue_part t = queue_part ?s" "currPCB t = n" using m by (simp_all add: moved_to_def)
    then have tr: "transmitters t = transmitters s" by (simp add: transmitters_def queue_part_def)
    have pl: "mset (places t) = mset (vacated s)"
      using q assms(2) by (simp add: places_def vacated_def others_def tr tx queue_part_def)
    have "slots_ok (leaving k old s) ?s" using pk assms(2) by (auto simp: slots_ok_def others_def)
    then have "live H A i t" "sending (saved_at t n) = None"
      using moved_live [OF m, of H A "vacated s" i] pk n assms(2,3) pl
      by (simp_all add: procs_readyQ queues_readyQ leave send)
    then show ?thesis using \<open>n \<notin> set (transmitters s)\<close> q tr by (simp add: resuming_def)
  qed
  moreover have "table_of ?s n \<noteq> None" using pk n by (auto simp: procs_def proc_ok_def table_of_def)
  ultimately show ?thesis using wlp_switchBetween [of ?s n H k old Q] by (auto elim: wlp_mono)
qed

lemma distinct_filter_out: "distinct (xs @ ys) \<Longrightarrow> n \<in> set ys \<Longrightarrow> mset (n # xs @ filter (\<lambda>p. p \<noteq> n) ys) = mset (xs @ ys)"
  using mset_distinct_member [of ys n] by simp

lemma wlp_switch_slot:
  assumes "parked H A i (leaving k old s) s" "n \<in> set (transmitters s)" "\<And>c. old = Some c \<Longrightarrow> pcbs s c \<noteq> None"
  shows "wlp (switchBetween H k old n) Q (resuming H A i) s"
proof -
  note pk = assms(1) [unfolded parked_def]
  have n: "n \<in> set (vacated s)" using assms(2) by (simp add: vacated_def)
  obtain j where j: "j < length (currTransmitters s)" "currTransmitters s ! j = Some n"
    using assms(2) by (auto simp: transmitters_def slot_procs_def in_set_conv_nth split: option.splits)
  then have send: "sending (leaving k old s n) = Some (int j)" using pk by (auto simp: slots_ok_def)
  have "resuming H A i t" if m: "moved_to k old n s t" for t
  proof -
    have q: "queue_part t = queue_part s" "currPCB t = n" using m by (simp_all add: moved_to_def)
    then have tr: "transmitters t = transmitters s" "others t = others s"
      by (simp_all add: transmitters_def others_def queue_part_def)
    have "distinct (vacated s)" using pk by (simp add: procs_def)
    then have pl: "mset (places t) = mset (vacated s)"
      using distinct_filter_out [of "others s" "transmitters s" n] assms(2) q tr by (simp add: places_def vacated_def)
    then have "live H A i t" "sending (saved_at t n) = Some (int j)"
      using moved_live [OF m, of H A "vacated s" i] pk n assms(3) by (simp_all add: send)
    then show ?thesis using assms(2) q tr by (simp add: resuming_def)
  qed
  moreover have "table_of s n \<noteq> None" using pk n by (auto simp: procs_def proc_ok_def table_of_def)
  ultimately show ?thesis using wlp_switchBetween [of s n H k old Q] by (auto elim: wlp_mono)
qed

lemma wlp_deq_ready: "wlp deq_ready Q R s \<longleftrightarrow> Q (fst (deq_q (readyQ s))) (s\<lparr>readyQ := snd (deq_q (readyQ s))\<rparr>)"
  by (simp add: wlp_def deq_ready_run)

lemma parked_ready:
  assumes "parked H A i f s"
  obtains n q where "readyQ s = Some (n # q)"
  using assms by (cases "readyQ s"; cases "the (readyQ s)") (auto simp: parked_def)

lemma wlp_deq_switch:
  assumes "parked H A i (leaving k (Some (currPCB s)) s) s" "pcbs s (currPCB s) \<noteq> None"
  shows "wlp (deq_switch H k) Q (resuming H A i) s"
proof -
  obtain n q where r: "readyQ s = Some (n # q)" using parked_ready [OF assms(1)] .
  from wlp_switch_ready [OF assms(1) r] assms(2) show ?thesis
    by (simp add: deq_switch_def wlp_bindk wlp_deq_ready wlp_cases wlp_basic r)
qed

section \<open>Setting the running process aside\<close>

lemma park:
  assumes "calm H A i s" "mem_part u = mem_part s" "same_pcbs (pcbs s) (pcbs u)" "saved_at u = saved_at s"
    "currPCB u = currPCB s" "queues H u" "currTransmitters u = currTransmitters s"
    "mset (others u) = add_mset (currPCB s) (mset (others s))" "sending (Some k) = None"
    "i \<in> set (qitems (readyQ u))" "currPCB s = i \<Longrightarrow> idle_ctx (Some k)"
  shows "parked H A i (leaving k (Some (currPCB u)) u) u" "pcbs u (currPCB u) \<noteq> None"
proof -
  note c = assms(1) [unfolded calm_def live_def]
  have tr: "transmitters u = transmitters s" using assms(7) by (simp add: transmitters_def)
  have "mset (vacated u) = mset (places s)"
    using assms(8) c tr by (simp add: places_idle_tx vacated_def)
  then have p: "procs H A u (vacated u)" using procs_cong [OF _ assms(2,3)] c by blast
  have "currPCB u \<in> set (vacated u)" using assms(5,8) by (metis mset_eq_setD set_mset_add_mset_insert insertI1 set_mset_mset vacated_def UnCI set_append)
  then show "pcbs u (currPCB u) \<noteq> None" using p by (auto simp: procs_def proc_ok_def)
  have oth: "set (others u) = insert (currPCB s) (set (others s))"
    using arg_cong [OF assms(8), of set_mset] by simp
  have "slots_ok (leaving k (Some (currPCB u)) u) u"
    using c assms(4,5,7,9) oth
    by (auto simp: slots_ok_def leaving_def transmitters_def slot_procs_def in_set_conv_nth split: option.splits)
  moreover have "idle_ctx (leaving k (Some (currPCB u)) u i)" using c assms(4,5,11) by (simp add: leaving_def)
  ultimately show "parked H A i (leaving k (Some (currPCB u)) u) u" using p assms(6,10) by (simp add: parked_def)
qed

text \<open>The invariant contains the one of \<open>Scheduler_Props\<close>.\<close>

lemma malloc_apart: "blocks_apart H s \<Longrightarrow> from_malloc s a \<Longrightarrow> from_malloc s b \<Longrightarrow> a \<noteq> b \<Longrightarrow> apart H a b"
  by (auto simp: blocks_apart_def from_malloc_def)

lemma proc_ok_pcb_ok: "machine_base H s \<Longrightarrow> proc_ok H s p \<Longrightarrow> pcb_ok H s p"
  by (force simp: machine_base_def proc_ok_def pcb_ok_def intro: malloc_apart)

lemma live_sched:
  assumes "live H A i s"
  shows "sched_ok H s"
proof -
  note l = assms [unfolded live_def procs_def queues_def]
  have "currPCB s \<in> set (places s)" by (simp add: places_def)
  then obtain c b where c: "pcbs s (currPCB s) = Some c" "r1PageTable c = Some b" "from_malloc s b" "has_table H s b" "b \<noteq> REG_PTBR0 s"
    using l by (auto simp: proc_ok_def)
  then have "REG_PTBR1 s = b" using l by (simp add: table_of_def)
  moreover have "apart H (REG_PTBR0 s) b" using l c by (auto simp: machine_base_def intro: malloc_apart)
  ultimately have "mmu_ok H s" using l c by (simp add: mmu_ok_def machine_base_def apart_def)
  then have "core H s (places s)" using l proc_ok_pcb_ok by (auto simp: core_def machine_base_def)
  then show ?thesis using l c by (simp add: sched_ok_def saved_at_def)
qed

lemma live_mallocs: "live H A i s \<Longrightarrow> mallocs_ok s"
  by (simp add: live_def procs_def machine_base_def)

end
