(* ===== verification/WorldOps.thy ===== *)
theory WorldOps
  imports World
begin

text \<open>
  The operations of the scheduler preserve the invariant of \<open>World\<close>: setting the running process aside
  (blocked, sleeping, ready, in a terminal queue) ends with a switch to the next one, waking a process up
  moves it to the ready queue.
\<close>

section \<open>Blocking\<close>

lemma others_blocked: "blockedMap s = Some bm \<Longrightarrow> mset (hm_procs (Some bm')) = add_mset c (mset (hm_procs (Some bm))) \<Longrightarrow>
    mset (others (s\<lparr>malloc_count := m, blockedMap := Some bm'\<rparr>)) = add_mset c (mset (others s))"
  by (simp add: others_def)

lemma wlp_blockProcess:
  assumes "calm H A i s" "currPCB s \<noteq> i" "sending (Some k) = None"
  shows "wlp (blockProcess H k) Q (resuming H A i) s"
proof -
  let ?c = "currPCB s"
  have l: "live H A i s" using assms(1) by (simp add: calm_def)
  from live_sched [OF l] obtain pc bm sm rq where
    pc: "pcbs s ?c = Some pc" "0 \<le> pid pc" "pid_of s ?c = pid pc" and bm: "blockedMap s = Some bm" "hm_ok bm" "hm_map bm (pid pc) = None"
    by (rule sched_okE) blast
  obtain bm' where ins: "hm_insertk blockedMap set_blockedMap (pid pc) ?c s =
      Done SUCCESS (set_blockedMap (Some bm') (s\<lparr>malloc_count := Suc (malloc_count s)\<rparr>))" "hm_ok bm'"
    "hm_map bm' = (hm_map bm)(pid pc \<mapsto> ?c)" "mset (hm_procs (Some bm')) = add_mset ?c (mset (hm_procs (Some bm)))"
    using hm_insertk_run [OF live_mallocs [OF l], of blockedMap bm "pid pc" set_blockedMap ?c] bm pc(2) by auto
  let ?u = "s\<lparr>malloc_count := Suc (malloc_count s), blockedMap := Some bm'\<rparr>"
  have "queues H s" using l by (simp add: live_def)
  then have "queues H ?u" using ins(2,3) pc(3) bm(1)
    by (auto simp: queues_def map_ok_def tty_ok_def pid_of_def split: if_splits)
  moreover have "i \<in> set (qitems (readyQ s))" using l assms(2) by (auto simp: live_def)
  ultimately have "parked H A i (leaving k (Some (currPCB ?u)) ?u) ?u" "pcbs ?u (currPCB ?u) \<noteq> None"
    using park [OF assms(1), of ?u k] assms(2,3) others_blocked [OF bm(1) ins(4)]
    by (simp_all add: mem_part_def saved_at_def fun_eq_iff)
  from wlp_deq_switch [OF this] show ?thesis
    unfolding blockProcess_def wlp_bindk wlp_basic wlp_pcbs using pc(1) ins(1)
    by (simp add: wlp_def [of "hm_insertk _ _ _ _"] set_blockedMap_def wlp_cases)
qed

section \<open>Preservation\<close>

text \<open>\<open>preserves U R m\<close>: from a state with \<open>U\<close> the code returns with \<open>U\<close> or switches with \<open>R\<close>.\<close>

definition preserves :: "('s \<Rightarrow> bool) \<Rightarrow> ('s \<Rightarrow> bool) \<Rightarrow> ('a, 's) kcomp \<Rightarrow> bool" where
  "preserves U R m \<longleftrightarrow> (\<forall>s. U s \<longrightarrow> wlp m (\<lambda>_. U) R s)"

lemma preservesI: "(\<And>s. U s \<Longrightarrow> wlp m (\<lambda>_. U) R s) \<Longrightarrow> preserves U R m"
  by (simp add: preserves_def)

text \<open>A process other than idle is running kernel code.\<close>

definition busy :: "hw \<Rightarrow> memory \<Rightarrow> ptr \<Rightarrow> kstate \<Rightarrow> bool" where
  "busy H A i s \<longleftrightarrow> calm H A i s \<and> currPCB s \<noteq> i"

lemma busy_fields:
  assumes "busy H A i s"
  obtains q where "live H A i s" "mallocs_ok s" "readyQ s = Some q" "i \<in> set q" "queues H s" "tty_ok H s"
  using assms by (auto simp: busy_def calm_def live_def queues_def procs_def machine_base_def)

lemma wlp_enq_ready:
  assumes "mallocs_ok s" "readyQ s = Some q"
  shows "wlp (enq_ready p) Q R s \<longleftrightarrow> Q SUCCESS (s\<lparr>malloc_count := Suc (malloc_count s), readyQ := Some (q @ [p])\<rparr>)"
proof -
  have "malloc_oracle s (malloc_count s) \<noteq> None" using assms(1) by (simp add: mallocs_ok_def)
  then show ?thesis using assms(2) by (simp add: wlp_def enq_ready_run Let_def)
qed

lemma ops_blockProcess: "sending (Some k) = None \<Longrightarrow> preserves (busy H A i) (resuming H A i) (blockProcess H k)"
  by (intro preservesI wlp_blockProcess) (simp_all add: busy_def)

lemma others_sleeping: "sleepingMap s = Some bm \<Longrightarrow> mset (hm_procs (Some bm')) = add_mset c (mset (hm_procs (Some bm))) \<Longrightarrow>
    mset (others (s\<lparr>pcbs := h, malloc_count := m, sleepingMap := Some bm'\<rparr>)) = add_mset c (mset (others s))"
  by (simp add: others_def)

lemma saved_upd: "pcbs s p = Some c \<Longrightarrow> kctxt c' = kctxt c \<Longrightarrow> saved_at (s\<lparr>pcbs := (pcbs s)(p \<mapsto> c')\<rparr>) = saved_at s"
  by (auto simp: saved_at_def fun_eq_iff)

lemma ops_sleepProcess:
  assumes k: "sending (Some k) = None"
  shows "preserves (busy H A i) (resuming H A i) (sleepProcess H k d)"
proof (rule preservesI)
  fix s
  assume b: "busy H A i s"
  then have cm: "calm H A i s" "currPCB s \<noteq> i" by (simp_all add: busy_def)
  let ?c = "currPCB s"
  have l: "live H A i s" using cm(1) by (simp add: calm_def)
  from live_sched [OF l] obtain pc bm sm where
    pc: "pcbs s ?c = Some pc" "0 \<le> pid pc" "pid_of s ?c = pid pc" and sm: "sleepingMap s = Some sm" "hm_ok sm" "hm_map sm (pid pc) = None"
    by (rule sched_okE) blast
  let ?pc = "pc\<lparr>numRemainingDelayTicks := d\<rparr>"
  let ?s = "s\<lparr>pcbs := (pcbs s)(?c \<mapsto> ?pc)\<rparr>"
  have "mallocs_ok ?s" using live_mallocs [OF l] by (simp add: mallocs_ok_def)
  then obtain sm' where ins: "hm_insertk sleepingMap set_sleepingMap (pid pc) ?c ?s =
      Done SUCCESS (set_sleepingMap (Some sm') (?s\<lparr>malloc_count := Suc (malloc_count s)\<rparr>))" "hm_ok sm'"
    "hm_map sm' = (hm_map sm)(pid pc \<mapsto> ?c)" "mset (hm_procs (Some sm')) = add_mset ?c (mset (hm_procs (Some sm)))"
    using hm_insertk_run [of ?s sleepingMap sm "pid pc" set_sleepingMap ?c] sm pc(2) by auto
  let ?u = "?s\<lparr>malloc_count := Suc (malloc_count s), sleepingMap := Some sm'\<rparr>"
  have same: "same_pcbs (pcbs s) (pcbs ?u)"
    using same_pcbs_upd [of "pcbs s" ?c pc ?pc "pcbs s"] pc(1) by simp
  have pids: "pid_of ?u p = pid_of s p" for p by (rule same_pcbs_pid_of [OF same])
  have "queues H s" using l by (simp add: live_def)
  then have "queues H ?u" using ins(2,3) pc(3) sm(1)
    by (auto simp: queues_def map_ok_def tty_ok_def pids split: if_splits)
  moreover have "saved_at ?u = saved_at s" using saved_upd [OF pc(1), of ?pc] by (simp add: saved_at_def fun_eq_iff)
  moreover have "i \<in> set (qitems (readyQ s))" using l cm(2) by (auto simp: live_def)
  ultimately have "parked H A i (leaving k (Some (currPCB ?u)) ?u) ?u" "pcbs ?u (currPCB ?u) \<noteq> None"
    using park [OF cm(1), of ?u k] cm(2) k same others_sleeping [OF sm(1) ins(4)]
    by (simp_all add: mem_part_def)
  from wlp_deq_switch [OF this] show "wlp (sleepProcess H k d) (\<lambda>_. busy H A i) (resuming H A i) s"
    unfolding sleepProcess_def using pc(1) ins(1) b
    by (simp add: wlp_cases wlp_bindk wlp_basic wlp_pcbs wlp_def [of "hm_insertk _ _ _ _"] set_sleepingMap_def)
qed

text \<open>The clock and the terminals interrupt idle as well.\<close>

lemma ops_kickProcess: "preserves (calm H A i) (resuming H A i) (kickProcess H KClock)"
proof (rule preservesI)
  fix s
  assume c: "calm H A i s"
  then have l: "live H A i s" by (simp add: calm_def)
  then obtain q where q: "readyQ s = Some q" "i \<in> set (currPCB s # q)" by (auto simp: live_def queues_def)
  let ?u = "s\<lparr>malloc_count := Suc (malloc_count s), readyQ := Some (q @ [currPCB s])\<rparr>"
  have "queues H ?u" using l by (simp add: live_def queues_def map_ok_def tty_ok_def pid_of_def)
  then have "parked H A i (leaving KClock (Some (currPCB ?u)) ?u) ?u" "pcbs ?u (currPCB ?u) \<noteq> None"
    using park [OF c, of ?u KClock] q
    by (auto simp: mem_part_def saved_at_def fun_eq_iff others_def sending_def idle_ctx_def)
  from wlp_deq_switch [OF this] show "wlp (kickProcess H KClock) (\<lambda>_. calm H A i) (resuming H A i) s"
    unfolding kickProcess_def using c q(1)
    by (simp add: wlp_cases wlp_bindk wlp_basic wlp_enq_ready [OF live_mallocs [OF l] q(1)])
qed

lemma wlp_nthk: "wlp (nthk xs j) Q R s \<longleftrightarrow> (0 \<le> j \<longrightarrow> j < int (length xs) \<longrightarrow> Q (xs ! nat j) s)"
  by (auto simp: nthk_def wlp_cases wlp_basic)

lemma ops_signalTransmitter: "preserves (calm H A i) (resuming H A i) (bindk (signalTransmitter H KTtySignal j) (\<lambda>r. if r = ERROR then haltk else retk ()))"
proof (rule preservesI)
  fix s
  assume c: "calm H A i s"
  then have l: "live H A i s" by (simp add: calm_def)
  then obtain q where q: "readyQ s = Some q" "i \<in> set (currPCB s # q)" by (auto simp: live_def queues_def)
  let ?u = "s\<lparr>malloc_count := Suc (malloc_count s), readyQ := Some (q @ [currPCB s])\<rparr>"
  have "queues H ?u" using l by (simp add: live_def queues_def map_ok_def tty_ok_def pid_of_def)
  then have p: "parked H A i (leaving KTtySignal (Some (currPCB ?u)) ?u) ?u" "pcbs ?u (currPCB ?u) \<noteq> None"
    using park [OF c, of ?u KTtySignal] q
    by (auto simp: mem_part_def saved_at_def fun_eq_iff others_def sending_def idle_ctx_def)
  have "n \<in> set (transmitters ?u)" if "0 \<le> j" "j < int (length (currTransmitters s))" "currTransmitters s ! nat j = Some n" for n
    using that by (auto simp: transmitters_def slot_procs_def in_set_conv_nth intro!: bexI [of _ "Some n"] exI [of _ "nat j"])
  with wlp_switch_slot [OF p(1), of _ "\<lambda>r. wlp (if r = ERROR then haltk else retk ()) (\<lambda>_. calm H A i) (resuming H A i)"] p(2)
  show "wlp (bindk (signalTransmitter H KTtySignal j) (\<lambda>r. if r = ERROR then haltk else retk ())) (\<lambda>_. calm H A i) (resuming H A i) s"
    unfolding signalTransmitter_def
    by (simp add: wlp_cases wlp_bindk wlp_basic wlp_nthk wlp_enq_ready [OF live_mallocs [OF l] q(1)])
qed

lemma wlp_enq_tty:
  assumes "mallocs_ok s"
  shows "wlp (enq_tty get put j p) Q R s \<longleftrightarrow> (let qs = get s; m = s\<lparr>malloc_count := Suc (malloc_count s)\<rparr> in
     0 \<le> j \<longrightarrow> j < int (length qs) \<longrightarrow>
     Q (fst (enq_q True (qs ! nat j) p)) (put (qs[nat j := snd (enq_q True (qs ! nat j) p)]) m))"
proof -
  have "malloc_oracle s (malloc_count s) \<noteq> None" using assms by (simp add: mallocs_ok_def)
  then show ?thesis by (auto simp: enq_tty_def wlp_bindk wlp_basic wlp_nthk wlp_mallock Let_def)
qed

text \<open>The two families of terminal queues.\<close>

definition tty_queues :: "(kstate \<Rightarrow> ptr queue list) \<Rightarrow> (ptr queue list \<Rightarrow> kstate \<Rightarrow> kstate) \<Rightarrow> bool" where
  "tty_queues get put \<longleftrightarrow> get = readingQs \<and> put = set_readingQs \<or> get = transmittingQs \<and> put = set_transmittingQs"

lemma tty_queuesE:
  assumes "tty_queues get put"
  obtains "get = readingQs" "put = set_readingQs" | "get = transmittingQs" "put = set_transmittingQs"
  using assms by (auto simp: tty_queues_def)

lemma tty_queues_intros: "tty_queues readingQs set_readingQs" "tty_queues transmittingQs set_transmittingQs"
  by (simp_all add: tty_queues_def)

lemma tty_queue_some:
  assumes "tty_queues get put" "tty_ok H s" "0 \<le> j" "j < int (length (get s))"
  obtains xs where "get s ! nat j = Some xs"
proof -
  have "None \<notin> set (get s)" "nat j < length (get s)" using assms by (auto simp: tty_ok_def elim!: tty_queuesE)
  then have "get s ! nat j \<noteq> None" by (metis nth_mem)
  then show ?thesis using that by blast
qed

text \<open>What replacing a terminal queue changes.\<close>

lemma tty_queue_put:
  assumes "tty_queues get put" "queues H s" "j < length (get s)" "u = put ((get s)[j := Some ys]) (s\<lparr>malloc_count := m\<rparr>)"
  shows "queues H u" "mem_part u = mem_part s" "pcbs u = pcbs s" "currPCB u = currPCB s" "readyQ u = readyQ s"
    "currTransmitters u = currTransmitters s" "saved_at u = saved_at s" "REG_PTBR1 u = REG_PTBR1 s"
    "mset (others u) + mset (qitems (get s ! j)) = mset (others s) + mset ys" "malloc_oracle u = malloc_oracle s"
  using assms mset_concat_update [of j "get s" qitems "Some ys"] not_None_update [of "get s" j]
  by (auto elim!: tty_queuesE simp: set_readingQs_def set_transmittingQs_def queues_def map_ok_def tty_ok_def pid_of_def
      mem_part_def saved_at_def others_def fun_eq_iff)

lemma wlp_block_tty:
  assumes k: "sending (Some k) = None" and b: "busy H A i s" and tq: "tty_queues get put"
  shows "wlp (bindk (enq_tty get put j (currPCB s)) (\<lambda>r. if r = ERROR then retk ERROR else deq_switch H k)) Q (resuming H A i) s"
proof -
  from b obtain q where l: "live H A i s" and mem: "mallocs_ok s" and q: "readyQ s = Some q" "i \<in> set q" and qs: "queues H s" "tty_ok H s"
    by (rule busy_fields)
  have "wlp (deq_switch H k) Q (resuming H A i) u"
    if j: "0 \<le> j" "j < int (length (get s))" and xs: "get s ! nat j = Some xs"
      and u: "u = put ((get s)[nat j := Some (xs @ [currPCB s])]) (s\<lparr>malloc_count := Suc (malloc_count s)\<rparr>)" for xs Q u
  proof -
    have "nat j < length (get s)" using j by simp
    note put = tty_queue_put [OF tq qs(1) this u]
    have "mset (others u) = add_mset (currPCB s) (mset (others s))" using put(9) xs by simp
    with put have "parked H A i (leaving k (Some (currPCB u)) u) u" "pcbs u (currPCB u) \<noteq> None"
      using park [of H A i s u k] b k q by (auto simp: busy_def)
    then show ?thesis by (rule wlp_deq_switch)
  qed
  moreover have "\<exists>xs. get s ! nat j = Some xs" if "0 \<le> j" "j < int (length (get s))"
    using tty_queue_some [OF tq qs(2) that] by blast
  ultimately show ?thesis
    by (auto simp: wlp_cases wlp_bindk wlp_basic wlp_enq_tty [OF mem] Let_def)
qed

lemma ops_block_tty:
  assumes "sending (Some k) = None"
  shows "preserves (busy H A i) (resuming H A i) (blockReader H k j)"
    "preserves (busy H A i) (resuming H A i) (blockTransmitter H k j)"
  by (auto simp: blockReader_def blockTransmitter_def preserves_def wlp_bindk [of "getk _"] wlp_basic
      intro!: wlp_block_tty [OF assms] tty_queues_intros)

section \<open>Making processes ready\<close>

text \<open>Processes move between the places without the running one taking part.\<close>

lemma regroup:
  assumes "live H A i s" "mem_part u = mem_part s" "same_pcbs (pcbs s) (pcbs u)" "saved_at u = saved_at s"
    "currPCB u = currPCB s" "REG_PTBR1 u = REG_PTBR1 s" "queues H u" "currTransmitters u = currTransmitters s"
    "mset (others u) = mset (others s)" "set (qitems (readyQ s)) \<subseteq> set (qitems (readyQ u))"
  shows "live H A i u"
proof -
  note l = assms(1) [unfolded live_def]
  have tr: "transmitters u = transmitters s" using assms(8) by (simp add: transmitters_def)
  have "mset (places u) = mset (places s)" using assms(5,9) tr by (simp add: places_def)
  then have "procs H A u (places u)" using procs_cong [OF _ assms(2,3)] l by blast
  moreover have "slots_ok (saved_at u) u" using l assms(4,8) mset_eq_setD [OF assms(9)] by (simp add: slots_ok_def)
  ultimately show ?thesis
    using l assms(4-7,10) same_pcbs_table [OF assms(3)] by (auto simp: live_def)
qed

lemma regroup_calm:
  assumes "calm H A i s" "mem_part u = mem_part s" "same_pcbs (pcbs s) (pcbs u)" "saved_at u = saved_at s"
    "currPCB u = currPCB s" "REG_PTBR1 u = REG_PTBR1 s" "queues H u" "currTransmitters u = currTransmitters s"
    "mset (others u) = mset (others s)" "set (qitems (readyQ s)) \<subseteq> set (qitems (readyQ u))"
  shows "calm H A i u"
  using assms(1,5,8) regroup [OF _ assms(2-10)] by (simp add: calm_def transmitters_def)

lemma hm_procs_cong:
  assumes "hm_ok hm" "hm_ok hm'" "hm_map hm' = hm_map hm"
  shows "mset (hm_procs (Some hm')) = mset (hm_procs (Some hm))"
proof -
  have "set (hm_items hm') = set (hm_items hm)" using hm_items_iff [OF assms(1)] hm_items_iff [OF assms(2)] assms(3) by auto
  then have "mset (hm_items hm') = mset (hm_items hm)"
    using set_eq_iff_mset_eq_distinct [OF hm_items_distinct [OF assms(2)] hm_items_distinct [OF assms(1)]] by simp
  then show ?thesis by (simp add: hm_procs_def mset_map)
qed

text \<open>Removal, whatever the key.\<close>

lemma wlp_hm_removek:
  assumes "get s = Some hm" "hm_ok hm"
    "\<And>hm'. hm_ok hm' \<Longrightarrow> hm_map hm' = (hm_map hm)(k := None) \<Longrightarrow>
       mset (hm_procs (Some hm)) = mset (hm_procs (Some hm')) + (case hm_map hm k of None \<Rightarrow> {#} | Some x \<Rightarrow> {#x#}) \<Longrightarrow>
       Q (hm_map hm k) (put (Some hm') s)"
  shows "wlp (hm_removek get put k) Q R s"
proof (cases "0 \<le> k")
  case True
  with hm_removek_run [of get s hm k put] assms show ?thesis by (auto simp: wlp_def)
next
  case False
  then have none: "hm_map hm k = None" using hm_map_neg [OF assms(2)] by auto
  have "Q r (put m' s)" if "HashMap_remove (Some hm) k = Inr (r, m')" for r m'
  proof -
    from HashMap_remove_any [OF assms(2) that] obtain hm' where
      hm': "m' = Some hm'" "hm_ok hm'" "r = hm_map hm k" "hm_map hm' = (hm_map hm)(k := None)" .
    have same: "hm_map hm' = hm_map hm" using hm'(4) none by auto
    then have "mset (hm_procs (Some hm)) = mset (hm_procs (Some hm')) + (case hm_map hm k of None \<Rightarrow> {#} | Some x \<Rightarrow> {#x#})"
      using hm_procs_cong [OF assms(2) hm'(2)] none by simp
    from assms(3) [OF hm'(2,4) this] show ?thesis using hm'(1,3) by simp
  qed
  then show ?thesis by (auto simp: hm_removek_def wlp_simps assms(1))
qed

lemma calm_unblockProcess: "preserves (calm H A i) (resuming H A i) (unblockProcess p)"
proof (rule preservesI)
  fix s
  assume c: "calm H A i s"
  then have l: "live H A i s" by (simp add: calm_def)
  then obtain q bm where q: "readyQ s = Some q" and bm: "blockedMap s = Some bm" "hm_ok bm" and qs: "queues H s"
    by (auto simp: live_def queues_def map_ok_def)
  have mem: "mallocs_ok (s\<lparr>blockedMap := w\<rparr>)" for w using live_mallocs [OF l] by (simp add: mallocs_ok_def)
  have rest: "wlp (case x of Some y \<Rightarrow> enq_ready y | None \<Rightarrow> retk SUCCESS) (\<lambda>_. calm H A i) (resuming H A i) (s\<lparr>blockedMap := Some bm'\<rparr>)"
    if "hm_ok bm'" "hm_map bm' = (hm_map bm)(p := None)"
      "mset (hm_procs (Some bm)) = mset (hm_procs (Some bm')) + (case x of None \<Rightarrow> {#} | Some x \<Rightarrow> {#x#})" for x bm'
  proof -
    let ?u = "\<lambda>m q'. s\<lparr>blockedMap := Some bm', malloc_count := m, readyQ := Some q'\<rparr>"
    have qu: "queues H (?u m q')" for m q' using qs that(1,2) bm(1)
      by (auto simp: queues_def map_ok_def tty_ok_def pid_of_def split: if_splits)
    have calm: "calm H A i (?u m (q @ xs))" if "mset (hm_procs (Some bm)) = mset (hm_procs (Some bm')) + mset xs" for xs m
      using regroup_calm [OF c _ _ _ _ _ qu [where m = m and q' = "q @ xs"]] that q bm(1)
      by (simp add: mem_part_def saved_at_def fun_eq_iff others_def)
    have same: "s\<lparr>blockedMap := Some bm', readyQ := Some q\<rparr> = s\<lparr>blockedMap := Some bm'\<rparr>" using q by simp
    show ?thesis
      using that(3) calm [where xs = "[]" and m = "malloc_count s"] calm [where xs = "[y]" and m = "Suc (malloc_count s)" for y] same
      by (cases x) (simp_all add: wlp_basic wlp_enq_ready [OF mem] q)
  qed
  show "wlp (unblockProcess p) (\<lambda>_. calm H A i) (resuming H A i) s"
    unfolding unblockProcess_def
    apply (simp add: wlp_bindk wlp_basic bm(1) wlp_cases(1))
    apply (rule wlp_hm_removek [where get = blockedMap, OF bm])
    apply (simp only: set_blockedMap_def)
    apply (rule rest; assumption)
    done
qed

lemma busy_from_calm:
  assumes "preserves (calm H A i) R m" "stays m"
  shows "preserves (busy H A i) R m"
proof (rule preservesI)
  fix s
  assume b: "busy H A i s"
  then have "wlp m (\<lambda>_. calm H A i) R s" using assms(1) by (simp add: preserves_def busy_def)
  then show "wlp m (\<lambda>_. busy H A i) R s" using b assms(2) by (auto simp: wlp_def busy_def stays_def)
qed

lemma ops_unblockProcess: "preserves (busy H A i) (resuming H A i) (unblockProcess p)"
  by (intro busy_from_calm calm_unblockProcess stays_rules)

text \<open>The head of a terminal queue.\<close>

lemma wlp_deq_tty:
  "wlp (deq_tty get put j) Q R s \<longleftrightarrow> (let qs = get s in 0 \<le> j \<longrightarrow> j < int (length qs) \<longrightarrow>
     Q (fst (deq_q (qs ! nat j))) (put (qs[nat j := snd (deq_q (qs ! nat j))]) s))"
  by (auto simp: deq_tty_def wlp_bindk wlp_basic wlp_nthk Let_def)

lemma calm_ready_tty:
  assumes c: "calm H A i s" and tq: "tty_queues get put"
  shows "wlp (bindk (deq_tty get put j) ready_if_some) (\<lambda>_. calm H A i) (resuming H A i) s"
proof -
  have l: "live H A i s" using c by (simp add: calm_def)
  then obtain q where q: "readyQ s = Some q" and qs: "queues H s" "tty_ok H s" by (auto simp: live_def queues_def)
  have calm: "calm H A i ((put ((get s)[nat j := Some ys]) s)\<lparr>malloc_count := m, readyQ := Some (q @ zs)\<rparr>)"
    if j: "0 \<le> j" "j < int (length (get s))" and xs: "get s ! nat j = Some (zs @ ys)" for ys zs m
  proof -
    have len: "nat j < length (get s)" using j by simp
    note put = tty_queue_put [OF tq qs(1) len refl, of ys "malloc_count s", simplified]
    have part: "mem_part (u\<lparr>malloc_count := m, readyQ := r\<rparr>) = mem_part u" "saved_at (u\<lparr>malloc_count := m, readyQ := r\<rparr>) = saved_at u" for u r
      by (simp_all add: mem_part_def saved_at_def fun_eq_iff)
    have "queues H u \<Longrightarrow> queues H (u\<lparr>malloc_count := m, readyQ := Some r\<rparr>)" for u r
      by (simp add: queues_def map_ok_def tty_ok_def pid_of_def)
    from this [OF put(1)] have "queues H ((put ((get s)[nat j := Some ys]) s)\<lparr>malloc_count := m, readyQ := Some (q @ zs)\<rparr>)" .
    moreover have "mset (others ((put ((get s)[nat j := Some ys]) s)\<lparr>malloc_count := m, readyQ := Some (q @ zs)\<rparr>)) = mset (others s)"
    proof -
      have "mset (others (u\<lparr>malloc_count := m, readyQ := Some (q @ zs)\<rparr>)) = mset (others u) + mset zs" if "readyQ u = Some q" for u
        using that by (simp add: others_def)
      then show ?thesis using put(5,9) q xs by simp
    qed
    ultimately show ?thesis
      using q by (intro regroup_calm [OF c]) (simp_all add: part put)
  qed
  have mem: "mallocs_ok (put qs' s)" "readyQ (put qs' s) = Some q" for qs'
    using live_mallocs [OF l] tq q by (auto elim!: tty_queuesE simp: set_readingQs_def set_transmittingQs_def mallocs_ok_def)
  have same: "u\<lparr>readyQ := Some q\<rparr> = u" if "readyQ u = Some q" for u :: kstate
    using that by simp
  have "wlp (ready_if_some (fst (deq_q (Some xs)))) (\<lambda>_. calm H A i) (resuming H A i) (put ((get s)[nat j := snd (deq_q (Some xs))]) s)"
    if j: "0 \<le> j" "j < int (length (get s))" and xs: "get s ! nat j = Some xs" for xs
  proof (cases xs)
    case Nil
    then show ?thesis
      using calm [OF j, of "[]" "[]" "malloc_count (put ((get s)[nat j := Some []]) s)"] xs
      by (simp add: ready_if_some_def wlp_basic same [OF mem(2)])
  next
    case (Cons x ys)
    then show ?thesis
      using calm [OF j, of "[x]" ys] xs
      by (simp add: ready_if_some_def wlp_enq_ready [OF mem])
  qed
  moreover have "\<exists>xs. get s ! nat j = Some xs" if "0 \<le> j" "j < int (length (get s))"
    using tty_queue_some [OF tq qs(2) that] by blast
  ultimately show ?thesis by (auto simp: wlp_bindk wlp_deq_tty Let_def)
qed

lemma calm_unblockReader: "preserves (calm H A i) (resuming H A i) (unblockReader j)"
  unfolding unblockReader_def
  by (auto intro!: preservesI calm_ready_tty tty_queues_intros simp: wlp_bindk [of "getk _"] wlp_bindk [of "nthk _ _"]
      wlp_bindk [of "bindk _ _"] wlp_basic wlp_nthk wlp_cases)

text \<open>The terminal \<open>j\<close> is free, or the running process is the one it is sending for.\<close>

definition at_slot :: "hw \<Rightarrow> memory \<Rightarrow> ptr \<Rightarrow> nat \<Rightarrow> kstate \<Rightarrow> bool" where
  "at_slot H A i j s \<longleftrightarrow> live H A i s \<and> currPCB s \<noteq> i \<and> own_slot s j"

lemma slot_member: "p \<in> set (concat (map slot_procs ts)) \<longleftrightarrow> Some p \<in> set ts"
  by (auto simp: slot_procs_def split: option.splits)

lemma slot_entry: "ts[j := v] ! k = Some p \<Longrightarrow> k < length ts \<Longrightarrow> k = j \<and> v = Some p \<or> k \<noteq> j \<and> ts ! k = Some p"
  by (cases "k = j") auto

lemma busy_at_slot:
  assumes "busy H A i s" "j < length (currTransmitters s)" "currTransmitters s ! j = None"
  shows "at_slot H A i j s"
proof -
  have "(currTransmitters s)[j := None] = currTransmitters s" using assms(3) by (metis list_update_id)
  then show ?thesis using assms by (simp add: busy_def calm_def at_slot_def own_slot_def transmitters_def)
qed

lemma resuming_at_slot:
  assumes "resuming H A i s" "saved_at s (currPCB s) = Some (KTtyBatch t d n b)"
  obtains j where "t = int j" "at_slot H A i j s"
proof -
  let ?c = "currPCB s"
  have l: "live H A i s" and tx: "?c \<in> set (transmitters s)"
    using assms by (simp_all add: resuming_def sending_def)
  have slots: "int k = t" if "k < length (currTransmitters s)" "currTransmitters s ! k = Some ?c" for k
    using l that assms(2) by (auto simp: live_def slots_ok_def sending_def)
  obtain j where j: "j < length (currTransmitters s)" "currTransmitters s ! j = Some ?c"
    using tx [unfolded transmitters_def slot_member] by (auto simp: in_set_conv_nth)
  have "Some ?c \<notin> set ((currTransmitters s)[j := None])"
    using slots slots [OF j] by (auto simp: in_set_conv_nth dest!: slot_entry)
  moreover have "?c \<noteq> i" using l assms(2) by (auto simp: live_def idle_ctx_def)
  ultimately have "at_slot H A i j s" using l j by (auto simp: at_slot_def own_slot_def slot_member simp del: set_concat)
  with that [of j] slots [OF j] show ?thesis by simp
qed

lemma release_slot:
  assumes "at_slot H A i j s"
  shows "calm H A i (s\<lparr>currTransmitters := (currTransmitters s)[j := None]\<rparr>)"
proof -
  let ?ts = "(currTransmitters s)[j := None]"
  let ?u = "s\<lparr>currTransmitters := ?ts\<rparr>"
  have own: "own_slot s j" and l: "live H A i s" using assms by (simp_all add: at_slot_def)
  then have idle: "currPCB ?u \<notin> set (transmitters ?u)" by (simp add: own_slot_def transmitters_def)
  have "mset (places ?u) = mset (places s)"
    using own_slot_places [OF own] by (simp add: places_idle_tx [OF idle]) (simp add: vacated_def others_def transmitters_def)
  then have "procs H A ?u (places ?u)" using l procs_cong [of H A s "places s" ?u "places ?u"] by (simp add: live_def mem_part_def)
  moreover have "queues H ?u" using l by (simp add: live_def queues_def map_ok_def tty_ok_def pid_of_def)
  moreover have same: "saved_at ?u = saved_at s" "others ?u = others s" by (simp_all add: saved_at_def others_def fun_eq_iff)
  have "slots_ok (saved_at s) s" using l by (simp add: live_def)
  then have "slots_ok (saved_at ?u) ?u" unfolding slots_ok_def same by (auto dest: slot_entry)
  ultimately have "live H A i ?u" using l by (simp add: live_def saved_at_def table_of_def)
  then show ?thesis using idle by (simp add: calm_def)
qed

lemma wlp_waitTransmitter:
  assumes "at_slot H A i j s"
  shows "wlp (waitTransmitter H (KTtyBatch (int j) d n b) (int j)) Q (resuming H A i) s"
proof -
  let ?c = "currPCB s" and ?k = "KTtyBatch (int j) d n b"
  let ?u = "s\<lparr>currTransmitters := (currTransmitters s)[j := Some ?c]\<rparr>"
  have own: "own_slot s j" and l: "live H A i s" and c: "?c \<noteq> i" using assms by (simp_all add: at_slot_def)
  then have len: "j < length (currTransmitters s)" by (simp add: own_slot_def)
  have "mset (vacated ?u) = mset (places s)"
    using own_slot_places [OF own] mset_concat_update [of j "(currTransmitters s)[j := None]" slot_procs "Some ?c"] len
    by (simp add: vacated_def others_def transmitters_def slot_procs_def)
  then have p: "procs H A ?u (vacated ?u)"
    using l procs_cong [of H A s "places s" ?u "vacated ?u"] by (simp add: live_def mem_part_def)
  have "?c \<notin> set (others s)" using l by (auto simp: live_def procs_def places_def)
  moreover have "Some ?c \<notin> set ((currTransmitters s)[j := None])"
    using own by (simp add: own_slot_def slot_member del: set_concat)
  then have "currTransmitters s ! k \<noteq> Some ?c" if "k < length (currTransmitters s)" "k \<noteq> j" for k
    using that by (metis length_list_update nth_list_update_neq nth_mem)
  moreover have "slots_ok (saved_at s) s" "others ?u = others s" using l by (simp_all add: live_def others_def)
  ultimately have "slots_ok (leaving ?k (Some ?c) s) ?u"
    unfolding slots_ok_def leaving_def by (auto simp: sending_def dest!: slot_entry)
  moreover have "queues H ?u" using l by (simp add: live_def queues_def map_ok_def tty_ok_def pid_of_def)
  moreover have "leaving ?k (Some (currPCB ?u)) ?u = leaving ?k (Some ?c) s" by (simp add: leaving_def saved_at_def fun_eq_iff)
  ultimately have "parked H A i (leaving ?k (Some (currPCB ?u)) ?u) ?u"
    using l c p by (auto simp: parked_def live_def leaving_def)
  moreover have "pcbs ?u (currPCB ?u) \<noteq> None" using l by (auto simp: live_def saved_at_def split: option.splits)
  ultimately have "wlp (deq_switch H ?k) Q (resuming H A i) ?u" by (rule wlp_deq_switch)
  then show ?thesis
    by (simp add: waitTransmitter_def set_transmitter_def wlp_bindk wlp_basic wlp_nthk)
qed

lemma wlp_unblockTransmitter:
  assumes "at_slot H A i j s"
  shows "wlp (unblockTransmitter (int j)) (\<lambda>_. busy H A i) (resuming H A i) s"
proof -
  let ?u = "s\<lparr>currTransmitters := (currTransmitters s)[j := None]\<rparr>"
  let ?m = "bindk (bindk (getk transmittingQs) (\<lambda>qs. nthk qs (int j))) (\<lambda>q.
       if q = None then retk ERROR else bindk (deq_tty transmittingQs set_transmittingQs (int j)) ready_if_some)"
  have b: "busy H A i ?u" using release_slot [OF assms] assms by (simp add: busy_def at_slot_def)
  have "preserves (calm H A i) (resuming H A i) ?m"
    by (auto intro!: preservesI calm_ready_tty tty_queues_intros simp: wlp_bindk [of "getk _"] wlp_bindk [of "nthk _ _"]
        wlp_bindk [of "bindk _ _"] wlp_basic wlp_nthk wlp_cases)
  moreover have "stays (deq_tty transmittingQs set_transmittingQs t)" "stays (ready_if_some v)" for t v
    unfolding deq_tty_def ready_if_some_def by (intro stays_rules; simp add: set_transmittingQs_def)+
  then have "stays ?m" by (intro stays_rules)
  ultimately have "preserves (busy H A i) (resuming H A i) ?m" by (rule busy_from_calm)
  then have "wlp ?m (\<lambda>_. busy H A i) (resuming H A i) ?u" using b by (simp add: preserves_def)
  moreover have "j < length (currTransmitters s)" using assms by (simp add: at_slot_def own_slot_def)
  ultimately show ?thesis
    by (simp add: unblockTransmitter_def set_transmitter_def wlp_bindk [of "bindk _ _"] wlp_bindk [of "getk _"]
        wlp_bindk [of "modk _"] wlp_bindk [of "nthk _ _"] wlp_basic wlp_nthk)
qed

text \<open>A round of the loop over the batches ends with a switch, the last one gives the terminal back.\<close>

lemma at_slot_out: "at_slot H A i j (s\<lparr>tty_out := w\<rparr>) = at_slot H A i j s"
  by (simp add: at_slot_def live_def procs_def kept_def machine_base_def mallocs_ok_def blocks_apart_def from_malloc_def
      has_table_def stack_base_ok_def proc_ok_def places_def others_def transmitters_def queues_def map_ok_def tty_ok_def
      pid_of_def table_of_def saved_at_def slots_ok_def own_slot_def inj_on_def)

lemma wlp_transmit_loop:
  assumes "at_slot H A i j s"
  shows "wlp (transmit_loop H (Suc fuel) (int j) d n b) (\<lambda>_. busy H A i) (resuming H A i) s"
proof -
  have "at_slot H A i j (s\<lparr>tty_out := w\<rparr>)" for w using assms by (simp add: at_slot_out)
  then show ?thesis
    by (simp add: wlp_cases Let_def TtyTransmit_def wlp_bindk wlp_basic wlp_waitTransmitter
        wlp_mono [OF wlp_unblockTransmitter [OF assms]])
qed

lemma ops_await_terminal: "preserves (busy H A i) (resuming H A i) (await_terminal H fuel t d n)"
proof (induction fuel)
  case 0
  then show ?case by (simp add: preserves_def wlp_basic)
next
  case (Suc fuel)
  have block: "wlp (bindk (blockTransmitter H (KTtyAvail t d n) t) (\<lambda>_. await_terminal H fuel t d n)) (\<lambda>_. busy H A i) (resuming H A i) s"
    if "busy H A i s" for s
  proof -
    have "wlp (blockTransmitter H (KTtyAvail t d n) t) (\<lambda>_. busy H A i) (resuming H A i) s"
      using ops_block_tty(2) [of "KTtyAvail t d n" H A i t] that by (simp add: preserves_def sending_def)
    then show ?thesis unfolding wlp_bindk by (rule wlp_mono) (use Suc in \<open>simp_all add: preserves_def\<close>)
  qed
  have send: "wlp (transmit_loop H (Suc (nat n)) t d n 0) (\<lambda>_. busy H A i) (resuming H A i) s"
    if "busy H A i s" "0 \<le> t" "t < int (length (currTransmitters s))" "currTransmitters s ! nat t = None" for s
    using wlp_transmit_loop [OF busy_at_slot [OF that(1), of "nat t"]] that by simp
  show ?case
    by (auto simp: preserves_def isTtyTransmitAvailable_def wlp_bindk [of "bindk _ _"] wlp_bindk [of "getk _"]
        wlp_bindk [of "nthk _ _"] wlp_nthk wlp_basic wlp_cases simp del: transmit_loop.simps intro: block send)
qed

section \<open>The clock\<close>

lemma calm_tickDownSleepers: "preserves (calm H A i) (resuming H A i) tickDownSleepers"
proof (rule preservesI)
  fix s
  assume c: "calm H A i s"
  then have l: "live H A i s" by (simp add: calm_def)
  note ok = live_sched [OF l]
  obtain sm where sm: "sleepingMap s = Some sm" using l by (auto simp: live_def queues_def map_ok_def)
  from tickDownSleepers_run [OF ok live_mallocs [OF l] sm] obtain t sm' where
    t: "tickDownSleepers s = Done SUCCESS t" "sched_ok H t" "mset (places t) = mset (places s)"
      "readyQ t = Some (qitems (readyQ s) @ filter (expires s) (hm_procs (Some sm)))"
      "pcbs t = (\<lambda>p. if p \<in> set (hm_procs (Some sm)) then map_option ticked (pcbs s p) else pcbs s p)"
      "currPCB t = currPCB s" by blast
  note field = tick_field [OF t(1)]
  have part: "mem_part t = mem_part s" "REG_PTBR1 t = REG_PTBR1 s" "currTransmitters t = currTransmitters s"
    by (rule field; simp add: tick_part_def mem_part_def)+
  have pcb: "same_pcbs (pcbs s) (pcbs t)" "saved_at t = saved_at s"
    by (auto simp: t(5) same_pcbs_def saved_at_def ticked_def option.map_comp comp_def fun_eq_iff split: option.splits)
  have "queues H t" using t(2) by (simp add: sched_ok_def core_def queues_def)
  moreover have "mset (others t) = mset (others s)" using t(3,6) part(3) by (simp add: places_def transmitters_def)
  ultimately have "calm H A i t" using regroup_calm [OF c part(1) pcb t(6) part(2) _ part(3)] t(4) by simp
  then show "wlp tickDownSleepers (\<lambda>_. calm H A i) (resuming H A i) s" by (simp add: wlp_def t(1))
qed

end
