(* ===== verification/WorldCalls.thy ===== *)
theory WorldCalls
  imports WorldOps
begin

text \<open>
  Exit, exec and fork preserve the invariant of \<open>World\<close>: they remove the running process, restart it, or
  add a new one.
\<close>

section \<open>The invariant and the scheduler's part of the state\<close>

lemma sched_partD:
  assumes "sched_part t = sched_part s"
  shows "mem_part t = mem_part s" "same_pcbs (pcbs s) (pcbs t)" "saved_at t = saved_at s" "currPCB t = currPCB s"
    "REG_PTBR1 t = REG_PTBR1 s" "queue_part t = queue_part s" "map_option view (pcbs t p) = map_option view (pcbs s p)"
proof -
  have v: "map_option view (pcbs t p) = map_option view (pcbs s p)" for p
    using assms by (simp add: sched_part_def fun_eq_iff)
  show "same_pcbs (pcbs s) (pcbs t)" "saved_at t = saved_at s"
    unfolding same_pcbs_def saved_at_def fun_eq_iff
  proof (safe)
    fix p
    show "map_option (\<lambda>c. (pid c, stackPfns c, r1PageTable c)) (pcbs t p) =
        map_option (\<lambda>c. (pid c, stackPfns c, r1PageTable c)) (pcbs s p)"
      using v [of p] by (cases "pcbs s p"; cases "pcbs t p") (simp_all add: view_def)
    show "(case pcbs t p of None \<Rightarrow> None | Some c \<Rightarrow> kctxt c) = (case pcbs s p of None \<Rightarrow> None | Some c \<Rightarrow> kctxt c)"
      using v [of p] by (cases "pcbs s p"; cases "pcbs t p") (simp_all add: view_def)
  qed
  show "map_option view (pcbs t p) = map_option view (pcbs s p)" by (rule v)
qed (use assms in \<open>simp_all add: sched_part_def mem_part_def queue_part_def\<close>)

lemma queue_partD:
  "queue_part t = queue_part s \<Longrightarrow> others t = others s \<and> transmitters t = transmitters s \<and>
     currTransmitters t = currTransmitters s \<and> readyQ t = readyQ s"
  by (simp add: queue_part_def others_def transmitters_def)

lemma live_part:
  assumes "sched_part t = sched_part s" "live H A i s"
  shows "live H A i t"
  using sched_partD [OF assms(1)] queue_partD [OF sched_partD(6) [OF assms(1)]] assms(2)
    queues_cong [OF _ sched_partD(2) [OF assms(1)] sched_partD(6) [OF assms(1)], of H]
  by (intro regroup [OF assms(2)]) (simp_all add: live_def)

lemma busy_part: "sched_part t = sched_part s \<Longrightarrow> busy H A i s \<Longrightarrow> busy H A i t"
  using live_part [of t s] sched_partD(4) [of t s] queue_partD [OF sched_partD(6) [of t s]]
  by (simp add: busy_def calm_def)

lemma calm_part: "sched_part t = sched_part s \<Longrightarrow> calm H A i s \<Longrightarrow> calm H A i t"
  using live_part [of t s] sched_partD(4) [of t s] queue_partD [OF sched_partD(6) [of t s]]
  by (simp add: calm_def)

text \<open>The queues only depend on the processes in them.\<close>

lemma queues_known:
  assumes "queues H s" "queue_part t = queue_part s" "\<And>p. p \<in> set (others s) \<Longrightarrow> pid_of t p = pid_of s p"
  shows "queues H t"
proof -
  have "map_ok t m" if m: "map_ok s m" "set (hm_procs m) \<subseteq> set (others s)" for m
  proof -
    from m(1) obtain hm where hm: "m = Some hm" "hm_ok hm" "\<forall>k p. hm_map hm k = Some p \<longrightarrow> pid_of s p = k"
      by (auto simp: map_ok_def)
    have "pid_of t p = k" if "hm_map hm k = Some p" for k p
    proof -
      have "p \<in> set (hm_procs (Some hm))" using that hm_procs_iff [OF hm(2)] by blast
      then show ?thesis using assms(3) [of p] m(2) hm that by auto
    qed
    then show ?thesis using hm by (simp add: map_ok_def)
  qed
  then have "map_ok t (blockedMap s)" "map_ok t (sleepingMap s)"
    using assms(1) by (auto simp: queues_def others_def)
  then show ?thesis using assms(1,2) by (simp add: queues_def queue_part_def tty_ok_def)
qed

lemma slot_transmitter: "j < length (currTransmitters s) \<Longrightarrow> currTransmitters s ! j = Some p \<Longrightarrow> p \<in> set (transmitters s)"
  unfolding transmitters_def slot_member by (metis nth_mem)

section \<open>Exit\<close>

lemma busy_hw: "busy H A i s \<Longrightarrow> hw_ok H"
  by (simp add: busy_def calm_def live_def procs_def machine_base_def)

lemma live_curr: "live H A i s \<Longrightarrow> proc_ok H s (currPCB s)"
  by (simp add: live_def procs_def places_def)

lemma apart_tables: "0 < SIZEOF_PTE H \<Longrightarrow> apart H a b \<Longrightarrow> table_addrs H a \<inter> table_addrs H b = {}"
proof (rule ccontr)
  assume pos: "0 < SIZEOF_PTE H" and ap: "apart H a b" and "table_addrs H a \<inter> table_addrs H b \<noteq> {}"
  then obtain j k where jk: "j < MAX_PT_LEN H" "k < MAX_PT_LEN H" "a + j * SIZEOF_PTE H = b + k * SIZEOF_PTE H"
    by (auto simp: table_addrs_def)
  then have "j * SIZEOF_PTE H < MAX_PT_LEN H * SIZEOF_PTE H" "k * SIZEOF_PTE H < MAX_PT_LEN H * SIZEOF_PTE H"
    using pos by simp_all
  then show False using ap jk(3) unfolding apart_def by linarith
qed

text \<open>The block and the table of the running process are gone, everything else is as before.\<close>

definition gone :: "hw \<Rightarrow> kstate \<Rightarrow> ptr \<Rightarrow> kstate" where
  "gone H s b = s\<lparr>ptes := (\<lambda>a. if a \<in> table_addrs H b then None else ptes s a)\<rparr>"

lemma gone_parked:
  assumes pos: "0 < SIZEOF_PTE H" and b: "busy H A i s" "table_of s (currPCB s) = Some b"
    and u: "sched_part u = sched_part (gone H s b)"
  shows "parked H A i (leaving KStart None (u\<lparr>pcbs := (pcbs u)(currPCB s := None)\<rparr>)) (u\<lparr>pcbs := (pcbs u)(currPCB s := None)\<rparr>)"
proof -
  let ?c = "currPCB s"
  let ?t = "u\<lparr>pcbs := (pcbs u)(?c := None)\<rparr>"
  from b have l: "live H A i s" and tx: "?c \<notin> set (transmitters s)" and idle: "?c \<noteq> i"
    by (simp_all add: busy_def calm_def)
  note parts = sched_partD [OF u] queue_partD [OF sched_partD(6) [OF u]]
  have q: "queue_part ?t = queue_part s" using parts(6) by (simp add: queue_part_def gone_def)
  then have vac: "vacated ?t = vacated s" and oth: "others ?t = others s" "readyQ ?t = readyQ s"
      "currTransmitters ?t = currTransmitters s"
    using queue_partD [OF q] by (simp_all add: vacated_def)
  have pl: "places s = ?c # vacated s" using tx by (rule places_idle_tx)
  have ps: "procs H A s (?c # vacated s)" using l pl by (simp add: live_def)
  then have out: "?c \<notin> set (vacated s)" by (simp add: procs_def)
  have mem: "dom (ptes u) = dom (ptes s) - table_addrs H b" "REG_PTBR0 u = REG_PTBR0 s" "REG_PTLR0 u = REG_PTLR0 s"
      "REG_PTLR1 u = REG_PTLR1 s" "malloc_oracle u = malloc_oracle s" "r0StackBasePtep u = r0StackBasePtep s" "nextPid u = nextPid s"
    using parts(1) by (auto simp: mem_part_def gone_def dom_def)
  have base: "machine_base H s" "b \<noteq> REG_PTBR0 s" "from_malloc s b"
    using ps b(2) live_curr [OF l] by (auto simp: procs_def proc_ok_def table_of_def)
  have stays: "has_table H ?t a" if "has_table H s a" "from_malloc s a" "a \<noteq> b" for a
    using that base apart_tables [OF pos malloc_apart [of H s a b]] mem(1)
    by (auto simp: has_table_dom_iff machine_base_def)
  have base': "machine_base H ?t"
    using base stays [of "REG_PTBR0 s"] mem
    by (auto simp: machine_base_def mallocs_ok_def blocks_apart_def from_malloc_def stack_base_ok_def)
  have same: "map_option view (pcbs ?t p) = map_option view (pcbs s p)" if "p \<noteq> ?c" for p
    using parts(7) [of p] that by (simp add: gone_def)
  have "proc_ok H ?t p \<and> table_of ?t p = table_of s p \<and> pid_of ?t p = pid_of s p \<and> saved_at ?t p = saved_at s p"
    if p: "p \<in> set (vacated s)" for p
  proof -
    have ne: "p \<noteq> ?c" using p out by auto
    obtain c b' where c: "pcbs s p = Some c" "length (stackPfns c) = KSTACK_NPG H" "0 \<le> pid c" "pid c < nextPid s"
        "r1PageTable c = Some b'" "from_malloc s b'" "has_table H s b'" "b' \<noteq> REG_PTBR0 s"
      using ps p by (auto simp: procs_def proc_ok_def)
    have "b' \<noteq> b"
    proof
      assume "b' = b"
      then have "table_of s p = table_of s ?c" using c b(2) by (simp add: table_of_def)
      then show False using ps p ne by (auto simp: procs_def inj_on_def)
    qed
    moreover obtain c' where c': "pcbs u p = Some c'" "view c' = view c"
      using same [OF ne] c(1) ne by (cases "pcbs u p") auto
    ultimately show ?thesis
      using c c' ne stays [of b'] mem
      by (auto simp: proc_ok_def table_of_def pid_of_def saved_at_def view_def from_malloc_def)
  qed
  note procs = this
  have old: "kept A s (?c # vacated s)" using ps by (simp add: procs_def)
  have "kept A ?t (vacated s)"
  proof (rule keptI)
    show "(p, n, b) \<in> A \<Longrightarrow> n < nextPid ?t" for p n b using keptD(1) [OF old] mem(7) by simp
    show "p \<in> set (vacated s) \<longleftrightarrow> b" if c: "(p, pid c, b) \<in> A" "pcbs ?t p = Some c" for p c b
    proof -
      have ne: "p \<noteq> ?c" using c by auto
      with same [OF ne] c obtain c' where "pcbs s p = Some c'" "pid c' = pid c" by (cases "pcbs s p") (auto simp: view_def)
      then show ?thesis using keptD(2) [OF old, of p c' b] c ne by auto
    qed
  qed
  then have "procs H A ?t (vacated ?t)"
    using ps base' procs by (auto simp: procs_def vac inj_on_def)
  moreover have "queues H ?t"
  proof (rule queues_known [OF _ q])
    show "queues H s" using l by (simp add: live_def)
    show "p \<in> set (others s) \<Longrightarrow> pid_of ?t p = pid_of s p" for p using procs [of p] by (simp add: vacated_def)
  qed
  moreover have slot: "p \<in> set (vacated s)" if "j < length (currTransmitters s)" "currTransmitters s ! j = Some p" for j p
    using slot_transmitter [OF that] by (simp add: vacated_def)
  have "slots_ok (saved_at ?t) ?t"
    using l procs slot unfolding slots_ok_def oth by (auto simp: live_def slots_ok_def vacated_def)
  moreover have "i \<in> set (qitems (readyQ s))" using l idle by (auto simp: live_def)
  moreover from this have "i \<in> set (vacated s)" by (auto simp: vacated_def others_def)
  then have "idle_ctx (saved_at ?t i)" using procs l by (simp add: live_def)
  ultimately show ?thesis using oth by (simp add: parked_def leaving_def)
qed

lemma table_curr: "live H A i s \<Longrightarrow> table_of s (currPCB s) = Some (REG_PTBR1 s)"
  by (simp add: live_def)

text \<open>The end of \<^verbatim>\<open>exitProcess\<close>: the process is deleted and the head of the ready queue runs.\<close>

lemma wlp_delete_switch:
  assumes pos: "0 < SIZEOF_PTE H" and b: "busy H A i s"
  shows "wlp (bindk (delete_process H (currPCB s)) (\<lambda>_. bindk deq_ready (\<lambda>nextPCB.
         case nextPCB of None \<Rightarrow> retk ERROR | Some n \<Rightarrow> switchBetween H KStart None n))) Q (resuming H A i) s"
proof -
  let ?c = "currPCB s" and ?b = "REG_PTBR1 s"
  let ?rest = "bindk deq_ready (\<lambda>nextPCB. case nextPCB of None \<Rightarrow> retk ERROR | Some n \<Rightarrow> switchBetween H KStart None n)"
  have l: "live H A i s" using b by (simp add: busy_def calm_def)
  have next_one: "wlp ?rest Q (resuming H A i) (u\<lparr>pcbs := (pcbs u)(?c := None)\<rparr>)" if u: "sched_part u = sched_part (gone H t ?b)" "sched_part t = sched_part s" for t u
  proof -
    have "busy H A i t" "currPCB t = ?c" "table_of t ?c = Some ?b"
      using busy_part [OF u(2) b] sched_partD(4,5) [OF u(2)] table_curr [OF live_part [OF u(2) l]] by simp_all
    with gone_parked [OF pos _ _ u(1)]
    have pk: "parked H A i (leaving KStart None (u\<lparr>pcbs := (pcbs u)(?c := None)\<rparr>)) (u\<lparr>pcbs := (pcbs u)(?c := None)\<rparr>)" by simp
    then obtain n q where r: "readyQ (u\<lparr>pcbs := (pcbs u)(?c := None)\<rparr>) = Some (n # q)" by (rule parked_ready)
    from wlp_switch_ready [OF pk r] show ?thesis using r by (simp add: wlp_bindk wlp_deq_ready wlp_cases)
  qed
  obtain pc where pc: "pcbs s ?c = Some pc" "r1PageTable pc = Some ?b"
    using table_curr [OF l] by (auto simp: table_of_def split: option.splits)
  show ?thesis
    unfolding delete_process_def bindk_assoc
    apply (simp add: wlp_bindk [of "get_pcb _"] wlp_bindk [of "nonnull _"] wlp_pcbs pc)
    apply (rule steady_then [OF settled_free_r1_frames(1)])
    apply (simp only: wlp_bindk [of "modk _"] wlp_basic)
    apply (rule steady_then [OF settled_free_r1_frames(2)])
    apply (simp only: wlp_bindk [of "modk _"] wlp_basic)
    apply (rule next_one, simp only: gone_def, assumption)
    done
qed

section \<open>Rules for preservation\<close>

named_theorems preserve_rules \<open>code that preserves an invariant\<close>

lemma preserves_bindk [preserve_rules]: "preserves U R m \<Longrightarrow> (\<And>x. preserves U R (f x)) \<Longrightarrow> preserves U R (bindk m f)"
  unfolding preserves_def wlp_bindk by (blast intro: wlp_mono)

lemma preserves_cases [preserve_rules]:
  "(b \<Longrightarrow> preserves U R m) \<Longrightarrow> (\<not> b \<Longrightarrow> preserves U R n) \<Longrightarrow> preserves U R (if b then m else n)"
  "(v = None \<Longrightarrow> preserves U R m) \<Longrightarrow> (\<And>x. v = Some x \<Longrightarrow> preserves U R (g x)) \<Longrightarrow> preserves U R (case v of None \<Rightarrow> m | Some x \<Rightarrow> g x)"
  "(\<And>x y. preserves U R (h x y)) \<Longrightarrow> preserves U R (case w of (x, y) \<Rightarrow> h x y)"
  "preserves U R (k u) \<Longrightarrow> preserves U R (Let u k)"
  by (auto split: option.splits prod.splits)

lemma preserves_basic [preserve_rules]:
  "preserves U R (retk x)" "preserves U R (getk g)" "preserves U R (faultk e)" "preserves U R haltk"
  "preserves U R (fetch h p)" "preserves U R (liftk r)" "preserves U R (nonnull v)"
  by (auto simp: preserves_def wlp_basic nonnull_def split: option.splits)

lemma preserves_foldk [preserve_rules]: "(\<And>x. preserves U R (f x)) \<Longrightarrow> preserves U R (foldk f xs)"
  by (induction xs) (auto intro!: preserve_rules)

lemma preserves_steady: "steady f m \<Longrightarrow> (\<And>s t. f t = f s \<Longrightarrow> U s \<Longrightarrow> U t) \<Longrightarrow> preserves U R m"
  unfolding preserves_def by (blast intro: steady_wlp)

lemma preserves_staying:
  assumes "preserves U R m" "stays m"
  shows "preserves (\<lambda>s. U s \<and> currPCB s = c) R m"
  using assms by (auto simp: preserves_def stays_def wlp_def)

lemma preserves_then:
  assumes "preserves U R m" "U s" "\<And>x t. U t \<Longrightarrow> wlp (f x) Q R t"
  shows "wlp (bindk m f) Q R s"
  unfolding wlp_bindk using assms by (auto simp: preserves_def intro: wlp_mono)

lemma busy_settled: "settled m \<Longrightarrow> preserves (busy H A i) R m"
  by (erule preserves_steady) (rule busy_part)

lemma ops_leave_zombie: "preserves (busy H A i) (resuming H A i) (leave_zombie c pp st)"
proof -
  have upd: "settled (upd_pcb p (\<lambda>x. x\<lparr>zombieQ := q\<rparr>))" for p q by (intro steady_rules) (simp add: view_def)
  show ?thesis unfolding leave_zombie_def
    by (intro preserve_rules ops_unblockProcess upd [THEN busy_settled] busy_settled steady_rules)
qed

lemma ops_exitProcess: "preserves (busy H A i) (resuming H A i) (exitProcess H st)"
proof (rule preservesI)
  fix s
  assume b: "busy H A i s"
  then have pos: "0 < SIZEOF_PTE H" using busy_hw by (auto simp: hw_ok_def)
  let ?U = "\<lambda>t. busy H A i t \<and> currPCB t = currPCB s"
  have zombie: "preserves ?U (resuming H A i) (case v of None \<Rightarrow> retk SUCCESS | Some pp \<Rightarrow> leave_zombie (currPCB s) pp st)" for v
    by (intro preserves_staying preserve_rules ops_leave_zombie stays_rules quietD(2) [OF quiet_leave_zombie])
  have kids: "preserves ?U (resuming H A i) (HashMap_iterate get removeParent)" for get
    unfolding removeParent_def
    by (intro preserves_staying busy_settled steady_rules stays_rules) (simp add: view_def)
  have gone: "wlp (bindk (delete_process H (currPCB s)) (\<lambda>_. bindk deq_ready (\<lambda>nextPCB.
         case nextPCB of None \<Rightarrow> retk ERROR | Some n \<Rightarrow> switchBetween H KStart None n))) Q (resuming H A i) t" if "?U t" for t Q
    using wlp_delete_switch [OF pos, of A i t Q] that by simp
  show "wlp (exitProcess H st) (\<lambda>_. busy H A i) (resuming H A i) s"
    unfolding exitProcess_def
    apply (simp only: wlp_bindk [of "getk _"] wlp_bindk [of "get_pcb _"] wlp_basic wlp_pcbs)
    apply (intro allI impI)
    apply (rule preserves_then [OF zombie], simp add: b)
    apply (simp only: wlp_cases(1) wlp_basic, intro conjI impI, blast)
    apply (rule preserves_then [OF kids], assumption)
    apply (erule gone)
    done
qed

section \<open>Exec\<close>

lemma ops_execProcess: "preserves (busy H A i) (resuming H A i) execProcess"
proof (rule preservesI)
  fix s
  assume b: "busy H A i s"
  then have l: "live H A i s" and tx: "currPCB s \<notin> set (transmitters s)" and idle: "currPCB s \<noteq> i"
    by (simp_all add: busy_def calm_def)
  have "resuming H A i (s\<lparr>pcbs := (pcbs s)(currPCB s \<mapsto> pc\<lparr>kctxt := Some KStart\<rparr>)\<rparr>)" if pc: "pcbs s (currPCB s) = Some pc" for pc
  proof -
    let ?t = "s\<lparr>pcbs := (pcbs s)(currPCB s \<mapsto> pc\<lparr>kctxt := Some KStart\<rparr>)\<rparr>"
    have same: "same_pcbs (pcbs s) (pcbs ?t)"
      using same_pcbs_upd [of "pcbs s" "currPCB s" pc "pc\<lparr>kctxt := Some KStart\<rparr>" "pcbs s"] pc by simp
    have q: "queue_part ?t = queue_part s" by (simp add: queue_part_def)
    note parts = queue_partD [OF q]
    have pl: "places ?t = places s" using parts by (simp add: places_def)
    have saved: "saved_at ?t p = (if p = currPCB s then Some KStart else saved_at s p)" for p by (simp add: saved_at_def)
    have "procs H A ?t (places ?t)" using procs_cong [OF _ _ same, of H A "places s" "places ?t"] l pl by (simp add: live_def mem_part_def)
    moreover have "queues H ?t" using queues_cong [OF _ same q] l by (simp add: live_def)
    moreover have "slots_ok (saved_at ?t) ?t"
      using l tx slot_transmitter [of _ s "currPCB s"] parts by (auto simp: live_def slots_ok_def saved)
    ultimately have "live H A i ?t"
      using l idle parts same_pcbs_table [OF same] by (simp add: live_def saved idle_ctx_def)
    then show ?thesis using tx parts by (simp add: resuming_def saved)
  qed
  then show "wlp execProcess (\<lambda>_. busy H A i) (resuming H A i) s"
    by (simp add: execProcess_def execTo_def wlp_bindk wlp_basic wlp_switch_parts wlp_pcbs)
qed

section \<open>A new process\<close>

text \<open>\<open>p\<close> exists but is in no queue yet.\<close>

definition nursing :: "hw \<Rightarrow> memory \<Rightarrow> ptr \<Rightarrow> ptr \<Rightarrow> kstate \<Rightarrow> bool" where
  "nursing H A i p s \<longleftrightarrow> busy H A i s \<and> procs H A s (p # places s)"

lemma nursing_part:
  assumes "sched_part t = sched_part s" "nursing H A i p s"
  shows "nursing H A i p t"
proof -
  have "places t = places s" using sched_partD(4) [OF assms(1)] queue_partD [OF sched_partD(6) [OF assms(1)]] by (simp add: places_def)
  then show ?thesis
    using procs_cong [OF _ sched_partD(1,2) [OF assms(1)], of H A "p # places s" "p # places t"] busy_part [OF assms(1)] assms(2)
    by (simp add: nursing_def)
qed

lemma nursing_then:
  "settled m \<Longrightarrow> nursing H A i p s \<Longrightarrow> (\<And>x t. nursing H A i p t \<Longrightarrow> wlp (f x) Q R t) \<Longrightarrow> wlp (bindk m f) Q R s"
  by (rule steady_then, assumption) (simp add: nursing_part)

text \<open>A process outside all places may come and change.\<close>

lemma live_outside:
  assumes l: "live H A i s" and p: "p \<notin> set (places s)" "pcbs t = (pcbs s)(p := v)"
    and t: "queue_part t = queue_part s" "currPCB t = currPCB s" "REG_PTBR1 t = REG_PTBR1 s" "procs H A t (places s)"
  shows "live H A i t"
proof -
  have known: "saved_at t q = saved_at s q" "table_of t q = table_of s q" "pid_of t q = pid_of s q" if "q \<noteq> p" for q
    using that p(2) by (simp_all add: saved_at_def table_of_def pid_of_def)
  note parts = queue_partD [OF t(1)]
  have pl: "places t = places s" using parts t(2) by (simp add: places_def)
  have in_places: "set (others s) \<subseteq> set (places s)" "currPCB s \<in> set (places s)" "set (transmitters s) \<subseteq> set (places s)"
    by (auto simp: places_def)
  have ne: "q \<noteq> p" if "q \<in> set (others s)" for q using that in_places(1) p(1) by auto
  have "queues H s" using l by (simp add: live_def)
  then have "queues H t" by (rule queues_known [OF _ t(1)]) (simp add: known(3) ne)
  have "q \<noteq> p" if "j < length (currTransmitters s)" "currTransmitters s ! j = Some q" for j q
    using slot_transmitter [OF that] in_places p(1) by auto
  then have "slots_ok (saved_at t) t"
    using l unfolding slots_ok_def live_def by (auto simp: parts known(1) ne)
  have "i \<in> set (places s)" using l by (auto simp: live_def others_def places_def)
  then have "i \<noteq> p" "currPCB s \<noteq> p" using p(1) in_places by auto
  note same = known(1) [OF \<open>i \<noteq> p\<close>] known(1,2) [OF \<open>currPCB s \<noteq> p\<close>]
  have "readyQ t = readyQ s" using parts by simp
  with l t(4) \<open>queues H t\<close> \<open>slots_ok (saved_at t) t\<close> show ?thesis
    unfolding live_def pl t(2,3) same by presburger
qed

lemma busy_outside:
  "busy H A i s \<Longrightarrow> p \<notin> set (places s) \<Longrightarrow> pcbs t = (pcbs s)(p := v) \<Longrightarrow> queue_part t = queue_part s \<Longrightarrow>
     currPCB t = currPCB s \<Longrightarrow> REG_PTBR1 t = REG_PTBR1 s \<Longrightarrow> procs H A t (places s) \<Longrightarrow> busy H A i t"
  using live_outside [of H A i s p t v] queue_partD [of t s] by (simp add: busy_def calm_def)

lemma procs_sub: "procs H A s (p # ps) \<Longrightarrow> kept A s ps \<Longrightarrow> procs H A s ps"
  by (auto simp: procs_def)

text \<open>The new block with its table: its pid and its table are new.\<close>

lemma fresh_kept:
  assumes "kept A s ps" "pcbs t = (pcbs s)(p \<mapsto> c)" "pid c = nextPid s" "nextPid t = nextPid s + 1"
  shows "kept A t ps"
proof (rule keptI)
  show "(q, n, b) \<in> A \<Longrightarrow> n < nextPid t" for q n b using keptD(1) [OF assms(1), of q n b] assms(4) by simp
  show "q \<in> set ps \<longleftrightarrow> b" if "(q, pid d, b) \<in> A" "pcbs t q = Some d" for q d b
    using keptD(1) [OF assms(1), of q "pid d" b] keptD(2) [OF assms(1), of q d b] that assms(2,3) by (cases "q = p") auto
qed

lemma fresh_procs:
  assumes l: "live H A i s" and len: "0 < MAX_PT_LEN H" and p: "pcbs s p = None"
    and b: "from_malloc s b" "dom (ptes s) \<inter> table_addrs H b = {}"
    and t: "pcbs t = (pcbs s)(p \<mapsto> c)" "dom (ptes t) = dom (ptes s) \<union> table_addrs H b" "nextPid t = nextPid s + 1"
      "REG_PTBR0 t = REG_PTBR0 s" "REG_PTLR0 t = REG_PTLR0 s" "REG_PTLR1 t = REG_PTLR1 s"
      "malloc_oracle t = malloc_oracle s" "r0StackBasePtep t = r0StackBasePtep s"
    and c: "pid c = nextPid s" "r1PageTable c = Some b" "length (stackPfns c) = KSTACK_NPG H"
  shows "procs H A t (p # places s)"
proof -
  have ps: "procs H A s (places s)" using l by (simp add: live_def)
  then have base: "machine_base H s" by (simp add: procs_def)
  have old: "b \<noteq> a" if "has_table H s a" for a using tables_differ [OF len that b(2)] by blast
  have keep: "has_table H t a" if "has_table H s a" for a using that t(2) by (auto simp: has_table_dom_iff)
  have malloc: "from_malloc t a = from_malloc s a" for a using t(7) by (simp add: from_malloc_def)
  have base': "machine_base H t"
    using base keep [of "REG_PTBR0 s"] t by (simp add: machine_base_def mallocs_ok_def blocks_apart_def from_malloc_def stack_base_ok_def)
  have known: "proc_ok H s q" if "q \<in> set (places s)" for q using ps that by (simp add: procs_def)
  have ne: "q \<noteq> p" if "q \<in> set (places s)" for q using p known [OF that] by (auto simp: proc_ok_def)
  have same: "pid_of t q = pid_of s q" "table_of t q = table_of s q" "proc_ok H t q" if q: "q \<in> set (places s)" for q
    using ne [OF q] known [OF q] t keep by (auto simp: pid_of_def table_of_def proc_ok_def malloc)
  have kept': "kept A t (p # places s)"
  proof (rule keptI)
    have old: "kept A s (places s)" using ps by (simp add: procs_def)
    note new = fresh_kept [OF old t(1) c(1) t(3)]
    show "n < nextPid t" if "(q, n, w) \<in> A" for q n w using keptD(1) [OF new that] .
    show "q \<in> set (p # places s) \<longleftrightarrow> w" if a: "(q, pid d, w) \<in> A" "pcbs t q = Some d" for q d w
      using keptD(1) [OF old a(1)] keptD(2) [OF new a] a(2) t(1) c(1) by (cases "q = p") auto
  qed
  have "has_table H t b" using t(2) by (simp add: has_table_dom_iff)
  moreover have "has_table H s (REG_PTBR0 s)" using base by (simp add: machine_base_def)
  ultimately have new: "proc_ok H t p" using b(1) base c t old [of "REG_PTBR0 s"]
    by (auto simp: proc_ok_def malloc machine_base_def)
  have "pid_of t p \<noteq> pid_of t q \<and> table_of t p \<noteq> table_of t q" if q: "q \<in> set (places s)" for q
    using known [OF q] same [OF q] old t(1) c by (auto simp: proc_ok_def pid_of_def table_of_def)
  moreover have "inj_on (pid_of t) (set (places s))" "inj_on (table_of t) (set (places s))"
    using ps same by (simp_all add: procs_def inj_on_def)
  ultimately show ?thesis
    using base' new same(3) ne ps kept' by (auto simp: procs_def)
qed

lemma fresh_nursing:
  assumes b: "busy H A i s" and "0 < MAX_PT_LEN H" "pcbs s p = None"
    "from_malloc s b" "dom (ptes s) \<inter> table_addrs H b = {}"
    "pcbs t = (pcbs s)(p \<mapsto> c)" "dom (ptes t) = dom (ptes s) \<union> table_addrs H b" "nextPid t = nextPid s + 1"
    "REG_PTBR0 t = REG_PTBR0 s" "REG_PTLR0 t = REG_PTLR0 s" "REG_PTLR1 t = REG_PTLR1 s"
    "malloc_oracle t = malloc_oracle s" "r0StackBasePtep t = r0StackBasePtep s"
    "pid c = nextPid s" "r1PageTable c = Some b" "length (stackPfns c) = KSTACK_NPG H"
    and q: "queue_part t = queue_part s" "currPCB t = currPCB s" "REG_PTBR1 t = REG_PTBR1 s"
  shows "nursing H A i p t"
proof -
  have "live H A i s" using b by (simp add: busy_def calm_def)
  from this have ps: "procs H A t (p # places s)" using assms by (intro fresh_procs)
  have "procs H A s (places s)" using \<open>live H A i s\<close> by (simp add: live_def)
  then have kept: "kept A t (places s)" using assms(6,8,14) fresh_kept [of A s "places s" t p c] by (simp add: procs_def)
  moreover have "p \<notin> set (places s)" using ps by (simp add: procs_def)
  moreover have "places t = places s" using queue_partD [OF q(1)] q(2) by (simp add: places_def)
  ultimately show ?thesis
    using ps busy_outside [OF b _ assms(6) q procs_sub [OF ps kept]] by (simp add: nursing_def)
qed

text \<open>A block that could not be completed is deleted again: only its pid is used up.\<close>

lemma busy_bump:
  assumes "busy H A i s"
  shows "busy H A i (s\<lparr>nextPid := nextPid s + 1\<rparr>)"
proof -
  let ?t = "s\<lparr>nextPid := nextPid s + 1\<rparr>"
  have l: "live H A i s" using assms by (simp add: busy_def calm_def)
  have "proc_ok H s p \<Longrightarrow> proc_ok H ?t p" for p by (force simp: proc_ok_def from_malloc_def has_table_def)
  moreover have "kept A s (places s) \<Longrightarrow> kept A ?t (places s)" by (fastforce simp: kept_def)
  ultimately have "procs H A s (places s) \<Longrightarrow> procs H A ?t (places s)"
    unfolding procs_def by (auto simp: procs_def machine_base_def mallocs_ok_def blocks_apart_def from_malloc_def has_table_def stack_base_ok_def
        pid_of_def table_of_def inj_on_def)
  moreover have "places ?t = places s" by (simp add: places_def others_def transmitters_def)
  ultimately have "live H A i ?t" using l
    by (simp add: live_def queues_def map_ok_def tty_ok_def pid_of_def table_of_def saved_at_def slots_ok_def others_def)
  then show ?thesis using assms by (simp add: busy_def calm_def transmitters_def)
qed

lemma dropped_part:
  assumes v: "sched_part v1 = sched_part v" "sched_part v3 = sched_part (gone H v1 b)"
    and b: "dom (ptes v) = dom (ptes s) \<union> table_addrs H b" "dom (ptes s) \<inter> table_addrs H b = {}"
    and p: "pcbs v = (pcbs s)(p \<mapsto> c)" "pcbs s p = None"
    and rest: "sched_part (v\<lparr>ptes := ptes s, pcbs := pcbs s\<rparr>) = sched_part (s\<lparr>nextPid := nextPid s + 1\<rparr>)"
  shows "sched_part (v3\<lparr>pcbs := (pcbs v3)(p := None)\<rparr>) = sched_part (s\<lparr>nextPid := nextPid s + 1\<rparr>)"
proof -
  have "dom (ptes v3) = dom (ptes v) - table_addrs H b"
    using sched_partD(1) [OF v(1)] sched_partD(1) [OF v(2)] by (auto simp: mem_part_def gone_def dom_def)
  also have "\<dots> = dom (ptes s)" using b by blast
  finally have d: "dom (ptes v3) = dom (ptes s)" .
  have "map_option view (pcbs v3 q) = map_option view (pcbs v q)" for q
    using sched_partD(7) [OF v(1), of q] sched_partD(7) [OF v(2), of q] by (simp add: gone_def)
  then have "map_option view (((pcbs v3)(p := None)) q) = map_option view (pcbs s q)" for q
    using p by simp
  then show ?thesis
    using v rest d by (simp add: sched_part_def gone_def fun_eq_iff)
qed

definition born :: "hw \<Rightarrow> memory \<Rightarrow> ptr \<Rightarrow> ptr option \<Rightarrow> kstate \<Rightarrow> bool" where
  "born H A i r t \<longleftrightarrow> (case r of None \<Rightarrow> busy H A i t | Some p \<Rightarrow> nursing H A i p t)"

lemma wlp_drop_block:
  assumes b: "busy H A i s" "pcbs s p = None" "dom (ptes s) \<inter> table_addrs H b = {}"
    and v: "pcbs v = (pcbs s)(p \<mapsto> c)" "r1PageTable c = Some b" "dom (ptes v) = dom (ptes s) \<union> table_addrs H b"
      "sched_part (v\<lparr>ptes := ptes s, pcbs := pcbs s\<rparr>) = sched_part (s\<lparr>nextPid := nextPid s + 1\<rparr>)"
  shows "wlp (bindk (delete_process H p) (\<lambda>_. retk None)) (born H A i) R v"
proof -
  have pc: "pcbs v p = Some c" using v(1) by simp
  have "busy H A i (v3\<lparr>pcbs := (pcbs v3)(p := None)\<rparr>)"
    if "sched_part v1 = sched_part v" "sched_part v3 = sched_part (gone H v1 b)" for v1 v3
    using busy_part [OF dropped_part [OF that v(3) b(3) v(1) b(2) v(4)] busy_bump [OF b(1)]] .
  then show ?thesis
    unfolding delete_process_def bindk_assoc
    apply (simp add: wlp_bindk [of "get_pcb _"] wlp_bindk [of "nonnull _"] wlp_pcbs pc v(2))
    apply (rule steady_then [OF settled_free_r1_frames(1)])
    apply (simp only: wlp_bindk [of "modk _"] wlp_basic)
    apply (rule steady_then [OF settled_free_r1_frames(2)])
    apply (simp only: wlp_bindk [of "modk _"] wlp_basic)
    apply (simp add: born_def gone_def)
    done
qed

lemma wlp_initPCB_busy:
  assumes len: "0 < MAX_PT_LEN H" and b: "busy H A i s"
  shows "wlp (initPCB H) (born H A i) R s"
proof -
  have frames: "wlp (bindk (init_stack_frames H p) (\<lambda>r. if r = ERROR then bindk (delete_process H p) (\<lambda>_. retk None)
        else retk (Some p))) (born H A i) R u"
    if p: "pcbs s p = None" and d: "from_malloc s b" "dom (ptes s) \<inter> table_addrs H b = {}"
      and u: "u = s\<lparr>nextPid := nextPid s + 1, malloc_count := m, ptes := P,
        pcbs := (pcbs s)(p \<mapsto> blank_pcb (nextPid s) None cm (Some b))\<rparr>" "dom P = dom (ptes s) \<union> table_addrs H b" for u p cm b m P
  proof -
    let ?w = "with_frames u p (blank_pcb (nextPid s) None cm (Some b))"
    have pc: "pcbs u p = Some (blank_pcb (nextPid s) None cm (Some b))" by (simp add: u(1))
    have "wlp (bindk (delete_process H p) (\<lambda>_. retk None)) (born H A i) R (?w fs fl x)" for fs fl x
      by (rule wlp_drop_block [OF b p d(2), where c = "(blank_pcb (nextPid s) None cm (Some b))\<lparr>stackPfns := fs\<rparr>"])
        (simp_all add: with_frames_def u blank_pcb_def sched_part_def)
    moreover have "nursing H A i p (?w fs fl x)" if "length fs = KSTACK_NPG H" for fs fl x
      by (rule fresh_nursing [OF b len p d, where c = "(blank_pcb (nextPid s) None cm (Some b))\<lparr>stackPfns := fs\<rparr>"])
        (simp_all add: with_frames_def u blank_pcb_def queue_part_def that)
    ultimately show ?thesis
      unfolding wlp_bindk [of "init_stack_frames _ _"] unfolding init_stack_frames_def
      by (intro wlp_mono [OF wlp_stack_frames [OF pc]]) (auto simp: wlp_cases wlp_basic born_def)
  qed
  have table: "wlp (initializeRegionPageTable H) (\<lambda>pt. wlp (bindk (modk (\<lambda>s. s\<lparr>pcbs := (pcbs s)(p \<mapsto>
        blank_pcb n None cm pt)\<rparr>)) (\<lambda>_.
      if pt = None then bindk (delete_process H p) (\<lambda>_. retk None)
      else bindk (init_stack_frames H p) (\<lambda>r. if r = ERROR then bindk (delete_process H p) (\<lambda>_. retk None)
        else retk (Some p)))) (born H A i) R) R v"
    if v: "v = s\<lparr>nextPid := nextPid s + 1, malloc_count := m\<rparr>" and n: "n = nextPid s" and p: "pcbs s p = None" for v p cm m n
  proof (rule wlp_new_table, goal_cases)
    case (1 c)
    show ?case
      by (simp add: wlp_bindk wlp_basic wlp_cases delete_process_def wlp_pcbs blank_pcb_def)
  next
    case (2 b P c)
    then show ?case
      by (simp add: wlp_bindk [of "modk _"] wlp_basic n, intro frames [OF p]) (simp_all add: v from_malloc_def)
  qed
  have none: "born H A i None (s\<lparr>malloc_count := m\<rparr>)" for m
    using busy_part [of "s\<lparr>malloc_count := m\<rparr>" s] b by (simp add: born_def sched_part_def)
  show ?thesis
    unfolding initPCB_def
    apply (simp add: wlp_bindk [of mallock] wlp_bindk [of "getk _"] wlp_bindk [of "modk _"] wlp_bindk [of malloc_okk]
        wlp_basic wlp_mallock wlp_cases none)
    apply (intro impI allI, rule wlp_then, rule wlp_hm_newk_any, simp add: wlp_cases wlp_basic)
    apply (intro impI, rule wlp_then, rule table [simplified]; simp)
    done
qed

section \<open>Fork\<close>

lemma nursing_upd:
  assumes n: "nursing H A i p s" and c: "pcbs s p = Some c" "pid c' = pid c" "stackPfns c' = stackPfns c" "r1PageTable c' = r1PageTable c"
  shows "nursing H A i p (s\<lparr>pcbs := (pcbs s)(p \<mapsto> c')\<rparr>)"
proof -
  let ?t = "s\<lparr>pcbs := (pcbs s)(p \<mapsto> c')\<rparr>"
  have same: "same_pcbs (pcbs s) (pcbs ?t)" using same_pcbs_upd [of "pcbs s" p c c' "pcbs s"] c by simp
  have q: "queue_part ?t = queue_part s" by (simp add: queue_part_def)
  have pl: "places ?t = places s" using queue_partD [OF q] by (simp add: places_def)
  have "procs H A ?t (p # places s)"
    using procs_cong [OF _ _ same, of H A "p # places s" "p # places s"] n by (simp add: nursing_def mem_part_def)
  moreover have "procs H A ?t (places s)"
    using procs_cong [OF _ _ same, of H A "places s" "places s"] n by (simp add: nursing_def busy_def calm_def live_def mem_part_def)
  moreover have "p \<notin> set (places s)" using n by (simp add: nursing_def procs_def)
  ultimately show ?thesis
    using busy_outside [of H A i s p ?t "Some c'"] n q pl by (simp add: nursing_def)
qed

text \<open>The state at the end of \<^verbatim>\<open>forkTo\<close>: the parent is ready, the child runs, both in the context \<open>k\<close>.\<close>

lemma forked_resuming:
  assumes n: "nursing H A i p s" and k: "sending (Some k) = None" and q: "readyQ s = Some q"
    and pc: "pcbs s (currPCB s) = Some pc"
    and t: "sched_part t = sched_part (s\<lparr>readyQ := Some (q @ [currPCB s]),
       pcbs := (pcbs s)(currPCB s \<mapsto> pc\<lparr>kctxt := Some k\<rparr>), currPCB := p\<rparr>)"
    and ch: "pcbs t p = Some ch" "r1PageTable ch = Some b"
  shows "resuming H A i (t\<lparr>pcbs := (pcbs t)(p \<mapsto> ch\<lparr>kctxt := Some k\<rparr>), REG_PTBR1 := b, tlb_log := w\<rparr>)"
proof -
  let ?c = "currPCB s"
  let ?s = "s\<lparr>readyQ := Some (q @ [?c]), pcbs := (pcbs s)(?c \<mapsto> pc\<lparr>kctxt := Some k\<rparr>), currPCB := p\<rparr>"
  let ?w = "t\<lparr>pcbs := (pcbs t)(p \<mapsto> ch\<lparr>kctxt := Some k\<rparr>), REG_PTBR1 := b, tlb_log := w\<rparr>"
  have l: "live H A i s" and tx: "?c \<notin> set (transmitters s)" and idle: "?c \<noteq> i" and ps: "procs H A s (p # places s)"
    using n by (simp_all add: nursing_def busy_def calm_def)
  note parts = sched_partD [OF t]
  have out: "p \<notin> set (places s)" using ps by (simp add: procs_def)
  then have pc_ne: "?c \<noteq> p" "p \<notin> set (transmitters s)" "p \<notin> set (others s)" using tx by (auto simp: places_def)
  have same: "same_pcbs (pcbs s) (pcbs ?w)"
  proof -
    have "same_pcbs (pcbs s) (pcbs ?s)" using same_pcbs_upd [of "pcbs s" ?c pc "pc\<lparr>kctxt := Some k\<rparr>" "pcbs s"] pc by simp
    then have "same_pcbs (pcbs s) (pcbs t)" using parts(2) by (simp add: same_pcbs_def)
    then show ?thesis using same_pcbs_upd [of "pcbs t" p ch "ch\<lparr>kctxt := Some k\<rparr>" "pcbs s"] ch by simp
  qed
  have saved: "saved_at ?w r = (if r = p \<or> r = ?c then Some k else saved_at s r)" for r
    using arg_cong [OF parts(3), of "\<lambda>f. f r"] by (auto simp: saved_at_def)
  have qp: "queue_part ?w = queue_part (s\<lparr>readyQ := Some (q @ [?c])\<rparr>)" using parts(6) by (simp add: queue_part_def)
  note qs = queue_partD [OF qp]
  have "mset (others (s\<lparr>readyQ := Some (q @ [?c])\<rparr>)) = add_mset ?c (mset (others s))" using q by (simp add: others_def)
  moreover have "transmitters (s\<lparr>readyQ := Some (q @ [?c])\<rparr>) = transmitters s" by (simp add: transmitters_def)
  moreover have "currPCB ?w = p" using parts(4) by simp
  ultimately have oth: "mset (others ?w) = add_mset ?c (mset (others s))" "transmitters ?w = transmitters s"
      "currTransmitters ?w = currTransmitters s" "currPCB ?w = p" "readyQ ?w = Some (q @ [?c])"
    using qs by simp_all
  have "filter (\<lambda>r. r \<noteq> p) (transmitters s) = transmitters s" using pc_ne(2) by (auto intro!: filter_True)
  then have pl: "mset (places ?w) = mset (p # places s)"
    using oth tx by (simp add: places_def [of ?w] places_idle_tx vacated_def)
  have mem: "mem_part ?w = mem_part s" using parts(1) by (simp add: mem_part_def)
  have "procs H A ?w (places ?w)" by (rule procs_cong [OF ps mem same pl])
  moreover have "queues H s" using l by (simp add: live_def)
  then have "queues H (s\<lparr>readyQ := Some (q @ [?c])\<rparr>)" by (rule queues_readyQ)
  then have "queues H ?w" by (rule queues_cong [OF _ _ qp]) (use same in simp)
  moreover have "slots_ok (saved_at ?w) ?w"
  proof -
    have "set (others ?w) = insert ?c (set (others s))" using arg_cong [OF oth(1), of set_mset] by simp
    then show ?thesis
      using l k tx pc_ne slot_transmitter [of _ s] unfolding live_def slots_ok_def oth(3) by (auto simp: saved)
  qed
  moreover have "Some (REG_PTBR1 ?w) = table_of ?w p" using ch by (simp add: table_of_def)
  moreover have "i \<in> set q" using l idle q by (auto simp: live_def)
  moreover from this have "i \<noteq> p" using pc_ne(3) q by (auto simp: others_def)
  ultimately have "live H A i ?w"
    using l idle oth(4,5) by (simp add: live_def saved)
  then show ?thesis using pc_ne(2) k oth by (simp add: resuming_def saved)
qed

lemma settled_fork_stack: "settled (fork_kernel_stack H)"
  unfolding fork_kernel_stack_def by (intro steady_rules)

lemma settled_unmap: "settled (bindk (getk tempPtep) (\<lambda>tp. setPageTableEntry H tp False {} 0))"
  by (intro steady_rules)

lemma wlp_forkProcess:
  assumes n: "nursing H A i p s" and k: "sending (Some k) = None"
  shows "wlp (forkProcess H k p) (\<lambda>_. busy H A i) (resuming H A i) s"
proof -
  let ?c = "currPCB s"
  have l: "live H A i s" and b: "busy H A i s" and ps: "proc_ok H s p" using n by (simp_all add: nursing_def busy_def calm_def procs_def)
  obtain q where q: "readyQ s = Some q" using l by (auto simp: live_def queues_def)
  obtain tb where tb: "table_of s p = Some tb" using ps by (auto simp: proc_ok_def table_of_def)
  have switch: "wlp (forkTo H k p) (\<lambda>_. busy H A i) (resuming H A i) (s\<lparr>malloc_count := m, readyQ := Some (q @ [?c])\<rparr>)" for m
  proof -
    let ?u = "\<lambda>pc. s\<lparr>malloc_count := m, readyQ := Some (q @ [?c]), pcbs := (pcbs s)(?c \<mapsto> pc\<lparr>kctxt := Some k\<rparr>), currPCB := p\<rparr>"
    have final: "resuming H A i (v\<lparr>pcbs := (pcbs v)(p \<mapsto> ch\<lparr>kctxt := Some k\<rparr>), REG_PTBR1 := case_option 0 (\<lambda>b. b) (r1PageTable ch), tlb_log := w\<rparr>)"
      if pc: "pcbs s ?c = Some pc" and v: "sched_part v = sched_part (?u pc)" and ch: "pcbs v p = Some ch" for pc v ch w
    proof -
      have "sched_part v = sched_part (s\<lparr>readyQ := Some (q @ [?c]), pcbs := (pcbs s)(?c \<mapsto> pc\<lparr>kctxt := Some k\<rparr>), currPCB := p\<rparr>)"
        using v by (simp add: sched_part_def)
      moreover have "r1PageTable ch = Some tb"
      proof -
        have "map_option view (pcbs (?u pc) p) = Some (view ch)" using sched_partD(7) [OF v, of p] ch by simp
        then show ?thesis using tb pc by (cases "p = ?c"; cases "pcbs s p") (simp_all add: view_def table_of_def)
      qed
      ultimately show ?thesis using forked_resuming [OF n k q pc _ ch] by simp
    qed
    show ?thesis
      unfolding forkTo_def
      apply (simp add: wlp_bindk [of "getk _"] wlp_bindk [of "save_kctxt _ _"] wlp_bindk [of "modk (\<lambda>s. s\<lparr>currPCB := p\<rparr>)"]
          wlp_basic wlp_switch_parts)
      apply (intro allI impI)
      apply (rule steady_then [OF settled_fork_stack])
      apply (rule steady_then [where f = sched_part], intro steady_rules, simp add: sched_part_def)
      apply (rule steady_then [OF settled_unmap [unfolded bindk_assoc, simplified]] | rule steady_then [OF settled_unmap])
      apply (simp only: wlp_bindk [of "save_kctxt _ _"] wlp_bindk [of switch_r1] wlp_switch_parts wlp_pcbs)
      apply (intro allI impI)
      subgoal for pc x v1 y v2 z v3 ch ch'
        using final [of pc v3 ch] sched_partD(4) [of v3 "?u pc"] by auto
      done
  qed
  show ?thesis
    unfolding forkProcess_def
    by (auto simp: wlp_bindk wlp_basic wlp_pcbs wlp_cases wlp_enq_ready [OF live_mallocs [OF l] q] b switch)
qed

text \<open>The whole call. A failed copy leaves the new block behind, outside all queues.\<close>

lemma ops_KernelFork: "preserves (busy H A i) (resuming H A i) (KernelFork H)"
proof (rule preservesI)
  fix s
  assume b: "busy H A i s"
  then have len: "0 < MAX_PT_LEN H" using busy_hw by (auto simp: hw_ok_def)
  have finish: "wlp (bindk (forkProcess H (KFork pp p) p) (\<lambda>r. if r = ERROR then retk ERROR else fork_return pp p))
      (\<lambda>_. busy H A i) (resuming H A i) t" if "nursing H A i p t" for pp p t
    unfolding wlp_bindk
    by (rule wlp_mono [OF wlp_forkProcess [OF that]])
      (use busy_settled [OF settled_fork_return] in \<open>simp_all add: sending_def wlp_cases wlp_basic preserves_def\<close>)
  have busy: "nursing H A i p t \<Longrightarrow> busy H A i t" for p t by (simp add: nursing_def)
  have upd: "settled (upd_pcb p (\<lambda>c. c\<lparr>parent := q\<rparr>))" "settled (upd_pcb p (\<lambda>c. c\<lparr>numChildren := numChildren c + 1\<rparr>))" for p q
    by (intro steady_rules; simp add: view_def)+
  have copied: "wlp (bindk (copy_r1_pages H a a') (\<lambda>r.
             if r = ERROR then retk ERROR else
             bindk (bindk (getk tempPtep) (\<lambda>tp. setPageTableEntry H tp False {} 0)) (\<lambda>_.
             bindk (upd_pcb p (\<lambda>c. c\<lparr>parent := Some pp\<rparr>)) (\<lambda>_.
             bindk (hm_insertk (get_children pp) (set_children pp) key p) (\<lambda>_.
             bindk (upd_pcb pp (\<lambda>c. c\<lparr>numChildren := numChildren c + 1\<rparr>)) (\<lambda>_.
             bindk (forkProcess H (KFork pp p) p) (\<lambda>r.
               if r = ERROR then retk ERROR else fork_return pp p)))))))
      (\<lambda>_. busy H A i) (resuming H A i) t" if "nursing H A i p t" for a a' p pp key t
    apply (rule nursing_then [OF settled_copy_r1_pages that])
    apply (simp only: wlp_cases(1) wlp_basic, intro conjI impI, erule busy)
    apply (rule nursing_then [OF settled_unmap], assumption)
    apply (rule nursing_then [OF upd(1)], assumption)
    apply (rule nursing_then [OF settled_children], assumption)
    apply (rule nursing_then [OF upd(2)], assumption)
    apply (erule finish)
    done
  show "wlp (KernelFork H) (\<lambda>_. busy H A i) (resuming H A i) s"
    unfolding KernelFork_def
    apply (simp only: wlp_bindk [of "getk _"] wlp_bindk [of "initPCB _"] wlp_basic)
    apply (rule wlp_mono [OF wlp_initPCB_busy [OF len b]])
     apply (simp only: wlp_cases(2) wlp_basic, intro conjI allI impI)
      apply (simp add: born_def)
     apply (simp only: wlp_bindk [of "get_pcb _"] wlp_pcbs, intro allI impI)
     apply (rule nursing_then [OF settled_mallock(2)], simp add: born_def)
     apply (simp only: wlp_bindk [of "nonnull _"] wlp_bindk [of "upd_pcb _ _"] wlp_bindk [of "get_pcb _"] wlp_pcbs, intro allI impI)
     subgoal for x t p pp ok u uc ch
       by (rule copied, rule nursing_upd [where c = ch]) auto
    apply assumption
    done
qed

end
