(* ===== verification/Contract.thy ===== *)
theory Contract
  imports WorldCalls
begin

text \<open>
  The contract between the scheduler and the rest of the kernel, as locales. \<open>U\<close> is an invariant of the
  kernel while a process runs, \<open>R\<close> what holds after a switch. If \<open>U\<close> only depends on the part of the
  state that the code above the scheduler leaves alone (\<open>still_part\<close>), and the operations of the scheduler
  and the few calls that work on page tables preserve it, then so do all interrupt handlers, system calls,
  traps and continuations. The contract is fulfilled by the invariants of \<open>World\<close>.
\<close>

section \<open>The parts of the contract\<close>

locale sched_client =
  fixes H :: hw and U :: "kstate \<Rightarrow> bool" and R :: "kstate \<Rightarrow> bool"
  assumes part: "still_part t = still_part s \<Longrightarrow> U s \<Longrightarrow> U t"
    and line_ready: "preserves U R (unblockReader j)"
begin

lemma still_ok: "still m \<Longrightarrow> preserves U R m"
  by (erule preserves_steady) (rule part)

lemma handleTtyReceive_ok: "preserves U R (handleTtyReceive H line n u)"
  unfolding handleTtyReceive_def writeBuffer_def
  by (intro preserve_rules line_ready still_terminals [THEN still_ok] still_memory [THEN still_ok])

end

text \<open>Interrupts: they may come while any process is running, the idle process included.\<close>

locale interrupt_contract = sched_client +
  assumes tick: "preserves U R tickDownSleepers"
    and kick: "preserves U R (kickProcess H KClock)"
    and sent: "preserves U R (bindk (signalTransmitter H KTtySignal j) (\<lambda>r. if r = ERROR then haltk else retk ()))"
begin

lemma handleTrapClock_ok: "preserves U R (handleTrapClock H)"
  unfolding handleTrapClock_def by (intro preserve_rules tick kick)

lemma handleTtyTransmit_ok: "preserves U R (handleTtyTransmit H u)"
  unfolding handleTtyTransmit_def by (rule sent)

end

text \<open>The end of a process.\<close>

locale exit_contract = sched_client +
  assumes exit_process: "preserves U R (exitProcess H st)"
begin

lemma KernelExit_ok: "preserves U R (KernelExit H st)"
  unfolding KernelExit_def
  by (intro preserve_rules exit_process steady_accessors [THEN still_ok])

end

text \<open>System calls and the traps a program causes.\<close>

locale call_contract = exit_contract +
  fixes E :: env
  assumes block: "sending (Some k) = None \<Longrightarrow> preserves U R (blockProcess H k)"
    and wake: "preserves U R (unblockProcess p)"
    and sleep: "sending (Some k) = None \<Longrightarrow> preserves U R (sleepProcess H k d)"
    and wait_line: "sending (Some k) = None \<Longrightarrow> preserves U R (blockReader H k j)"
    and send: "preserves U R (await_terminal H fuel j bs n)"
    and exec: "preserves U R (KernelExec H fuel (load_exec E H) f a)"
    and fork: "preserves U R (KernelFork H)"
    and move_break: "preserves U R (KernelBrk H addr)"
    and page_fault: "preserves U R (handleTrapMemory H u)"
begin

lemma KernelWait_ok: "preserves U R (KernelWait H p)"
  unfolding KernelWait_def
  by (intro preserve_rules block still_user_memory [THEN still_ok] still_wait_collect [THEN still_ok]
      steady_accessors [THEN still_ok]) (simp_all add: sending_def)

lemma KernelDelay_ok: "preserves U R (KernelDelay H d)"
  unfolding KernelDelay_def by (intro preserve_rules sleep) (simp add: sending_def)

lemma lock_calls_ok: "preserves U R (acquire_loop H l)" "preserves U R (KernelAcquire H j)" "preserves U R (KernelRelease j)"
proof -
  show loop: "preserves U R (acquire_loop H l)" for l
    unfolding acquire_loop_def
    by (intro preserve_rules block still_objects [THEN still_ok]) (simp add: sending_def)
  show "preserves U R (KernelAcquire H j)" "preserves U R (KernelRelease j)"
    unfolding KernelAcquire_def KernelRelease_def getLock_def
    by (intro preserve_rules loop wake still_hm_findk [THEN still_ok] still_objects [THEN still_ok]
        steady_accessors [THEN still_ok])+
qed

lemma broadcast_ok: "preserves U R (broadcast_loop n c)"
  by (induction n) (auto intro!: preserve_rules wake still_objects [THEN still_ok] steady_accessors [THEN still_ok])

lemma cvar_calls_ok: "preserves U R (KernelCvarWait H c j)" "preserves U R (KernelCvarSignal c)" "preserves U R (KernelCvarBroadcast c)"
  unfolding KernelCvarWait_def KernelCvarSignal_def KernelCvarBroadcast_def getCvar_def
  by (intro preserve_rules wake block lock_calls_ok broadcast_ok still_hm_findk [THEN still_ok]
      still_objects [THEN still_ok] steady_accessors [THEN still_ok]; simp add: sending_def)+

lemma wake_head_ok: "preserves U R (wake_head p)"
  unfolding wake_head_def by (intro preserve_rules wake steady_accessors [THEN still_ok])

lemma pipe_loop_ok: "preserves U R (pipe_read_loop H p b n)"
  unfolding pipe_read_loop_def pipe_take_def
  by (intro preserve_rules block wake_head_ok still_objects [THEN still_ok] still_memory [THEN still_ok])
    (simp add: sending_def)

lemma pipe_calls_ok: "preserves U R (KernelPipeRead H j b n)" "preserves U R (KernelPipeWrite H j b n)"
  unfolding KernelPipeRead_def KernelPipeWrite_def getPipe_def
  by (intro preserve_rules block wake_head_ok pipe_loop_ok still_hm_findk [THEN still_ok]
      still_objects [THEN still_ok] still_memory [THEN still_ok] still_user_memory [THEN still_ok]; simp add: sending_def)+

lemma tty_calls_ok: "preserves U R (readBuffer H t b n)" "preserves U R (KernelTtyRead H t b n)"
    "preserves U R (KernelTtyWrite H fuel t b n)"
proof -
  show read: "preserves U R (readBuffer H t b n)" for t b n
    unfolding readBuffer_def read_line_def
    by (intro preserve_rules wait_line line_ready still_terminals [THEN still_ok] still_memory [THEN still_ok])
      (simp add: sending_def)
  show "preserves U R (KernelTtyRead H t b n)" "preserves U R (KernelTtyWrite H fuel t b n)"
    unfolding KernelTtyRead_def KernelTtyWrite_def
    by (intro preserve_rules read send still_checks [THEN still_ok] still_memory [THEN still_ok]
        still_mallock [THEN still_ok])+
qed

lemma dispatch_call_ok: "preserves U R (dispatch_call E H u code)"
  unfolding dispatch_call_def KernelLockInit_def KernelCvarInit_def KernelPipeInit_def
  by (cases code)
    (simp_all, (intro preserve_rules fork move_break exec KernelExit_ok KernelWait_ok KernelDelay_ok lock_calls_ok cvar_calls_ok
        pipe_calls_ok tty_calls_ok still_reg [THEN still_ok] still_GetPid [THEN still_ok]
        still_KernelReclaim [THEN still_ok] still_create [THEN still_ok])+)

lemma traps_ok: "preserves U R (handleTrapKernel E H u)" "preserves U R (handleTrapIllegal H)" "preserves U R (handleTrapMath H)"
    "preserves U R (handleTrapMemory H u)"
  by (auto simp: handleTrapKernel_def handleTrapIllegal_def handleTrapMath_def split: option.split
      intro!: preserve_rules dispatch_call_ok KernelExit_ok page_fault still_finish_call [THEN still_ok])

text \<open>A process that is not in the middle of a terminal write goes on.\<close>

lemma resume_ok:
  assumes "sending (Some k) = None"
  shows "preserves U R (resume E H k)"
proof -
  note ok = preserve_rules lock_calls_ok pipe_loop_ok tty_calls_ok(1) send still_finish_call [THEN still_ok]
    still_enter_user [THEN still_ok] still_wait_collect [THEN still_ok] still_fork_return [THEN still_ok]
  show ?thesis
  proof (cases k)
    case (KTtyBatch t d n b)
    then show ?thesis using assms by (simp add: sending_def)
  qed (simp_all add: resume_def cvar_reacquire_def, (intro ok)+)
qed

end

section \<open>The invariants fulfil it\<close>

lemma still_partD: "still_part t = still_part s \<Longrightarrow> sched_part t = sched_part s"
  by (simp add: still_part_def)

interpretation interrupts: interrupt_contract H "calm H A i" "resuming H A i" for H A i
  by unfold_locales
    (auto intro: calm_part still_partD calm_unblockReader calm_tickDownSleepers ops_kickProcess ops_signalTransmitter)

lemma ops_unblockReader: "preserves (busy H A i) (resuming H A i) (unblockReader j)"
proof -
  have "stays (unblockReader j)" unfolding unblockReader_def deq_tty_def ready_if_some_def
    by (intro stays_rules) (simp add: set_readingQs_def)
  then show ?thesis by (intro busy_from_calm calm_unblockReader)
qed

interpretation exits: exit_contract H "busy H A i" "resuming H A i" for H A i
  by unfold_locales (auto intro: busy_part still_partD ops_unblockReader ops_exitProcess)

lemma ops_KernelExec: "(\<And>f a p. settled (load f a p)) \<Longrightarrow> preserves (busy H A i) (resuming H A i) (KernelExec H fuel load f a)"
  unfolding KernelExec_def
  by (intro preserve_rules exits.KernelExit_ok ops_execProcess busy_settled settled_checks settled_args)

lemma ops_handleTrapMemory: "preserves (busy H A i) (resuming H A i) (handleTrapMemory H u)"
  unfolding handleTrapMemory_def grow_stack_def
  by (intro preserve_rules exits.KernelExit_ok settled_user_memory [THEN busy_settled] settled_frames [THEN busy_settled]
      settled_setpte [THEN busy_settled] steady_accessors [THEN busy_settled])

interpretation calls: call_contract H "busy H A i" "resuming H A i" E for H A i E
  by unfold_locales (auto intro: ops_blockProcess ops_unblockProcess ops_sleepProcess ops_block_tty
      ops_await_terminal ops_KernelExec settled_load_exec ops_KernelFork busy_settled settled_KernelBrk ops_handleTrapMemory)

end
