(* ===== verification/WorldRuns.thy ===== *)
theory WorldRuns
  imports Contract
begin

text \<open>
  The invariant of \<open>World\<close> holds from power-on through every run of the machine. The one assumption on
  programs is that the idle process never enters the kernel by itself: it is the loop \<^verbatim>\<open>DoIdle\<close> of
  \<^verbatim>\<open>Kernel.c\<close>, which pauses forever.
\<close>

section \<open>After the boot\<close>

lemma booted_calm:
  assumes "hw_ok H" "both_ready H s r0 r1 i (currPCB s)"
  shows "calm H {} i s"
proof -
  let ?p = "currPCB s"
  note b = assms(2) [unfolded both_ready_def]
  note places = booted_places [OF assms(2)]
  have base: "REG_PTBR0 s = r0" "REG_PTBR1 s = r1" using b by (simp_all add: paging_on_def)
  have mb: "machine_base H s" using b assms(1) by (auto simp: machine_base_def paging_on_def base_ok_def)
  obtain ci bi where i: "pcbs s i = Some ci" "pid ci = 0" "length (stackPfns ci) = KSTACK_NPG H" "kctxt ci = None"
      "r1PageTable ci = Some bi" "has_table H s bi" "from_malloc s bi" "bi \<noteq> r0" "bi \<noteq> r1"
    using b by (auto simp: proc_ready_def)
  obtain cp where p: "pcbs s ?p = Some cp" "pid cp = 1" "length (stackPfns cp) = KSTACK_NPG H" "kctxt cp = Some KStart"
      "r1PageTable cp = Some r1" "has_table H s r1" "from_malloc s r1"
    using b by (auto simp: proc_ready_def)
  have r: "r1 \<noteq> r0" using b by (auto simp: paging_on_def base_ok_def)
  have "procs H {} s (places s)"
    using mb b i p r base by (auto simp: places(3) procs_def proc_ok_def kept_def pid_of_def table_of_def)
  moreover have "queues H s" using places b by (simp add: queues_def)
  moreover have "saved_at s i = None" "saved_at s ?p = Some KStart" using i p by (simp_all add: saved_at_def)
  moreover have "currTransmitters s = replicate (NUM_TERMINALS H) None" using b by (simp add: queues_empty_def)
  ultimately show ?thesis
    using b places p base by (simp add: calm_def live_def slots_ok_def idle_ctx_def table_of_def)
qed

text \<open>The processes of a state, by address and identifier, and whether they are in one of the places.\<close>

definition known :: "kstate \<Rightarrow> memory" where
  "known s = {(p, pid c, p \<in> set (places s)) | p c. pcbs s p = Some c \<and> pid c < nextPid s}"

lemma knownI: "pcbs s p = Some c \<Longrightarrow> pid c < nextPid s \<Longrightarrow> (p, pid c, p \<in> set (places s)) \<in> known s"
  by (auto simp: known_def)

lemma live_known:
  assumes "live H A i s"
  shows "live H (known s) i s"
proof -
  have "kept (known s) s (places s)" by (intro keptI) (auto simp: known_def)
  then show ?thesis using assms by (auto simp: live_def procs_def)
qed

section \<open>Runs in which idle is idle\<close>

fun interrupt :: "trap \<Rightarrow> bool" where
  "interrupt TRAP_CLOCK = True"
| "interrupt (TRAP_TTY_RECEIVE line n) = True"
| "interrupt TRAP_TTY_TRANSMIT = True"
| "interrupt TRAP_DISK = True"
| "interrupt _ = False"

inductive idle_step :: "env \<Rightarrow> hw \<Rightarrow> ptr \<Rightarrow> mode \<times> kstate \<Rightarrow> mode \<times> kstate \<Rightarrow> bool" for E H i where
  user_code: "user_writes H s m \<Longrightarrow>
    idle_step E H i (User, s) (User, s\<lparr>pmem := m, trapFrame := (trapFrame s)(currPCB s := u)\<rparr>)"
| trap_taken: "currPCB s \<noteq> i \<or> interrupt t \<Longrightarrow> after (interruptVector E H t (trapFrame s (currPCB s)) s) = Some s' \<Longrightarrow>
    idle_step E H i (User, s) s'"
| continue: "pcbs s (currPCB s) = Some pc \<Longrightarrow> kctxt pc = Some k \<Longrightarrow> after (resume E H k s) = Some s' \<Longrightarrow>
    idle_step E H i (Resume, s) s'"

lemma idle_step_step: "idle_step E H i x y \<Longrightarrow> step E H x y"
  by (induction rule: idle_step.induct) (auto intro: step.intros)

inductive_cases idle_step_userE: "idle_step E H i (User, s) y"
inductive_cases idle_step_resumeE: "idle_step E H i (Resume, s) y"

definition in_mode :: "(kstate \<Rightarrow> bool) \<Rightarrow> (kstate \<Rightarrow> bool) \<Rightarrow> mode \<times> kstate \<Rightarrow> bool" where
  "in_mode C R x \<longleftrightarrow> (case fst x of User \<Rightarrow> C (snd x) | Resume \<Rightarrow> R (snd x))"

abbreviation world_ok :: "hw \<Rightarrow> memory \<Rightarrow> ptr \<Rightarrow> mode \<times> kstate \<Rightarrow> bool" where
  "world_ok H A i \<equiv> in_mode (calm H A i) (resuming H A i)"

text \<open>
  The two contracts together make an invariant of runs: \<open>C\<close> in user mode, \<open>R\<close> right after a switch. The
  operations of the contract for calls start from \<open>C\<close> in a process other than idle.
\<close>

locale machine_contract =
  interrupts: interrupt_contract H C R + calls: call_contract H B R E for H C B R E +
  fixes i :: ptr
  assumes busy_iff: "B s \<longleftrightarrow> C s \<and> currPCB s \<noteq> i"
    and user_part: "C s \<Longrightarrow> C (s\<lparr>pmem := m, trapFrame := f\<rparr>)"
    and go_on: "R s \<Longrightarrow> saved_at s (currPCB s) = Some k \<Longrightarrow> sending (Some k) = None \<Longrightarrow>
      C s \<and> (currPCB s = i \<longrightarrow> idle_ctx (Some k))"
    and go_on_sending: "R s \<Longrightarrow> saved_at s (currPCB s) = Some (KTtyBatch t d n b) \<Longrightarrow>
      wlp (resume E H (KTtyBatch t d n b)) (\<lambda>_. C) R s"
begin

lemma preserves_after:
  assumes "wlp m (\<lambda>_. C) R s" "after (m s) = Some y"
  shows "in_mode C R y"
  using assms by (cases "m s") (auto simp: wlp_def in_mode_def)

lemma preserves_calm: "preserves C R m \<Longrightarrow> C s \<Longrightarrow> wlp m (\<lambda>_. C) R s"
  by (simp add: preserves_def)

lemma preserves_busy: "preserves B R m \<Longrightarrow> B s \<Longrightarrow> wlp m (\<lambda>_. C) R s"
  unfolding preserves_def by (blast intro: wlp_mono [where Q = "\<lambda>_. B"] dest: busy_iff [THEN iffD1])

lemma wlp_trap:
  assumes c: "C s" and t: "currPCB s \<noteq> i \<or> interrupt t"
  shows "wlp (interruptVector E H t u) (\<lambda>_. C) R s"
proof (cases "interrupt t")
  case True
  then show ?thesis
    unfolding interruptVector_def
    by (cases t) (simp_all add: preserves_calm [OF _ c] interrupts.handleTrapClock_ok interrupts.handleTtyReceive_ok
        interrupts.handleTtyTransmit_ok handleTrapDisk_def wlp_basic)
next
  case False
  then have b: "B s" using c t by (simp add: busy_iff)
  with False show ?thesis
    unfolding interruptVector_def
    by (cases t) (simp_all add: preserves_busy [OF _ b] calls.traps_ok handleNothing_def wlp_basic)
qed

lemma wlp_continue:
  assumes r: "R s" and k: "saved_at s (currPCB s) = Some k"
  shows "wlp (resume E H k) (\<lambda>_. C) R s"
proof (cases "sending (Some k)")
  case None
  note c = go_on [OF r k None]
  show ?thesis
  proof (cases "currPCB s = i")
    case True
    then have "idle_ctx (Some k)" using c by blast
    then have "preserves C R (resume E H k)"
      by (auto simp: idle_ctx_def resume_def preserves_basic interrupts.still_ok [OF still_enter_user])
    then show ?thesis using c by (intro preserves_calm) blast+
  next
    case False
    then have "B s" using c by (simp add: busy_iff)
    then show ?thesis by (rule preserves_busy [OF calls.resume_ok [OF None]])
  qed
next
  case (Some t)
  then obtain d n b where "k = KTtyBatch t d n b" by (auto simp: sending_def split: kcont.splits)
  then show ?thesis using go_on_sending [OF r] k by simp
qed

lemma idle_step_inv:
  assumes "idle_step E H i x y" "in_mode C R x"
  shows "in_mode C R y"
proof (cases x)
  case (Pair md s)
  show ?thesis
  proof (cases md)
    case User
    then have c: "C s" using assms(2) Pair by (simp add: in_mode_def)
    from assms(1) Pair User have "idle_step E H i (User, s) y" by simp
    moreover have "in_mode C R (User, s\<lparr>pmem := m, trapFrame := f\<rparr>)" for m f using user_part [OF c] by (simp add: in_mode_def)
    ultimately show ?thesis
      by (elim idle_step_userE) (auto intro: preserves_after [OF wlp_trap [OF c]])
  next
    case Resume
    then have r: "R s" using assms(2) Pair by (simp add: in_mode_def)
    from assms(1) Pair Resume have "idle_step E H i (Resume, s) y" by simp
    then show ?thesis
      by (elim idle_step_resumeE) (auto simp: saved_at_def intro: preserves_after [OF wlp_continue [OF r]])
  qed
qed

lemma idle_run_inv: "(idle_step E H i)\<^sup>*\<^sup>* x y \<Longrightarrow> in_mode C R x \<Longrightarrow> in_mode C R y"
  by (induction rule: rtranclp_induct) (auto intro: idle_step_inv)

end

lemma wlp_send_batch:
  assumes r: "resuming H A i s" and k: "saved_at s (currPCB s) = Some (KTtyBatch t d n b)"
  shows "wlp (resume E H (KTtyBatch t d n b)) (\<lambda>_. calm H A i) (resuming H A i) s"
proof -
  obtain j where j: "t = int j" "at_slot H A i j s" using resuming_at_slot [OF r k] by blast
  have "wlp (resume E H (KTtyBatch t d n b)) (\<lambda>_. busy H A i) (resuming H A i) s"
    unfolding resume_def kcont.case wlp_bindk j(1)
    by (rule wlp_mono [OF wlp_transmit_loop [OF j(2)]])
      (use exits.still_ok [OF still_finish_call] in \<open>simp_all add: preserves_def\<close>)
  then show ?thesis by (rule wlp_mono) (simp_all add: busy_def)
qed

interpretation runs: machine_contract H "calm H A i" "busy H A i" "resuming H A i" E i for H A E i
proof (unfold_locales, goal_cases)
  case (2 s m f)
  then show ?case by (rule calm_part [rotated]) (simp add: sched_part_def)
next
  case (3 s k)
  then show ?case by (auto simp: resuming_def calm_def live_def)
next
  case (4 s t d n b)
  then show ?case by (rule wlp_send_batch)
qed (simp add: busy_def)

lemma idle_run_world: "(idle_step E H i)\<^sup>*\<^sup>* x y \<Longrightarrow> world_ok H A i x \<Longrightarrow> world_ok H A i y"
  by (rule runs.idle_run_inv)

lemma world_live: "world_ok H A i (md, s) \<Longrightarrow> live H A i s"
  by (cases md) (simp_all add: in_mode_def calm_def resuming_def)

lemma live_kept:
  assumes "live H A i s" "(p, pid c, b) \<in> A" "pcbs s p = Some c"
  shows "p \<in> set (places s) \<longleftrightarrow> b"
  using assms keptD(2) [of A s "places s" p c b] by (simp add: live_def procs_def)

lemma world_known: "world_ok H A i x \<Longrightarrow> world_ok H (known (snd x)) i x"
  by (cases x; cases "fst x") (auto simp: in_mode_def calm_def resuming_def intro: live_known)

lemma boot_world:
  assumes "hw_ok H" "mallocs_ok s0" "blocks_apart H s0" "tty_blank H s0" "KernelStart E H d args n s0 = Done () s"
  obtains i where "readyQ s = Some [i]" "world_ok H {} i (User, s)"
proof -
  have "booted H s" using KernelStart_boots [OF assms(1-4), of E d args n] assms(5) by (simp add: wlp_def)
  then obtain r0 r1 i where b: "both_ready H s r0 r1 i (currPCB s)" by (auto simp: booted_def)
  then have "readyQ s = Some [i]" by (simp add: both_ready_def)
  with booted_calm [OF assms(1) b] that show thesis by (simp add: in_mode_def)
qed

lemma idle_run_keeps:
  assumes "world_ok H A i x" "(idle_step E H i)\<^sup>*\<^sup>* x y" "pcbs (snd x) p = Some d" "pid d < nextPid (snd x)"
    "pcbs (snd y) p = Some c" "pid c = pid d"
  shows "count (mset (places (snd y))) p = (if p \<in> set (places (snd x)) then 1 else 0)"
proof -
  have l: "live H (known (snd x)) i (snd y)"
    using idle_run_world [OF assms(2) world_known [OF assms(1)]] world_live [of _ _ _ "fst y" "snd y"] by simp
  have "(p, pid c, p \<in> set (places (snd x))) \<in> known (snd x)" using knownI [OF assms(3,4)] assms(6) by simp
  then have "p \<in> set (places (snd y)) \<longleftrightarrow> p \<in> set (places (snd x))" using live_kept [OF l _ assms(5)] by blast
  moreover have "distinct (places (snd y))" using l by (simp add: live_def procs_def)
  ultimately show ?thesis by (simp add: distinct_count_atmost_1 [THEN iffD1])
qed

end
