(* ===== verification/Tracked.thy ===== *)
theory Tracked
  imports WorldRuns
begin

text \<open>
  The part of the state that says who owns which frame, \<open>own_part\<close>: the frame list, the page table
  entries other than those that change while processes run, and of each process control block the identifier, the table, the
  stack frames and the break. The scheduler leaves it alone (\<open>tracked\<close>), as it writes only entries of
  the region 0 table: those of the kernel stack and the one below it.
\<close>

section \<open>Who owns which frame\<close>

definition oview :: "PCB_t \<Rightarrow> int \<times> nat list \<times> ptr option \<times> nat option" where
  "oview c = (pid c, stackPfns c, r1PageTable c, brk c)"

definition outside :: "ptr set \<Rightarrow> (ptr \<Rightarrow> 'a option) \<Rightarrow> ptr \<Rightarrow> 'a option" where
  "outside X f a = (if a \<in> X then None else f a)"

text \<open>The entries of region 0 that change while processes run: the spare page below the kernel stack and the pages above it.\<close>

definition sched_ptes :: "hw \<Rightarrow> ptr \<Rightarrow> ptr set" where
  "sched_ptes H r0 = (\<lambda>i. r0 + i * SIZEOF_PTE H) ` {KERNEL_STACK_BASE_VPN H - 1..<MAX_PT_LEN H}"

lemma sched_ptes_table: "sched_ptes H r0 \<subseteq> table_addrs H r0"
  by (auto simp: sched_ptes_def table_addrs_def)

definition own_part :: "hw \<Rightarrow> kstate \<Rightarrow>
    (frame_t list option \<times> nat \<times> frame_t) \<times> (ptr \<times> (nat \<Rightarrow> ptr option) \<times> ptr \<times> ptr \<times> int) \<times>
    (ptr \<Rightarrow> pte option) \<times> (ptr \<Rightarrow> (int \<times> nat list \<times> ptr option \<times> nat option) option)" where
  "own_part H s = ((frameList s, numFrames s, past s),
     (REG_PTBR0 s, malloc_oracle s, r0StackBasePtep s, tempPtep s, nextPid s),
     outside (sched_ptes H (REG_PTBR0 s)) (ptes s), (\<lambda>p. map_option oview (pcbs s p)))"

text \<open>The kernel stack entries and the spare entry are in the region 0 table.\<close>

definition base_fixed :: "hw \<Rightarrow> kstate \<Rightarrow> bool" where
  "base_fixed H s \<longleftrightarrow> hw_ok H \<and> stack_base_ok H s \<and> tempPtep s \<in> sched_ptes H (REG_PTBR0 s) \<and> blocks_apart H s \<and>
     from_malloc s (REG_PTBR0 s)"

lemma own_partD:
  assumes "own_part H t = own_part H s"
  shows "frameList t = frameList s" "numFrames t = numFrames s" "past t = past s" "REG_PTBR0 t = REG_PTBR0 s"
    "malloc_oracle t = malloc_oracle s" "r0StackBasePtep t = r0StackBasePtep s" "tempPtep t = tempPtep s" "nextPid t = nextPid s"
    "a \<notin> sched_ptes H (REG_PTBR0 s) \<Longrightarrow> ptes t a = ptes s a" "map_option oview (pcbs t p) = map_option oview (pcbs s p)"
proof -
  show f: "frameList t = frameList s" "numFrames t = numFrames s" "past t = past s" "REG_PTBR0 t = REG_PTBR0 s"
    "malloc_oracle t = malloc_oracle s" "r0StackBasePtep t = r0StackBasePtep s" "tempPtep t = tempPtep s" "nextPid t = nextPid s"
    using assms by (simp_all add: own_part_def)
  have "outside (sched_ptes H (REG_PTBR0 s)) (ptes t) = outside (sched_ptes H (REG_PTBR0 s)) (ptes s)"
    "(\<lambda>p. map_option oview (pcbs t p)) = (\<lambda>p. map_option oview (pcbs s p))" using assms f by (simp_all add: own_part_def)
  then show "a \<notin> sched_ptes H (REG_PTBR0 s) \<Longrightarrow> ptes t a = ptes s a" "map_option oview (pcbs t p) = map_option oview (pcbs s p)"
    by (metis outside_def, metis)
qed

lemma base_fixed_part: "own_part H t = own_part H s \<Longrightarrow> base_fixed H t = base_fixed H s"
  using own_partD(4-7) [of H t s] by (simp add: base_fixed_def stack_base_ok_def blocks_apart_def from_malloc_def)

definition same_own :: "hw \<Rightarrow> kstate \<Rightarrow> kstate \<Rightarrow> bool" where
  "same_own H s t \<longleftrightarrow> own_part H t = own_part H s \<and> base_fixed H t"

definition tracked :: "hw \<Rightarrow> 'a kernel \<Rightarrow> bool" where
  "tracked H m \<longleftrightarrow> (\<forall>s. base_fixed H s \<longrightarrow> wlp m (\<lambda>_. same_own H s) (same_own H s) s)"

lemma tracked_preserves: "tracked H m \<longleftrightarrow> (\<forall>s. preserves (same_own H s) (same_own H s) m)"
proof -
  have "same_own H s t \<Longrightarrow> same_own H t = same_own H s" for s t by (simp add: same_own_def fun_eq_iff)
  moreover have "base_fixed H s \<Longrightarrow> same_own H s s" for s by (simp add: same_own_def)
  moreover have "same_own H s t \<Longrightarrow> base_fixed H t" for s t by (simp add: same_own_def)
  ultimately show ?thesis unfolding tracked_def preserves_def by metis
qed

named_theorems tracked_rules \<open>code that does not change who owns which frame\<close>

lemma tracked_bindk [tracked_rules]: "tracked H m \<Longrightarrow> (\<And>x. tracked H (f x)) \<Longrightarrow> tracked H (bindk m f)"
  unfolding tracked_preserves by (intro allI preserves_bindk) auto

lemma tracked_cases [tracked_rules]:
  "(b \<Longrightarrow> tracked H m) \<Longrightarrow> (\<not> b \<Longrightarrow> tracked H n) \<Longrightarrow> tracked H (if b then m else n)"
  "(v = None \<Longrightarrow> tracked H m) \<Longrightarrow> (\<And>x. v = Some x \<Longrightarrow> tracked H (g x)) \<Longrightarrow> tracked H (case v of None \<Rightarrow> m | Some x \<Rightarrow> g x)"
  "(\<And>x y. tracked H (h x y)) \<Longrightarrow> tracked H (case w of (x, y) \<Rightarrow> h x y)"
  "tracked H (k u) \<Longrightarrow> tracked H (Let u k)"
  by (auto split: option.splits prod.splits)

lemma tracked_basic [tracked_rules]:
  "tracked H (retk x)" "tracked H (getk g)" "tracked H (faultk e)" "tracked H haltk"
  "tracked H (fetch h p)" "tracked H (liftk r)" "tracked H (nonnull v)"
  unfolding tracked_preserves by (intro allI preserves_basic)+

lemma same_own_upd: "own_part H (g s) = own_part H s \<Longrightarrow> base_fixed H s \<Longrightarrow> same_own H s (g s)"
  using base_fixed_part [of H "g s" s] by (simp add: same_own_def)

lemma tracked_modk [tracked_rules]: "(\<And>s. own_part H (g s) = own_part H s) \<Longrightarrow> tracked H (modk g)"
  by (simp add: tracked_def wlp_basic same_own_upd)

lemma tracked_switchk [tracked_rules]: "(\<And>s. own_part H (g s) = own_part H s) \<Longrightarrow> tracked H (switchk g)"
  by (simp add: tracked_def wlp_def switchk_def same_own_upd)

lemma tracked_foldk [tracked_rules]: "(\<And>x. tracked H (f x)) \<Longrightarrow> tracked H (foldk f xs)" "(\<And>x. tracked H (g x)) \<Longrightarrow> tracked H (foldrc g xs)"
  by (induction xs) (auto intro!: tracked_rules)

lemma tracked_iterate [tracked_rules]:
  assumes "\<And>k x. tracked H (f k x)"
  shows "tracked H (HashMap_iterate get f)"
  unfolding HashMap_iterate_def set_iterate_def by (intro tracked_rules assms)

lemma tracked_steady: "steady (own_part H) m \<Longrightarrow> tracked H m"
  unfolding tracked_def same_own_def
proof (intro allI impI, erule steady_wlp [where f = "own_part H"])
  show "base_fixed H s \<Longrightarrow> own_part H t = own_part H s \<Longrightarrow> own_part H t = own_part H s \<and> base_fixed H t" for s t
    using base_fixed_part [of H t s] by simp
qed

lemma still_own: "still_part t = still_part s \<Longrightarrow> own_part H t = own_part H s"
proof -
  assume e: "still_part t = still_part s"
  have v: "map_option view (pcbs t p) = map_option view (pcbs s p)" "map_option brk (pcbs t p) = map_option brk (pcbs s p)" for p
    using e by (simp_all add: still_part_def sched_part_def fun_eq_iff)
  have "map_option oview (pcbs t p) = map_option oview (pcbs s p)" for p
    using v [of p] by (cases "pcbs s p"; cases "pcbs t p") (simp_all add: view_def oview_def)
  then show ?thesis using e by (simp add: still_part_def sched_part_def own_part_def)
qed

lemma tracked_still: "still m \<Longrightarrow> tracked H m"
  by (rule tracked_steady, erule steady_weaken) (rule still_own)

section \<open>Entries of region 0\<close>

lemma own_part_r0: "a \<in> sched_ptes H (REG_PTBR0 s) \<Longrightarrow> own_part H (s\<lparr>ptes := (ptes s)(a \<mapsto> e)\<rparr>) = own_part H s"
  by (auto simp: own_part_def outside_def fun_eq_iff)

lemma wlp_flush: "(\<And>w. Q () (s\<lparr>tlb_log := w\<rparr>)) \<Longrightarrow> wlp (flush_pte H a) Q R s"
  by (auto simp: flush_pte_def flushk_def wlp_simps)

lemma wlp_setpte:
  assumes "\<And>e w. ptes s a = Some e \<Longrightarrow> Q () (s\<lparr>ptes := (ptes s)(a \<mapsto> \<lparr>pte_valid = v, pte_prot = pr, pte_pfn = f\<rparr>), tlb_log := w\<rparr>)"
  shows "wlp (setPageTableEntry H a v pr f) Q R s"
proof -
  have eq: "e\<lparr>pte_valid := v, pte_prot := pr, pte_pfn := f\<rparr> = \<lparr>pte_valid = v, pte_prot = pr, pte_pfn = f\<rparr>" for e :: pte
    by (cases e) simp
  show ?thesis
    unfolding setPageTableEntry_def setPageTableEntryNoFlush_def bindk_assoc
    by (auto simp: wlp_simps eq intro: wlp_flush assms)
qed

lemma own_part_tlb: "own_part H (s\<lparr>tlb_log := w\<rparr>) = own_part H s"
  by (simp add: own_part_def)

lemma wlp_set_r0:
  assumes "a \<in> sched_ptes H (REG_PTBR0 s)" "base_fixed H s"
  shows "wlp (setPageTableEntry H a v pr f) (\<lambda>_. same_own H s) R s"
proof (rule wlp_setpte)
  fix e w
  have "own_part H (s\<lparr>ptes := (ptes s)(a \<mapsto> \<lparr>pte_valid = v, pte_prot = pr, pte_pfn = f\<rparr>), tlb_log := w\<rparr>) = own_part H s"
    using own_part_r0 [OF assms(1), of "\<lparr>pte_valid = v, pte_prot = pr, pte_pfn = f\<rparr>"] by (simp add: own_part_def)
  then show "same_own H s (s\<lparr>ptes := (ptes s)(a \<mapsto> \<lparr>pte_valid = v, pte_prot = pr, pte_pfn = f\<rparr>), tlb_log := w\<rparr>)"
    using assms(2) same_own_upd [of H "\<lambda>s. s\<lparr>ptes := (ptes s)(a \<mapsto> \<lparr>pte_valid = v, pte_prot = pr, pte_pfn = f\<rparr>), tlb_log := w\<rparr>" s] by simp
qed

lemma stack_entry: "base_fixed H s \<Longrightarrow> i < KSTACK_NPG H \<Longrightarrow> r0StackBasePtep s + i * SIZEOF_PTE H \<in> sched_ptes H (REG_PTBR0 s)"
  using kstack_vpn_bound [of H i]
  by (auto simp: base_fixed_def stack_base_ok_def sched_ptes_def add_mult_distrib intro!: image_eqI [of _ _ "KERNEL_STACK_BASE_VPN H + i"])

lemma own_entry:
  assumes "base_fixed H s" "a \<in> sched_ptes H (REG_PTBR0 s)"
  shows "preserves (same_own H s) (same_own H s) (setPageTableEntry H a v pr f)"
proof (rule preservesI)
  fix t
  assume t: "same_own H s t"
  then have "a \<in> sched_ptes H (REG_PTBR0 t)" "base_fixed H t" using assms(2) own_partD(4) [of H t s] by (simp_all add: same_own_def)
  from wlp_set_r0 [OF this] show "wlp (setPageTableEntry H a v pr f) (\<lambda>_. same_own H s) (same_own H s) t"
    by (rule wlp_mono) (use t in \<open>simp_all add: same_own_def\<close>)
qed

lemma own_tracked: "tracked H m \<Longrightarrow> preserves (same_own H s) (same_own H s) m"
  by (simp add: tracked_preserves)

text \<open>Entries found by reading the state.\<close>

lemma tracked_getk:
  assumes "\<And>s. base_fixed H s \<Longrightarrow> preserves (same_own H s) (same_own H s) (f (g s))"
  shows "tracked H (bindk (getk g) f)"
  unfolding tracked_def wlp_bindk wlp_basic
  using assms by (auto simp: preserves_def same_own_def)

lemma preserves_foldk_in: "(\<And>x. x \<in> set xs \<Longrightarrow> preserves U R (f x)) \<Longrightarrow> preserves U R (foldk f xs)"
  by (induction xs) (auto intro!: preserve_rules)

lemma tracked_accessors [tracked_rules]: "tracked H (get_pcb p)" "tracked H (nthk xs j)"
  by (intro tracked_still steady_accessors)+

lemma tracked_map_kernel_stack [tracked_rules]: "tracked H (map_kernel_stack H)"
  unfolding map_kernel_stack_def
proof (rule tracked_getk, simp only: prod.case, rule preserves_foldk_in)
  fix s :: kstate and i
  assume "base_fixed H s" "i \<in> set [0..<KSTACK_NPG H]"
  then show "preserves (same_own H s) (same_own H s) (bindk (get_pcb (currPCB s)) (\<lambda>pc. if i < length (stackPfns pc)
      then setPageTableEntry H (r0StackBasePtep s + i * SIZEOF_PTE H) True {PROT_READ, PROT_WRITE} (stackPfns pc ! i) else faultk UNINIT))"
    by (intro preserve_rules own_tracked tracked_accessors own_entry stack_entry) simp_all
qed

lemma tracked_fork_kernel_stack [tracked_rules]: "tracked H (fork_kernel_stack H)"
  unfolding fork_kernel_stack_def
proof (rule tracked_getk, simp only: prod.case, rule preserves_foldk_in)
  fix s :: kstate and i
  assume b: "base_fixed H s" "i \<in> set [0..<KSTACK_NPG H]"
  then have "tempPtep s \<in> sched_ptes H (REG_PTBR0 s)" by (simp add: base_fixed_def)
  with b show "preserves (same_own H s) (same_own H s) (bindk (get_pcb (currPCB s)) (\<lambda>pc. if i < length (stackPfns pc) then
      bindk (setPageTableEntry H (tempPtep s) True {PROT_WRITE} (stackPfns pc ! i)) (\<lambda>_.
      bindk (memmovek H (tempVAddr s) (KERNEL_STACK_BASE H + i * PAGESIZE H) (PAGESIZE H)) (\<lambda>_.
      setPageTableEntry H (r0StackBasePtep s + i * SIZEOF_PTE H) True {PROT_READ, PROT_WRITE} (stackPfns pc ! i))) else faultk UNINIT))"
    by (intro preserve_rules own_tracked tracked_accessors tracked_still still_memory own_entry stack_entry) simp_all
qed

lemma tracked_unmap [tracked_rules]: "tracked H (bindk (getk tempPtep) (\<lambda>tp. setPageTableEntry H tp v pr f))"
  by (rule tracked_getk) (simp add: own_entry base_fixed_def)

section \<open>The scheduler\<close>

lemma tracked_upd_pcb [tracked_rules]:
  assumes "\<And>c. oview (f c) = oview c"
  shows "tracked H (upd_pcb p f)"
  using assms
  by (intro tracked_steady) (auto simp: steady_def upd_pcb_def get_pcb_def wlp_simps own_part_def fun_eq_iff)

lemma tracked_queues [tracked_rules]:
  "tracked H mallock" "tracked H malloc_okk" "tracked H (enq_ready p)" "tracked H deq_ready" "tracked H (flushk f)"
  "tracked H (isTtyTransmitAvailable t)" "tracked H (set_transmitter t v)" "tracked H (ready_if_some w)"
proof -
  show m: "tracked H mallock" "tracked H malloc_okk" by (intro tracked_still still_mallock)+
  show e: "tracked H (enq_ready p)" "tracked H deq_ready" for p
    unfolding enq_ready_def deq_ready_def enqk_def deqk_def
    by (intro tracked_rules m; simp add: set_readyQ_def own_part_def)+
  show "tracked H (flushk f)" by (intro tracked_still still_flush)
  show "tracked H (isTtyTransmitAvailable t)" "tracked H (set_transmitter t v)" "tracked H (ready_if_some w)"
    unfolding isTtyTransmitAvailable_def set_transmitter_def ready_if_some_def
    by (intro tracked_rules e; simp add: own_part_def)+
qed

lemma tracked_maps:
  assumes "\<And>m s. own_part H (put m s) = own_part H s"
  shows "tracked H (hm_insertk get put k x)" "tracked H (hm_removek get put k)"
  unfolding hm_insertk_def hm_removek_def by (intro tracked_rules assms)+

lemma own_part_maps [simp]: "own_part H (set_blockedMap m s) = own_part H s" "own_part H (set_sleepingMap m s) = own_part H s"
  "own_part H (set_readingQs qs s) = own_part H s" "own_part H (set_transmittingQs qs s) = own_part H s"
  by (simp_all add: own_part_def set_blockedMap_def set_sleepingMap_def set_readingQs_def set_transmittingQs_def)

lemma tracked_hm [tracked_rules]:
  "tracked H (hm_insertk g set_blockedMap k x)" "tracked H (hm_removek g set_blockedMap k)"
  "tracked H (hm_insertk g set_sleepingMap k x)" "tracked H (hm_removek g set_sleepingMap k)"
  by (intro tracked_maps; simp)+

lemma tracked_context [tracked_rules]: "tracked H (save_kctxt p k)" "tracked H switch_r1"
  unfolding save_kctxt_def switch_r1_def by (intro tracked_rules; simp add: oview_def own_part_def)+

lemma tracked_switch [tracked_rules]: "tracked H (switchBetween H k c n)" "tracked H (forkTo H k p)"
  unfolding switchBetween_def forkTo_def by (intro tracked_rules; simp add: oview_def own_part_def)+

lemma tracked_scheduler [tracked_rules]:
  "tracked H (deq_switch H k)" "tracked H execProcess" "tracked H (forkProcess H k p)" "tracked H (blockProcess H k)"
  "tracked H (sleepProcess H k d)" "tracked H (kickProcess H k)" "tracked H (unblockProcess x)"
  unfolding deq_switch_def execProcess_def execTo_def forkProcess_def blockProcess_def sleepProcess_def kickProcess_def unblockProcess_def
  by (intro tracked_rules; simp add: oview_def)+

lemma tracked_tty [tracked_rules]:
  "tracked H (enq_tty get set_readingQs t p)" "tracked H (enq_tty get set_transmittingQs t p)"
  "tracked H (deq_tty get set_readingQs t)" "tracked H (deq_tty get set_transmittingQs t)"
  unfolding enq_tty_def deq_tty_def by (intro tracked_rules; simp)+

lemma tracked_terminals [tracked_rules]:
  "tracked H (blockTransmitter H k t)" "tracked H (unblockTransmitter t)" "tracked H (waitTransmitter H k t)"
  "tracked H (signalTransmitter H k t)" "tracked H (blockReader H k t)" "tracked H (unblockReader t)" "tracked H (TtyTransmit t b)"
  unfolding blockTransmitter_def unblockTransmitter_def waitTransmitter_def signalTransmitter_def blockReader_def
    unblockReader_def TtyTransmit_def
  by (intro tracked_rules; simp add: own_part_def)+

lemma tracked_transmit [tracked_rules]: "tracked H (transmit_loop H fuel t d n b)"
  by (induction fuel arbitrary: b) (auto intro!: tracked_rules simp: Let_def)

lemma tracked_await [tracked_rules]: "tracked H (await_terminal H fuel t d n)"
  by (induction fuel) (auto intro!: tracked_rules simp del: transmit_loop.simps)

lemma tracked_tick [tracked_rules]: "tracked H tickDownSleepers"
  unfolding tickDownSleepers_def tickDownSleeper_def by (intro tracked_rules; simp add: oview_def own_part_def)

lemma tracked_leave_zombie [tracked_rules]: "tracked H (leave_zombie c pp st)"
  unfolding leave_zombie_def by (intro tracked_rules; simp add: oview_def)

end
