(* ===== verification/Owned.thy ===== *)
theory Owned
  imports Tracked BrkProps
begin

text \<open>
  Every frame has at most one owner: a valid entry of a region 1 table, a place of a kernel stack, the free
  list, or the kernel itself. \<open>isolated\<close> says this of a state; the operations on entries preserve it.
\<close>

section \<open>Owners\<close>

definition user_addrs :: "hw \<Rightarrow> kstate \<Rightarrow> ptr set" where
  "user_addrs H s = {a. \<exists>p b. table_of s p = Some b \<and> a \<in> table_addrs H b}"

text \<open>An owner is the address of an entry, or a process and an index into its stack frames.\<close>

definition valid_at :: "kstate \<Rightarrow> ptr \<Rightarrow> nat option" where
  "valid_at s a = (case ptes s a of None \<Rightarrow> None | Some e \<Rightarrow> if pte_valid e then Some (pte_pfn e) else None)"

definition stack_at :: "kstate \<Rightarrow> ptr \<times> nat \<Rightarrow> nat option" where
  "stack_at s x = (case pcbs s (fst x) of None \<Rightarrow> None
     | Some c \<Rightarrow> if snd x < length (stackPfns c) then Some (stackPfns c ! snd x) else None)"

definition owns :: "hw \<Rightarrow> kstate \<Rightarrow> ptr + ptr \<times> nat \<Rightarrow> nat option" where
  "owns H s = case_sum (\<lambda>a. if a \<in> user_addrs H s then valid_at s a else None) (stack_at s)"

text \<open>\<open>pool K m F\<close>: no frame has two owners, and those that are owned are neither free (\<open>F\<close>) nor the kernel's (\<open>K\<close>).\<close>

definition pool :: "nat set \<Rightarrow> ('x \<Rightarrow> nat option) \<Rightarrow> nat set \<Rightarrow> bool" where
  "pool K m F \<longleftrightarrow> (\<forall>x y f. m x = Some f \<longrightarrow> m y = Some f \<longrightarrow> x = y) \<and> ran m \<inter> (F \<union> K) = {} \<and> K \<inter> F = {}"

lemma pool_sub:
  assumes "pool K m F" "\<And>x f. m' x = Some f \<Longrightarrow> m x = Some f"
  shows "pool K m' F"
proof -
  have "ran m' \<subseteq> ran m" using assms(2) by (auto simp: ran_def)
  then show ?thesis using assms unfolding pool_def by blast
qed

lemma pool_drop: "pool K m F \<Longrightarrow> pool K (m(x := None)) F"
  by (erule pool_sub) (simp split: if_splits)

lemma pool_put: "pool K m F \<Longrightarrow> f \<notin> ran m \<Longrightarrow> f \<notin> F \<Longrightarrow> f \<notin> K \<Longrightarrow> pool K (m(x \<mapsto> f)) F"
  unfolding pool_def by (auto simp: ran_def)

lemma pool_take: "pool K m F \<Longrightarrow> f \<in> F \<Longrightarrow> pool K m (F - {f}) \<and> f \<notin> ran m \<and> f \<notin> K"
  unfolding pool_def by blast

lemma pool_release: "pool K m F \<Longrightarrow> f \<notin> ran m \<Longrightarrow> f \<notin> K \<Longrightarrow> pool K m (insert f F)"
  unfolding pool_def by blast

lemma pool_last: "pool K m F \<Longrightarrow> m x = Some f \<Longrightarrow> f \<notin> ran (m(x := None)) \<and> f \<notin> K"
  unfolding pool_def ran_def by (auto split: if_splits)

definition tables_ok :: "hw \<Rightarrow> kstate \<Rightarrow> bool" where
  "tables_ok H s \<longleftrightarrow> (\<forall>p c. pcbs s p = Some c \<longrightarrow> pid c < nextPid s \<and> (\<exists>b. r1PageTable c = Some b \<and> from_malloc s b \<and>
       b \<noteq> REG_PTBR0 s \<and> has_table H s b)) \<and>
     (\<forall>p q b. table_of s p = Some b \<longrightarrow> table_of s q = Some b \<longrightarrow> p = q)"

text \<open>The pages of region 0 below the spare page belong to the kernel.\<close>

definition kernel_known :: "hw \<Rightarrow> nat set \<Rightarrow> kstate \<Rightarrow> bool" where
  "kernel_known H K s \<longleftrightarrow> (\<forall>i f. i < KERNEL_STACK_BASE_VPN H - 1 \<longrightarrow> valid_at s (REG_PTBR0 s + i * SIZEOF_PTE H) = Some f \<longrightarrow> f \<in> K)"

definition isolated :: "hw \<Rightarrow> nat set \<Rightarrow> kstate \<Rightarrow> bool" where
  "isolated H K s \<longleftrightarrow> base_fixed H s \<and> tables_ok H s \<and> frames_ok s \<and> pool K (owns H s) (free_frames s) \<and> kernel_known H K s"

lemma kernel_knownI:
  assumes "kernel_known H K s" "REG_PTBR0 t = REG_PTBR0 s"
    "\<And>i f. i < KERNEL_STACK_BASE_VPN H - 1 \<Longrightarrow> valid_at t (REG_PTBR0 s + i * SIZEOF_PTE H) = Some f \<Longrightarrow>
       valid_at s (REG_PTBR0 s + i * SIZEOF_PTE H) = Some f"
  shows "kernel_known H K t"
  using assms by (auto simp: kernel_known_def)

lemma kernel_known_same: "ptes t = ptes s \<Longrightarrow> REG_PTBR0 t = REG_PTBR0 s \<Longrightarrow> kernel_known H K t = kernel_known H K s"
  by (simp add: kernel_known_def valid_at_def)

lemma stack_base_bound:
  assumes H: "hw_ok H"
  shows "KERNEL_STACK_BASE_VPN H \<le> MAX_PT_LEN H"
proof -
  have "KERNEL_STACK_BASE H \<le> MAX_PT_LEN H * PAGESIZE H" using H unfolding hw_ok_def by linarith
  then have "KERNEL_STACK_BASE_VPN H \<le> MAX_PT_LEN H * PAGESIZE H div PAGESIZE H"
    unfolding KERNEL_STACK_BASE_VPN_def vpn_of_page [OF H] by (rule div_le_mono)
  then show ?thesis using hw_okD(2) [OF H] by simp
qed

lemma low_entry:
  assumes "base_fixed H s" "i < KERNEL_STACK_BASE_VPN H - 1"
  shows "REG_PTBR0 s + i * SIZEOF_PTE H \<in> table_addrs H (REG_PTBR0 s)" "REG_PTBR0 s + i * SIZEOF_PTE H \<notin> sched_ptes H (REG_PTBR0 s)"
proof -
  have H: "hw_ok H" using assms(1) by (simp add: base_fixed_def)
  from stack_base_bound [OF H] show "REG_PTBR0 s + i * SIZEOF_PTE H \<in> table_addrs H (REG_PTBR0 s)" using assms(2) by (auto simp: table_addrs_def)
  have "0 < SIZEOF_PTE H" using H by (simp add: hw_ok_def)
  then show "REG_PTBR0 s + i * SIZEOF_PTE H \<notin> sched_ptes H (REG_PTBR0 s)" using assms(2) by (auto simp: sched_ptes_def)
qed

section \<open>Tables do not overlap\<close>

lemma table_ofD: "tables_ok H s \<Longrightarrow> table_of s p = Some b \<Longrightarrow> from_malloc s b \<and> b \<noteq> REG_PTBR0 s \<and> has_table H s b"
  by (fastforce simp: tables_ok_def table_of_def split: option.splits)

lemma tables_disjoint:
  assumes "base_fixed H s" "from_malloc s a" "from_malloc s b" "a \<noteq> b"
  shows "table_addrs H a \<inter> table_addrs H b = {}"
proof -
  have "apart H a b" using assms by (auto simp: base_fixed_def intro: malloc_apart)
  moreover have "0 < SIZEOF_PTE H" using assms(1) by (simp add: base_fixed_def hw_ok_def)
  ultimately show ?thesis by (simp add: apart_tables)
qed

lemma user_not_table:
  assumes "base_fixed H s" "tables_ok H s" "a \<in> user_addrs H s"
  shows "a \<notin> table_addrs H (REG_PTBR0 s)"
proof -
  obtain p b where b: "table_of s p = Some b" "a \<in> table_addrs H b" using assms(3) by (auto simp: user_addrs_def)
  have "from_malloc s (REG_PTBR0 s)" using assms(1) by (simp add: base_fixed_def)
  from tables_disjoint [OF assms(1) _ this, of b] table_ofD [OF assms(2) b(1)] b(2) show ?thesis by blast
qed

lemma user_not_r0: "base_fixed H s \<Longrightarrow> tables_ok H s \<Longrightarrow> a \<in> user_addrs H s \<Longrightarrow> a \<notin> sched_ptes H (REG_PTBR0 s)"
  using user_not_table sched_ptes_table by blast

lemma entry_owner:
  assumes "base_fixed H s" "tables_ok H s" "table_of s p = Some b" "table_of s q = Some b'" "a \<in> table_addrs H b" "a \<in> table_addrs H b'"
  shows "p = q"
proof -
  have "b = b'" using tables_disjoint [OF assms(1), of b b'] table_ofD [OF assms(2)] assms(3-6) by blast
  then show ?thesis using assms(2-4) by (simp add: tables_ok_def)
qed

lemma entry_in_table: "i < MAX_PT_LEN H \<Longrightarrow> b + i * SIZEOF_PTE H \<in> table_addrs H b"
  by (auto simp: table_addrs_def)

section \<open>The invariant depends on \<open>own_part\<close> only\<close>

lemma own_pcb:
  assumes "own_part H t = own_part H s"
  obtains "pcbs t p = None" "pcbs s p = None" | c d where "pcbs t p = Some c" "pcbs s p = Some d" "oview c = oview d"
  using own_partD(10) [OF assms, of p] by (cases "pcbs s p"; cases "pcbs t p") auto

lemma own_table: "own_part H t = own_part H s \<Longrightarrow> table_of t p = table_of s p"
  by (erule own_pcb [where p = p]) (simp_all add: table_of_def oview_def)

lemma own_stack: "own_part H t = own_part H s \<Longrightarrow> stack_at t x = stack_at s x"
  by (erule own_pcb [where p = "fst x"]) (simp_all add: stack_at_def oview_def)

lemma tables_okI:
  assumes s: "tables_ok H s" and t: "malloc_oracle t = malloc_oracle s" "REG_PTBR0 t = REG_PTBR0 s" "nextPid s \<le> nextPid t"
    and tab: "\<And>p b. table_of s p = Some b \<Longrightarrow> has_table H s b \<Longrightarrow> has_table H t b"
    and h: "\<And>q e. pcbs t q = Some e \<Longrightarrow> \<exists>d. pcbs s q = Some d \<and> pid d = pid e \<and> r1PageTable d = r1PageTable e"
  shows "tables_ok H t"
  unfolding tables_ok_def
proof (intro conjI allI impI)
  fix q e
  assume "pcbs t q = Some e"
  with h obtain d where d: "pcbs s q = Some d" "pid d = pid e" "r1PageTable d = r1PageTable e" by blast
  with s obtain b where b: "pid d < nextPid s" "r1PageTable d = Some b" "from_malloc s b" "b \<noteq> REG_PTBR0 s" "has_table H s b"
    unfolding tables_ok_def by blast
  moreover from this have "table_of s q = Some b" using d(1) by (simp add: table_of_def)
  ultimately have "has_table H t b" "r1PageTable e = Some b" "from_malloc t b" "b \<noteq> REG_PTBR0 t"
    using d t tab by (simp_all add: from_malloc_def)
  then show "pid e < nextPid t" "\<exists>b. r1PageTable e = Some b \<and> from_malloc t b \<and> b \<noteq> REG_PTBR0 t \<and> has_table H t b"
    using d b(1) t(3) by auto
next
  fix q r b
  have "table_of s x = Some b" if "table_of t x = Some b" for x
    using that h [of x] by (auto simp: table_of_def split: option.splits)
  then show "table_of t q = Some b \<Longrightarrow> table_of t r = Some b \<Longrightarrow> q = r"
    using s unfolding tables_ok_def by blast
qed

lemma owns_part:
  assumes e: "own_part H t = own_part H s" and s: "base_fixed H s" "tables_ok H s"
  shows "owns H t = owns H s" "user_addrs H t = user_addrs H s" "a \<in> user_addrs H s \<Longrightarrow> valid_at t a = valid_at s a"
    "free_frames t = free_frames s"
proof -
  show users: "user_addrs H t = user_addrs H s" using own_table [OF e] by (simp add: user_addrs_def)
  have pte: "ptes t a = ptes s a" if "a \<in> user_addrs H s" for a using own_partD(9) [OF e user_not_r0 [OF s that]] .
  then show "a \<in> user_addrs H s \<Longrightarrow> valid_at t a = valid_at s a" by (simp add: valid_at_def)
  show "owns H t = owns H s"
    using own_stack [OF e] users pte by (auto simp: owns_def valid_at_def fun_eq_iff split: sum.split)
  show "free_frames t = free_frames s" using own_partD(1) [OF e] by (simp add: free_frames_def)
qed

lemma isolated_part:
  assumes e: "own_part H t = own_part H s" and i: "isolated H K s"
  shows "isolated H K t"
proof -
  note d = own_partD [OF e]
  from i have s: "base_fixed H s" "tables_ok H s" "frames_ok s" "pool K (owns H s) (free_frames s)" "kernel_known H K s"
    by (simp_all add: isolated_def)
  have "kernel_known H K t"
    by (rule kernel_knownI [OF s(5) d(4)]) (use d(9) [OF low_entry(2) [OF s(1)]] in \<open>simp add: valid_at_def\<close>)
  moreover
  have "tables_ok H t"
  proof (rule tables_okI [OF s(2)])
    fix p b
    assume "table_of s p = Some b" "has_table H s b"
    then have "table_addrs H b \<subseteq> user_addrs H s" by (auto simp: user_addrs_def)
    then show "has_table H t b" using \<open>has_table H s b\<close> d(9) user_not_r0 [OF s(1,2)] by (auto simp: has_table_def)
  next
    show "\<exists>d. pcbs s q = Some d \<and> pid d = pid c \<and> r1PageTable d = r1PageTable c" if "pcbs t q = Some c" for q c
      using d(10) [of q] that by (cases "pcbs s q") (auto simp: oview_def)
  qed (use d in simp_all)
  moreover have "frames_ok t" using s(3) d(1-3) by (simp add: frames_ok_def)
  moreover have "base_fixed H t" using s(1) base_fixed_part [OF e] by simp
  ultimately show ?thesis using s(4) owns_part(1,4) [OF e s(1,2)] by (simp add: isolated_def)
qed

section \<open>Frames and entries\<close>

lemma wlp_take_frame:
  assumes "frames_ok s"
  shows "wlp getFramek (\<lambda>r t. \<exists>fl. t = s\<lparr>frameList := fl\<rparr> \<and> frames_ok t \<and>
    (case r of None \<Rightarrow> free_frames t = free_frames s | Some f \<Rightarrow> f \<in> free_frames s \<and> free_frames t = free_frames s - {f})) R s"
proof -
  from assms obtain fl where fl: "frameList s = Some fl" "fl_ok fl (numFrames s)" "\<not> isFree (past s)" by (auto simp: frames_ok_def)
  show ?thesis
  proof (cases "free_pfns fl = {}")
    case True
    from getFrame_none [OF fl(2,3) this] fl assms show ?thesis
      by (auto simp: wlp_def getFramek_def frames_ok_def free_frames_def intro!: exI [of _ "Some fl"])
  next
    case False
    from getFrame_some [OF fl(2,3) this] fl assms show ?thesis
      by (auto simp: wlp_def getFramek_def frames_ok_def free_frames_def)
  qed
qed

lemma wlp_free_frame:
  assumes "frames_ok s"
  shows "wlp (freeFramek f) (\<lambda>_ t. \<exists>fl. t = s\<lparr>frameList := fl\<rparr> \<and> frames_ok t \<and> free_frames t \<subseteq> insert f (free_frames s)) R s"
proof -
  from assms obtain fl where fl: "frameList s = Some fl" "fl_ok fl (numFrames s)" "\<not> isFree (past s)" by (auto simp: frames_ok_def)
  from freeFrame_ok [OF fl(2), of f] fl show ?thesis
    by (auto simp: wlp_def freeFramek_def frames_ok_def free_frames_def split: if_splits)
qed

definition spare :: "hw \<Rightarrow> nat set \<Rightarrow> nat \<Rightarrow> kstate \<Rightarrow> bool" where
  "spare H K f s \<longleftrightarrow> f \<notin> ran (owns H s) \<and> f \<notin> free_frames s \<and> f \<notin> K"

text \<open>States that differ in frame list, flush log and the contents of entries.\<close>

definition repaged :: "kstate \<Rightarrow> (ptr \<Rightarrow> pte option) \<Rightarrow> frame_t list option \<Rightarrow> tlb_flush list \<Rightarrow> kstate" where
  "repaged s P fl w = s\<lparr>frameList := fl, ptes := P, tlb_log := w\<rparr>"

lemma repaged_simps [simp]: "pcbs (repaged s P fl w) = pcbs s" "ptes (repaged s P fl w) = P" "frameList (repaged s P fl w) = fl"
  "currPCB (repaged s P fl w) = currPCB s" "table_of (repaged s P fl w) = table_of s" "repaged (repaged s P fl w) P' fl' w' = repaged s P' fl' w'"
  "repaged s (ptes s) (frameList s) (tlb_log s) = s" "user_addrs H (repaged s P fl w) = user_addrs H s" "stack_at (repaged s P fl w) = stack_at s"
  "malloc_oracle (repaged s P fl w) = malloc_oracle s" "nextPid (repaged s P fl w) = nextPid s" "REG_PTBR0 (repaged s P fl w) = REG_PTBR0 s"
  "free_frames (repaged s P fl w) = (case fl of None \<Rightarrow> {} | Some l \<Rightarrow> free_pfns l)"
  by (simp_all add: repaged_def table_of_def user_addrs_def stack_at_def fun_eq_iff free_frames_def)

lemma repaged_base: "base_fixed H (repaged s P fl w) = base_fixed H s"
  by (simp add: base_fixed_def stack_base_ok_def blocks_apart_def from_malloc_def repaged_def)

lemma repaged_tables: "dom P = dom (ptes s) \<Longrightarrow> tables_ok H (repaged s P fl w) = tables_ok H s"
  by (simp add: tables_ok_def from_malloc_def has_table_dom_iff)

lemma owns_upd:
  assumes "a \<in> user_addrs H s"
  shows "owns H (repaged s ((ptes s)(a \<mapsto> e)) fl w) = (owns H s)(Inl a := if pte_valid e then Some (pte_pfn e) else None)"
  using assms by (auto simp: owns_def valid_at_def fun_eq_iff split: sum.split)

lemma owns_frames: "owns H (repaged s (ptes s) fl w) = owns H s"
  by (auto simp: owns_def valid_at_def fun_eq_iff split: sum.split)

lemma isolatedD: "isolated H K s \<Longrightarrow> base_fixed H s \<and> tables_ok H s \<and> frames_ok s \<and> pool K (owns H s) (free_frames s)"
  by (simp add: isolated_def)

lemma repaged_known: "kernel_known H K (repaged s (ptes s) fl w) = kernel_known H K s"
  by (rule kernel_known_same) simp_all

lemma repaged_user_known:
  assumes "isolated H K s" "a \<in> user_addrs H s"
  shows "kernel_known H K (repaged s ((ptes s)(a \<mapsto> e)) fl w)"
proof (rule kernel_knownI)
  have s: "base_fixed H s" "tables_ok H s" using assms(1) by (simp_all add: isolated_def)
  show "kernel_known H K s" using assms(1) by (simp add: isolated_def)
  fix i f
  assume "i < KERNEL_STACK_BASE_VPN H - 1"
  from low_entry(1) [OF s(1) this] have "REG_PTBR0 s + i * SIZEOF_PTE H \<noteq> a" using user_not_table [OF s assms(2)] by blast
  then show "valid_at (repaged s ((ptes s)(a \<mapsto> e)) fl w) (REG_PTBR0 s + i * SIZEOF_PTE H) = Some f \<Longrightarrow>
      valid_at s (REG_PTBR0 s + i * SIZEOF_PTE H) = Some f" by (simp add: valid_at_def)
qed simp

lemma user_dom: "tables_ok H s \<Longrightarrow> a \<in> user_addrs H s \<Longrightarrow> a \<in> dom (ptes s)"
  using table_ofD by (fastforce simp: user_addrs_def has_table_dom_iff)

lemma isolated_frames:
  assumes "isolated H K s" "frames_ok (repaged s (ptes s) fl w)" "pool K (owns H s) (free_frames (repaged s (ptes s) fl w))"
  shows "isolated H K (repaged s (ptes s) fl w)"
  using assms by (simp add: isolated_def repaged_base repaged_tables owns_frames repaged_known)

lemma isolated_entry:
  assumes "isolated H K s" "a \<in> user_addrs H s" "frames_ok (repaged s ((ptes s)(a \<mapsto> e)) fl w)"
    "pool K ((owns H s)(Inl a := if pte_valid e then Some (pte_pfn e) else None)) (free_frames (repaged s ((ptes s)(a \<mapsto> e)) fl w))"
  shows "isolated H K (repaged s ((ptes s)(a \<mapsto> e)) fl w)"
proof -
  have "dom ((ptes s)(a \<mapsto> e)) = dom (ptes s)" using user_dom [OF _ assms(2)] assms(1) by (auto simp: isolated_def)
  then show ?thesis using assms owns_upd [OF assms(2), of e fl w] repaged_user_known [OF assms(1,2)] by (simp add: isolated_def repaged_base repaged_tables)
qed

lemma wlp_get_spare:
  assumes "isolated H K s"
  shows "wlp getFramek (\<lambda>r t. \<exists>fl. t = repaged s (ptes s) fl (tlb_log s) \<and> isolated H K t \<and> (\<forall>f. r = Some f \<longrightarrow> spare H K f t)) R s"
proof -
  note i = isolatedD [OF assms]
  have eq: "s\<lparr>frameList := fl\<rparr> = repaged s (ptes s) fl (tlb_log s)" for fl by (simp add: repaged_def)
  show ?thesis
  proof (rule wlp_mono [OF wlp_take_frame])
    show "frames_ok s" using i by simp
    fix r t
    assume "\<exists>fl. t = s\<lparr>frameList := fl\<rparr> \<and> frames_ok t \<and> (case r of None \<Rightarrow> free_frames t = free_frames s
        | Some f \<Rightarrow> f \<in> free_frames s \<and> free_frames t = free_frames s - {f})"
    then obtain fl where t: "t = repaged s (ptes s) fl (tlb_log s)" "frames_ok t"
      "case r of None \<Rightarrow> free_frames t = free_frames s | Some f \<Rightarrow> f \<in> free_frames s \<and> free_frames t = free_frames s - {f}"
      unfolding eq by blast
    have "pool K (owns H s) (free_frames t) \<and> (\<forall>f. r = Some f \<longrightarrow> spare H K f t)"
    proof (cases r)
      case None
      then show ?thesis using t(3) i by simp
    next
      case (Some f)
      then show ?thesis using t pool_take [of K "owns H s" "free_frames s" f] i by (simp add: spare_def owns_frames)
    qed
    then show "\<exists>fl. t = repaged s (ptes s) fl (tlb_log s) \<and> isolated H K t \<and> (\<forall>f. r = Some f \<longrightarrow> spare H K f t)"
      using isolated_frames [OF assms, of fl "tlb_log s"] t by blast
  qed simp
qed

lemma set_spare:
  assumes "isolated H K s" "spare H K f s" "a \<in> user_addrs H s"
  shows "isolated H K (repaged s ((ptes s)(a \<mapsto> \<lparr>pte_valid = True, pte_prot = pr, pte_pfn = f\<rparr>)) (frameList s) w)"
proof (rule isolated_entry [OF assms(1,3)])
  note i = isolatedD [OF assms(1)]
  show "frames_ok (repaged s ((ptes s)(a \<mapsto> \<lparr>pte_valid = True, pte_prot = pr, pte_pfn = f\<rparr>)) (frameList s) w)"
    using i by (simp add: frames_ok_def repaged_def)
  have "free_frames (repaged s P (frameList s) w) = free_frames s" for P by (simp add: free_frames_def)
  then show "pool K ((owns H s)(Inl a := if pte_valid \<lparr>pte_valid = True, pte_prot = pr, pte_pfn = f\<rparr>
      then Some (pte_pfn \<lparr>pte_valid = True, pte_prot = pr, pte_pfn = f\<rparr>) else None))
      (free_frames (repaged s ((ptes s)(a \<mapsto> \<lparr>pte_valid = True, pte_prot = pr, pte_pfn = f\<rparr>)) (frameList s) w))"
    using i assms(2) pool_put [of K "owns H s" "free_frames s" f "Inl a"] by (simp add: spare_def)
qed

section \<open>Filling and clearing entries of one table\<close>

definition edits :: "hw \<Rightarrow> ptr \<Rightarrow> kstate \<Rightarrow> kstate \<Rightarrow> bool" where
  "edits H b s t \<longleftrightarrow> (\<exists>P fl w. t = repaged s P fl w \<and> dom P = dom (ptes s) \<and> (\<forall>a. a \<notin> table_addrs H b \<longrightarrow> P a = ptes s a))"

lemma edits_refl [simp]: "edits H b s s"
  unfolding edits_def by (intro exI [of _ "ptes s"] exI [of _ "frameList s"] exI [of _ "tlb_log s"]) simp

lemma edits_trans: "edits H b s t \<Longrightarrow> edits H b t u \<Longrightarrow> edits H b s u"
proof -
  assume "edits H b s t" "edits H b t u"
  then obtain P fl w P' fl' w' where t: "t = repaged s P fl w" "dom P = dom (ptes s)" "\<And>a. a \<notin> table_addrs H b \<Longrightarrow> P a = ptes s a"
    and u: "u = repaged t P' fl' w'" "dom P' = dom (ptes t)" "\<And>a. a \<notin> table_addrs H b \<Longrightarrow> P' a = ptes t a"
    unfolding edits_def by blast
  then have "u = repaged s P' fl' w'" "dom P' = dom (ptes s)" "\<And>a. a \<notin> table_addrs H b \<Longrightarrow> P' a = ptes s a" by simp_all
  then show ?thesis unfolding edits_def by blast
qed

lemma edits_frames [simp]: "edits H b s (repaged s (ptes s) fl w)"
  unfolding edits_def by blast

lemma edits_entry: "ptes s a \<noteq> None \<Longrightarrow> a \<in> table_addrs H b \<Longrightarrow> edits H b s (repaged s ((ptes s)(a \<mapsto> e)) fl w)"
  unfolding edits_def by (intro exI conjI, rule refl) auto

lemma editsD:
  assumes "edits H b s t"
  shows "pcbs t = pcbs s" "table_of t = table_of s" "currPCB t = currPCB s" "a \<notin> table_addrs H b \<Longrightarrow> ptes t a = ptes s a"
    "user_addrs H t = user_addrs H s" "dom (ptes t) = dom (ptes s)"
proof -
  obtain P fl w where "t = repaged s P fl w" "dom P = dom (ptes s)" "\<forall>a. a \<notin> table_addrs H b \<longrightarrow> P a = ptes s a"
    using assms unfolding edits_def by blast
  then show "pcbs t = pcbs s" "table_of t = table_of s" "currPCB t = currPCB s" "a \<notin> table_addrs H b \<Longrightarrow> ptes t a = ptes s a"
    "user_addrs H t = user_addrs H s" "dom (ptes t) = dom (ptes s)" by simp_all
qed

text \<open>What a loop that fills entries guarantees at any point.\<close>

definition filling :: "hw \<Rightarrow> nat set \<Rightarrow> ptr \<Rightarrow> kstate \<Rightarrow> kstate \<Rightarrow> bool" where
  "filling H K b s t \<longleftrightarrow> isolated H K t \<and> edits H b s t \<and> (\<forall>a. valid_at s a \<noteq> None \<longrightarrow> valid_at t a \<noteq> None)"

lemma filling_refl: "isolated H K s \<Longrightarrow> filling H K b s s"
  by (simp add: filling_def)

lemma filling_trans: "filling H K b s t \<Longrightarrow> filling H K b t u \<Longrightarrow> filling H K b s u"
  using edits_trans [of H b s t u] by (simp add: filling_def)

lemma user_entry_addr: "table_of s p = Some b \<Longrightarrow> i < MAX_PT_LEN H \<Longrightarrow> b + i * SIZEOF_PTE H \<in> user_addrs H s"
  using entry_in_table [of i H b] by (auto simp: user_addrs_def)

lemma valid_at_frames [simp]: "valid_at (repaged s (ptes s) fl w) = valid_at s"
  by (simp add: valid_at_def fun_eq_iff)

lemma filling_entry:
  assumes "isolated H K s" "spare H K f s" "table_of s p = Some b" "i < MAX_PT_LEN H"
  shows "filling H K b s (repaged s ((ptes s)(b + i * SIZEOF_PTE H \<mapsto> \<lparr>pte_valid = True, pte_prot = pr, pte_pfn = f\<rparr>)) (frameList s) w)"
    "valid_at (repaged s ((ptes s)(b + i * SIZEOF_PTE H \<mapsto> \<lparr>pte_valid = True, pte_prot = pr, pte_pfn = f\<rparr>)) (frameList s) w)
       (b + i * SIZEOF_PTE H) \<noteq> None"
proof -
  let ?a = "b + i * SIZEOF_PTE H"
  have u: "?a \<in> user_addrs H s" using user_entry_addr [OF assms(3,4)] .
  have "ptes s ?a \<noteq> None" using user_dom [OF _ u] assms(1) by (auto simp: isolated_def)
  then show "filling H K b s (repaged s ((ptes s)(?a \<mapsto> \<lparr>pte_valid = True, pte_prot = pr, pte_pfn = f\<rparr>)) (frameList s) w)"
    using set_spare [OF assms(1,2) u] edits_entry [OF _ entry_in_table [OF assms(4)]] by (simp add: filling_def valid_at_def)
qed (simp add: valid_at_def)

lemma set_repaged: "s\<lparr>ptes := P, tlb_log := w\<rparr> = repaged s P (frameList s) w"
  by (simp add: repaged_def)

lemma wlp_fill_entry:
  assumes "isolated H K s" "table_of s p = Some b" "i < MAX_PT_LEN H"
  shows "wlp (bindk getFramek (\<lambda>f. case f of None \<Rightarrow> retk ERROR
      | Some x \<Rightarrow> bindk (setPageTableEntry H (b + i * SIZEOF_PTE H) True pr x) (\<lambda>_. retk SUCCESS)))
    (\<lambda>r t. filling H K b s t \<and> (r \<noteq> ERROR \<longrightarrow> valid_at t (b + i * SIZEOF_PTE H) \<noteq> None)) R s"
  unfolding wlp_bindk
proof (rule wlp_mono [OF wlp_get_spare [OF assms(1)]], goal_cases)
  case (1 r t)
  then obtain fl where t: "t = repaged s (ptes s) fl (tlb_log s)" "isolated H K t" "\<And>f. r = Some f \<Longrightarrow> spare H K f t" by blast
  have st: "filling H K b s t" using t by (simp add: filling_def)
  show ?case
  proof (cases r)
    case None
    then show ?thesis using st by (simp add: wlp_basic)
  next
    case (Some f)
    have "table_of t p = Some b" using t(1) assms(2) by simp
    note new = filling_entry [OF t(2) t(3) [OF Some] this assms(3), of pr]
    show ?thesis
      unfolding Some option.case wlp_bindk wlp_basic
      by (rule wlp_setpte) (use new filling_trans [OF st new(1)] in \<open>simp add: set_repaged\<close>)
  qed
qed

lemma wlp_fill_entries:
  assumes f: "\<And>x u. x \<in> set xs \<Longrightarrow> isolated H K u \<Longrightarrow> table_of u p = Some b \<Longrightarrow>
      wlp (f x) (\<lambda>r t. filling H K b u t \<and> (r \<noteq> ERROR \<longrightarrow> valid_at t (g x) \<noteq> None)) R u"
    and "isolated H K s" "table_of s p = Some b"
  shows "wlp (foldrc f xs) (\<lambda>r t. filling H K b s t \<and> (r \<noteq> ERROR \<longrightarrow> (\<forall>x \<in> set xs. valid_at t (g x) \<noteq> None))) R s"
  using assms
proof (induction xs arbitrary: s)
  case Nil
  then show ?case by (simp add: wlp_basic filling_refl)
next
  case (Cons x xs)
  show ?case
    unfolding foldrc.simps wlp_bindk
  proof (rule wlp_mono [OF Cons.prems(1) [of x s]], goal_cases)
    case (4 r t)
    then have t: "filling H K b s t" "isolated H K t" "table_of t p = Some b"
      using Cons.prems(3) editsD(2) [of H b s t] by (auto simp: filling_def)
    show ?case
    proof (cases "r = ERROR")
      case True
      then show ?thesis using t by (simp add: wlp_basic)
    next
      case False
      with 4 have v: "valid_at t (g x) \<noteq> None" by simp
      have "wlp (foldrc f xs) (\<lambda>r u. filling H K b t u \<and> (r \<noteq> ERROR \<longrightarrow> (\<forall>x \<in> set xs. valid_at u (g x) \<noteq> None))) R t"
        by (rule Cons.IH [OF _ t(2,3)]) (use Cons.prems(1) in simp)
      then have "wlp (foldrc f xs) (\<lambda>r u. filling H K b s u \<and> (r \<noteq> ERROR \<longrightarrow> (\<forall>x \<in> set (x # xs). valid_at u (g x) \<noteq> None))) R t"
        by (rule wlp_mono) (use t(1) v filling_trans [OF t(1)] in \<open>auto simp: filling_def\<close>)
      with False show ?thesis by simp
    qed
  qed (use Cons.prems in simp_all)
qed

text \<open>Giving up one entry: its frame becomes free, then it is invalidated.\<close>

lemma wlp_drop_entry:
  assumes "isolated H K s" "table_of s p = Some b" "i < MAX_PT_LEN H" "ptes s (b + i * SIZEOF_PTE H) = Some e" "pte_valid e"
  shows "wlp (bindk (freeFramek (pte_pfn e)) (\<lambda>_. invalidatePageTableEntry H (b + i * SIZEOF_PTE H)))
    (\<lambda>_ t. isolated H K t \<and> edits H b s t \<and> (\<forall>a. a \<noteq> b + i * SIZEOF_PTE H \<longrightarrow> ptes t a = ptes s a)) R s"
  unfolding wlp_bindk
proof (rule wlp_mono [OF wlp_free_frame], goal_cases)
  case 1
  then show ?case using assms(1) by (simp add: isolated_def)
next
  case (2 u t)
  let ?a = "b + i * SIZEOF_PTE H" and ?m = "owns H s"
  from 2 obtain fl where t: "t = s\<lparr>frameList := fl\<rparr>" "frames_ok t" "free_frames t \<subseteq> insert (pte_pfn e) (free_frames s)" by blast
  have a: "?a \<in> user_addrs H s" using user_entry_addr [OF assms(2,3)] .
  then have m: "?m (Inl ?a) = Some (pte_pfn e)" using assms(4,5) by (simp add: owns_def valid_at_def)
  have p: "pool K ?m (free_frames s)" using assms(1) by (simp add: isolated_def)
  have "pool K (?m(Inl ?a := None)) (insert (pte_pfn e) (free_frames s))"
    using pool_last [OF p m] pool_release [OF pool_drop [OF p]] by blast
  then have pool: "pool K (?m(Inl ?a := None)) (free_frames t)" using t(3) unfolding pool_def by blast
  have iso: "isolated H K (repaged s ((ptes s)(?a \<mapsto> e\<lparr>pte_valid := False\<rparr>)) fl w)" for w
  proof (rule isolated_entry [OF assms(1) a])
    show "frames_ok (repaged s ((ptes s)(?a \<mapsto> e\<lparr>pte_valid := False\<rparr>)) fl w)" using t(1,2) by (simp add: frames_ok_def repaged_def)
    have "free_frames (repaged s ((ptes s)(?a \<mapsto> e\<lparr>pte_valid := False\<rparr>)) fl w) = free_frames t" using t(1) by (simp add: free_frames_def)
    then show "pool K (?m(Inl ?a := if pte_valid (e\<lparr>pte_valid := False\<rparr>) then Some (pte_pfn (e\<lparr>pte_valid := False\<rparr>)) else None))
        (free_frames (repaged s ((ptes s)(?a \<mapsto> e\<lparr>pte_valid := False\<rparr>)) fl w))" using pool by simp
  qed
  have ed: "edits H b s (repaged s ((ptes s)(?a \<mapsto> e')) fl w)" for e' w
    using assms(4) entry_in_table [OF assms(3)] by (intro edits_entry) auto
  have eq: "t\<lparr>ptes := P, tlb_log := w\<rparr> = repaged s P fl w" "t\<lparr>ptes := P\<rparr> = repaged s P fl (tlb_log s)" for P w
    using t(1) by (simp_all add: repaged_def)
  have "ptes t = ptes s" using t(1) by simp
  then show ?case
    unfolding invalidatePageTableEntry_def using assms(4)
    by (auto simp: wlp_bindk wlp_basic wlp_cases eq iso ed intro!: wlp_flush)
      (use iso ed in \<open>auto simp: repaged_def\<close>)
qed

end
