(* ===== verification/Breaks.thy ===== *)
theory Breaks
  imports Owned
begin

text \<open>
  The break of a process: all its pages below the break are mapped (\<open>brk_ok\<close>), so that lowering the break
  gives back frames the process really has. The break calls and the growth of the stack keep every frame
  with one owner.
\<close>

section \<open>Pages below the break\<close>

definition user_entry_of :: "hw \<Rightarrow> ptr \<Rightarrow> nat \<Rightarrow> ptr" where
  "user_entry_of H b v = b + (v - USER_BASE_VPN H) * SIZEOF_PTE H"

definition brk_ok :: "hw \<Rightarrow> kstate \<Rightarrow> ptr \<Rightarrow> bool" where
  "brk_ok H s p \<longleftrightarrow> (\<forall>c b a. pcbs s p = Some c \<longrightarrow> r1PageTable c = Some b \<longrightarrow> brk c = Some a \<longrightarrow>
     VMEM_1_BASE H \<le> a \<and> a \<le> VMEM_1_LIMIT H \<and>
     (\<forall>v. USER_BASE_VPN H \<le> v \<longrightarrow> v < up_vpn H a \<longrightarrow> valid_at s (user_entry_of H b v) \<noteq> None))"

lemma user_base: "hw_ok H \<Longrightarrow> USER_BASE_VPN H = MAX_PT_LEN H"
  using hw_okD(2,4,5,10) [of H] by (simp add: USER_BASE_VPN_def vpn_of_page)

lemma vpn_limit:
  assumes "hw_ok H" "a \<le> VMEM_1_LIMIT H"
  shows "up_vpn H a \<le> 2 * MAX_PT_LEN H"
proof -
  have "VMEM_1_LIMIT H = 2 * MAX_PT_LEN H * PAGESIZE H" using hw_okD(4,5,6,10) [OF assms(1)] by simp
  then show ?thesis using up_vpn_le [OF assms(1), of a "2 * MAX_PT_LEN H"] assms(2) by simp
qed

lemma base_vpn:
  assumes "hw_ok H" "VMEM_1_BASE H \<le> x"
  shows "USER_BASE_VPN H \<le> up_vpn H x"
proof (rule ccontr)
  let ?v = "up_vpn H x"
  assume "\<not> USER_BASE_VPN H \<le> ?v"
  then have "?v < MAX_PT_LEN H" using user_base [OF assms(1)] by simp
  then have "?v * PAGESIZE H < MAX_PT_LEN H * PAGESIZE H" by (rule mult_strict_right_mono) (use hw_okD(2) [OF assms(1)] in simp)
  moreover have "x \<le> ?v * PAGESIZE H" using up_vpn_le [OF assms(1), of x ?v] by simp
  ultimately have "x < MAX_PT_LEN H * PAGESIZE H" by (rule le_less_trans [rotated])
  then show False using assms(2) hw_okD(4,5,10) [OF assms(1)] by simp
qed

lemma up_vpn_mono: "a \<le> b \<Longrightarrow> up_vpn H a \<le> up_vpn H b"
  unfolding up_vpn_def by (rule div_le_mono) simp

lemma user_entry_at: "USER_BASE_VPN H \<le> v \<Longrightarrow> entry_at H b (USER_BASE_VPN H) v s = Done (user_entry_of H b v) s"
  by (simp add: entry_at_def user_entry_of_def retk_def)

lemma wlp_entry_at: "USER_BASE_VPN H \<le> v \<Longrightarrow> wlp (entry_at H b (USER_BASE_VPN H) v) Q R s = Q (user_entry_of H b v) s"
  by (simp add: wlp_def user_entry_at)

lemma user_entry_inj:
  "hw_ok H \<Longrightarrow> USER_BASE_VPN H \<le> v \<Longrightarrow> USER_BASE_VPN H \<le> w \<Longrightarrow> user_entry_of H b v = user_entry_of H b w \<Longrightarrow> v = w"
  by (auto simp: user_entry_of_def hw_ok_def)

lemma user_entry_index: "USER_BASE_VPN H \<le> v \<Longrightarrow> v < 2 * MAX_PT_LEN H \<Longrightarrow> hw_ok H \<Longrightarrow> v - USER_BASE_VPN H < MAX_PT_LEN H"
  by (simp add: user_base)

lemma brk_okI:
  "pcbs s p = Some c \<Longrightarrow> r1PageTable c = Some b \<Longrightarrow> brk c = Some a \<Longrightarrow> VMEM_1_BASE H \<le> a \<Longrightarrow> a \<le> VMEM_1_LIMIT H \<Longrightarrow>
   (\<And>v. USER_BASE_VPN H \<le> v \<Longrightarrow> v < up_vpn H a \<Longrightarrow> valid_at s (user_entry_of H b v) \<noteq> None) \<Longrightarrow> brk_ok H s p"
  by (auto simp: brk_ok_def)

text \<open>Work on one table does not touch the pages of other processes; filling entries does not hurt its own.\<close>

lemma brk_ok_other:
  assumes i: "isolated H K s" and p: "table_of s p = Some b" "q \<noteq> p" and e: "edits H b s t" and q: "brk_ok H s q"
  shows "brk_ok H t q"
proof -
  have s: "base_fixed H s" "tables_ok H s" "hw_ok H" using i by (simp_all add: isolated_def base_fixed_def)
  have "valid_at t (user_entry_of H b' v) = valid_at s (user_entry_of H b' v)"
    if "table_of s q = Some b'" "USER_BASE_VPN H \<le> v" "v < up_vpn H a" "a \<le> VMEM_1_LIMIT H" for b' v a
  proof -
    have "user_entry_of H b' v \<in> table_addrs H b'"
      using entry_in_table [OF user_entry_index [OF that(2) _ s(3)]] vpn_limit [OF s(3) that(4)] that(3) by (simp add: user_entry_of_def)
    then have "user_entry_of H b' v \<notin> table_addrs H b" using entry_owner [OF s(1,2) p(1) that(1)] p(2) by blast
    then show ?thesis using editsD(4) [OF e] by (simp add: valid_at_def)
  qed
  then show ?thesis using q editsD(1) [OF e] by (fastforce simp: brk_ok_def table_of_def)
qed

lemma brk_ok_filling: "filling H K b s t \<Longrightarrow> brk_ok H s p \<Longrightarrow> brk_ok H t p"
  by (auto simp: filling_def brk_ok_def dest!: editsD(1))

text \<open>The invariant does not depend on the break itself.\<close>

lemma isolated_pcb:
  assumes i: "isolated H K s" and c: "pcbs s p = Some c" "pid c' = pid c" "stackPfns c' = stackPfns c" "r1PageTable c' = r1PageTable c"
  shows "isolated H K (s\<lparr>pcbs := (pcbs s)(p \<mapsto> c')\<rparr>)"
proof -
  let ?t = "s\<lparr>pcbs := (pcbs s)(p \<mapsto> c')\<rparr>"
  have tab: "table_of ?t q = table_of s q" for q using c by (simp add: table_of_def)
  have "stack_at ?t = stack_at s" using c by (auto simp: stack_at_def fun_eq_iff)
  moreover have "valid_at ?t = valid_at s" by (simp add: valid_at_def fun_eq_iff)
  moreover have "user_addrs H ?t = user_addrs H s" using tab by (simp add: user_addrs_def)
  ultimately have own: "owns H ?t = owns H s" unfolding owns_def by metis
  have "tables_ok H ?t" using i c tab by (auto simp: isolated_def tables_ok_def from_malloc_def has_table_def)
  then show ?thesis
    using i own by (simp add: isolated_def kernel_known_def valid_at_def base_fixed_def stack_base_ok_def blocks_apart_def from_malloc_def frames_ok_def free_frames_def)
qed

section \<open>Later states\<close>

text \<open>
  \<open>heir H K s t\<close>: in \<open>t\<close> frames have one owner, and the processes of \<open>t\<close> were in \<open>s\<close> and have their pages
  below the break if they had them then.
\<close>

definition heir :: "hw \<Rightarrow> nat set \<Rightarrow> kstate \<Rightarrow> kstate \<Rightarrow> bool" where
  "heir H K s t \<longleftrightarrow> isolated H K t \<and> (\<forall>q c. pcbs t q = Some c \<longrightarrow>
     (\<exists>d. pcbs s q = Some d \<and> pid d = pid c) \<and> (brk_ok H s q \<longrightarrow> brk_ok H t q))"

lemma heirD:
  assumes "heir H K s t"
  shows "isolated H K t" "pcbs t q = Some c \<Longrightarrow> \<exists>d. pcbs s q = Some d \<and> pid d = pid c"
    "pcbs t q = Some c \<Longrightarrow> brk_ok H s q \<Longrightarrow> brk_ok H t q"
  using assms by (auto simp: heir_def)

lemma heir_refl: "isolated H K s \<Longrightarrow> heir H K s s"
  by (simp add: heir_def)

lemma heir_trans: "heir H K s t \<Longrightarrow> heir H K t u \<Longrightarrow> heir H K s u"
  unfolding heir_def by (metis (no_types, lifting))

lemma heir_same: "isolated H K t \<Longrightarrow> pcbs t = pcbs s \<Longrightarrow> (\<And>q. brk_ok H s q \<Longrightarrow> brk_ok H t q) \<Longrightarrow> heir H K s t"
  by (simp add: heir_def)

lemma heir_filling: "filling H K b s t \<Longrightarrow> heir H K s t"
  using editsD(1) [of H b s t] brk_ok_filling by (auto intro!: heir_same simp: filling_def)

lemma table_entry_user:
  assumes "hw_ok H" "table_of s p = Some b" "USER_BASE_VPN H \<le> v" "v < up_vpn H a" "a \<le> VMEM_1_LIMIT H"
  shows "user_entry_of H b v \<in> table_addrs H b" "user_entry_of H b v \<in> user_addrs H s"
proof -
  have "v - USER_BASE_VPN H < MAX_PT_LEN H"
    using user_entry_index [OF assms(3) _ assms(1)] vpn_limit [OF assms(1,5)] assms(4) by simp
  then show "user_entry_of H b v \<in> table_addrs H b" "user_entry_of H b v \<in> user_addrs H s"
    using entry_in_table user_entry_addr [OF assms(2)] by (simp_all add: user_entry_of_def)
qed

text \<open>The break condition of a process depends on its break, its table, and the valid entries of that table.\<close>

lemma brk_ok_mono:
  assumes q: "brk_ok H s q" and b: "hw_ok H" "map_option brk (pcbs t q) = map_option brk (pcbs s q)" "table_of t q = table_of s q"
    and v: "\<And>b a. table_of s q = Some b \<Longrightarrow> a \<in> table_addrs H b \<Longrightarrow> valid_at s a \<noteq> None \<Longrightarrow> valid_at t a \<noteq> None"
  shows "brk_ok H t q"
  unfolding brk_ok_def
proof (intro allI impI)
  fix c b a
  assume c: "pcbs t q = Some c" "r1PageTable c = Some b" "brk c = Some a"
  then obtain d where d: "pcbs s q = Some d" "brk d = Some a" using b(2) by (cases "pcbs s q") auto
  have tab: "table_of s q = Some b" using c b(3) by (simp add: table_of_def)
  with d have "r1PageTable d = Some b" by (simp add: table_of_def)
  with q d have o: "VMEM_1_BASE H \<le> a" "a \<le> VMEM_1_LIMIT H"
    "\<And>v. USER_BASE_VPN H \<le> v \<Longrightarrow> v < up_vpn H a \<Longrightarrow> valid_at s (user_entry_of H b v) \<noteq> None" by (auto simp: brk_ok_def)
  then show "VMEM_1_BASE H \<le> a \<and> a \<le> VMEM_1_LIMIT H \<and>
      (\<forall>v. USER_BASE_VPN H \<le> v \<longrightarrow> v < up_vpn H a \<longrightarrow> valid_at t (user_entry_of H b v) \<noteq> None)"
    using v [OF tab] table_entry_user(1) [OF b(1) tab] by blast
qed

lemma heir_own:
  assumes i: "isolated H K s" and e: "own_part H t = own_part H s"
  shows "heir H K s t"
proof -
  have s: "base_fixed H s" "tables_ok H s" "hw_ok H" using i by (simp_all add: isolated_def base_fixed_def)
  have "(\<exists>d. pcbs s q = Some d \<and> pid d = pid c) \<and> (brk_ok H s q \<longrightarrow> brk_ok H t q)" if c: "pcbs t q = Some c" for q c
  proof -
    obtain d where d: "pcbs s q = Some d" "oview c = oview d" using c by (rule_tac own_pcb [OF e, of q]) auto
    have "valid_at t a = valid_at s a" if "table_of s q = Some b" "a \<in> table_addrs H b" for a b
    proof -
      have "a \<in> user_addrs H s" using that by (auto simp: user_addrs_def)
      then show ?thesis using own_partD(9) [OF e user_not_r0 [OF s(1,2)]] by (simp add: valid_at_def)
    qed
    then have v: "valid_at t a \<noteq> None" if "table_of s q = Some b" "a \<in> table_addrs H b" "valid_at s a \<noteq> None" for a b
      using that by simp
    have br: "map_option brk (pcbs t q) = map_option brk (pcbs s q)" using c d by (simp add: oview_def)
    have "brk_ok H t q" if "brk_ok H s q" by (rule brk_ok_mono [OF that s(3) br own_table [OF e] v])
    then show ?thesis using d by (auto simp: oview_def)
  qed
  then show ?thesis using isolated_part [OF e i] by (simp add: heir_def)
qed

lemma wlp_tracked:
  assumes "tracked H m" "isolated H K s"
  shows "wlp m (\<lambda>_. heir H K s) (heir H K s) s"
proof -
  have "base_fixed H s" using assms(2) by (simp add: isolated_def)
  then have "wlp m (\<lambda>_. same_own H s) (same_own H s) s" using assms(1) by (simp add: tracked_def)
  then show ?thesis by (rule wlp_mono) (rule heir_own [OF assms(2)], simp add: same_own_def)+
qed

text \<open>Changes to one control block that keep what \<open>isolated\<close> looks at.\<close>

lemma wlp_then_own:
  assumes "tracked H m" "isolated H K s" "\<And>x t. own_part H t = own_part H s \<Longrightarrow> wlp (f x) Q R t" "\<And>t. own_part H t = own_part H s \<Longrightarrow> R t"
  shows "wlp (bindk m f) Q R s"
  unfolding wlp_bindk
proof (rule wlp_mono)
  show "wlp m (\<lambda>_. same_own H s) (same_own H s) s" using assms(1,2) by (simp add: tracked_def isolated_def)
qed (simp_all add: assms(3,4) same_own_def)

section \<open>Moving the break\<close>

lemma wlp_drop_pages:
  assumes H: "hw_ok H" and vs: "distinct vs" "\<And>v. v \<in> set vs \<Longrightarrow> USER_BASE_VPN H \<le> v \<and> v < 2 * MAX_PT_LEN H \<and> valid_at s (user_entry_of H b v) \<noteq> None"
    and s: "isolated H K s" "table_of s p = Some b"
  shows "wlp (foldk (shrink_page H b (USER_BASE_VPN H)) vs)
    (\<lambda>_ t. isolated H K t \<and> edits H b s t \<and> (\<forall>a. a \<notin> user_entry_of H b ` set vs \<longrightarrow> ptes t a = ptes s a)) R s"
  using vs s
proof (induction vs arbitrary: s)
  case Nil
  then show ?case by (simp add: wlp_basic)
next
  case (Cons v vs)
  have v: "USER_BASE_VPN H \<le> v" "v - USER_BASE_VPN H < MAX_PT_LEN H" "valid_at s (user_entry_of H b v) \<noteq> None"
    using Cons.prems(2) [of v] user_entry_index [OF _ _ H] by auto
  have step: "wlp (shrink_page H b (USER_BASE_VPN H) v)
      (\<lambda>_ t. isolated H K t \<and> edits H b s t \<and> (\<forall>a. a \<noteq> user_entry_of H b v \<longrightarrow> ptes t a = ptes s a)) R s"
  proof -
    obtain e where e: "ptes s (user_entry_of H b v) = Some e" "pte_valid e"
      using v(3) by (auto simp: valid_at_def split: option.splits if_splits)
    from wlp_drop_entry [OF Cons.prems(3,4) v(2), of e R] e show ?thesis
      by (simp add: shrink_page_def wlp_bindk [of "entry_at _ _ _ _"] wlp_entry_at [OF v(1)] wlp_bindk [of "fetch _ _"] wlp_basic)
        (simp add: user_entry_of_def)
  qed
  show ?case
    unfolding foldk.simps wlp_bindk
  proof (rule wlp_mono [OF step], goal_cases)
    case (1 x t)
    then have t: "isolated H K t" "edits H b s t" "\<And>a. a \<noteq> user_entry_of H b v \<Longrightarrow> ptes t a = ptes s a" by auto
    have "table_of t p = Some b" using editsD(2) [OF t(2)] Cons.prems(4) by simp
    moreover have "valid_at t (user_entry_of H b w) \<noteq> None" if "w \<in> set vs" for w
    proof -
      have "user_entry_of H b w \<noteq> user_entry_of H b v" using user_entry_inj [OF H, of w v b] that Cons.prems(1,2) v(1) by auto
      then show ?thesis using t(3) Cons.prems(2) [of w] that by (simp add: valid_at_def)
    qed
    ultimately have "wlp (foldk (shrink_page H b (USER_BASE_VPN H)) vs)
        (\<lambda>_ u. isolated H K u \<and> edits H b t u \<and> (\<forall>a. a \<notin> user_entry_of H b ` set vs \<longrightarrow> ptes u a = ptes t a)) R t"
      using Cons.prems(1,2) t(1) by (intro Cons.IH) auto
    then show ?case by (rule wlp_mono) (use t edits_trans [OF t(2)] in auto)
  qed
qed

lemma wlp_grow_pages:
  assumes H: "hw_ok H" and vs: "\<And>v. v \<in> set vs \<Longrightarrow> USER_BASE_VPN H \<le> v \<and> v < 2 * MAX_PT_LEN H"
    and s: "isolated H K s" "table_of s p = Some b"
  shows "wlp (foldrc (grow_page H b (USER_BASE_VPN H)) vs)
    (\<lambda>r t. filling H K b s t \<and> (r \<noteq> ERROR \<longrightarrow> (\<forall>v \<in> set vs. valid_at t (user_entry_of H b v) \<noteq> None))) R s"
proof (rule wlp_fill_entries [OF _ s])
  fix v u
  assume v: "v \<in> set vs" and u: "isolated H K u" "table_of u p = Some b"
  have i: "USER_BASE_VPN H \<le> v" "v - USER_BASE_VPN H < MAX_PT_LEN H" using vs [OF v] user_entry_index [OF _ _ H] by auto
  have "grow_page H b (USER_BASE_VPN H) v = bindk getFramek (\<lambda>f. case f of None \<Rightarrow> retk ERROR
      | Some x \<Rightarrow> bindk (setPageTableEntry H (b + (v - USER_BASE_VPN H) * SIZEOF_PTE H) True {PROT_READ, PROT_WRITE} x) (\<lambda>_. retk SUCCESS))"
    using i(1) by (simp add: grow_page_def entry_at_def cong: option.case_cong)
  then show "wlp (grow_page H b (USER_BASE_VPN H) v)
      (\<lambda>r t. filling H K b u t \<and> (r \<noteq> ERROR \<longrightarrow> valid_at t (user_entry_of H b v) \<noteq> None)) R u"
    using wlp_fill_entry [OF u i(2)] by (simp add: user_entry_of_def)
qed

text \<open>The break call: afterwards every page below the new break is mapped.\<close>

lemma wlp_KernelBrk:
  assumes s: "isolated H K s" "brk_ok H s (currPCB s)"
  shows "wlp (KernelBrk H addr) (\<lambda>_. heir H K s) R s"
proof -
  have H: "hw_ok H" using s(1) by (simp add: isolated_def base_fixed_def)
  let ?Q = "\<lambda>_::rc. heir H K s"
  have stay: "?Q r s" for r using heir_refl [OF s(1)] .
  have move: "wlp (bindk (ref_move_brk H b (USER_BASE_VPN H) a addr) (\<lambda>r. if r = ERROR then retk ERROR
        else bindk (upd_pcb (currPCB s) (\<lambda>pc. pc\<lparr>brk := Some addr\<rparr>)) (\<lambda>_. retk SUCCESS))) ?Q R s"
    if c: "pcbs s (currPCB s) = Some c" "r1PageTable c = Some b" "brk c = Some a"
      and addr: "VMEM_1_BASE H \<le> addr" "addr \<le> VMEM_1_LIMIT H" for c b a
  proof -
    have a: "VMEM_1_BASE H \<le> a" "a \<le> VMEM_1_LIMIT H" and
      below: "\<And>v. USER_BASE_VPN H \<le> v \<Longrightarrow> v < up_vpn H a \<Longrightarrow> valid_at s (user_entry_of H b v) \<noteq> None"
      using s(2) c by (auto simp: brk_ok_def)
    have tab: "table_of s (currPCB s) = Some b" using c by (simp add: table_of_def)
    note base = base_vpn [OF H]
    define good where "good t \<longleftrightarrow> isolated H K t \<and> edits H b s t \<and>
      (\<forall>v. USER_BASE_VPN H \<le> v \<longrightarrow> v < up_vpn H addr \<longrightarrow> valid_at t (user_entry_of H b v) \<noteq> None)" for t
    have rec: "wlp (bindk (upd_pcb (currPCB s) (\<lambda>pc. pc\<lparr>brk := Some addr\<rparr>)) (\<lambda>_. retk SUCCESS)) ?Q R t" if t: "good t" for t
    proof -
      have e: "edits H b s t" and p: "pcbs t (currPCB s) = Some c" and i: "isolated H K t"
        using t editsD(1) [of H b s t] c(1) by (auto simp: good_def)
      let ?u = "t\<lparr>pcbs := (pcbs t)(currPCB s \<mapsto> c\<lparr>brk := Some addr\<rparr>)\<rparr>"
      have "isolated H K ?u" using isolated_pcb [OF i p, of "c\<lparr>brk := Some addr\<rparr>"] by simp
      moreover have "brk_ok H ?u q" if q: "brk_ok H s q" for q
      proof (cases "q = currPCB s")
        case True
        have "valid_at ?u = valid_at t" by (simp add: valid_at_def fun_eq_iff)
        then show ?thesis using t addr c True by (auto simp: good_def brk_ok_def)
      next
        case False
        have "brk_ok H t q" by (rule brk_ok_other [OF s(1) tab False e q])
        moreover have "valid_at ?u = valid_at t" by (simp add: valid_at_def fun_eq_iff)
        ultimately show ?thesis using False by (simp add: brk_ok_def)
      qed
      moreover have "pcbs t = pcbs s" using editsD(1) [OF e] .
      ultimately have "heir H K s ?u" using p by (auto simp: heir_def)
      then show ?thesis using p by (simp add: wlp_bindk wlp_pcbs wlp_basic)
    qed
    show ?thesis
    proof (cases "addr < a")
      case True
      let ?vs = "[up_vpn H addr..<up_vpn H a]"
      have "wlp (foldk (shrink_page H b (USER_BASE_VPN H)) ?vs) (\<lambda>_ t. isolated H K t \<and> edits H b s t \<and>
          (\<forall>a. a \<notin> user_entry_of H b ` set ?vs \<longrightarrow> ptes t a = ptes s a)) R s"
        using below base [OF addr(1)] vpn_limit [OF H a(2)] by (intro wlp_drop_pages [OF H _ _ s(1) tab]) auto
      then have "wlp (foldk (shrink_page H b (USER_BASE_VPN H)) ?vs) (\<lambda>_. good) R s"
      proof (rule wlp_mono, goal_cases)
        case (1 x t)
        moreover have "valid_at t (user_entry_of H b v) \<noteq> None" if v: "USER_BASE_VPN H \<le> v" "v < up_vpn H addr" for v
        proof -
          have "user_entry_of H b v \<notin> user_entry_of H b ` set ?vs"
            using user_entry_inj [OF H v(1)] base [OF addr(1)] v(2) by (auto simp del: upt_Suc) (metis leD le_trans)
          moreover have "v < up_vpn H a" using v(2) up_vpn_mono [of addr a H] True by simp
          ultimately show ?thesis using 1 below [OF v(1)] by (simp add: valid_at_def)
        qed
        ultimately show ?case by (simp add: good_def)
      qed simp
      then show ?thesis
        using True by (simp only: ref_move_brk_def if_True wlp_bindk [of "foldk _ _"] wlp_bindk [of "bindk _ _"])
          (erule wlp_mono, simp_all add: rec wlp_basic)
    next
      case False
      let ?vs = "[up_vpn H a..<up_vpn H addr]"
      have "wlp (foldrc (grow_page H b (USER_BASE_VPN H)) ?vs)
          (\<lambda>r t. filling H K b s t \<and> (r \<noteq> ERROR \<longrightarrow> (\<forall>v \<in> set ?vs. valid_at t (user_entry_of H b v) \<noteq> None))) R s"
        using base [OF a(1)] vpn_limit [OF H addr(2)] by (intro wlp_grow_pages [OF H _ s(1) tab]) auto
      moreover have "good t" if "filling H K b s t" "\<forall>v \<in> set ?vs. valid_at t (user_entry_of H b v) \<noteq> None" for t
        using that below by (auto simp: good_def filling_def not_less [symmetric])
      moreover have "?Q r t" if "filling H K b s t" for r t using heir_filling [OF that] .
      ultimately show ?thesis
        using False rec by (simp only: ref_move_brk_def if_False wlp_bindk [of "foldrc _ _"]) (erule wlp_mono, auto simp: wlp_cases(1) wlp_basic)
    qed
  qed
  show ?thesis
    unfolding KernelBrk_def wlp_cases(1)
  proof (intro conjI impI)
    assume "\<not> getAddressRegion H addr \<noteq> 1"
    then have "VMEM_1_BASE H \<le> addr" "addr \<le> VMEM_1_LIMIT H" by (auto simp: getAddressRegion_def split: if_splits)
    then show "wlp (bindk (getk currPCB) (\<lambda>c. bindk (get_pcb c) (\<lambda>pc. case brk pc of None \<Rightarrow> faultk UNINIT
        | Some currBrk \<Rightarrow> bindk (nonnull (r1PageTable pc)) (\<lambda>table.
            bindk (move_brk H table (USER_BASE_VPN H) currBrk addr) (\<lambda>r.
              if r = ERROR then retk ERROR
              else bindk (upd_pcb c (\<lambda>pc. pc\<lparr>brk := Some addr\<rparr>)) (\<lambda>_. retk SUCCESS)))))) ?Q R s"
      using move by (auto simp: wlp_bindk [of "getk _"] wlp_bindk [of "get_pcb _"] wlp_bindk [of "nonnull _"] wlp_pcbs wlp_basic
          wlp_cases(2) move_brk_ref [OF H])
  qed (simp add: wlp_basic stay)
qed

end
