(* ===== verification/Exits.thy ===== *)
theory Exits
  imports Breaks
begin

text \<open>
  A process that is deleted gives back every frame it owns, once; the rest of the frames stay where they
  are. The growth of the stack after a page fault takes frames nobody owns.
\<close>

section \<open>Giving frames back\<close>

text \<open>The owners without some that are about to disappear.\<close>

definition less_owners :: "'x set \<Rightarrow> ('x \<Rightarrow> nat option) \<Rightarrow> 'x \<Rightarrow> nat option" where
  "less_owners X m x = (if x \<in> X then None else m x)"

lemma less_owners_upd: "(less_owners X m)(x := None) = less_owners (insert x X) m"
  by (auto simp: less_owners_def fun_eq_iff)

lemma less_owners_empty [simp]: "less_owners {} m = m"
  by (simp add: less_owners_def fun_eq_iff)

lemma less_owners_twice: "less_owners X (less_owners Y m) = less_owners (X \<union> Y) m"
  by (auto simp: less_owners_def fun_eq_iff)

lemma wlp_give_back:
  assumes "frames_ok s" "pool K (less_owners X m) (free_frames s)" "x \<notin> X" "m x = Some f"
  shows "wlp (freeFramek f) (\<lambda>_ t. \<exists>fl. t = s\<lparr>frameList := fl\<rparr> \<and> frames_ok t \<and> pool K (less_owners (insert x X) m) (free_frames t)) R s"
proof (rule wlp_mono [OF wlp_free_frame [OF assms(1)]])
  fix u t
  assume "\<exists>fl. t = s\<lparr>frameList := fl\<rparr> \<and> frames_ok t \<and> free_frames t \<subseteq> insert f (free_frames s)"
  then obtain fl where t: "t = s\<lparr>frameList := fl\<rparr>" "frames_ok t" "free_frames t \<subseteq> insert f (free_frames s)" by blast
  have m: "less_owners X m x = Some f" using assms(3,4) by (simp add: less_owners_def)
  have "pool K (less_owners (insert x X) m) (insert f (free_frames s))"
    using pool_last [OF assms(2) m] pool_release [OF pool_drop [OF assms(2)]] unfolding less_owners_upd by blast
  then have "pool K (less_owners (insert x X) m) (free_frames t)" using t(3) unfolding pool_def by blast
  then show "\<exists>fl. t = s\<lparr>frameList := fl\<rparr> \<and> frames_ok t \<and> pool K (less_owners (insert x X) m) (free_frames t)" using t by blast
qed simp

lemma pool_skip: "pool K (less_owners X m) F \<Longrightarrow> m x = None \<Longrightarrow> pool K (less_owners (insert x X) m) F"
  by (erule pool_sub) (auto simp: less_owners_def split: if_splits)

text \<open>A state in which some of the frames of \<open>m\<close> have been given back.\<close>

definition returned :: "nat set \<Rightarrow> ('x \<Rightarrow> nat option) \<Rightarrow> kstate \<Rightarrow> 'x set \<Rightarrow> kstate \<Rightarrow> bool" where
  "returned K m s X t \<longleftrightarrow> (\<exists>fl. t = s\<lparr>frameList := fl\<rparr>) \<and> frames_ok t \<and> pool K (less_owners X m) (free_frames t)"

lemma wlp_return_one:
  assumes "returned K m s X t" "x \<notin> X" "m x = Some f"
  shows "wlp (freeFramek f) (\<lambda>_. returned K m s (insert x X)) R t"
  by (rule wlp_mono [OF wlp_give_back [of t K X m x]]) (use assms in \<open>auto simp: returned_def\<close>)

lemma entries_upto: "(\<lambda>j. b + j * z) ` {..<Suc i} = insert (b + i * z) ((\<lambda>j. b + j * z) ` {..<i})" for b z :: nat
  by (auto simp: lessThan_Suc)

lemma wlp_free_table:
  fixes m :: "ptr + ptr \<times> nat \<Rightarrow> nat option"
  assumes r: "returned K m s {} s" and pos: "0 < SIZEOF_PTE H"
    and m: "\<And>i. i < MAX_PT_LEN H \<Longrightarrow> m (Inl (b + i * SIZEOF_PTE H)) = valid_at s (b + i * SIZEOF_PTE H)"
  shows "wlp (free_r1_frames H b) (\<lambda>_. returned K m s (Inl ` table_addrs H b)) R s"
proof -
  define X where "X i = (\<lambda>j. Inl (b + j * SIZEOF_PTE H) :: ptr + ptr \<times> nat) ` {..<i}" for i
  have X: "X (Suc i) = insert (Inl (b + i * SIZEOF_PTE H)) (X i)" for i by (auto simp: X_def lessThan_Suc)
  have new: "Inl (b + i * SIZEOF_PTE H) \<notin> X i" for i using pos by (auto simp: X_def)
  have all: "X (MAX_PT_LEN H) = Inl ` table_addrs H b" by (auto simp: X_def table_addrs_def)
  have "wlp (foldk (\<lambda>i. bindk (fetch ptes (b + i * SIZEOF_PTE H)) (\<lambda>e.
      if pte_valid e then freeFramek (pte_pfn e) else retk ())) [0..<MAX_PT_LEN H])
    (\<lambda>_. returned K m s (X (MAX_PT_LEN H))) R s"
  proof (rule wlp_foldk_upt [where I = "\<lambda>i. returned K m s (X i)"])
    show "returned K m s (X 0) s" using r by (simp add: X_def)
    fix i u
    assume i: "i < MAX_PT_LEN H" and u: "returned K m s (X i) u"
    have p: "ptes u = ptes s" using u by (auto simp: returned_def)
    have "returned K m s (X (Suc i)) u" if "m (Inl (b + i * SIZEOF_PTE H)) = None"
      using u that pool_skip [of K "X i" m] by (auto simp: returned_def X)
    then show "wlp (bindk (fetch ptes (b + i * SIZEOF_PTE H)) (\<lambda>e. if pte_valid e then freeFramek (pte_pfn e) else retk ()))
        (\<lambda>_. returned K m s (X (Suc i))) R u"
      using wlp_return_one [OF u new] m [OF i] p by (auto simp: wlp_bindk wlp_basic wlp_cases X valid_at_def)
  qed
  then show ?thesis by (simp add: free_r1_frames_def all)
qed

lemma wlp_free_stack:
  assumes r: "returned K m s X s" and X: "\<And>i. Inr (p, i) \<notin> X" and m: "\<And>i. i < length fs \<Longrightarrow> m (Inr (p, i)) = Some (fs ! i)"
  shows "wlp (free_stack_frames H fs) (\<lambda>_. returned K m s (X \<union> (\<lambda>i. Inr (p, i)) ` {..<KSTACK_NPG H})) R s"
proof -
  define Y where "Y i = X \<union> (\<lambda>j. Inr (p, j)) ` {..<i}" for i :: nat
  have Y: "Y (Suc i) = insert (Inr (p, i)) (Y i)" "Inr (p, i) \<notin> Y i" for i using X by (auto simp: Y_def lessThan_Suc)
  have "wlp (foldk (\<lambda>i. if i < length fs then freeFramek (fs ! i) else faultk UNINIT) [0..<KSTACK_NPG H])
    (\<lambda>_. returned K m s (Y (KSTACK_NPG H))) R s"
  proof (rule wlp_foldk_upt [where I = "\<lambda>i. returned K m s (Y i)"])
    show "returned K m s (Y 0) s" using r by (simp add: Y_def)
    fix i u
    assume "returned K m s (Y i) u"
    from wlp_return_one [OF this Y(2) m] show "wlp (if i < length fs then freeFramek (fs ! i) else faultk UNINIT) (\<lambda>_. returned K m s (Y (Suc i))) R u"
      by (auto simp: wlp_cases wlp_basic Y(1))
  qed
  then show ?thesis by (simp add: free_stack_frames_def Y_def)
qed

section \<open>Deleting a process\<close>

lemma isolated_delete:
  assumes i: "isolated H K s" and c: "pcbs s p = Some c" "r1PageTable c = Some b"
    and t: "t = s\<lparr>frameList := fl, ptes := (\<lambda>a. if a \<in> table_addrs H b then None else ptes s a), pcbs := (pcbs s)(p := None)\<rparr>"
    and f: "frames_ok t" "pool K (less_owners (Inl ` table_addrs H b \<union> Y) (owns H s)) (free_frames t)" "Y \<subseteq> range (\<lambda>i. Inr (p, i))"
  shows "heir H K s t"
proof -
  have s: "base_fixed H s" "tables_ok H s" "hw_ok H" using i by (simp_all add: isolated_def base_fixed_def)
  have tab: "table_of s p = Some b" using c by (simp add: table_of_def)
  have tabs: "table_of t q = (if q = p then None else table_of s q)" for q by (simp add: t table_of_def)
  have apart: "a \<notin> table_addrs H b" if "table_of s q = Some b'" "a \<in> table_addrs H b'" "q \<noteq> p" for q b' a
    using entry_owner [OF s(1,2) that(1) tab that(2)] that(3) by blast
  have sub: "less_owners (Inl ` table_addrs H b \<union> Y) (owns H s) x = Some f" if x: "owns H t x = Some f" for x f
  proof (cases x)
    case (Inl a)
    with x have a: "a \<in> user_addrs H t" "valid_at t a = Some f" by (auto simp: owns_def split: if_splits)
    then have "a \<notin> table_addrs H b" "valid_at s a = Some f" by (auto simp: valid_at_def t split: if_splits)
    moreover have "a \<in> user_addrs H s" using a(1) by (auto simp: user_addrs_def tabs split: if_splits)
    moreover have "x \<notin> Y" using f(3) Inl by auto
    ultimately show ?thesis using Inl by (auto simp: less_owners_def owns_def)
  next
    case (Inr y)
    with x have "stack_at t y = Some f" by (simp add: owns_def)
    then have "fst y \<noteq> p" "stack_at s y = Some f" by (auto simp: stack_at_def t split: if_splits)
    then show ?thesis using Inr f(3) by (auto simp: less_owners_def owns_def)
  qed
  have "tables_ok H t"
    unfolding tables_ok_def
  proof (intro conjI allI impI)
    fix q c'
    assume q: "pcbs t q = Some c'"
    then have q': "pcbs s q = Some c'" "q \<noteq> p" by (auto simp: t split: if_splits)
    then obtain b' where b': "pid c' < nextPid s" "r1PageTable c' = Some b'" "from_malloc s b'" "b' \<noteq> REG_PTBR0 s" "has_table H s b'"
      using s(2) unfolding tables_ok_def by blast
    then have "table_of s q = Some b'" using q' by (simp add: table_of_def)
    then have "has_table H t b'" using b'(5) apart [of q b'] q'(2) by (auto simp: has_table_def t)
    with b' show "pid c' < nextPid t" "\<exists>b. r1PageTable c' = Some b \<and> from_malloc t b \<and> b \<noteq> REG_PTBR0 t \<and> has_table H t b"
      by (auto simp: t from_malloc_def)
  next
    fix q r b'
    assume "table_of t q = Some b'" "table_of t r = Some b'"
    then show "q = r" using s(2) by (auto simp: tables_ok_def tabs split: if_splits)
  qed
  moreover have "base_fixed H t"
    using s(1) by (simp add: t base_fixed_def stack_base_ok_def blocks_apart_def from_malloc_def)
  moreover have "pool K (owns H t) (free_frames t)" using f(2) sub by (rule pool_sub)
  moreover have "kernel_known H K t"
  proof (rule kernel_knownI)
    show "kernel_known H K s" using i by (simp add: isolated_def)
  qed (simp_all add: t valid_at_def split: if_splits)
  ultimately have "isolated H K t" using f(1) by (simp add: isolated_def)
  moreover have "brk_ok H t q" if "brk_ok H s q" "q \<noteq> p" for q
  proof (rule brk_ok_mono [OF that(1) s(3)])
    show "map_option brk (pcbs t q) = map_option brk (pcbs s q)" "table_of t q = table_of s q" using that(2) by (simp_all add: t table_of_def)
    show "valid_at t a \<noteq> None" if "table_of s q = Some b'" "a \<in> table_addrs H b'" "valid_at s a \<noteq> None" for b' a
      using apart [OF that(1,2) \<open>q \<noteq> p\<close>] that(3) by (simp add: valid_at_def t)
  qed
  ultimately show ?thesis by (auto simp: heir_def t split: if_splits)
qed

lemma wlp_delete_process:
  assumes i: "isolated H K s"
  shows "wlp (delete_process H p) (\<lambda>_ t. heir H K s t \<and> pcbs t = (pcbs s)(p := None)) R s"
proof -
  have s: "tables_ok H s" "hw_ok H" "frames_ok s" "pool K (owns H s) (free_frames s)" using i by (simp_all add: isolated_def base_fixed_def)
  have run: "wlp (bindk (free_r1_frames H b) (\<lambda>_. bindk (modk (\<lambda>s. s\<lparr>ptes := (\<lambda>a. if a \<in> table_addrs H b then None else ptes s a)\<rparr>)) (\<lambda>_.
      bindk (free_stack_frames H (stackPfns c)) (\<lambda>_. modk (\<lambda>s. s\<lparr>pcbs := (pcbs s)(p := None)\<rparr>)))))
      (\<lambda>_ t. heir H K s t \<and> pcbs t = (pcbs s)(p := None)) R s"
    if c: "pcbs s p = Some c" "r1PageTable c = Some b" for c b
    unfolding wlp_bindk wlp_basic
  proof (rule wlp_mono [OF wlp_free_table [where m = "owns H s" and K = K]], goal_cases)
    case 1
    then show ?case using s(3,4) by (auto simp: returned_def intro: exI [of _ "frameList s"])
  next
    case 2
    then show ?case using s(2) by (simp add: hw_ok_def)
  next
    case (3 j)
    then show ?case using user_entry_addr [of s p b j H] c by (simp add: owns_def table_of_def)
  next
    case (4 x t1)
    let ?t2 = "t1\<lparr>ptes := (\<lambda>a. if a \<in> table_addrs H b then None else ptes t1 a)\<rparr>" and ?X = "Inl ` table_addrs H b"
    have "returned K (owns H s) ?t2 ?X ?t2"
      using 4 by (auto simp: returned_def frames_ok_def free_frames_def intro: exI [of _ "frameList t1"])
    then have "wlp (free_stack_frames H (stackPfns c))
        (\<lambda>_. returned K (owns H s) ?t2 (?X \<union> (\<lambda>i. Inr (p, i)) ` {..<KSTACK_NPG H})) R ?t2"
      by (rule wlp_free_stack) (use c in \<open>auto simp: owns_def stack_at_def\<close>)
    then show ?case
    proof (rule wlp_mono, goal_cases)
      case (1 y t3)
      from 4 1 obtain fl fl' where t: "t1 = s\<lparr>frameList := fl\<rparr>" "t3 = ?t2\<lparr>frameList := fl'\<rparr>"
        and f: "frames_ok t3" "pool K (less_owners (?X \<union> (\<lambda>i. Inr (p, i)) ` {..<KSTACK_NPG H}) (owns H s)) (free_frames t3)"
        by (auto simp: returned_def)
      have e: "(\<lambda>a. if a \<in> table_addrs H b then None else ptes t1 a) = (\<lambda>a. if a \<in> table_addrs H b then None else ptes s a)"
        using t(1) by auto
      have "heir H K s (t3\<lparr>pcbs := (pcbs t3)(p := None)\<rparr>)"
      proof (rule isolated_delete [OF i c, where fl = fl'])
        show "t3\<lparr>pcbs := (pcbs t3)(p := None)\<rparr> =
            s\<lparr>frameList := fl', ptes := (\<lambda>a. if a \<in> table_addrs H b then None else ptes s a), pcbs := (pcbs s)(p := None)\<rparr>"
          unfolding t(2) e unfolding t(1) by simp
      qed (use f in \<open>auto simp: frames_ok_def free_frames_def\<close>)
      then show ?case using t by simp
    qed simp
  qed simp
  show ?thesis
    unfolding delete_process_def using run
    by (auto simp: wlp_bindk [of "get_pcb _"] wlp_bindk [of "nonnull _"] wlp_pcbs)
qed

section \<open>Exit\<close>

lemma heir_tracked: "tracked H m \<Longrightarrow> preserves (heir H K s) (heir H K s) m"
  using heirD(1) by (auto intro!: preservesI wlp_mono [OF wlp_tracked] elim: heir_trans)

lemma heir_steady: "still m \<Longrightarrow> preserves (heir H K s) (heir H K s) m"
  by (intro heir_tracked tracked_still)

lemma heir_gone: "heir H K s t \<Longrightarrow> pcbs s q = None \<Longrightarrow> pcbs t q = None"
  using heirD(2) by (cases "pcbs t q") fastforce+

lemma wlp_still_gone:
  assumes "tracked H m" "heir H K s t" "pcbs t q = None"
  shows "wlp m (\<lambda>_ u. heir H K s u \<and> pcbs u q = None) (\<lambda>u. heir H K s u \<and> pcbs u q = None) t"
  by (rule wlp_mono [OF wlp_tracked [OF assms(1) heirD(1) [OF assms(2)]]])
    (use assms(2,3) in \<open>auto intro: heir_trans heir_gone\<close>)

lemma returning_zombie: "returning (leave_zombie c pp st)"
  unfolding leave_zombie_def unblockProcess_def enq_ready_def enqk_def hm_removek_def upd_pcb_def
  by (intro steady_rules refl still_mallock [THEN returning_still])

lemma leaves_switchBetween: "leaves (switchBetween H k c n)"
  unfolding switchBetween_def by (intro leaves_bindk leaves_switchk)

lemma wlp_exitProcess:
  assumes i: "isolated H K s"
  shows "wlp (exitProcess H st) (\<lambda>r t. r = ERROR \<and> heir H K s t) (\<lambda>t. heir H K s t \<and> pcbs t (currPCB s) = None) s"
proof -
  let ?c = "currPCB s" and ?R = "\<lambda>t. heir H K s t \<and> pcbs t (currPCB s) = None"
  have zombie: "wlp (case v of None \<Rightarrow> retk SUCCESS | Some pp \<Rightarrow> leave_zombie ?c pp st) (\<lambda>_. heir H K s) ?R s" for v
    using wlp_returning [OF returning_zombie wlp_tracked [OF tracked_leave_zombie i]] heir_refl [OF i] by (simp add: wlp_cases wlp_basic)
  have kids: "wlp (HashMap_iterate g removeParent) (\<lambda>_. heir H K s) ?R t" if t: "heir H K s t" for g t
  proof -
    have "still (HashMap_iterate g removeParent)" by (intro steady_rules)
    then show ?thesis by (rule steady_wlp) (use heir_own [OF heirD(1) [OF t]] still_own heir_trans [OF t] in blast)
  qed
  have last: "wlp (bindk deq_ready (\<lambda>n. case n of None \<Rightarrow> retk ERROR | Some n \<Rightarrow> switchBetween H KStart None n)) (\<lambda>r t. r = ERROR \<and> heir H K s t) ?R t"
    if t: "heir H K s t" "pcbs t ?c = None" for t
  proof -
    let ?U = "\<lambda>t. heir H K s t \<and> pcbs t ?c = None"
    have switch: "wlp (switchBetween H KStart None n) (\<lambda>r t. r = ERROR \<and> heir H K s t) ?R u" if "?U u" for n u
      using wlp_leaves [OF leaves_switchBetween wlp_still_gone [OF tracked_switch(1)]] that by blast
    have "wlp deq_ready (\<lambda>_. ?U) ?U t" using wlp_still_gone [OF tracked_queues(4)] t by blast
    then show ?thesis unfolding wlp_bindk
      by (rule wlp_mono) (simp_all add: wlp_cases wlp_basic switch)
  qed
  show ?thesis
    unfolding exitProcess_def
    apply (simp only: wlp_bindk [of "getk _"] wlp_bindk [of "get_pcb _"] wlp_basic wlp_pcbs, intro allI impI)
    apply (rule wlp_then, rule wlp_mono [OF zombie])
     apply (simp only: wlp_cases(1) wlp_basic, rule conjI, simp, rule impI)
     apply (rule wlp_then, rule wlp_mono [OF kids], assumption)
      apply (rule wlp_then, rule wlp_mono [OF wlp_delete_process], erule heirD)
       apply (rule last, blast intro: heir_trans, simp)
      apply assumption+
    done
qed

lemma wlp_KernelExit:
  assumes i: "isolated H K s"
  shows "wlp (KernelExit H st) (\<lambda>_ _. False) (\<lambda>t. heir H K s t \<and> pcbs t (currPCB s) = None) s"
  unfolding KernelExit_def
  by (auto simp: wlp_bindk wlp_basic wlp_cases wlp_pcbs intro!: wlp_mono [OF wlp_exitProcess [OF i]])

section \<open>Page faults\<close>

text \<open>One page: nothing to do, a new frame, or the end of the process.\<close>

lemma wlp_grow_one:
  assumes H: "hw_ok H" and i: "isolated H K t" "table_of t p = Some b" and v: "USER_BASE_VPN H \<le> v" "v < 2 * MAX_PT_LEN H"
  shows "wlp (bindk (entry_at H b (USER_BASE_VPN H) v) (\<lambda>ptep. bindk (fetch ptes ptep) (\<lambda>e.
      if \<not> pte_valid e then bindk getFramek (\<lambda>f. case f of None \<Rightarrow> bindk (KernelExit H st) (\<lambda>_. faultk UNINIT)
        | Some x \<Rightarrow> setPageTableEntry H ptep True {PROT_READ, PROT_WRITE} x)
      else retk ()))) (\<lambda>_ u. heir H K t u \<and> table_of u p = Some b) (heir H K t) t"
proof -
  have a: "v - USER_BASE_VPN H < MAX_PT_LEN H" using user_entry_index [OF v H] .
  have new: "wlp (bindk getFramek (\<lambda>f. case f of None \<Rightarrow> bindk (KernelExit H st) (\<lambda>_. faultk UNINIT)
      | Some x \<Rightarrow> setPageTableEntry H (user_entry_of H b v) True {PROT_READ, PROT_WRITE} x))
    (\<lambda>_ u. heir H K t u \<and> table_of u p = Some b) (heir H K t) t"
    unfolding wlp_bindk
  proof (rule wlp_mono [OF wlp_get_spare [OF i(1)]], goal_cases)
    case (1 r u)
    then obtain fl where u: "u = repaged t (ptes t) fl (tlb_log t)" "isolated H K u" "\<And>f. r = Some f \<Longrightarrow> spare H K f u" by blast
    have tu: "heir H K t u" "table_of u p = Some b" using u heir_filling [of H K b t u] i(2) by (simp_all add: filling_def)
    show ?case
    proof (cases r)
      case None
      have "wlp (bindk (KernelExit H st) (\<lambda>_. faultk UNINIT)) (\<lambda>_ u. heir H K t u \<and> table_of u p = Some b) (heir H K t) u"
        unfolding wlp_bindk wlp_basic by (rule wlp_mono [OF wlp_KernelExit [OF u(2)]]) (auto intro: heir_trans [OF tu(1)])
      with None show ?thesis by simp
    next
      case (Some f)
      from filling_entry(1) [OF u(2) u(3) [OF Some] tu(2) a, of "{PROT_READ, PROT_WRITE}"]
      have "heir H K t w \<and> table_of w p = Some b" if "w = repaged u ((ptes u)(user_entry_of H b v \<mapsto>
          \<lparr>pte_valid = True, pte_prot = {PROT_READ, PROT_WRITE}, pte_pfn = f\<rparr>)) (frameList u) l" for w l
        using heir_trans [OF tu(1)] heir_filling tu(2) that unfolding user_entry_of_def by fastforce
      then show ?thesis unfolding Some option.case by (intro wlp_setpte) (simp add: set_repaged)
    qed
  qed simp
  show ?thesis
    using new heir_refl [OF i(1)] i(2)
    by (simp add: wlp_bindk [of "entry_at _ _ _ _"] wlp_entry_at [OF v(1)] wlp_bindk [of "fetch _ _"] wlp_basic wlp_cases(1))
qed

lemma wlp_grow_stack:
  assumes H: "hw_ok H" and i: "isolated H K s" "table_of s p = Some b" and v: "USER_BASE_VPN H \<le> target"
  shows "wlp (grow_stack H b target) (\<lambda>_. heir H K s) (heir H K s) s"
proof -
  have "VMEM_1_LIMIT H = 2 * MAX_PT_LEN H * PAGESIZE H" using hw_okD(4,5,6,10) [OF H] by simp
  then have top: "vpn_of H (VMEM_1_LIMIT H) = 2 * MAX_PT_LEN H" using hw_okD(2) [OF H] by (simp add: vpn_of_page [OF H])
  let ?I = "\<lambda>t. heir H K s t \<and> table_of t p = Some b"
  have "wlp (grow_stack H b target) (\<lambda>_. ?I) (heir H K s) s"
    unfolding grow_stack_def
  proof (rule wlp_foldk_in, goal_cases)
    case (1 w u)
    then show ?case
      by (intro wlp_mono [OF wlp_grow_one [OF H heirD(1), of K s u p b w]])
        (use v top in \<open>auto intro: heir_trans\<close>)
  qed (use i heir_refl in simp)
  then show ?thesis by (rule wlp_mono) simp_all
qed

lemma wlp_handleTrapMemory:
  assumes i: "isolated H K s" and b: "brk_ok H s (currPCB s)"
  shows "wlp (handleTrapMemory H u) (\<lambda>_. heir H K s) (heir H K s) s"
proof -
  have H: "hw_ok H" using i by (simp add: isolated_def base_fixed_def)
  have stop: "wlp (KernelExit H ERROR_CODE) (\<lambda>_ _. False) (heir H K s) s"
    by (rule wlp_mono [OF wlp_KernelExit [OF i]]) auto
  have grow: "wlp (grow_stack H t (vpn_of H (uc_addr u))) (\<lambda>_. heir H K s) (heir H K s) s"
    if c: "pcbs s (currPCB s) = Some c" "brk c = Some a" "r1PageTable c = Some t" "\<not> vpn_of H (uc_addr u) \<le> vpn_of H a + 1" for c a t
  proof (rule wlp_grow_stack [OF H i])
    show "table_of s (currPCB s) = Some t" using c by (simp add: table_of_def)
    have "VMEM_1_BASE H \<le> a" using b c by (auto simp: brk_ok_def)
    then have "USER_BASE_VPN H \<le> vpn_of H a" unfolding USER_BASE_VPN_def vpn_of_def by (rule div_le_mono)
    then show "USER_BASE_VPN H \<le> vpn_of H (uc_addr u)" using c(4) by simp
  qed
  show ?thesis
    unfolding handleTrapMemory_def Let_def
    by (auto simp: wlp_bindk [of "getk _"] wlp_bindk [of "get_pcb _"] wlp_bindk [of "nonnull _"] wlp_bindk [of "if _ then _ else _"]
        wlp_pcbs wlp_basic wlp_cases grow intro!: wlp_mono [OF stop])
qed

end
