(* ===== verification/Loads.thy ===== *)
theory Loads
  imports Exits
begin

text \<open>
  Loading a program gives back the old pages of the process and takes new ones. When the program is linked
  at the bottom of region 1, text first and data right behind it, all pages below the new break are mapped.
\<close>

section \<open>Linking\<close>

definition linked :: "hw \<Rightarrow> load_info \<Rightarrow> bool" where
  "linked H li \<longleftrightarrow> t_vaddr li = VMEM_1_BASE H \<and> id_vaddr li = t_vaddr li + t_npg li * PAGESIZE H"

definition linked_files :: "hw \<Rightarrow> env \<Rightarrow> bool" where
  "linked_files H E \<longleftrightarrow> (\<forall>name exe li. open_file E name = Some exe \<longrightarrow> exe_info exe = Some li \<longrightarrow> linked H li)"

lemma linked_index: "hw_ok H \<Longrightarrow> linked H li \<Longrightarrow> r1_index H (t_vaddr li) = 0 \<and> r1_index H (id_vaddr li) = int (t_npg li)"
  using hw_okD(1,2) [of H] by (simp add: linked_def r1_index_def)

section \<open>Heirs but for one process\<close>

definition heir_but :: "hw \<Rightarrow> nat set \<Rightarrow> ptr \<Rightarrow> kstate \<Rightarrow> kstate \<Rightarrow> bool" where
  "heir_but H K p s t \<longleftrightarrow> isolated H K t \<and> (\<forall>q c. pcbs t q = Some c \<longrightarrow>
     (\<exists>d. pcbs s q = Some d \<and> pid d = pid c) \<and> (brk_ok H s q \<longrightarrow> q \<noteq> p \<longrightarrow> brk_ok H t q))"

lemma heir_but_heir: "heir H K s t \<Longrightarrow> heir_but H K p s t"
  by (simp add: heir_def heir_but_def)

lemma heir_but_ok: "heir_but H K p s t \<Longrightarrow> brk_ok H t p \<or> pcbs t p = None \<Longrightarrow> heir H K s t"
  unfolding heir_def heir_but_def by (metis option.distinct(1))

lemma heir_but_trans: "heir_but H K p s t \<Longrightarrow> heir_but H K p t u \<Longrightarrow> heir_but H K p s u"
  unfolding heir_but_def by (metis (no_types, lifting))

lemma heir_but_isolated: "heir_but H K p s t \<Longrightarrow> isolated H K t"
  by (simp add: heir_but_def)

lemma heir_but_edits:
  assumes "isolated H K s" "table_of s p = Some b" "edits H b s t" "isolated H K t"
  shows "heir_but H K p s t"
  using assms(4) editsD(1) [OF assms(3)] brk_ok_other [OF assms(1,2) _ assms(3)] by (simp add: heir_but_def)

text \<open>The state of the loader: the first \<open>n\<close> pages of region 1 are mapped.\<close>

definition loading :: "hw \<Rightarrow> nat set \<Rightarrow> ptr \<Rightarrow> ptr \<Rightarrow> kstate \<Rightarrow> nat \<Rightarrow> kstate \<Rightarrow> bool" where
  "loading H K p b s n t \<longleftrightarrow> heir_but H K p s t \<and> table_of t p = Some b \<and> (\<forall>i<n. valid_at t (b + i * SIZEOF_PTE H) \<noteq> None)"

lemma loading_filling: "loading H K p b s n t \<Longrightarrow> filling H K b t u \<Longrightarrow> loading H K p b s n u"
  using editsD(2) [of H b t u] heir_but_trans [OF _ heir_but_heir [OF heir_filling], of H K p s t b u]
  by (auto simp: loading_def filling_def)

lemma loading_own:
  assumes l: "loading H K p b s n t" "n \<le> MAX_PT_LEN H" and e: "own_part H u = own_part H t"
  shows "loading H K p b s n u"
proof -
  have i: "isolated H K t" and tab: "table_of t p = Some b" using l by (auto simp: loading_def heir_but_isolated)
  have "valid_at u (b + j * SIZEOF_PTE H) = valid_at t (b + j * SIZEOF_PTE H)" if "j < n" for j
  proof -
    have "b + j * SIZEOF_PTE H \<in> user_addrs H t" using user_entry_addr [OF tab] that l(2) by simp
    then show ?thesis using own_partD(9) [OF e user_not_r0 [of H t]] i by (simp add: valid_at_def isolated_def)
  qed
  moreover have "heir_but H K p s u"
    using l(1) heir_but_trans [OF _ heir_but_heir [OF heir_own [OF i e]]] by (simp add: loading_def)
  ultimately show ?thesis using own_table [OF e] l(1) by (simp add: loading_def)
qed

lemma wlp_loading_still:
  assumes "still m" "loading H K p b s n t" "n \<le> MAX_PT_LEN H" "\<And>x u. loading H K p b s n u \<Longrightarrow> Q x u"
  shows "wlp m Q R t"
  by (rule steady_wlp [OF assms(1)]) (use assms(4) loading_own [OF assms(2,3) still_own] in blast)

section \<open>The loops\<close>

lemma wlp_free_region1:
  assumes i: "isolated H K s" "table_of s p = Some b"
  shows "wlp (free_region1 H b) (\<lambda>_. loading H K p b s 0) R s"
proof -
  let ?I = "\<lambda>t. isolated H K t \<and> edits H b s t"
  have "wlp (free_region1 H b) (\<lambda>_. ?I) R s"
    unfolding free_region1_def
  proof (rule wlp_foldk_in, goal_cases)
    case (1 j u)
    then have j: "j < MAX_PT_LEN H" and u: "isolated H K u" "edits H b s u" "table_of u p = Some b" using editsD(2) [of H b s u] i(2) by auto
    have "wlp (bindk (freeFramek (pte_pfn e)) (\<lambda>_. invalidatePageTableEntry H (b + j * SIZEOF_PTE H))) (\<lambda>_. ?I) R u"
      if "ptes u (b + j * SIZEOF_PTE H) = Some e" "pte_valid e" for e
      by (rule wlp_mono [OF wlp_drop_entry [OF u(1,3) j that]]) (use edits_trans [OF u(2)] in auto)
    then show ?case using u by (simp add: wlp_bindk [of "fetch _ _"] wlp_basic wlp_cases(1))
  qed (use i in simp)
  then show ?thesis
  proof (rule wlp_mono)
    fix t
    assume "isolated H K t \<and> edits H b s t"
    then show "loading H K p b s 0 t" using heir_but_edits [OF i, of t] i(2) editsD(2) [of H b s t] by (simp add: loading_def)
  qed simp
qed

lemma wlp_map_pages:
  assumes l: "isolated H K t" "table_of t p = Some b" and n: "first + n \<le> MAX_PT_LEN H"
  shows "wlp (map_pages H b (int first) n)
    (\<lambda>r u. filling H K b t u \<and> (r \<noteq> ERROR \<longrightarrow> (\<forall>j \<in> set [0..<n]. valid_at u (b + (first + j) * SIZEOF_PTE H) \<noteq> None))) R t"
  unfolding map_pages_def
proof (rule wlp_fill_entries [OF _ l])
  fix j u
  assume j: "j \<in> set [0..<n]" and u: "isolated H K u" "table_of u p = Some b"
  have "first + j < MAX_PT_LEN H" using j n by simp
  have e: "bindk (entry_nth H b (int first + int j)) g = g (b + (first + j) * SIZEOF_PTE H)" for g :: "ptr \<Rightarrow> rc kernel"
    by (simp add: entry_nth_def nat_add_distrib)
  from wlp_fill_entry [OF u \<open>first + j < MAX_PT_LEN H\<close>]
  show "wlp (bindk getFramek (\<lambda>f. case f of None \<Rightarrow> retk ERROR | Some x \<Rightarrow> bindk (entry_nth H b (int first + int j))
      (\<lambda>ptep. bindk (setPageTableEntry H ptep True {PROT_READ, PROT_WRITE} x) (\<lambda>_. retk SUCCESS))))
    (\<lambda>r t. filling H K b u t \<and> (r \<noteq> ERROR \<longrightarrow> valid_at t (b + (first + j) * SIZEOF_PTE H) \<noteq> None)) R u"
    unfolding e .
qed

lemma wlp_map_loading:
  assumes l: "loading H K p b s n t" and m: "n + m \<le> MAX_PT_LEN H"
  shows "wlp (map_pages H b (int n) m) (\<lambda>r u. loading H K p b s n u \<and> (r \<noteq> ERROR \<longrightarrow> loading H K p b s (n + m) u)) R t"
proof -
  have t: "isolated H K t" "table_of t p = Some b" using l by (auto simp: loading_def heir_but_isolated)
  show ?thesis
  proof (rule wlp_mono [OF wlp_map_pages [OF t m]], goal_cases)
    case (1 r u)
    then have u: "loading H K p b s n u" using loading_filling [OF l] by blast
    have "loading H K p b s (n + m) u" if "r \<noteq> ERROR"
    proof -
      have "valid_at u (b + i * SIZEOF_PTE H) \<noteq> None" if i: "i < n + m" for i
      proof (cases "i < n")
        case False
        then have "i = n + (i - n)" "i - n \<in> set [0..<m]" using i by auto
        then show ?thesis using 1 \<open>r \<noteq> ERROR\<close> by metis
      qed (use u in \<open>simp add: loading_def\<close>)
      then show ?thesis using u by (simp add: loading_def)
    qed
    with u show ?case by blast
  qed
qed

text \<open>Protecting the text does not change which entries are valid, nor their frames.\<close>

lemma wlp_protect_one:
  assumes i: "isolated H K t" "table_of t p = Some b" "j < MAX_PT_LEN H"
  shows "wlp (bindk (fetch ptes (b + j * SIZEOF_PTE H)) (\<lambda>e. setPageTableEntry H (b + j * SIZEOF_PTE H) (pte_valid e) pr (pte_pfn e)))
    (\<lambda>_ u. filling H K b t u) R t"
proof -
  let ?a = "b + j * SIZEOF_PTE H"
  have u: "?a \<in> user_addrs H t" using user_entry_addr [OF i(2,3)] .
  have "filling H K b t (repaged t ((ptes t)(?a \<mapsto> \<lparr>pte_valid = pte_valid e, pte_prot = pr, pte_pfn = pte_pfn e\<rparr>)) (frameList t) w)"
    (is "filling H K b t ?t") if e: "ptes t ?a = Some e" for e w
  proof -
    have v: "valid_at ?t = valid_at t" using e by (simp add: valid_at_def fun_eq_iff)
    let ?e = "\<lparr>pte_valid = pte_valid e, pte_prot = pr, pte_pfn = pte_pfn e\<rparr>"
    have same: "(owns H t)(Inl ?a := if pte_valid ?e then Some (pte_pfn ?e) else None) = owns H t"
      using e u by (auto simp: owns_def valid_at_def fun_eq_iff split: sum.split)
    have "isolated H K ?t"
    proof (rule isolated_entry [OF i(1) u])
      show "frames_ok ?t" using i(1) by (simp add: isolated_def frames_ok_def repaged_def)
      have "pool K (owns H t) (free_frames ?t)" using i(1) by (simp add: isolated_def free_frames_def)
      then show "pool K ((owns H t)(Inl ?a := if pte_valid ?e then Some (pte_pfn ?e) else None)) (free_frames ?t)" by (simp only: same)
    qed
    moreover have "edits H b t ?t" using e entry_in_table [OF i(3)] by (intro edits_entry) auto
    ultimately show ?thesis using v by (simp add: filling_def)
  qed
  then show ?thesis by (auto simp: wlp_bindk wlp_basic set_repaged intro!: wlp_setpte)
qed

lemma wlp_protect_text:
  assumes l: "isolated H K t" "table_of t p = Some b" "n \<le> MAX_PT_LEN H"
  shows "wlp (protect_text H b 0 n) (\<lambda>_. filling H K b t) R t"
  unfolding protect_text_def
proof (rule wlp_foldk_in, goal_cases)
  case (1 j u)
  then have j: "j < MAX_PT_LEN H" and u: "isolated H K u" "table_of u p = Some b" "filling H K b t u"
    using l editsD(2) [of H b t u] by (auto simp: filling_def)
  have e: "bindk (entry_nth H b (0 + int j)) g = g (b + j * SIZEOF_PTE H)" for g :: "ptr \<Rightarrow> unit kernel"
    by (simp add: entry_nth_def)
  show ?case unfolding e by (rule wlp_mono [OF wlp_protect_one [OF u(1,2) j]]) (auto intro: filling_trans [OF u(3)])
qed (use l filling_refl in simp)

section \<open>Loading\<close>

text \<open>The new break ends where the mapped pages end.\<close>

lemma wlp_set_brk:
  assumes l: "loading H K p b s n t" and n: "n \<le> MAX_PT_LEN H"
  shows "wlp (upd_pcb p (\<lambda>c. c\<lparr>brk := Some (VMEM_1_BASE H + n * PAGESIZE H)\<rparr>))
    (\<lambda>_ u. loading H K p b s n u \<and> brk_ok H u p) R t"
proof -
  have i: "isolated H K t" and tab: "table_of t p = Some b" and v: "\<And>j. j < n \<Longrightarrow> valid_at t (b + j * SIZEOF_PTE H) \<noteq> None"
    using l by (auto simp: loading_def heir_but_isolated)
  have H: "hw_ok H" using i by (simp add: isolated_def base_fixed_def)
  let ?a = "VMEM_1_BASE H + n * PAGESIZE H"
  have new: "loading H K p b s n (t\<lparr>pcbs := (pcbs t)(p \<mapsto> c\<lparr>brk := Some ?a\<rparr>)\<rparr>) \<and> brk_ok H (t\<lparr>pcbs := (pcbs t)(p \<mapsto> c\<lparr>brk := Some ?a\<rparr>)\<rparr>) p"
    (is "loading H K p b s n ?u \<and> _") if c: "pcbs t p = Some c" for c
  proof -
    have iu: "isolated H K ?u" using isolated_pcb [OF i c, of "c\<lparr>brk := Some ?a\<rparr>"] by simp
    have vu: "valid_at ?u = valid_at t" by (simp add: valid_at_def fun_eq_iff)
    have "heir_but H K p t ?u" using iu c vu by (auto simp: heir_but_def brk_ok_def)
    then have "heir_but H K p s ?u" using l heir_but_trans by (auto simp: loading_def)
    moreover have "table_of ?u p = Some b" using tab c by (simp add: table_of_def)
    moreover have "brk_ok H ?u p"
    proof (rule brk_okI)
      show "pcbs ?u p = Some (c\<lparr>brk := Some ?a\<rparr>)" "r1PageTable (c\<lparr>brk := Some ?a\<rparr>) = Some b" "brk (c\<lparr>brk := Some ?a\<rparr>) = Some ?a"
        using tab c by (simp_all add: table_of_def)
      show "VMEM_1_BASE H \<le> ?a" "?a \<le> VMEM_1_LIMIT H" using n hw_okD(6) [OF H] by simp_all
      show "valid_at ?u (user_entry_of H b w) \<noteq> None" if w: "USER_BASE_VPN H \<le> w" "w < up_vpn H ?a" for w
      proof -
        have "?a = (MAX_PT_LEN H + n) * PAGESIZE H" using hw_okD(4,5,10) [OF H] by (simp add: add_mult_distrib)
        then have "up_vpn H ?a \<le> MAX_PT_LEN H + n" using up_vpn_le [OF H, of ?a "MAX_PT_LEN H + n"] by simp
        then have "w - USER_BASE_VPN H < n" using w user_base [OF H] by simp
        then show ?thesis using v vu by (simp add: user_entry_of_def)
      qed
    qed
    ultimately show ?thesis using v vu by (simp add: loading_def)
  qed
  then show ?thesis by (simp add: wlp_pcbs)
qed

text \<open>After the break is set, everything keeps it valid.\<close>

definition reloaded :: "hw \<Rightarrow> nat set \<Rightarrow> ptr \<Rightarrow> ptr \<Rightarrow> kstate \<Rightarrow> kstate \<Rightarrow> bool" where
  "reloaded H K p b s t \<longleftrightarrow> heir_but H K p s t \<and> table_of t p = Some b \<and> brk_ok H t p"

lemma reloaded_filling: "reloaded H K p b s t \<Longrightarrow> filling H K b t u \<Longrightarrow> reloaded H K p b s u"
  using loading_filling [of H K p b s 0 t u] brk_ok_filling [of H K b t u p] by (simp add: reloaded_def loading_def)

lemma wlp_reloaded_still:
  assumes "still m" "reloaded H K p b s t" "\<And>x u. reloaded H K p b s u \<Longrightarrow> Q x u"
  shows "wlp m Q R t"
proof (rule steady_wlp [OF assms(1)])
  fix x u
  assume "still_part u = still_part t"
  then have e: "own_part H u = own_part H t" by (rule still_own)
  have l: "loading H K p b s 0 t" using assms(2) by (simp add: reloaded_def loading_def)
  then have "isolated H K t" by (auto simp: loading_def heir_but_isolated)
  from heir_own [OF this e] have h: "heir H K t u" .
  have "pcbs u p \<noteq> None" using own_table [OF e, of p] assms(2) by (auto simp: reloaded_def table_of_def split: option.splits)
  then have "brk_ok H u p" using heirD(3) [OF h] assms(2) by (auto simp: reloaded_def)
  then show "Q x u" using assms(3) loading_own [OF l _ e] by (simp add: reloaded_def loading_def)
qed

lemma wlp_load_segments:
  assumes i: "isolated H K s" "table_of s p = Some b" and l: "linked H li"
    and fits: "t_npg li + (id_npg li + ud_npg li) \<le> MAX_PT_LEN H" "stack_npg \<le> MAX_PT_LEN H"
  shows "wlp (load_segments H exe li p b stack_npg)
    (\<lambda>r t. r = KILL \<and> heir_but H K p s t \<and> table_of t p = Some b \<or> r = SUCCESS \<and> reloaded H K p b s t) R s" (is "wlp _ ?Q R s")
proof -
  have H: "hw_ok H" using i by (simp add: isolated_def base_fixed_def)
  let ?t = "t_npg li" and ?d = "id_npg li + ud_npg li"
  have kill: "loading H K p b s n t \<Longrightarrow> ?Q KILL t" "reloaded H K p b s t \<Longrightarrow> ?Q KILL t" for n t by (simp_all add: loading_def reloaded_def)
  have stack: "wlp (map_pages H b (int (MAX_PT_LEN H) - int stack_npg) stack_npg) (\<lambda>_. reloaded H K p b s) R t" if "reloaded H K p b s t" for t
  proof -
    have "isolated H K t" "table_of t p = Some b" using that by (auto simp: reloaded_def heir_but_isolated)
    from wlp_map_pages [OF this, of "MAX_PT_LEN H - stack_npg" stack_npg R] fits(2)
    show ?thesis by (simp add: of_nat_diff) (erule wlp_mono, use reloaded_filling [OF that] in blast, simp)
  qed
  have text_pages: "wlp (protect_text H b 0 ?t) (\<lambda>_. reloaded H K p b s) R t" if "reloaded H K p b s t" for t
  proof -
    have "isolated H K t" "table_of t p = Some b" using that by (auto simp: reloaded_def heir_but_isolated)
    from wlp_protect_text [OF this] fits(1) show ?thesis
      by - (rule wlp_mono [where Q = "\<lambda>_. filling H K b t"], simp, use reloaded_filling [OF that] in blast, simp)
  qed
  have texts: "wlp (map_pages H b 0 ?t) (\<lambda>r u. loading H K p b s 0 u \<and> (r \<noteq> ERROR \<longrightarrow> loading H K p b s ?t u)) R t"
    if "loading H K p b s 0 t" for t using wlp_map_loading [OF that, of ?t] fits(1) by simp
  have brk: "VMEM_1_BASE H + (?d + ?t) * PAGESIZE H = VMEM_1_BASE H + (?t + ?d) * PAGESIZE H" by simp
  have segs: "still (read_segment H exe x y n)" "still (copyout H x xs)" for x y n xs by (intro steady_rules)+
  show ?thesis
    unfolding load_segments_def Let_def linked_index [OF H l, THEN conjunct1] linked_index [OF H l, THEN conjunct2] brk
    apply (rule wlp_then, rule wlp_mono [OF wlp_free_region1 [OF i]])
     apply (rule wlp_then, rule wlp_mono [OF texts], assumption)
      apply (simp only: wlp_cases(1) wlp_basic, intro conjI impI, use kill in blast)
      apply (rule wlp_then, rule wlp_mono [OF wlp_map_loading [where n = ?t]], blast, rule fits)
       apply (simp only: wlp_cases(1) wlp_basic, intro conjI impI, use kill in blast)
       apply (rule wlp_then, rule wlp_mono [OF wlp_set_brk], blast, rule fits)
        apply (rule wlp_then, rule wlp_mono [OF stack], simp add: reloaded_def loading_def)
         apply (simp only: wlp_cases(1) wlp_basic, intro conjI impI, use kill in blast)
         apply (rule wlp_then, rule wlp_reloaded_still [OF segs(1)], assumption)
         apply (simp only: wlp_cases(1) wlp_basic, intro conjI impI, use kill in blast)
         apply (rule wlp_then, rule wlp_reloaded_still [OF segs(1)], assumption)
         apply (simp only: wlp_cases(1) wlp_basic, intro conjI impI, use kill in blast)
         apply (rule wlp_then, rule wlp_mono [OF text_pages], assumption)
          apply (rule wlp_then, rule wlp_reloaded_still [OF segs(2)], assumption)
          apply (simp add: wlp_basic)
         apply assumption+
    done
qed

section \<open>Exec\<close>

lemma wlp_heir_still:
  assumes "still m" "heir H K s t" "\<And>x u. heir H K s u \<Longrightarrow> table_of u = table_of t \<Longrightarrow> currPCB u = currPCB t \<Longrightarrow> Q x u"
  shows "wlp m Q R t"
proof (rule steady_wlp [OF assms(1)])
  fix x u
  assume e: "still_part u = still_part t"
  have "heir H K s u" using heir_own [OF heirD(1) [OF assms(2)] still_own [OF e]] heir_trans [OF assms(2)] by blast
  moreover have "table_of u = table_of t" using own_table [OF still_own [OF e]] by blast
  moreover have "currPCB u = currPCB t" using sched_partD(4) [OF still_partD [OF e]] .
  ultimately show "Q x u" using assms(3) by blast
qed

lemma own_LoadProgram:
  assumes i: "isolated H K s" "table_of s p = Some b" and l: "\<And>exe li. file = Some exe \<Longrightarrow> exe_info exe = Some li \<Longrightarrow> linked H li"
    and a: "still args"
  shows "wlp (LoadProgram H file args p) (\<lambda>r t. heir H K s t \<or> r = KILL \<and> heir_but H K p s t) R s"
proof -
  let ?Q = "\<lambda>r t. heir H K s t \<or> r = KILL \<and> heir_but H K p s t"
  have H: "hw_ok H" using i by (simp add: isolated_def base_fixed_def)
  have ctx: "still (upd_uctxt p f)" for f by (intro steady_rules)
  have segs: "wlp (bindk (load_segments H exe li p b n) (\<lambda>r. if r \<noteq> SUCCESS then retk r else
        bindk (upd_uctxt p (\<lambda>u. u\<lparr>uc_pc := li_entry li\<rparr>)) (\<lambda>_. bindk (build_stack H as) (\<lambda>_. retk SUCCESS)))) ?Q R t"
    if t: "heir H K s t" "table_of t p = Some b" and li: "linked H li" "t_npg li + (id_npg li + ud_npg li) \<le> MAX_PT_LEN H" "n \<le> MAX_PT_LEN H"
    for exe li n as t
  proof (rule wlp_then, rule wlp_mono [OF wlp_load_segments [OF heirD(1) [OF t(1)] t(2) li]], goal_cases)
    case (1 r u)
    have hb: "heir_but H K p t u \<Longrightarrow> heir_but H K p s u" for u using heir_but_trans [OF heir_but_heir [OF t(1)]] .
    have ok: "reloaded H K p b t v \<Longrightarrow> heir H K s v" for v using hb [of v] by (auto simp: reloaded_def intro: heir_but_ok)
    have fin: "wlp (bindk (upd_uctxt p (\<lambda>u. u\<lparr>uc_pc := li_entry li\<rparr>)) (\<lambda>_. bindk (build_stack H as) (\<lambda>_. retk SUCCESS))) ?Q R u"
      if u: "reloaded H K p b t u"
      by (rule wlp_then, rule wlp_reloaded_still [OF ctx u], rule wlp_then, rule wlp_reloaded_still [OF still_load_parts(2)])
        (simp_all only: wlp_basic, rule disjI1, rule ok)
    from 1 show ?case using hb [of u] fin by (auto simp: wlp_cases(1) wlp_basic)
  qed simp
  have stay: "?Q r t" if "heir H K s t" for r t using that by simp
  show ?thesis
    unfolding LoadProgram_def wlp_cases(1,2) wlp_basic
  proof (intro conjI allI impI, goal_cases)
    case (4 exe li)
    then have li: "linked H li" using l by blast
    show ?case
        unfolding Let_def linked_index [OF H li, THEN conjunct2]
        apply (rule wlp_then, rule wlp_heir_still [OF a heir_refl [OF i(1)]])
        apply (simp only: wlp_cases(1) wlp_basic, intro conjI impI, blast)
        apply (rule wlp_then, rule wlp_heir_still [OF ctx], assumption)
        apply (rule wlp_then, rule wlp_heir_still [OF still_mallock(2)], assumption)
        apply (simp only: wlp_cases(1) wlp_basic, intro conjI impI, blast)
        apply (simp only: wlp_bindk [of "get_pcb _"] wlp_bindk [of "nonnull _"] wlp_pcbs, intro allI impI)
        subgoal premises run for as t x u ok v pc b'
        proof -
          have "table_of v p = Some b'" using run(12,13) by (simp add: table_of_def)
          then have "b' = b" "table_of v p = Some b" using i(2) run(9) by simp_all
          then show ?thesis using segs [OF run(8) _ li] run(4) by simp
        qed
        done
  qed (use i heir_refl in simp_all)
qed

lemma still_load_exec_parts: "still (load_string H n p)" "still (load_args H n q)"
  by (intro steady_rules)+

lemma wlp_load_exec:
  assumes t: "heir H K s t" "table_of t p = Some b" and l: "linked_files H E"
  shows "wlp (load_exec E H f a p) (\<lambda>r u. heir H K s u \<or> r = KILL \<and> heir_but H K p s u) R t"
  unfolding load_exec_def
proof (rule wlp_then, rule wlp_heir_still [OF still_load_exec_parts(1) t(1)])
  fix name u
  assume u: "heir H K s u" "table_of u = table_of t"
  show "wlp (LoadProgram H (open_file E name) (load_args H (env_fuel E) a) p)
      (\<lambda>r v. heir H K s v \<or> r = KILL \<and> heir_but H K p s v) R u"
  proof (rule wlp_mono [OF own_LoadProgram [OF heirD(1) [OF u(1)]]])
    show "table_of u p = Some b" using u(2) t(2) by simp
    show "linked H li" if "open_file E name = Some exe" "exe_info exe = Some li" for exe li
      using l that by (simp add: linked_files_def)
    show "still (load_args H (env_fuel E) a)" by (rule still_load_exec_parts)
    show "heir H K s v \<or> r = KILL \<and> heir_but H K p s v" if "heir H K u v \<or> r = KILL \<and> heir_but H K p u v" for r v
      using that heir_trans [OF u(1)] heir_but_trans [OF heir_but_heir [OF u(1)]] by blast
  qed
qed

text \<open>A process whose program cannot be loaded after its pages are gone is ended.\<close>

lemma wlp_KernelExec:
  assumes i: "isolated H K s" "table_of s (currPCB s) = Some b" and l: "linked_files H E"
  shows "wlp (KernelExec H fuel (load_exec E H) f a) (\<lambda>_. heir H K s) (heir H K s) s"
proof -
  let ?c = "currPCB s"
  have rest: "wlp (bindk (if r = KILL then KernelExit H ERROR_CODE else retk ()) (\<lambda>_.
      if r = ERROR then retk ERROR else bindk execProcess (\<lambda>x. retk (if x = ERROR then ERROR else SUCCESS))))
      (\<lambda>_. heir H K s) (heir H K s) t" if t: "heir H K s t \<or> r = KILL \<and> heir_but H K ?c s t" "currPCB t = ?c" for r t
  proof (cases "r = KILL")
    case True
    have "isolated H K t" "heir_but H K ?c s t" using t(1) heirD(1) heir_but_isolated heir_but_heir by blast+
    moreover from this have "heir H K s u" if "heir H K t u" "pcbs u ?c = None" for u
      using heir_but_ok [of H K ?c s u] heir_but_trans [OF _ heir_but_heir [OF that(1)]] that(2) by blast
    ultimately have "wlp (KernelExit H ERROR_CODE) (\<lambda>_ _. False) (heir H K s) t"
      using t(2) by (intro wlp_mono [OF wlp_KernelExit]) auto
    with True show ?thesis unfolding wlp_bindk [of "if _ then _ else _"] by simp (erule wlp_mono, auto)
  next
    case False
    then have h: "heir H K s t" using t by blast
    have "preserves (heir H K s) (heir H K s) (bindk execProcess (\<lambda>x. retk (if x = ERROR then ERROR else SUCCESS)))"
      by (intro heir_tracked tracked_rules)
    with h False show ?thesis by (simp add: preserves_def wlp_bindk [of "retk _"] wlp_basic wlp_cases)
  qed
  have load: "wlp (load_exec E H f a ?c) (\<lambda>r u. (heir H K s u \<or> r = KILL \<and> heir_but H K ?c s u) \<and> currPCB u = ?c) R t"
    if "heir H K s t" "table_of t = table_of s" "currPCB t = ?c" for t R
  proof (rule wlp_conj [OF wlp_load_exec [OF that(1) _ l]])
    show "table_of t ?c = Some b" using that(2) i(2) by simp
    show "wlp (load_exec E H f a ?c) (\<lambda>r u. currPCB u = ?c) (\<lambda>_. False) t"
      by (rule steady_wlp [OF settled_load_exec]) (drule sched_partD(4), simp add: that(3))
  qed simp_all
  show ?thesis
    unfolding KernelExec_def
    apply (rule wlp_then, rule wlp_heir_still [OF still_checks(2) heir_refl [OF i(1)]])
    apply (simp only: wlp_cases(1) wlp_basic, intro conjI impI, blast)
    apply (rule wlp_then, rule wlp_heir_still [OF still_args(1)], assumption)
    apply (simp only: wlp_cases(1) wlp_basic, intro conjI impI, blast)
    apply (simp only: wlp_bindk [of "getk _"] wlp_basic)
    subgoal premises run for x t y u
      unfolding wlp_bindk [of "load_exec _ _ _ _ _"]
    proof (rule wlp_mono [OF load])
      show "heir H K s u" "table_of u = table_of s" "currPCB u = ?c" using run by simp_all
    qed (blast intro: rest)+
    done
qed

end
