(* ===== verification/Forks.thy ===== *)
theory Forks
  imports Loads
begin

text \<open>
  A new process gets a table and stack frames of its own, and after a fork a frame of its own for every page
  of its parent.
\<close>

section \<open>Later states with a new process\<close>

text \<open>What \<open>heir\<close> says of the processes that were there before.\<close>

definition heir_old :: "hw \<Rightarrow> nat set \<Rightarrow> kstate \<Rightarrow> kstate \<Rightarrow> bool" where
  "heir_old H K s t \<longleftrightarrow> isolated H K t \<and> (\<forall>q c. pcbs t q = Some c \<longrightarrow> pcbs s q \<noteq> None \<longrightarrow>
     (\<exists>d. pcbs s q = Some d \<and> pid d = pid c) \<and> (brk_ok H s q \<longrightarrow> brk_ok H t q))"

definition child :: "hw \<Rightarrow> nat set \<Rightarrow> ptr \<Rightarrow> kstate \<Rightarrow> kstate \<Rightarrow> bool" where
  "child H K p s t \<longleftrightarrow> heir_old H K s t \<and> pcbs s p = None \<and> pcbs t p \<noteq> None \<and> (\<forall>q. pcbs t q \<noteq> None \<longrightarrow> q = p \<or> pcbs s q \<noteq> None)"

lemma heir_old_heir: "heir H K s t \<Longrightarrow> heir_old H K s t"
  by (auto simp: heir_def heir_old_def)

lemma heir_old_trans:
  assumes "heir_old H K s t" "heir H K t u"
  shows "heir_old H K s u"
  unfolding heir_old_def
proof (intro conjI allI impI)
  show "isolated H K u" using heirD(1) [OF assms(2)] .
  fix q c
  assume q: "pcbs u q = Some c" "pcbs s q \<noteq> None"
  obtain d where d: "pcbs t q = Some d" "pid d = pid c" using heirD(2) [OF assms(2) q(1)] by blast
  with assms(1) q(2) show "\<exists>d. pcbs s q = Some d \<and> pid d = pid c" by (fastforce simp: heir_old_def)
  show "brk_ok H s q \<Longrightarrow> brk_ok H u q" using assms(1) d(1) q(2) heirD(3) [OF assms(2) q(1)] by (auto simp: heir_old_def)
qed

lemma child_trans: "child H K p s t \<Longrightarrow> heir H K t u \<Longrightarrow> pcbs u p \<noteq> None \<Longrightarrow> child H K p s u"
  unfolding child_def by (meson heir_old_trans heir_gone)

lemma heir_child:
  assumes "heir H K s u" "pcbs u = pcbs s" "child H K p u t"
  shows "child H K p s t"
proof -
  have c: "isolated H K t" "pcbs u p = None" "pcbs t p \<noteq> None" "\<And>q. pcbs t q \<noteq> None \<Longrightarrow> q = p \<or> pcbs u q \<noteq> None"
    and old: "\<And>q c. pcbs t q = Some c \<Longrightarrow> pcbs u q \<noteq> None \<Longrightarrow> (\<exists>d. pcbs u q = Some d \<and> pid d = pid c) \<and> (brk_ok H u q \<longrightarrow> brk_ok H t q)"
    using assms(3) by (auto simp: child_def heir_old_def)
  have "brk_ok H u q" if "brk_ok H s q" "pcbs u q \<noteq> None" for q using heirD(3) [OF assms(1)] that by blast
  then show ?thesis using c old assms(2) by (auto simp: child_def heir_old_def)
qed

lemma childD: "child H K p s t \<Longrightarrow> isolated H K t" "child H K p s t \<Longrightarrow> heir_old H K s t" "child H K p s t \<Longrightarrow> pcbs s p = None"
  by (auto simp: child_def heir_old_def)

section \<open>A new table\<close>

lemma isolated_blank:
  assumes i: "isolated H K s" and b: "from_malloc s b" "dom (ptes s) \<inter> table_addrs H b = {}"
  shows "isolated H K (s\<lparr>ptes := blank_table H b (ptes s)\<rparr>)" "heir H K s (s\<lparr>ptes := blank_table H b (ptes s)\<rparr>)"
proof -
  let ?t = "s\<lparr>ptes := blank_table H b (ptes s)\<rparr>"
  have s: "base_fixed H s" "tables_ok H s" "hw_ok H" using i by (simp_all add: isolated_def base_fixed_def)
  have tab: "table_of ?t = table_of s" by (simp add: table_of_def fun_eq_iff)
  have users: "user_addrs H ?t = user_addrs H s" by (simp add: user_addrs_def tab)
  have same: "ptes ?t a = ptes s a" if "a \<in> user_addrs H s" for a
    using user_dom [OF s(2) that] b(2) by (auto simp: blank_table_def refilled_def)
  have stack: "stack_at ?t = stack_at s" by (simp add: stack_at_def fun_eq_iff)
  have own: "owns H ?t = owns H s"
    using same by (auto simp: owns_def users stack valid_at_def fun_eq_iff split: sum.split)
  have "has_table H ?t b'" if "has_table H s b'" for b' using that by (auto simp: has_table_def blank_table_def refilled_def)
  then have tabs: "tables_ok H ?t" by (intro tables_okI [OF s(2)]) simp_all
  moreover have known: "kernel_known H K ?t"
  proof (rule kernel_knownI)
    show "kernel_known H K s" using i by (simp add: isolated_def)
    show "valid_at s (REG_PTBR0 s + j * SIZEOF_PTE H) = Some f" if "valid_at ?t (REG_PTBR0 s + j * SIZEOF_PTE H) = Some f" for j f
      using that by (simp add: valid_at_def blank_table_def refilled_def split: if_splits)
  qed simp
  ultimately show iso: "isolated H K ?t"
    using i own tabs known by (simp add: isolated_def base_fixed_def stack_base_ok_def blocks_apart_def from_malloc_def frames_ok_def free_frames_def)
  have "brk_ok H ?t q" if q: "brk_ok H s q" for q
  proof (rule brk_ok_mono [OF q s(3)])
    show "valid_at ?t a \<noteq> None" if "table_of s q = Some b'" "a \<in> table_addrs H b'" "valid_at s a \<noteq> None" for b' a
    proof -
      have "ptes ?t a = ptes s a" using that(1,2) by (intro same) (auto simp: user_addrs_def)
      then show ?thesis using that(3) by (simp add: valid_at_def del: kstate.simps)
    qed
  qed (simp_all add: tab)
  then show "heir H K s ?t" using iso by (simp add: heir_def)
qed

text \<open>A table nobody uses.\<close>

definition spare_table :: "hw \<Rightarrow> ptr \<Rightarrow> kstate \<Rightarrow> bool" where
  "spare_table H b s \<longleftrightarrow> from_malloc s b \<and> b \<noteq> REG_PTBR0 s \<and> has_table H s b \<and> (\<forall>q. table_of s q \<noteq> Some b) \<and>
     (\<forall>a \<in> table_addrs H b. valid_at s a = None)"

lemma blank_spare:
  assumes i: "isolated H K s" and b: "from_malloc s b" "dom (ptes s) \<inter> table_addrs H b = {}" and r0: "has_table H s (REG_PTBR0 s)"
  shows "spare_table H b (s\<lparr>ptes := blank_table H b (ptes s)\<rparr>)"
proof -
  have s: "tables_ok H s" "0 < MAX_PT_LEN H" using i by (simp_all add: isolated_def base_fixed_def hw_ok_def)
  have ne: "b' \<noteq> b" if "has_table H s b'" for b' using tables_differ [OF s(2) that b(2)] .
  have "table_of s q \<noteq> Some b" for q using table_ofD [OF s(1), of q b] ne by blast
  moreover have "table_of (s\<lparr>ptes := P\<rparr>) = table_of s" for P by (simp add: table_of_def fun_eq_iff)
  ultimately show ?thesis
    using b(1) ne [OF r0] by (auto simp: spare_table_def from_malloc_def has_table_def valid_at_def blank_table_def refilled_def)
qed

section \<open>A new process\<close>

lemma isolated_new_block:
  assumes i: "isolated H K s" and p: "pcbs s p = None" and b: "spare_table H b s"
    and c: "r1PageTable c = Some b" "stackPfns c = []" "pid c < nextPid s"
  shows "child H K p s (s\<lparr>pcbs := (pcbs s)(p \<mapsto> c)\<rparr>)"
proof -
  let ?t = "s\<lparr>pcbs := (pcbs s)(p \<mapsto> c)\<rparr>"
  have s: "tables_ok H s" "hw_ok H" using i by (simp_all add: isolated_def base_fixed_def)
  have tab: "table_of ?t q = (if q = p then Some b else table_of s q)" for q using c by (simp add: table_of_def)
  have val: "valid_at ?t = valid_at s" by (simp add: valid_at_def fun_eq_iff)
  have sub: "owns H s x = Some f" if x: "owns H ?t x = Some f" for x f
  proof (cases x)
    case (Inl a)
    with x val have a: "a \<in> user_addrs H ?t" "valid_at s a = Some f" by (auto simp: owns_def split: if_splits)
    then have "a \<notin> table_addrs H b" using b by (auto simp: spare_table_def)
    then have "a \<in> user_addrs H s" using a(1) tab by (auto simp: user_addrs_def split: if_splits)
    then show ?thesis using Inl a by (simp add: owns_def)
  next
    case (Inr y)
    then show ?thesis using x c(2) by (auto simp: owns_def stack_at_def split: if_splits)
  qed
  have "tables_ok H ?t"
    unfolding tables_ok_def
  proof (intro conjI allI impI)
    fix q d
    assume q: "pcbs ?t q = Some d"
    have "pid d < nextPid s \<and> (\<exists>b'. r1PageTable d = Some b' \<and> from_malloc s b' \<and> b' \<noteq> REG_PTBR0 s \<and> has_table H s b')"
    proof (cases "q = p")
      case True
      then show ?thesis using q c b by (simp add: spare_table_def)
    next
      case False
      then have "pcbs s q = Some d" using q by simp
      then show ?thesis using s(1) unfolding tables_ok_def by blast
    qed
    then show "pid d < nextPid ?t" "\<exists>b. r1PageTable d = Some b \<and> from_malloc ?t b \<and> b \<noteq> REG_PTBR0 ?t \<and> has_table H ?t b"
      by (auto simp: from_malloc_def has_table_def)
  next
    fix q r b'
    assume "table_of ?t q = Some b'" "table_of ?t r = Some b'"
    then show "q = r" using s(1) b unfolding tab by (auto simp: tables_ok_def spare_table_def split: if_splits)
  qed
  moreover have "pool K (owns H ?t) (free_frames s)" using i sub by (auto intro: pool_sub simp: isolated_def)
  ultimately have iso: "isolated H K ?t"
    using i by (simp add: isolated_def kernel_known_def valid_at_def base_fixed_def stack_base_ok_def blocks_apart_def from_malloc_def frames_ok_def free_frames_def)
  have "brk_ok H ?t q" if "brk_ok H s q" "q \<noteq> p" for q
    by (rule brk_ok_mono [OF that(1) s(2)]) (use that(2) tab val in simp_all)
  then show ?thesis using iso p by (auto simp: child_def heir_old_def)
qed

lemma isolated_push:
  assumes i: "isolated H K s" "spare H K f s" and c: "pcbs s p = Some c"
  shows "heir H K s (s\<lparr>pcbs := (pcbs s)(p \<mapsto> c\<lparr>stackPfns := stackPfns c @ [f]\<rparr>)\<rparr>)"
proof -
  let ?t = "s\<lparr>pcbs := (pcbs s)(p \<mapsto> c\<lparr>stackPfns := stackPfns c @ [f]\<rparr>)\<rparr>"
  have s: "tables_ok H s" "hw_ok H" using i by (simp_all add: isolated_def base_fixed_def)
  have tab: "table_of ?t q = table_of s q" for q using c by (simp add: table_of_def)
  have val: "valid_at ?t = valid_at s" by (simp add: valid_at_def fun_eq_iff)
  have users: "user_addrs H ?t = user_addrs H s" using tab by (simp add: user_addrs_def)
  have stack: "stack_at ?t = (stack_at s)((p, length (stackPfns c)) \<mapsto> f)"
    using c by (auto simp: stack_at_def fun_eq_iff nth_append less_Suc_eq)
  have own: "owns H ?t = (owns H s)(Inr (p, length (stackPfns c)) \<mapsto> f)"
    by (auto simp: owns_def users val stack fun_eq_iff split: sum.split)
  have "pool K (owns H ?t) (free_frames s)" unfolding own using i by (intro pool_put) (auto simp: isolated_def spare_def)
  moreover have "tables_ok H ?t"
  proof -
    have "\<exists>d. pcbs s q = Some d \<and> pid d = pid e \<and> r1PageTable d = r1PageTable e" if "pcbs ?t q = Some e" for q e
      using that c by (auto split: if_splits)
    then show ?thesis by (intro tables_okI [OF s(1)]) (simp_all add: has_table_def)
  qed
  ultimately have iso: "isolated H K ?t"
    using i by (simp add: isolated_def kernel_known_def valid_at_def base_fixed_def stack_base_ok_def blocks_apart_def from_malloc_def frames_ok_def free_frames_def)
  have "brk_ok H ?t q" if "brk_ok H s q" for q
    by (rule brk_ok_mono [OF that s(2)]) (use tab val c in auto)
  then show ?thesis using iso c by (auto simp: heir_def)
qed

lemma wlp_add_stack_frame:
  assumes i: "isolated H K s" and p: "pcbs s p \<noteq> None"
  shows "wlp (add_stack_frame p) (\<lambda>_ t. heir H K s t \<and> pcbs t p \<noteq> None) R s"
  unfolding add_stack_frame_def wlp_bindk
proof (rule wlp_mono [OF wlp_get_spare [OF i]], goal_cases)
  case (1 r t)
  then obtain fl where t: "t = repaged s (ptes s) fl (tlb_log s)" "isolated H K t" "\<And>f. r = Some f \<Longrightarrow> spare H K f t" by blast
  have st: "heir H K s t" using t by (intro heir_filling [where b = 0]) (simp add: filling_def)
  have "heir H K s (t\<lparr>pcbs := (pcbs t)(p \<mapsto> c\<lparr>stackPfns := stackPfns c @ [f]\<rparr>)\<rparr>)" if "pcbs t p = Some c" "r = Some f" for c f
    using heir_trans [OF st isolated_push [OF t(2) t(3) [OF that(2)] that(1)]] .
  then show ?case using st t(1) p by (auto simp: wlp_cases wlp_basic wlp_bindk wlp_pcbs)
qed simp

lemma heir_bump:
  assumes i: "isolated H K s"
  shows "heir H K s (s\<lparr>nextPid := nextPid s + 1, malloc_count := m\<rparr>)" (is "heir H K s ?t")
proof -
  have s: "tables_ok H s" "hw_ok H" using i by (simp_all add: isolated_def base_fixed_def)
  have tab: "table_of ?t = table_of s" by (simp add: table_of_def fun_eq_iff)
  have val: "valid_at ?t = valid_at s" by (simp add: valid_at_def fun_eq_iff)
  have "user_addrs H ?t = user_addrs H s" "stack_at ?t = stack_at s" by (simp_all add: user_addrs_def tab stack_at_def fun_eq_iff)
  then have own: "owns H ?t = owns H s" unfolding owns_def val by simp
  have "tables_ok H ?t" by (rule tables_okI [OF s(1)]) (simp_all add: has_table_def)
  then have "isolated H K ?t"
    using i own by (simp add: isolated_def kernel_known_def valid_at_def base_fixed_def stack_base_ok_def blocks_apart_def from_malloc_def frames_ok_def free_frames_def)
  moreover have "brk_ok H ?t q" if "brk_ok H s q" for q by (rule brk_ok_mono [OF that s(2)]) (simp_all add: tab val)
  ultimately show ?thesis by (simp add: heir_def)
qed

lemma own_initPCB:
  assumes i: "isolated H K s" and r0: "has_table H s (REG_PTBR0 s)"
  shows "wlp (initPCB H) (\<lambda>m t. case m of None \<Rightarrow> heir H K s t | Some p \<Rightarrow> child H K p s t) R s" (is "wlp _ ?Q R s")
proof -
  have frames: "wlp (bindk (init_stack_frames H p) (\<lambda>r. if r = ERROR then bindk (delete_process H p) (\<lambda>_. retk None)
      else retk (Some p))) ?Q R t" if t: "child H K p s t" for p t
  proof (rule wlp_then, rule wlp_mono)
    show "wlp (init_stack_frames H p) (\<lambda>_ u. child H K p s u) R t"
      unfolding init_stack_frames_def
    proof (rule wlp_foldrc_in)
      show "child H K p s t" by (rule t)
      fix u
      assume u: "child H K p s u"
      then have "pcbs u p \<noteq> None" by (simp add: child_def)
      from wlp_add_stack_frame [OF childD(1) [OF u] this] show "wlp (add_stack_frame p) (\<lambda>_. child H K p s) R u"
        by (rule wlp_mono) (use child_trans [OF u] in auto)
    qed
    fix r u
    assume u: "child H K p s u"
    have "heir H K s v" if "heir H K u v" "pcbs v = (pcbs u)(p := None)" for v
    proof -
      have "heir_old H K s v" using heir_old_trans [OF childD(2) [OF u] that(1)] .
      moreover have "pcbs s q \<noteq> None" if "pcbs v q \<noteq> None" for q
        using that \<open>pcbs v = _\<close> u by (auto simp: child_def split: if_splits)
      ultimately show ?thesis unfolding heir_def heir_old_def by (metis option.distinct(1))
    qed
    then show "wlp (if r = ERROR then bindk (delete_process H p) (\<lambda>_. retk None) else retk (Some p)) ?Q R u"
      using u by (auto simp: wlp_cases(1) wlp_basic wlp_bindk intro!: wlp_mono [OF wlp_delete_process [OF childD(1) [OF u]]])
  qed simp
  have table: "wlp (bindk (initializeRegionPageTable H) (\<lambda>pt. bindk (modk (\<lambda>s. s\<lparr>pcbs := (pcbs s)(p \<mapsto> blank_pcb n None cm pt)\<rparr>)) (\<lambda>_.
      if pt = None then bindk (delete_process H p) (\<lambda>_. retk None)
      else bindk (init_stack_frames H p) (\<lambda>r. if r = ERROR then bindk (delete_process H p) (\<lambda>_. retk None)
        else retk (Some p))))) ?Q R v"
    if v: "v = s\<lparr>nextPid := nextPid s + 1, malloc_count := m\<rparr>" and n: "n = nextPid s" and p: "pcbs s p = None" for v p cm m n
  proof (rule wlp_then, rule wlp_blank_table, goal_cases)
    case (1 c)
    show ?case by (simp add: wlp_bindk wlp_basic wlp_cases delete_process_def wlp_pcbs blank_pcb_def)
  next
    case (2 b c)
    let ?w = "v\<lparr>malloc_count := c\<rparr>"
    have sv: "heir H K s ?w" using heir_bump [OF i, of c] v by simp
    have d: "from_malloc ?w b" "dom (ptes ?w) \<inter> table_addrs H b = {}" using 2 by (simp_all add: from_malloc_def)
    have w: "isolated H K ?w" using heirD(1) [OF sv] .
    let ?u = "?w\<lparr>ptes := blank_table H b (ptes ?w)\<rparr>"
    have wu: "isolated H K ?u" "heir H K s ?u" using isolated_blank [OF w d] heir_trans [OF sv] by blast+
    have "has_table H ?w (REG_PTBR0 ?w)" using r0 v by (simp add: has_table_def)
    from blank_spare [OF w d this] have st: "spare_table H b ?u" .
    have pu: "pcbs ?u p = None" "pcbs ?u = pcbs s" "n < nextPid ?u" using p v n by simp_all
    have new: "child H K p ?u (?u\<lparr>pcbs := (pcbs ?u)(p \<mapsto> blank_pcb n None cm (Some b))\<rparr>)"
      by (rule isolated_new_block [OF wu(1) pu(1) st]) (use pu(3) in \<open>simp_all add: blank_pcb_def\<close>)
    have "child H K p s (?u\<lparr>pcbs := (pcbs ?u)(p \<mapsto> blank_pcb n None cm (Some b))\<rparr>)"
      by (rule heir_child [OF wu(2) pu(2) new])
    from frames [OF this] show ?case by (simp add: wlp_bindk [of "modk _"] wlp_basic)
  qed
  have none: "heir H K s (s\<lparr>malloc_count := m\<rparr>)" for m
    by (rule heir_own [OF i]) (simp add: own_part_def)
  show ?thesis
    unfolding initPCB_def
    apply (simp add: wlp_bindk [of mallock] wlp_bindk [of "getk _"] wlp_bindk [of "modk _"] wlp_bindk [of malloc_okk]
        wlp_basic wlp_mallock wlp_cases none)
    apply (intro impI allI, rule wlp_then, rule wlp_hm_newk_any, simp add: wlp_cases wlp_basic)
    apply (intro impI, rule table [simplified]; simp)
    done
qed

definition regs_part :: "kstate \<Rightarrow> (ptr \<times> nat \<times> ptr \<times> nat) \<times> (nat \<Rightarrow> ptr option) \<times> (ptr \<times> ptr \<times> nat) \<times> (nat \<Rightarrow> nat \<Rightarrow> byte) \<times> ptr" where
  "regs_part s = ((REG_PTBR0 s, REG_PTLR0 s, REG_PTBR1 s, REG_PTLR1 s), malloc_oracle s, (r0StackBasePtep s, tempPtep s, tempVAddr s), pmem s, currPCB s)"

text \<open>A new block adds a blank table and leaves all entries that existed as they were.\<close>

definition grown :: "hw \<Rightarrow> kstate \<Rightarrow> ptr option \<Rightarrow> kstate \<Rightarrow> bool" where
  "grown H s m t \<longleftrightarrow> (\<forall>p. m = Some p \<longrightarrow> (\<exists>b c. pcbs t = (pcbs s)(p \<mapsto> c) \<and> r1PageTable c = Some b \<and> brk c = None \<and>
     dom (ptes s) \<inter> table_addrs H b = {} \<and> ptes t = blank_table H b (ptes s) \<and> regs_part t = regs_part s))"

lemma grown_None [simp]: "grown H s None t"
  by (simp add: grown_def)

lemma grown_initPCB: "wlp (initPCB H) (grown H s) (\<lambda>_. True) s"
proof -
  have drop: "wlp (bindk m (\<lambda>_. retk None)) (grown H s) (\<lambda>_. True) v" for v and m :: "unit kernel"
    by (rule wlp_ignore) simp
  have frames: "wlp (bindk (init_stack_frames H p) (\<lambda>r. if r = ERROR then bindk (delete_process H p) (\<lambda>_. retk None)
        else retk (Some p))) (grown H s) (\<lambda>_. True) (u\<lparr>pcbs := (pcbs u)(p \<mapsto> blank_pcb n None cm (Some b))\<rparr>)"
    if u: "dom (ptes s) \<inter> table_addrs H b = {}" "ptes u = blank_table H b (ptes s)" "regs_part u = regs_part s" "pcbs u = pcbs s" for u p cm b n
  proof -
    let ?c = "blank_pcb n None cm (Some b)" and ?u = "u\<lparr>pcbs := (pcbs u)(p \<mapsto> blank_pcb n None cm (Some b))\<rparr>"
    have p: "pcbs ?u p = Some ?c" by simp
    have "grown H s (Some p) (with_frames ?u p ?c fs fl x)" for fs fl x
      unfolding grown_def
      by (intro allI impI exI [of _ b] exI [of _ "?c\<lparr>stackPfns := stackPfns ?c @ fs\<rparr>"])
        (use u in \<open>auto simp: with_frames_def blank_pcb_def regs_part_def\<close>)
    then show ?thesis
      unfolding wlp_bindk [of "init_stack_frames _ _"] unfolding init_stack_frames_def
      by (intro wlp_mono [OF wlp_stack_frames [OF p]]) (auto simp: wlp_cases wlp_basic drop)
  qed
  have table: "wlp (bindk (initializeRegionPageTable H) (\<lambda>pt. bindk (modk (\<lambda>s. s\<lparr>pcbs := (pcbs s)(p \<mapsto> blank_pcb n None cm pt)\<rparr>)) (\<lambda>_.
      if pt = None then bindk (delete_process H p) (\<lambda>_. retk None)
      else bindk (init_stack_frames H p) (\<lambda>r. if r = ERROR then bindk (delete_process H p) (\<lambda>_. retk None)
        else retk (Some p))))) (grown H s) (\<lambda>_. True) v"
    if v: "ptes v = ptes s" "pcbs v = pcbs s" "regs_part v = regs_part s" for v p cm n
  proof (rule wlp_then, rule wlp_blank_table, goal_cases)
    case (1 c)
    show ?case by (simp add: wlp_bindk [of "modk _"] wlp_basic drop)
  next
    case (2 b c)
    then show ?case
      using frames [of b "v\<lparr>malloc_count := c, ptes := blank_table H b (ptes s)\<rparr>" p n cm] v
      by (simp add: wlp_bindk [of "modk _"] wlp_basic regs_part_def)
  qed
  show ?thesis
    unfolding initPCB_def
    by (simp add: wlp_bindk [of mallock] wlp_bindk [of "getk _"] wlp_bindk [of "modk _"] wlp_bindk [of malloc_okk]
        wlp_basic wlp_mallock wlp_cases,
      intro impI allI, rule wlp_then, rule wlp_hm_newk_any, simp add: wlp_cases wlp_basic,
      intro impI, rule table [simplified]; simp add: regs_part_def)
qed

section \<open>Copying the pages\<close>

lemma spare_part: "own_part H t = own_part H s \<Longrightarrow> isolated H K s \<Longrightarrow> spare H K f s \<Longrightarrow> spare H K f t"
  using owns_part(1,4) [of H t s] by (simp add: spare_def isolated_def)

text \<open>What the copying keeps: the blocks, the valid entries, and the table \<open>pt\<close> of the parent as it was.\<close>

definition blocks :: "kstate \<Rightarrow> ptr \<Rightarrow> (int \<times> nat list \<times> ptr option \<times> nat option) option" where
  "blocks s p = map_option oview (pcbs s p)"

lemma blocksD:
  assumes "blocks t = blocks s"
  shows "table_of t = table_of s" "map_option brk (pcbs t q) = map_option brk (pcbs s q)"
    "pcbs t q = Some c \<Longrightarrow> \<exists>d. pcbs s q = Some d \<and> pid d = pid c"
proof -
  have b: "map_option oview (pcbs t q) = map_option oview (pcbs s q)" for q using assms by (simp add: blocks_def fun_eq_iff)
  show "table_of t = table_of s"
  proof
    show "table_of t q = table_of s q" for q using b [of q] by (cases "pcbs s q"; cases "pcbs t q") (auto simp: table_of_def oview_def)
  qed
  show "map_option brk (pcbs t q) = map_option brk (pcbs s q)" "pcbs t q = Some c \<Longrightarrow> \<exists>d. pcbs s q = Some d \<and> pid d = pid c"
    using b [of q] by (cases "pcbs s q"; cases "pcbs t q"; auto simp: oview_def)+
qed

definition copying :: "hw \<Rightarrow> nat set \<Rightarrow> ptr \<Rightarrow> kstate \<Rightarrow> kstate \<Rightarrow> bool" where
  "copying H K pt s t \<longleftrightarrow> isolated H K t \<and> blocks t = blocks s \<and> REG_PTBR0 t = REG_PTBR0 s \<and>
     (\<forall>a \<in> user_addrs H s. valid_at s a \<noteq> None \<longrightarrow> valid_at t a \<noteq> None) \<and>
     (\<forall>a \<in> table_addrs H pt. valid_at t a = valid_at s a)"

lemma copying_refl: "isolated H K s \<Longrightarrow> copying H K pt s s"
  by (simp add: copying_def)

lemma copying_trans:
  assumes "copying H K pt s t" "copying H K pt t u"
  shows "copying H K pt s u"
proof -
  have "user_addrs H t = user_addrs H s" using assms(1) blocksD(1) [of t s] by (simp add: copying_def user_addrs_def)
  then show ?thesis using assms by (simp add: copying_def)
qed

lemma copying_own:
  assumes i: "isolated H K s" and e: "own_part H t = own_part H s" and p: "table_of s p = Some pt"
  shows "copying H K pt s t"
proof -
  have s: "base_fixed H s" "tables_ok H s" using i by (simp_all add: isolated_def)
  have "blocks t = blocks s" using own_partD(10) [OF e] by (simp add: blocks_def fun_eq_iff)
  moreover have "table_addrs H pt \<subseteq> user_addrs H s" using p by (auto simp: user_addrs_def)
  ultimately show ?thesis using isolated_part [OF e i] owns_part(3) [OF e s] own_partD(4) [OF e] by (auto simp: copying_def)
qed

lemma copying_filling:
  assumes f: "filling H K b s t" and b: "table_addrs H b \<inter> table_addrs H pt = {}"
  shows "copying H K pt s t"
proof -
  have e: "edits H b s t" using f by (simp add: filling_def)
  have "valid_at t a = valid_at s a" if "a \<in> table_addrs H pt" for a
  proof -
    have "a \<notin> table_addrs H b" using b that by blast
    from editsD(4) [OF e this] show ?thesis by (simp add: valid_at_def)
  qed
  moreover have "REG_PTBR0 t = REG_PTBR0 s" using e by (auto simp: edits_def)
  ultimately show ?thesis using f editsD(1) [OF e] by (auto simp: copying_def filling_def blocks_def fun_eq_iff)
qed

lemma copying_heir:
  assumes "copying H K pt s t" "hw_ok H"
  shows "heir H K s t"
proof -
  have t: "isolated H K t" and b: "blocks t = blocks s" and v: "\<And>a. a \<in> user_addrs H s \<Longrightarrow> valid_at s a \<noteq> None \<Longrightarrow> valid_at t a \<noteq> None"
    using assms(1) unfolding copying_def by blast+
  have "brk_ok H t q" if q: "brk_ok H s q" for q
  proof (rule brk_ok_mono [OF q assms(2) blocksD(2) [OF b]])
    show "table_of t q = table_of s q" using blocksD(1) [OF b] by simp
    show "valid_at t a \<noteq> None" if "table_of s q = Some b'" "a \<in> table_addrs H b'" "valid_at s a \<noteq> None" for b' a
      by (rule v [OF _ that(3)]) (use that(1,2) in \<open>auto simp: user_addrs_def\<close>)
  qed
  then show ?thesis using t blocksD(3) [OF b] by (simp add: heir_def)
qed

lemma wlp_setpte_quiet:
  assumes "\<And>e. ptes s a = Some e \<Longrightarrow> Q () (s\<lparr>ptes := (ptes s)(a \<mapsto> \<lparr>pte_valid = v, pte_prot = pr, pte_pfn = f\<rparr>)\<rparr>)"
  shows "wlp (setPageTableEntryNoFlush a v pr f) Q R s"
proof -
  have eq: "e\<lparr>pte_valid := v, pte_prot := pr, pte_pfn := f\<rparr> = \<lparr>pte_valid = v, pte_prot = pr, pte_pfn = f\<rparr>" for e :: pte
    by (cases e) simp
  show ?thesis unfolding setPageTableEntryNoFlush_def by (auto simp: wlp_simps eq intro: assms)
qed

text \<open>One page: a frame is mapped below the kernel stack, filled there, and entered in the table of the child.\<close>

lemma wlp_copy_page:
  assumes i: "isolated H K u" and p: "table_of u p = Some pt" and q: "table_of u q = Some ct" and pq: "p \<noteq> q" and j: "j < MAX_PT_LEN H"
    and e: "ptes u (pt + j * SIZEOF_PTE H) = Some e" "pte_valid e" and tp: "tp \<in> sched_ptes H (REG_PTBR0 u)"
  shows "wlp (bindk getFramek (\<lambda>f. case f of None \<Rightarrow> retk ERROR | Some x \<Rightarrow>
      bindk (setPageTableEntry H tp True {PROT_WRITE} x) (\<lambda>_.
      bindk (memmovek H tv (VMEM_1_BASE H + j * PAGESIZE H) (PAGESIZE H)) (\<lambda>_.
      bindk (setPageTableEntryNoFlush (ct + j * SIZEOF_PTE H) True (pte_prot e) x) (\<lambda>_. retk SUCCESS)))))
    (\<lambda>r v. copying H K pt u v \<and> (r \<noteq> ERROR \<longrightarrow> valid_at v (ct + j * SIZEOF_PTE H) \<noteq> None)) R u"
  unfolding wlp_bindk [of getFramek]
proof (rule wlp_mono [OF wlp_get_spare [OF i]], goal_cases)
  case (1 r u1)
  then obtain fl where u1: "u1 = repaged u (ptes u) fl (tlb_log u)" "isolated H K u1" "\<And>f. r = Some f \<Longrightarrow> spare H K f u1" by blast
  have ap: "table_addrs H ct \<inter> table_addrs H pt = {}"
    using i entry_owner [of H u p pt q ct] p q pq by (fastforce simp: isolated_def)
  have uu1: "copying H K pt u u1"
    using u1 by (intro copying_filling [OF _ ap]) (simp add: filling_def)
  have base: "base_fixed H u1" "tp \<in> sched_ptes H (REG_PTBR0 u1)" using u1 tp by (simp_all add: isolated_def)
  show ?case
  proof (cases r)
    case None
    then show ?thesis using uu1 by (simp add: wlp_basic)
  next
    case (Some x)
    have last: "wlp (bindk (setPageTableEntryNoFlush (ct + j * SIZEOF_PTE H) True (pte_prot e) x) (\<lambda>_. retk SUCCESS))
        (\<lambda>r v. copying H K pt u v \<and> (r \<noteq> ERROR \<longrightarrow> valid_at v (ct + j * SIZEOF_PTE H) \<noteq> None)) R u3"
      if o: "own_part H u3 = own_part H u1" for u3
    proof -
      have i3: "isolated H K u3" "spare H K x u3" using isolated_part [OF o u1(2)] spare_part [OF o u1(2) u1(3) [OF Some]] by simp_all
      have t3: "table_of u3 q = Some ct" "table_of u1 p = Some pt" using own_table [OF o] u1(1) q p by simp_all
      note new = filling_entry [OF i3 t3(1) j, of "pte_prot e" "tlb_log u3"]
      have "copying H K pt u (repaged u3 ((ptes u3)(ct + j * SIZEOF_PTE H \<mapsto> \<lparr>pte_valid = True, pte_prot = pte_prot e, pte_pfn = x\<rparr>)) (frameList u3) (tlb_log u3))"
        using copying_trans [OF copying_trans [OF uu1 copying_own [OF u1(2) o t3(2)]] copying_filling [OF new(1) ap]] .
      then show ?thesis
        unfolding wlp_bindk wlp_basic by (intro wlp_setpte_quiet) (use new(2) in \<open>simp add: repaged_def\<close>)
    qed
    have mem: "wlp (bindk (memmovek H tv (VMEM_1_BASE H + j * PAGESIZE H) (PAGESIZE H)) (\<lambda>_.
        bindk (setPageTableEntryNoFlush (ct + j * SIZEOF_PTE H) True (pte_prot e) x) (\<lambda>_. retk SUCCESS)))
        (\<lambda>r v. copying H K pt u v \<and> (r \<noteq> ERROR \<longrightarrow> valid_at v (ct + j * SIZEOF_PTE H) \<noteq> None)) R u2"
      if o: "own_part H u2 = own_part H u1" for u2
      by (rule steady_then [OF still_memory(3)], rule last, rule trans [OF still_own o])
    show ?thesis
      unfolding Some option.case
      by (rule wlp_then, rule wlp_mono [OF wlp_set_r0 [OF base(2,1), where R = R]], rule mem) (auto simp: same_own_def)
  qed
qed simp

lemma wlp_copy_pages:
  assumes i: "isolated H K s" and p: "table_of s p = Some pt" and q: "table_of s q = Some ct" and pq: "p \<noteq> q"
  shows "wlp (copy_r1_pages H pt ct) (\<lambda>r t. copying H K pt s t \<and> (r \<noteq> ERROR \<longrightarrow>
      (\<forall>j<MAX_PT_LEN H. valid_at t (pt + j * SIZEOF_PTE H) \<noteq> None \<longrightarrow> valid_at t (ct + j * SIZEOF_PTE H) \<noteq> None))) R s"
proof -
  have tp: "tempPtep s \<in> sched_ptes H (REG_PTBR0 s)" using i by (simp add: isolated_def base_fixed_def)
  let ?S = "SIZEOF_PTE H"
  define I where "I n v \<longleftrightarrow> copying H K pt s v \<and> (\<forall>j<n. valid_at v (pt + j * ?S) \<noteq> None \<longrightarrow> valid_at v (ct + j * ?S) \<noteq> None)" for n v
  have step: "wlp (bindk (fetch ptes (pt + j * ?S)) (\<lambda>e. if pte_valid e then bindk getFramek (\<lambda>f. case f of None \<Rightarrow> retk ERROR
        | Some x \<Rightarrow> bindk (setPageTableEntry H (tempPtep s) True {PROT_WRITE} x) (\<lambda>_.
            bindk (memmovek H tv (VMEM_1_BASE H + j * PAGESIZE H) (PAGESIZE H)) (\<lambda>_.
            bindk (setPageTableEntryNoFlush (ct + j * ?S) True (pte_prot e) x) (\<lambda>_. retk SUCCESS))))
      else retk SUCCESS)) (\<lambda>r v. if r = ERROR then copying H K pt s v else I (Suc j) v) R u"
    if j: "j < MAX_PT_LEN H" and u: "I j u" for j u tv
  proof -
    have c: "copying H K pt s u" and old: "\<And>k. k < j \<Longrightarrow> valid_at u (pt + k * ?S) \<noteq> None \<Longrightarrow> valid_at u (ct + k * ?S) \<noteq> None"
      using u by (auto simp: I_def)
    have iu: "isolated H K u" "table_of u = table_of s" "REG_PTBR0 u = REG_PTBR0 s"
      using c blocksD(1) [of u s] by (auto simp: copying_def)
    have tabs: "table_of u p = Some pt" "table_of u q = Some ct" using iu(2) p q by simp_all
    have keep: "I j v" if v: "copying H K pt u v" for v
    proof -
      have "valid_at v (ct + k * ?S) \<noteq> None" if k: "k < j" "valid_at v (pt + k * ?S) \<noteq> None" for k
      proof -
        have "k < MAX_PT_LEN H" using k j by simp
        then have "pt + k * ?S \<in> table_addrs H pt" "ct + k * ?S \<in> user_addrs H u"
          using entry_in_table user_entry_addr [OF tabs(2)] by blast+
        then show ?thesis using v old [OF k(1)] k(2) by (auto simp: copying_def)
      qed
      then show ?thesis using copying_trans [OF c v] by (simp add: I_def)
    qed
    have up: "I j v \<Longrightarrow> (valid_at v (pt + j * ?S) \<noteq> None \<Longrightarrow> valid_at v (ct + j * ?S) \<noteq> None) \<Longrightarrow> I (Suc j) v" for v
      by (auto simp: I_def less_Suc_eq)
    show ?thesis
      unfolding wlp_bindk [of "fetch _ _"] wlp_basic wlp_cases(1)
    proof (intro allI impI conjI, goal_cases)
      case (1 e)
      show ?case
        by (rule wlp_mono [OF wlp_copy_page [OF iu(1) tabs pq j 1]])
          (use tp iu(3) keep up copying_trans [OF c] in auto)
    next
      case (2 e)
      then have "valid_at u (pt + j * ?S) = None" by (simp add: valid_at_def)
      then have "I (Suc j) u" by (intro up [OF u]) simp
      then show ?case by simp
    qed
  qed
  have "wlp (copy_r1_pages H pt ct) (\<lambda>r v. if r = ERROR then copying H K pt s v else I (MAX_PT_LEN H) v) R s"
    unfolding copy_r1_pages_def wlp_bindk [of "getk _"] wlp_basic prod.case
    by (rule wlp_foldrc_upt [where I = I], erule (1) step) (use i copying_refl in \<open>simp add: I_def\<close>)
  then show ?thesis by (rule wlp_mono) (auto simp: I_def split: if_splits)
qed

section \<open>Fork\<close>

lemma child_upd:
  assumes t: "child H K p s t" and c: "pcbs t p = Some c" "pid c' = pid c" "stackPfns c' = stackPfns c" "r1PageTable c' = r1PageTable c"
  shows "child H K p s (t\<lparr>pcbs := (pcbs t)(p \<mapsto> c')\<rparr>)"
proof -
  let ?t = "t\<lparr>pcbs := (pcbs t)(p \<mapsto> c')\<rparr>"
  have val: "valid_at ?t = valid_at t" by (simp add: valid_at_def fun_eq_iff)
  have "isolated H K ?t" using isolated_pcb [OF childD(1) [OF t] c] .
  moreover have "brk_ok H ?t q = brk_ok H t q" if "q \<noteq> p" for q using that by (simp add: brk_ok_def val)
  ultimately show ?thesis using t by (auto simp: child_def heir_old_def)
qed

text \<open>A process with a break and valid pages wherever its parent has them.\<close>

lemma brk_ok_copied:
  assumes H: "hw_ok H" and par: "brk_ok H u q" "table_of u q = Some pt" "map_option brk (pcbs u p) = map_option brk (pcbs u q)"
    and cp: "copying H K pt u v" and p: "table_of u p = Some ct"
    and all: "\<And>j. j < MAX_PT_LEN H \<Longrightarrow> valid_at v (pt + j * SIZEOF_PTE H) \<noteq> None \<Longrightarrow> valid_at v (ct + j * SIZEOF_PTE H) \<noteq> None"
  shows "brk_ok H v p"
  unfolding brk_ok_def
proof (intro allI impI)
  fix c b a
  assume c: "pcbs v p = Some c" "r1PageTable c = Some b" "brk c = Some a"
  have bl: "blocks v = blocks u" using cp by (simp add: copying_def)
  have "table_of v p = Some b" using c by (simp add: table_of_def)
  then have b: "b = ct" using blocksD(1) [OF bl] p by simp
  have "map_option brk (pcbs u q) = Some (Some a)" using c(1,3) blocksD(2) [OF bl, of p] par(3) by simp
  then obtain d where d: "pcbs u q = Some d" "brk d = Some a" by auto
  then have o: "VMEM_1_BASE H \<le> a" "a \<le> VMEM_1_LIMIT H" "\<And>w. USER_BASE_VPN H \<le> w \<Longrightarrow> w < up_vpn H a \<Longrightarrow> valid_at u (user_entry_of H pt w) \<noteq> None"
    using par(1,2) by (auto simp: brk_ok_def table_of_def)
  have "valid_at v (user_entry_of H b w) \<noteq> None" if w: "USER_BASE_VPN H \<le> w" "w < up_vpn H a" for w
  proof -
    have "w - USER_BASE_VPN H < MAX_PT_LEN H" using user_entry_index [OF w(1) _ H] vpn_limit [OF H o(2)] w(2) by simp
    moreover from this have "valid_at v (user_entry_of H pt w) \<noteq> None"
      using cp o(3) [OF w] entry_in_table by (auto simp: copying_def user_entry_of_def)
    ultimately show ?thesis using all by (simp add: user_entry_of_def b)
  qed
  with o show "VMEM_1_BASE H \<le> a \<and> a \<le> VMEM_1_LIMIT H \<and>
      (\<forall>w. USER_BASE_VPN H \<le> w \<longrightarrow> w < up_vpn H a \<longrightarrow> valid_at v (user_entry_of H b w) \<noteq> None)" by blast
qed

definition born_ok :: "hw \<Rightarrow> nat set \<Rightarrow> kstate \<Rightarrow> kstate \<Rightarrow> bool" where
  "born_ok H K s t \<longleftrightarrow> heir_old H K s t \<and> (\<forall>q. pcbs t q \<noteq> None \<longrightarrow> pcbs s q = None \<longrightarrow> brk_ok H t q)"

lemma born_child: "child H K p s v \<Longrightarrow> brk_ok H v p \<Longrightarrow> heir H K v t \<Longrightarrow> born_ok H K s t"
proof -
  assume v: "child H K p s v" "brk_ok H v p" and t: "heir H K v t"
  have "brk_ok H t q" if q: "pcbs t q \<noteq> None" "pcbs s q = None" for q
  proof -
    have "pcbs v q \<noteq> None" using heir_gone [OF t, of q] q(1) by blast
    then have "q = p" using v(1) q(2) unfolding child_def by metis
    then show ?thesis using heirD(3) [OF t] v(2) q(1) by blast
  qed
  then show ?thesis using heir_old_trans [OF childD(2) [OF v(1)] t] by (simp add: born_ok_def)
qed

text \<open>The end of the call, from the copy on.\<close>

lemma tracked_fork_end:
  "tracked H (bindk (bindk (getk tempPtep) (\<lambda>tp. setPageTableEntry H tp False {} 0)) (\<lambda>_.
     bindk (upd_pcb p (\<lambda>c. c\<lparr>parent := Some pp\<rparr>)) (\<lambda>_.
     bindk (hm_insertk (get_children pp) (set_children pp) key p) (\<lambda>_.
     bindk (upd_pcb pp (\<lambda>c. c\<lparr>numChildren := numChildren c + 1\<rparr>)) (\<lambda>_.
     bindk (forkProcess H (KFork pp p) p) (\<lambda>r. if r = ERROR then retk ERROR else fork_return pp p))))))"
  by (intro tracked_rules tracked_still still_children still_fork_return) (simp_all add: oview_def)

lemma wlp_KernelFork:
  assumes i: "isolated H K s" and r0: "has_table H s (REG_PTBR0 s)" and b: "brk_ok H s (currPCB s)" "pcbs s (currPCB s) \<noteq> None"
  shows "wlp (KernelFork H) (\<lambda>_. heir_old H K s) (born_ok H K s) s"
proof -
  let ?P = "currPCB s"
  have H: "hw_ok H" using i by (simp add: isolated_def base_fixed_def)
  have finish: "wlp (bindk (copy_r1_pages H pt ct) (\<lambda>r. if r = ERROR then retk ERROR else
      bindk (bindk (getk tempPtep) (\<lambda>tp. setPageTableEntry H tp False {} 0)) (\<lambda>_.
      bindk (upd_pcb p (\<lambda>c. c\<lparr>parent := Some ?P\<rparr>)) (\<lambda>_.
      bindk (hm_insertk (get_children ?P) (set_children ?P) key p) (\<lambda>_.
      bindk (upd_pcb ?P (\<lambda>c. c\<lparr>numChildren := numChildren c + 1\<rparr>)) (\<lambda>_.
      bindk (forkProcess H (KFork ?P p) p) (\<lambda>r. if r = ERROR then retk ERROR else fork_return ?P p)))))))
      (\<lambda>_. heir_old H K s) (born_ok H K s) u"
    if u: "child H K p s u" and tabs: "table_of u ?P = Some pt" "table_of u p = Some ct"
      and br: "map_option brk (pcbs u p) = map_option brk (pcbs u ?P)" for u p pt ct key
  proof -
    have ne: "?P \<noteq> p" using childD(3) [OF u] b(2) by auto
    have par: "brk_ok H u ?P" "pcbs u ?P \<noteq> None"
      using u b tabs(1) by (auto simp: child_def heir_old_def table_of_def split: option.splits)
    show ?thesis
      unfolding wlp_bindk [of "copy_r1_pages _ _ _"]
    proof (rule wlp_mono [OF wlp_copy_pages [OF childD(1) [OF u] tabs ne]], goal_cases)
      case (1 r v)
      then have cp: "copying H K pt u v" by blast
      have uv: "heir H K u v" using copying_heir [OF cp H] .
      have old: "heir_old H K s v" using heir_old_trans [OF childD(2) [OF u] uv] .
      show ?case
      proof (cases "r = ERROR")
        case True
        then show ?thesis using old by (simp add: wlp_basic)
      next
        case False
        have "brk_ok H v p" by (rule brk_ok_copied [OF H par(1) tabs(1) br cp tabs(2)]) (use 1 False in blast)
        moreover have "table_of v p = Some ct" using blocksD(1) [of v u] cp tabs(2) by (simp add: copying_def)
        then have "pcbs v p \<noteq> None" by (auto simp: table_of_def split: option.splits)
        then have "child H K p s v" using child_trans [OF u uv] by blast
        ultimately have "heir H K v t \<Longrightarrow> born_ok H K s t" for t using born_child by blast
        moreover have "heir H K v t \<Longrightarrow> heir_old H K s t" for t using heir_old_trans [OF old] .
        ultimately show ?thesis
          using False wlp_mono [OF wlp_tracked [OF tracked_fork_end heirD(1) [OF uv]]] by simp
      qed
    qed simp
  qed
  show ?thesis
    unfolding KernelFork_def
    apply (simp only: wlp_bindk [of "getk _"] wlp_bindk [of "initPCB _"] wlp_basic)
    apply (rule wlp_mono [OF own_initPCB [OF i r0]])
     apply (simp only: wlp_cases(2) wlp_basic, intro conjI allI impI)
      apply (simp add: heir_old_heir)
     apply (simp only: wlp_bindk [of "get_pcb _"] wlp_bindk [of malloc_okk] wlp_mallock wlp_pcbs, intro allI impI)
     apply (simp only: wlp_bindk [of "nonnull _"] wlp_bindk [of "upd_pcb _ _"] wlp_bindk [of "get_pcb _"] wlp_pcbs, intro allI impI)
    subgoal premises run for x t p pp uc c ch pt ct
    proof (rule finish)
      let ?m = "t\<lparr>malloc_count := Suc (malloc_count t)\<rparr>"
      let ?c = "c\<lparr>kctxt := if malloc_oracle t (malloc_count t) \<noteq> None then Some KStart else None, uctxt := Some uc, brk := brk pp\<rparr>"
      have t: "child H K p s t" using run(1) by simp
      have "own_part H ?m = own_part H t" by (simp add: own_part_def)
      then have "heir H K t ?m" by (rule heir_own [OF childD(1) [OF t]])
      then have m: "child H K p s ?m" using child_trans [OF t] run(5) by auto
      from child_upd [OF m run(5), of ?c] show "child H K p s (?m\<lparr>pcbs := (pcbs ?m)(p \<mapsto> ?c)\<rparr>)" by simp
      have ne: "?P \<noteq> p" using childD(3) [OF t] b(2) by auto
      show "table_of (?m\<lparr>pcbs := (pcbs ?m)(p \<mapsto> ?c)\<rparr>) ?P = Some pt" using ne run(3,7) by (simp add: table_of_def)
      show "table_of (?m\<lparr>pcbs := (pcbs ?m)(p \<mapsto> ?c)\<rparr>) p = Some ct" using run(6,8) by (simp add: table_of_def)
      show "map_option brk (pcbs (?m\<lparr>pcbs := (pcbs ?m)(p \<mapsto> ?c)\<rparr>) p) = map_option brk (pcbs (?m\<lparr>pcbs := (pcbs ?m)(p \<mapsto> ?c)\<rparr>) ?P)"
        using ne run(3) by simp
    qed
    apply assumption
    done
qed

end
