(* ===== verification/Isolation.thy ===== *)
theory Isolation
  imports Forks WorldRuns
begin

text \<open>
  One owner per frame as an invariant of runs: the invariant of the scheduler and \<open>sound\<close> together fulfil
  the contracts of \<open>Contract\<close>, so every trap, call and continuation keeps them.
\<close>

section \<open>The combined invariant\<close>

definition sound :: "hw \<Rightarrow> nat set \<Rightarrow> kstate \<Rightarrow> bool" where
  "sound H K s \<longleftrightarrow> isolated H K s \<and> (\<forall>p \<in> set (places s). brk_ok H s p)"

lemma kept_Un: "kept (A \<union> B) s ps \<longleftrightarrow> kept A s ps \<and> kept B s ps"
  by (simp add: kept_def ball_Un)

lemma live_Un: "live H (A \<union> B) i s \<longleftrightarrow> live H A i s \<and> live H B i s"
  by (auto simp: live_def procs_def kept_Un)

lemma live_place: "live H A i s \<Longrightarrow> p \<in> set (places s) \<Longrightarrow> pcbs s p \<noteq> None"
  by (auto simp: live_def procs_def proc_ok_def)

text \<open>A process that is in a place and was there before was in a place before.\<close>

lemma live_was_place:
  assumes s: "isolated H K s" and t: "live H (known s) i t" "p \<in> set (places t)"
    and p: "pcbs t p = Some c" "pcbs s p = Some d" "pid d = pid c"
  shows "p \<in> set (places s)"
proof -
  have "pid d < nextPid s" using s p(2) unfolding isolated_def tables_ok_def by blast
  then have "(p, pid c, p \<in> set (places s)) \<in> known s" using knownI [OF p(2)] p(3) by simp
  then show ?thesis using live_kept [OF t(1) _ p(1)] t(2) by blast
qed

lemma sound_heir:
  assumes s: "sound H K s" and h: "heir H K s t" and t: "live H (known s) i t"
  shows "sound H K t"
  unfolding sound_def
proof (intro conjI ballI)
  show "isolated H K t" using heirD(1) [OF h] .
  fix p
  assume p: "p \<in> set (places t)"
  obtain c where c: "pcbs t p = Some c" using live_place [OF t p] by blast
  obtain d where d: "pcbs s p = Some d" "pid d = pid c" using heirD(2) [OF h c] by blast
  have "p \<in> set (places s)" using s by (intro live_was_place [OF _ t p c d, of K]) (simp add: sound_def)
  then show "brk_ok H t p" using heirD(3) [OF h c] s by (simp add: sound_def)
qed

lemma sound_part:
  assumes e: "still_part t = still_part s" and s: "sound H K s"
  shows "sound H K t"
proof -
  have i: "isolated H K s" using s by (simp add: sound_def)
  have own: "own_part H t = own_part H s" using still_own [OF e] .
  have "places t = places s"
    using queue_partD [OF sched_partD(6) [OF still_partD [OF e]]] sched_partD(4) [OF still_partD [OF e]] by (simp add: places_def)
  moreover have "brk_ok H t p" if "brk_ok H s p" for p
  proof (cases "pcbs t p")
    case None
    then show ?thesis by (simp add: brk_ok_def)
  next
    case (Some c)
    then show ?thesis using heirD(3) [OF heir_own [OF i own]] that by blast
  qed
  ultimately show ?thesis using isolated_part [OF own i] s by (simp add: sound_def)
qed

text \<open>An invariant of the scheduler and what the code does to the owners, put together.\<close>

lemma preserves_sound:
  assumes pres: "\<And>B. preserves (\<lambda>s. live H B i s \<and> V s) (\<lambda>s. live H B i s \<and> W s) m"
    and own: "\<And>s. live H A i s \<Longrightarrow> V s \<Longrightarrow> sound H K s \<Longrightarrow> wlp m (\<lambda>_. heir H K s) (heir H K s) s"
  shows "preserves (\<lambda>s. (live H A i s \<and> V s) \<and> sound H K s) (\<lambda>s. (live H A i s \<and> W s) \<and> sound H K s) m"
proof (rule preservesI)
  fix s
  assume s: "(live H A i s \<and> V s) \<and> sound H K s"
  then have "live H (A \<union> known s) i s \<and> V s" using live_known by (auto simp: live_Un)
  with pres have p: "wlp m (\<lambda>_ t. live H (A \<union> known s) i t \<and> V t) (\<lambda>t. live H (A \<union> known s) i t \<and> W t) s"
    by (simp add: preserves_def)
  have h: "wlp m (\<lambda>_. heir H K s) (heir H K s) s" using own s by blast
  show "wlp m (\<lambda>_ s. (live H A i s \<and> V s) \<and> sound H K s) (\<lambda>s. (live H A i s \<and> W s) \<and> sound H K s) s"
    by (rule wlp_conj [OF p h]) (use s sound_heir in \<open>auto simp: live_Un\<close>)
qed

lemma calm_live: "calm H A i = (\<lambda>s. live H A i s \<and> currPCB s \<notin> set (transmitters s))"
  by (simp add: calm_def fun_eq_iff)

lemma busy_live: "busy H A i = (\<lambda>s. live H A i s \<and> currPCB s \<notin> set (transmitters s) \<and> currPCB s \<noteq> i)"
  by (auto simp: busy_def calm_def fun_eq_iff)

lemma resuming_live: "resuming H A i = (\<lambda>s. live H A i s \<and> (currPCB s \<in> set (transmitters s) \<longleftrightarrow> sending (saved_at s (currPCB s)) \<noteq> None))"
  by (simp add: resuming_def fun_eq_iff)

definition calm_sound :: "hw \<Rightarrow> nat set \<Rightarrow> memory \<Rightarrow> ptr \<Rightarrow> kstate \<Rightarrow> bool" where
  "calm_sound H K A i s \<longleftrightarrow> calm H A i s \<and> sound H K s"

definition busy_sound :: "hw \<Rightarrow> nat set \<Rightarrow> memory \<Rightarrow> ptr \<Rightarrow> kstate \<Rightarrow> bool" where
  "busy_sound H K A i s \<longleftrightarrow> busy H A i s \<and> sound H K s"

definition resuming_sound :: "hw \<Rightarrow> nat set \<Rightarrow> memory \<Rightarrow> ptr \<Rightarrow> kstate \<Rightarrow> bool" where
  "resuming_sound H K A i s \<longleftrightarrow> resuming H A i s \<and> sound H K s"

lemma sound_calm:
  assumes "\<And>B. preserves (calm H B i) (resuming H B i) m"
    and "\<And>s. calm H A i s \<Longrightarrow> sound H K s \<Longrightarrow> wlp m (\<lambda>_. heir H K s) (heir H K s) s"
  shows "preserves (calm_sound H K A i) (resuming_sound H K A i) m"
  unfolding calm_sound_def [abs_def] resuming_sound_def [abs_def] calm_live resuming_live
  by (rule preserves_sound) (use assms in \<open>simp_all add: calm_live resuming_live\<close>)

lemma sound_busy:
  assumes "\<And>B. preserves (busy H B i) (resuming H B i) m"
    and "\<And>s. busy H A i s \<Longrightarrow> sound H K s \<Longrightarrow> wlp m (\<lambda>_. heir H K s) (heir H K s) s"
  shows "preserves (busy_sound H K A i) (resuming_sound H K A i) m"
  unfolding busy_sound_def [abs_def] resuming_sound_def [abs_def] busy_live resuming_live
  by (rule preserves_sound) (use assms in \<open>simp_all add: busy_live resuming_live\<close>)

lemma sound_tracked: "tracked H m \<Longrightarrow> sound H K s \<Longrightarrow> wlp m (\<lambda>_. heir H K s) (heir H K s) s"
  by (simp add: wlp_tracked sound_def)

lemmas calm_tracked = sound_calm [OF _ sound_tracked]
lemmas busy_tracked = sound_busy [OF _ sound_tracked]

section \<open>Interrupts and exit\<close>

lemma calm_sound_part: "still_part t = still_part s \<Longrightarrow> calm_sound H K A i s \<Longrightarrow> calm_sound H K A i t"
  using calm_part [OF still_partD] sound_part by (auto simp: calm_sound_def)

lemma busy_sound_part: "still_part t = still_part s \<Longrightarrow> busy_sound H K A i s \<Longrightarrow> busy_sound H K A i t"
  using busy_part [OF still_partD] sound_part by (auto simp: busy_sound_def)

interpretation sound_interrupts: interrupt_contract H "calm_sound H K A i" "resuming_sound H K A i" for H K A i
proof (unfold_locales, goal_cases)
  case (1 t s)
  then show ?case by (rule calm_sound_part)
next
  case (2 j)
  show ?case by (intro calm_tracked calm_unblockReader tracked_rules)
next
  case 3
  show ?case by (intro calm_tracked calm_tickDownSleepers tracked_rules)
next
  case 4
  show ?case by (intro calm_tracked ops_kickProcess tracked_rules)
next
  case (5 j)
  show ?case by (intro calm_tracked ops_signalTransmitter tracked_rules)
qed

lemma busy_exit: "preserves (busy_sound H K A i) (resuming_sound H K A i) (exitProcess H st)"
proof (rule sound_busy [OF ops_exitProcess])
  fix s
  assume "sound H K s"
  then have "isolated H K s" by (simp add: sound_def)
  from wlp_exitProcess [OF this] show "wlp (exitProcess H st) (\<lambda>_. heir H K s) (heir H K s) s"
    by (rule wlp_mono) simp_all
qed

interpretation sound_exits: exit_contract H "busy_sound H K A i" "resuming_sound H K A i" for H K A i
proof (unfold_locales, goal_cases)
  case (1 t s)
  then show ?case by (rule busy_sound_part)
next
  case (2 j)
  show ?case by (intro busy_tracked ops_unblockReader tracked_rules)
next
  case (3 st)
  show ?case by (rule busy_exit)
qed

section \<open>Fork\<close>

text \<open>A fork that fails has not moved any process.\<close>

definition place_part :: "kstate \<Rightarrow> _" where
  "place_part s = (queue_part s, currPCB s, malloc_oracle s)"

lemma settled_place: "settled m \<Longrightarrow> steady place_part m"
  by (erule steady_weaken) (simp add: place_part_def sched_part_def queue_part_def)

lemma place_upd_pcb: "steady place_part (upd_pcb p f)"
  by (auto simp: steady_def upd_pcb_def get_pcb_def wlp_simps place_part_def queue_part_def)

lemma place_initPCB: "steady place_part (initPCB H)"
  unfolding initPCB_def initializeRegionPageTable_def delete_process_def init_stack_frames_def add_stack_frame_def
  by (intro steady_rules place_upd_pcb settled_place [OF settled_mallock(1)] settled_place [OF settled_mallock(2)]
      settled_place [OF settled_hm_newk] settled_place [OF settled_free_r1_frames(1)] settled_place [OF settled_free_r1_frames(2)]
      settled_place [OF settled_frames(1)]; simp add: place_part_def queue_part_def)

lemma wlp_forkProcess_place:
  assumes "mallocs_ok s" "readyQ s = Some q"
  shows "wlp (forkProcess H k p) (\<lambda>_ t. place_part t = place_part s) (\<lambda>_. True) s"
proof -
  have "leaves (forkTo H k p :: rc kernel)" unfolding forkTo_def by (intro leaves_bindk leaves_switchk)
  then have "wlp (forkTo H k p :: rc kernel) Q (\<lambda>_. True) t" for Q t by (simp add: leaves_def wlp_def)
  then show ?thesis
    unfolding forkProcess_def
    by (auto simp: wlp_bindk [of "getk _"] wlp_bindk [of "get_pcb _"] wlp_bindk [of "enq_ready _"] wlp_basic wlp_pcbs wlp_cases wlp_enq_ready [OF assms])
qed

lemma place_then:
  "steady place_part m \<Longrightarrow> place_part t = place_part s \<Longrightarrow> (\<And>x u. place_part u = place_part s \<Longrightarrow> wlp (f x) Q R u) \<Longrightarrow> wlp (bindk m f) Q R t"
  by (rule steady_then) auto

lemma wlp_KernelFork_place:
  assumes m: "mallocs_ok s" "readyQ s = Some q"
  shows "wlp (KernelFork H) (\<lambda>_ t. place_part t = place_part s) (\<lambda>_. True) s"
proof -
  have finish: "wlp (bindk (forkProcess H (KFork pp p) p) (\<lambda>r. if r = ERROR then retk ERROR else fork_return pp p))
      (\<lambda>_ t. place_part t = place_part s) (\<lambda>_. True) t" if t: "place_part t = place_part s" for pp p t
  proof -
    have "mallocs_ok t" "readyQ t = Some q" using m t by (simp_all add: place_part_def mallocs_ok_def queue_part_def)
    from wlp_forkProcess_place [OF this, of H "KFork pp p" p] show ?thesis
      unfolding wlp_bindk
      by (rule wlp_mono) (use steady_wlp [OF settled_place [OF settled_fork_return]] t in \<open>auto simp: wlp_cases(1) wlp_basic\<close>)
  qed
  show ?thesis
    unfolding KernelFork_def
    apply (rule place_then [OF steady_basic(2) refl])
    apply (rule place_then [OF place_initPCB], assumption)
    apply (simp only: wlp_cases(2) wlp_basic, intro conjI allI impI, blast)
    apply (rule place_then [OF steady_accessors(1)], assumption)
    apply (rule place_then [OF settled_place [OF settled_mallock(2)]], assumption)
    apply (rule place_then [OF steady_basic(7)], assumption)
    apply (rule place_then [OF place_upd_pcb], assumption)
    apply (rule place_then [OF steady_accessors(1)], assumption)
    apply (rule place_then [OF steady_basic(7)], assumption)
    apply (rule place_then [OF steady_basic(7)], assumption)
    apply (rule place_then [OF settled_place [OF settled_copy_r1_pages]], assumption)
    apply (simp only: wlp_cases(1) wlp_basic, rule conjI, blast, rule impI)
    apply (rule place_then [OF settled_place [OF settled_unmap]], assumption)
    apply (rule place_then [OF place_upd_pcb], assumption)
    apply (rule place_then [OF settled_place [OF settled_children]], assumption)
    apply (rule place_then [OF place_upd_pcb], assumption)
    apply (rule finish, assumption)
    done
qed

lemma busy_fork: "preserves (busy_sound H K A i) (resuming_sound H K A i) (KernelFork H)"
proof (rule preservesI)
  fix s
  assume b: "busy_sound H K A i s"
  then have l: "live H A i s" and so: "isolated H K s" "\<And>p. p \<in> set (places s) \<Longrightarrow> brk_ok H s p"
    by (auto simp: busy_sound_def busy_def calm_def sound_def)
  have "live H (A \<union> known s) i s" using l live_known by (simp add: live_Un)
  then have "busy H (A \<union> known s) i s" using b by (simp add: busy_sound_def busy_live)
  then have sched: "wlp (KernelFork H) (\<lambda>_. busy H (A \<union> known s) i) (resuming H (A \<union> known s) i) s"
    using ops_KernelFork by (simp add: preserves_def)
  obtain q where q: "mallocs_ok s" "readyQ s = Some q" using live_mallocs [OF l] l by (auto simp: live_def queues_def)
  have cur: "currPCB s \<in> set (places s)" by (simp add: places_def)
  have r0: "has_table H s (REG_PTBR0 s)" using l by (simp add: live_def procs_def machine_base_def)
  note own = wlp_KernelFork [OF so(1) r0 so(2) [OF cur] live_place [OF l cur]]
  have returned_ok: "busy_sound H K A i t" if t: "busy H (A \<union> known s) i t" "heir_old H K s t" "place_part t = place_part s" for t
  proof -
    have lt: "live H A i t" using t(1) by (simp add: busy_live live_Un)
    have pl: "places t = places s" using queue_partD [of t s] t(3) by (simp add: place_part_def places_def)
    have "brk_ok H t p" if p: "p \<in> set (places t)" for p
      using t(2) live_place [OF lt p] live_place [OF l] so(2) p unfolding pl heir_old_def by blast
    then show ?thesis using t lt by (simp add: busy_sound_def busy_live live_Un sound_def heir_old_def)
  qed
  have switched_ok: "resuming_sound H K A i t" if t: "resuming H (A \<union> known s) i t" "born_ok H K s t" for t
  proof -
    have lt: "live H A i t" "live H (known s) i t" using t(1) by (simp_all add: resuming_live live_Un)
    have "brk_ok H t p" if p: "p \<in> set (places t)" for p
    proof (cases "pcbs s p")
      case None
      then show ?thesis using t(2) live_place [OF lt(1) p] by (simp add: born_ok_def)
    next
      case (Some d)
      obtain c where c: "pcbs t p = Some c" using live_place [OF lt(1) p] by blast
      have "heir_old H K s t" using t(2) by (simp add: born_ok_def)
      then have "(\<exists>d. pcbs s p = Some d \<and> pid d = pid c) \<and> (brk_ok H s p \<longrightarrow> brk_ok H t p)"
        using c Some unfolding heir_old_def by blast
      then have o: "pid d = pid c" "brk_ok H s p \<Longrightarrow> brk_ok H t p" using Some by auto
      then show ?thesis using live_was_place [OF so(1) lt(2) p c Some] so(2) by blast
    qed
    then show ?thesis using t lt by (simp add: resuming_sound_def resuming_live live_Un sound_def born_ok_def heir_old_def)
  qed
  have "wlp (KernelFork H) (\<lambda>_ t. heir_old H K s t \<and> place_part t = place_part s) (born_ok H K s) s"
    by (rule wlp_conj [OF own wlp_KernelFork_place [OF q]]) simp_all
  then show "wlp (KernelFork H) (\<lambda>_. busy_sound H K A i) (resuming_sound H K A i) s"
    by (rule wlp_conj [OF sched]) (use returned_ok switched_ok in auto)
qed

section \<open>The contracts\<close>

lemma busy_current:
  assumes "busy H A i s" "sound H K s"
  shows "isolated H K s" "brk_ok H s (currPCB s)" "\<exists>b. table_of s (currPCB s) = Some b"
  using assms by (auto simp: sound_def places_def busy_def calm_def live_def dest: sym)

lemma busy_exec: "linked_files H E \<Longrightarrow> preserves (busy_sound H K A i) (resuming_sound H K A i) (KernelExec H fuel (load_exec E H) f a)"
proof (rule sound_busy [OF ops_KernelExec [OF settled_load_exec]])
  fix s
  assume l: "linked_files H E" and s: "busy H A i s" "sound H K s"
  obtain b where "table_of s (currPCB s) = Some b" using busy_current(3) [OF s] by blast
  from wlp_KernelExec [OF busy_current(1) [OF s] this l]
  show "wlp (KernelExec H fuel (load_exec E H) f a) (\<lambda>_. heir H K s) (heir H K s) s" .
qed

lemma busy_break: "preserves (busy_sound H K A i) (resuming_sound H K A i) (KernelBrk H addr)"
  by (rule sound_busy [OF busy_settled [OF settled_KernelBrk]]) (rule wlp_KernelBrk [OF busy_current(1,2)]; assumption)

lemma busy_fault: "preserves (busy_sound H K A i) (resuming_sound H K A i) (handleTrapMemory H u)"
  by (rule sound_busy [OF ops_handleTrapMemory]) (rule wlp_handleTrapMemory [OF busy_current(1,2)]; assumption)

lemma busy_scheduler:
  "sending (Some k) = None \<Longrightarrow> preserves (busy_sound H K A i) (resuming_sound H K A i) (blockProcess H k)"
  "preserves (busy_sound H K A i) (resuming_sound H K A i) (unblockProcess p)"
  "sending (Some k) = None \<Longrightarrow> preserves (busy_sound H K A i) (resuming_sound H K A i) (sleepProcess H k d)"
  "sending (Some k) = None \<Longrightarrow> preserves (busy_sound H K A i) (resuming_sound H K A i) (blockReader H k j)"
  "preserves (busy_sound H K A i) (resuming_sound H K A i) (await_terminal H fuel j bs n)"
  by (intro busy_tracked ops_blockProcess ops_unblockProcess ops_sleepProcess ops_block_tty(1) ops_await_terminal tracked_rules; assumption)+

lemma sound_calls: "linked_files H E \<Longrightarrow> call_contract H (busy_sound H K A i) (resuming_sound H K A i) E"
  by unfold_locales (auto intro: busy_scheduler busy_exec busy_break busy_fault busy_fork)

text \<open>The end of a terminal write.\<close>

lemma tracked_batch: "tracked H (resume E H (KTtyBatch t d n b))"
  unfolding resume_def kcont.case by (intro tracked_rules tracked_still still_finish_call)

lemma sound_runs:
  assumes E: "linked_files H E"
  shows "machine_contract H (calm_sound H K A i) (busy_sound H K A i) (resuming_sound H K A i) E i"
proof -
  have sends: "wlp (resume E H (KTtyBatch t d n b)) (\<lambda>_. calm_sound H K A i) (resuming_sound H K A i) s"
    if s: "resuming_sound H K A i s" "saved_at s (currPCB s) = Some (KTtyBatch t d n b)" for s t d n b
  proof -
    have so: "sound H K s" and l: "live H A i s" and r: "resuming H A i s" using s(1) by (simp_all add: resuming_sound_def resuming_def)
    have "resuming H (A \<union> known s) i s" using r l live_known by (simp add: resuming_live live_Un)
    from wlp_send_batch [OF this s(2)]
    have w: "wlp (resume E H (KTtyBatch t d n b)) (\<lambda>_. calm H (A \<union> known s) i) (resuming H (A \<union> known s) i) s" .
    have h: "wlp (resume E H (KTtyBatch t d n b)) (\<lambda>_. heir H K s) (heir H K s) s" by (rule sound_tracked [OF tracked_batch so])
    show ?thesis
      by (rule wlp_conj [OF w h])
        (use sound_heir [OF so] in \<open>auto simp: calm_live resuming_live live_Un calm_sound_def resuming_sound_def\<close>)
  qed
  show ?thesis
  proof (intro machine_contract.intro machine_contract_axioms.intro sound_calls [OF E] sound_interrupts.interrupt_contract_axioms, goal_cases)
    case (1 s)
    then show ?case by (auto simp: busy_sound_def calm_sound_def busy_def)
  next
    case (2 s m f)
    then show ?case by (rule calm_sound_part [rotated]) (simp add: still_part_def sched_part_def)
  next
    case (3 s k)
    then show ?case by (auto simp: resuming_sound_def calm_sound_def resuming_def calm_def live_def)
  next
    case (4 s t d n b)
    then show ?case by (rule sends)
  qed
qed

text \<open>Runs keep the owners apart.\<close>

lemma sound_run:
  assumes "linked_files H E" "world_ok H A i x" "sound H K (snd x)" "(idle_step E H i)\<^sup>*\<^sup>* x y"
  shows "world_ok H A i y \<and> sound H K (snd y)"
proof -
  have eq: "in_mode (calm_sound H K A i) (resuming_sound H K A i) z \<longleftrightarrow> world_ok H A i z \<and> sound H K (snd z)" for z
    by (cases z; cases "fst z") (auto simp: in_mode_def calm_sound_def resuming_sound_def)
  show ?thesis
    using machine_contract.idle_run_inv [OF sound_runs [OF assms(1)] assms(4), of K A] assms(2,3) unfolding eq by blast
qed

section \<open>What a process can touch\<close>

text \<open>
  The frames of a process: those of its valid pages and those of its kernel stack. The frames of the kernel:
  those that region 0 maps below the spare page, its text, data and heap and the buffers of the terminals.
\<close>

definition page_frames :: "hw \<Rightarrow> kstate \<Rightarrow> ptr \<Rightarrow> nat set" where
  "page_frames H s p = (case table_of s p of None \<Rightarrow> {} | Some b \<Rightarrow> {f. \<exists>a \<in> table_addrs H b. valid_at s a = Some f})"

definition stack_frames :: "kstate \<Rightarrow> ptr \<Rightarrow> nat set" where
  "stack_frames s p = (case pcbs s p of None \<Rightarrow> {} | Some c \<Rightarrow> set (stackPfns c))"

definition frames_of :: "hw \<Rightarrow> kstate \<Rightarrow> ptr \<Rightarrow> nat set" where
  "frames_of H s p = page_frames H s p \<union> stack_frames s p"

definition kernel_frames :: "hw \<Rightarrow> kstate \<Rightarrow> nat set" where
  "kernel_frames H s = {f. \<exists>i < KERNEL_STACK_BASE_VPN H - 1. valid_at s (REG_PTBR0 s + i * SIZEOF_PTE H) = Some f}"

lemma page_owned: "f \<in> page_frames H s p \<Longrightarrow> \<exists>a b. table_of s p = Some b \<and> a \<in> table_addrs H b \<and> owns H s (Inl a) = Some f"
  by (auto simp: page_frames_def owns_def user_addrs_def split: option.splits)

lemma stack_owned: "f \<in> stack_frames s p \<Longrightarrow> \<exists>j. owns H s (Inr (p, j)) = Some f"
  by (auto simp: stack_frames_def owns_def stack_at_def in_set_conv_nth split: option.splits)

lemma owner_unique: "isolated H K s \<Longrightarrow> owns H s x = Some f \<Longrightarrow> owns H s y = Some f \<Longrightarrow> x = y"
  by (auto simp: isolated_def pool_def)

lemma pages_not_stacks: "isolated H K s \<Longrightarrow> page_frames H s p \<inter> stack_frames s q = {}"
  using page_owned stack_owned owner_unique by fastforce

lemma frames_disjoint:
  assumes i: "isolated H K s" and ne: "p \<noteq> q"
  shows "frames_of H s p \<inter> frames_of H s q = {}"
proof -
  have "page_frames H s p \<inter> page_frames H s q = {}"
  proof (rule ccontr)
    assume "page_frames H s p \<inter> page_frames H s q \<noteq> {}"
    then obtain f where f: "f \<in> page_frames H s p" "f \<in> page_frames H s q" by blast
    obtain a b where a: "table_of s p = Some b" "a \<in> table_addrs H b" "owns H s (Inl a) = Some f" using page_owned [OF f(1)] by blast
    obtain a' b' where a': "table_of s q = Some b'" "a' \<in> table_addrs H b'" "owns H s (Inl a') = Some f" using page_owned [OF f(2)] by blast
    have "a = a'" using owner_unique [OF i a(3) a'(3)] by simp
    then show False using entry_owner [of H s p b q b' a] a(1,2) a'(1,2) i ne by (auto simp: isolated_def)
  qed
  moreover have "stack_frames s p \<inter> stack_frames s q = {}"
  proof (rule ccontr)
    assume "stack_frames s p \<inter> stack_frames s q \<noteq> {}"
    then obtain f j k where "owns H s (Inr (p, j)) = Some f" "owns H s (Inr (q, k)) = Some f" using stack_owned by blast
    from owner_unique [OF i this] show False using ne by simp
  qed
  ultimately show ?thesis using pages_not_stacks [OF i, of p q] pages_not_stacks [OF i, of q p] by (auto simp: frames_of_def)
qed

lemma frames_owned: "f \<in> frames_of H s p \<Longrightarrow> f \<in> ran (owns H s)"
  using page_owned stack_owned by (fastforce simp: frames_of_def ran_def)

lemma kernel_frames_known: "isolated H K s \<Longrightarrow> kernel_frames H s \<subseteq> K"
  by (auto simp: kernel_frames_def isolated_def kernel_known_def)

lemma frames_taken:
  assumes "isolated H K s"
  shows "frames_of H s p \<inter> (kernel_frames H s \<union> free_frames s) = {}" "kernel_frames H s \<inter> free_frames s = {}"
  using frames_owned kernel_frames_known [OF assms] assms by (fastforce simp: isolated_def pool_def)+

text \<open>A store of a user program goes to a page of its own process.\<close>

lemma user_store_owned:
  assumes H: "hw_ok H" and r: "Some (REG_PTBR1 s) = table_of s (currPCB s)"
    and v: "VMEM_1_BASE H \<le> va" "va < VMEM_1_LIMIT H" "translate H s pr va = Some (f, off)"
  shows "f \<in> page_frames H s (currPCB s)"
proof -
  let ?v = "va div PAGESIZE H"
  obtain b where b: "table_of s (currPCB s) = Some b" "b = REG_PTBR1 s" using r by (metis)
  from v(3) obtain e where e: "walk H s ?v = Some e" "pte_valid e" "pte_pfn e = f"
    by (auto simp: translate_def split: option.splits if_splits)
  have p: "0 < PAGESIZE H" using hw_okD(1,2) [OF H] by simp
  have "MAX_PT_LEN H * PAGESIZE H \<le> va" using v(1) H by (simp add: hw_ok_def)
  then have low: "MAX_PT_LEN H \<le> ?v" using p by (simp add: less_eq_div_iff_mult_less_eq)
  from e(1) have high: "?v < 2 * MAX_PT_LEN H" "ptes s (pte_of_vpn H s ?v) = Some e" by (auto simp: walk_def split: if_splits)
  let ?a = "b + (?v - MAX_PT_LEN H) * SIZEOF_PTE H"
  have "pte_of_vpn H s ?v = ?a" using low b(2) by (simp add: pte_of_vpn_def)
  moreover have "?a \<in> table_addrs H b" by (rule entry_in_table) (use low high in simp)
  ultimately show ?thesis using b(1) e high(2) by (force simp: page_frames_def valid_at_def)
qed

lemma user_writes_own:
  assumes "hw_ok H" "Some (REG_PTBR1 s) = table_of s (currPCB s)" "user_writes H s m" "m f \<noteq> pmem s f"
  shows "f \<in> page_frames H s (currPCB s)"
proof -
  from assms(4) obtain off where "m f off \<noteq> pmem s f off" by blast
  with assms(3) obtain va where "VMEM_1_BASE H \<le> va" "va < VMEM_1_LIMIT H" "translate H s PROT_WRITE va = Some (f, off)"
    unfolding user_writes_def by blast
  from user_store_owned [OF assms(1,2) this] show ?thesis .
qed

text \<open>So every other frame keeps its contents.\<close>

lemma user_writes_others:
  assumes w: "hw_ok H" "Some (REG_PTBR1 s) = table_of s (currPCB s)" "user_writes H s m" and i: "isolated H K s"
  shows "f \<in> stack_frames s q \<Longrightarrow> m f = pmem s f" "q \<noteq> currPCB s \<Longrightarrow> f \<in> page_frames H s q \<Longrightarrow> m f = pmem s f"
    "f \<in> kernel_frames H s \<union> free_frames s \<Longrightarrow> m f = pmem s f"
proof -
  have own: "f \<in> page_frames H s (currPCB s)" if "m f \<noteq> pmem s f" using user_writes_own [OF w that] .
  show "f \<in> stack_frames s q \<Longrightarrow> m f = pmem s f" using own pages_not_stacks [OF i, of "currPCB s" q] by blast
  show "q \<noteq> currPCB s \<Longrightarrow> f \<in> page_frames H s q \<Longrightarrow> m f = pmem s f"
    using own frames_disjoint [OF i, of q "currPCB s"] by (auto simp: frames_of_def)
  show "f \<in> kernel_frames H s \<union> free_frames s \<Longrightarrow> m f = pmem s f"
    using own frames_taken(1) [OF i, of "currPCB s"] by (auto simp: frames_of_def)
qed

end
