(* ===== verification/BootOwned.thy ===== *)
theory BootOwned
  imports Isolation
begin

text \<open>
  \<^verbatim>\<open>KernelStart\<close> establishes the invariant of \<open>Isolation\<close>: the frames of the kernel and of the kernel
  stack are not free, the two processes take frames of their own, and init takes over the boot stack.
\<close>

section \<open>The frames of the kernel\<close>

text \<open>The pages below the kernel stack that the boot maps, and those of the boot stack from the \<open>n\<close>-th on.\<close>

definition boot_pages :: "hw \<Rightarrow> nat \<Rightarrow> nat \<Rightarrow> nat set" where
  "boot_pages H ds b = {v. v < KERNEL_STACK_BASE_VPN H \<and> r0_prot H ds b (VMEM_0_BASE H + v * PAGESIZE H) \<noteq> None}"

definition stack_vpns :: "hw \<Rightarrow> nat \<Rightarrow> nat set" where
  "stack_vpns H n = {KERNEL_STACK_BASE_VPN H + i | i. n \<le> i \<and> i < KSTACK_NPG H}"

lemma boot_stack_apart: "boot_pages H ds b \<inter> stack_vpns H n = {}"
  by (auto simp: boot_pages_def stack_vpns_def)

lemma kernel_stack_base: "hw_ok H \<Longrightarrow> KERNEL_STACK_BASE H = KERNEL_STACK_BASE_VPN H * PAGESIZE H"
  using hw_okD(12) [of H] by (simp add: KERNEL_STACK_BASE_VPN_def vpn_of_page)

lemma kernel_stack_limit:
  assumes "hw_ok H"
  shows "KERNEL_STACK_LIMIT H = (KERNEL_STACK_BASE_VPN H + KSTACK_NPG H) * PAGESIZE H"
proof -
  have "KSTACK_NPG H * PAGESIZE H = KERNEL_STACK_MAXSIZE H" using hw_okD(13) [OF assms] by (simp add: KSTACK_NPG_def)
  moreover have "KERNEL_STACK_LIMIT H = KERNEL_STACK_BASE H + KERNEL_STACK_MAXSIZE H" using assms by (simp add: hw_ok_def)
  ultimately show ?thesis using kernel_stack_base [OF assms] by (metis add_mult_distrib)
qed

lemma two_below_stack:
  assumes "hw_ok H"
  shows "2 \<le> KERNEL_STACK_BASE_VPN H"
proof -
  have "2 * PAGESIZE H \<le> KERNEL_STACK_BASE_VPN H * PAGESIZE H" using assms unfolding kernel_stack_base [OF assms, symmetric] by (simp add: hw_ok_def)
  then show ?thesis using hw_okD(2) [OF assms] by simp
qed

text \<open>A free frame is neither one of the kernel nor one of the boot stack.\<close>

lemma init_frames_free:
  assumes H: "hw_ok H" and n: "vpn_of H (PMEM_BASE H) + n \<le> 2 ^ 24" and ds: "ds \<le> b"
    and v: "v \<in> free_pfns (init_frames H b n (PMEM_BASE H))"
  shows "v \<notin> boot_pages H ds b \<union> stack_vpns H 0"
proof -
  let ?P = "PAGESIZE H" and ?fl = "init_frames H b n (PMEM_BASE H)"
  have P: "0 < ?P" using hw_okD(2) [OF H] .
  obtain i where i: "i < n" "pfn (?fl ! i) = v" "isFree (?fl ! i)"
    using v init_frames_ok [OF H n] by (auto simp: free_pfns_def in_set_conv_nth fl_ok_def)
  let ?a = "PMEM_BASE H + i * ?P"
  have a: "v = ?a div ?P" using i n H by (simp add: init_frames_nth vpn_of_add_pages) (simp add: vpn_of_page [OF H] P)
  have free: "b \<le> ?a" "\<not> (KERNEL_STACK_BASE H \<le> ?a \<and> ?a < KERNEL_STACK_LIMIT H)" using i by (auto simp: init_frames_nth)
  have lo: "v * ?P \<le> ?a" using a by (simp add: div_times_less_eq_dividend)
  have hi: "?a < (v + 1) * ?P" using a P dividend_less_div_times [of ?P ?a] by simp
  have "v \<notin> boot_pages H ds b"
  proof
    assume "v \<in> boot_pages H ds b"
    then have v: "v < KERNEL_STACK_BASE_VPN H" "r0_prot H ds b (v * ?P) \<noteq> None" using H by (auto simp: boot_pages_def hw_ok_def)
    then have "(v + 1) * ?P \<le> KERNEL_STACK_BASE_VPN H * ?P" by (intro mult_le_mono1) simp
    then have "\<not> KERNEL_STACK_BASE H < v * ?P + ?P" using kernel_stack_base [OF H] by simp
    then have "v * ?P + ?P \<le> b" using v(2) ds by (auto simp: r0_prot_def split: if_splits)
    then show False using free(1) hi by simp
  qed
  moreover have "v \<notin> stack_vpns H 0"
  proof
    assume "v \<in> stack_vpns H 0"
    then obtain j where j: "v = KERNEL_STACK_BASE_VPN H + j" "j < KSTACK_NPG H" by (auto simp: stack_vpns_def)
    have "KERNEL_STACK_BASE H \<le> v * ?P" using j(1) kernel_stack_base [OF H] by (simp add: add_mult_distrib)
    moreover have "(v + 1) * ?P \<le> KERNEL_STACK_LIMIT H" unfolding kernel_stack_limit [OF H] using j by (intro mult_le_mono1) simp
    ultimately show False using free(2) lo hi by linarith
  qed
  ultimately show ?thesis by blast
qed

section \<open>Before the virtual memory is on\<close>

definition cold :: "hw \<Rightarrow> kstate \<Rightarrow> bool" where
  "cold H s \<longleftrightarrow> pcbs s = Map.empty \<and> blocks_apart H s \<and> \<not> isFree (past s) \<and> kernelDataStart s \<le> currKernelBrk s"

definition blank_at :: "hw \<Rightarrow> ptr \<Rightarrow> kstate \<Rightarrow> bool" where
  "blank_at H b s \<longleftrightarrow> from_malloc s b \<and> has_table H s b \<and> (\<forall>a \<in> table_addrs H b. valid_at s a = None)"

lemma wlp_cold_table:
  assumes s: "cold H s" and pos: "0 < MAX_PT_LEN H"
  shows "wlp (initializeRegionPageTable H) (\<lambda>r t. cold H t \<and> (\<forall>b. r = Some b \<longrightarrow> blank_at H b t) \<and>
     (\<forall>b. blank_at H b s \<longrightarrow> blank_at H b t \<and> r \<noteq> Some b)) R s"
proof (rule wlp_blank_table, goal_cases)
  case (1 c)
  then show ?case using s by (simp add: cold_def blank_at_def blocks_apart_def from_malloc_def has_table_def valid_at_def)
next
  case (2 b c)
  have "b' \<noteq> b" if "blank_at H b' s" for b' using tables_differ [OF pos _ 2(2)] that by (auto simp: blank_at_def)
  then show ?case
    using s 2 by (auto simp: cold_def blank_at_def blocks_apart_def from_malloc_def has_table_def valid_at_def blank_table_def refilled_def)
qed

definition counted :: "hw \<Rightarrow> ptr \<Rightarrow> ptr \<Rightarrow> kstate \<Rightarrow> bool" where
  "counted H r0 r1 s \<longleftrightarrow> cold H s \<and> blank_at H r1 s \<and> from_malloc s r0 \<and> has_table H s r0 \<and> r0 \<noteq> r1 \<and> frames_ok s \<and>
     free_frames s \<inter> (boot_pages H (kernelDataStart s) (currKernelBrk s) \<union> stack_vpns H 0) = {}"

lemma wlp_count_frames:
  assumes H: "hw_ok H" and n: "vpn_of H (PMEM_BASE H) + n div PAGESIZE H \<le> 2 ^ 24"
    and s: "cold H s" "blank_at H r0 s" "blank_at H r1 s" "r0 \<noteq> r1"
  shows "wlp (init_frames_k H n) (\<lambda>_ t. counted H r0 r1 t \<and> blank_at H r0 t) R s"
proof -
  let ?fl = "init_frames H (currKernelBrk s) (n div PAGESIZE H) (PMEM_BASE H)"
  have "v \<notin> boot_pages H (kernelDataStart s) (currKernelBrk s) \<union> stack_vpns H 0" if "v \<in> free_pfns ?fl" for v
    by (rule init_frames_free [OF H n _ that]) (use s(1) in \<open>simp add: cold_def\<close>)
  moreover have "fl_ok ?fl (n div PAGESIZE H)" using init_frames_ok [OF H n] .
  ultimately show ?thesis
    using s by (auto simp: init_frames_k_def wlp_simps Let_def initFrameList_def halt_unless_def counted_def cold_def blank_at_def
        blocks_apart_def from_malloc_def has_table_def valid_at_def frames_ok_def free_frames_def)
qed


text \<open>The region 0 table maps the pages of the kernel and of the boot stack to the frames of the same number.\<close>

definition r0_at :: "hw \<Rightarrow> nat \<Rightarrow> nat \<Rightarrow> nat \<Rightarrow> nat option" where
  "r0_at H ds b i = (if r0_prot H ds b (VMEM_0_BASE H + i * PAGESIZE H) = None then None else Some i)"

lemma wlp_fill_r0:
  assumes H: "hw_ok H" and b: "blank_at H r0 s"
  shows "wlp (fill_r0 H r0) (\<lambda>_ t. \<exists>P. t = s\<lparr>ptes := P\<rparr> \<and> dom P = dom (ptes s) \<and> (\<forall>a. a \<notin> table_addrs H r0 \<longrightarrow> P a = ptes s a) \<and>
     (\<forall>i<MAX_PT_LEN H. valid_at t (r0 + i * SIZEOF_PTE H) = r0_at H (kernelDataStart s) (currKernelBrk s) i)) R s"
proof -
  let ?S = "SIZEOF_PTE H" and ?N = "MAX_PT_LEN H"
  have S: "0 < ?S" using H by (simp add: hw_ok_def)
  define at where "at = r0_at H (kernelDataStart s) (currKernelBrk s)"
  define I where "I n t \<longleftrightarrow> (\<exists>P. t = s\<lparr>ptes := P\<rparr> \<and> dom P = dom (ptes s) \<and> (\<forall>a. a \<notin> table_addrs H r0 \<longrightarrow> P a = ptes s a) \<and>
     (\<forall>i<?N. valid_at t (r0 + i * ?S) = (if i < n then at i else None)))" for n :: nat and t
  have vpn: "vpn_of H (VMEM_0_BASE H + i * PAGESIZE H) = i" for i
    using hw_okD(2,10) [OF H] by (simp add: vpn_of_page [OF H])
  have "wlp (foldk (\<lambda>i. case r0_prot H (kernelDataStart s) (currKernelBrk s) (VMEM_0_BASE H + i * PAGESIZE H) of
       None \<Rightarrow> retk ()
     | Some p \<Rightarrow> setPageTableEntryNoFlush (r0 + i * ?S) True p (vpn_of H (VMEM_0_BASE H + i * PAGESIZE H))) [0..<?N]) (\<lambda>_. I ?N) R s"
  proof (rule wlp_foldk_upt [where I = I])
    show "I 0 s" using b entry_in_table by (auto simp: I_def blank_at_def intro!: exI [of _ "ptes s"])
    fix i t
    assume i: "i < ?N" and t: "I i t"
    then obtain P where P: "t = s\<lparr>ptes := P\<rparr>" "dom P = dom (ptes s)" "\<And>a. a \<notin> table_addrs H r0 \<Longrightarrow> P a = ptes s a"
      "\<And>j. j < ?N \<Longrightarrow> valid_at t (r0 + j * ?S) = (if j < i then at j else None)" by (auto simp: I_def)
    let ?a = "r0 + i * ?S"
    have a: "?a \<in> table_addrs H r0" "?a \<in> dom (ptes s)" using entry_in_table [OF i] b by (auto simp: blank_at_def has_table_dom_iff)
    have same: "I (Suc i) t" if "at i = None" using t P(4) that unfolding I_def by (auto simp: less_Suc_eq)
    have "I (Suc i) (t\<lparr>ptes := (ptes t)(?a \<mapsto> \<lparr>pte_valid = True, pte_prot = pr, pte_pfn = i\<rparr>)\<rparr>)" if "at i = Some i" for pr
    proof -
      let ?Q = "P(?a \<mapsto> \<lparr>pte_valid = True, pte_prot = pr, pte_pfn = i\<rparr>)"
      have "valid_at (s\<lparr>ptes := ?Q\<rparr>) (r0 + j * ?S) = (if j < Suc i then at j else None)" if j: "j < ?N" for j
        using P(4) [OF j] \<open>at i = Some i\<close> S by (auto simp: valid_at_def P(1) less_Suc_eq)
      moreover have "dom ?Q = dom (ptes s)" using P(2) a(2) by auto
      moreover have "\<forall>x. x \<notin> table_addrs H r0 \<longrightarrow> ?Q x = ptes s x" using P(3) a(1) by auto
      ultimately show ?thesis unfolding I_def P(1) by (intro exI [of _ ?Q]) simp
    qed
    then show "wlp (case r0_prot H (kernelDataStart s) (currKernelBrk s) (VMEM_0_BASE H + i * PAGESIZE H) of
         None \<Rightarrow> retk ()
       | Some p \<Rightarrow> setPageTableEntryNoFlush ?a True p (vpn_of H (VMEM_0_BASE H + i * PAGESIZE H))) (\<lambda>_. I (Suc i)) R t"
      using same unfolding vpn by (auto simp: at_def r0_at_def wlp_cases wlp_basic intro!: wlp_setpte_quiet)
  qed
  then show ?thesis unfolding fill_r0_def wlp_bindk wlp_basic prod.case by (rule wlp_mono) (auto simp: I_def at_def)
qed

section \<open>While the first processes are made\<close>

text \<open>
  \<open>K\<close> are the frames of the kernel. The frames of the boot stack are not free and still in the region 0
  table; the table made for init is not used yet.
\<close>

definition early :: "hw \<Rightarrow> nat set \<Rightarrow> ptr \<Rightarrow> kstate \<Rightarrow> bool" where
  "early H K r1 s \<longleftrightarrow> isolated H (K \<union> stack_vpns H 0) s \<and> K \<inter> stack_vpns H 0 = {} \<and> kernel_known H K s \<and> spare_table H r1 s \<and>
     has_table H s (REG_PTBR0 s) \<and> tempPtep s = REG_PTBR0 s + (KERNEL_STACK_BASE_VPN H - 1) * SIZEOF_PTE H \<and> (\<forall>p. brk_ok H s p) \<and>
     (\<forall>i<KSTACK_NPG H. valid_at s (r0StackBasePtep s + i * SIZEOF_PTE H) = Some (KERNEL_STACK_BASE_VPN H + i))"

lemma boot_stack_mapped: "hw_ok H \<Longrightarrow> r0_at H ds b (KERNEL_STACK_BASE_VPN H + i) \<noteq> None"
  using kernel_stack_base [of H] hw_okD(2,10) [of H] by (auto simp: r0_at_def r0_prot_def add_mult_distrib)

lemma early_start:
  assumes H: "hw_ok H" and s: "counted H r0 r1 s"
    and at: "\<And>i. i < MAX_PT_LEN H \<Longrightarrow> valid_at s (r0 + i * SIZEOF_PTE H) = r0_at H (kernelDataStart s) (currKernelBrk s) i"
  shows "wlp (enable_vm H r0 r1) (\<lambda>_ t. pcbs t = Map.empty \<and> (\<exists>K. early H K r1 t)) R s"
proof -
  let ?S = "SIZEOF_PTE H" and ?n = "KERNEL_STACK_BASE_VPN H"
  let ?K = "boot_pages H (kernelDataStart s) (currKernelBrk s)"
  let ?t = "s\<lparr>REG_PTBR0 := r0, REG_PTLR0 := MAX_PT_LEN H, REG_PTBR1 := r1, REG_PTLR1 := MAX_PT_LEN H, REG_VM_ENABLE := True,
       r0StackBasePtep := r0 + ?n * ?S, tempPtep := r0 + ?n * ?S - ?S, tempVAddr := KERNEL_STACK_BASE H - PAGESIZE H\<rparr>"
  have base: "KERNEL_BASE_VPN H = 0" using hw_okD(10) [OF H] by (simp add: KERNEL_BASE_VPN_def vpn_of_def)
  have none: "pcbs s = Map.empty" using s by (simp add: counted_def cold_def)
  have two: "2 \<le> ?n" and len: "?n \<le> MAX_PT_LEN H" using two_below_stack [OF H] stack_base_bound [OF H] by simp_all
  obtain n where "?n = Suc n" using two by (cases ?n) simp_all
  then have temp: "r0 + ?n * ?S - ?S = r0 + (?n - 1) * ?S" by simp
  have s': "from_malloc s r0" "from_malloc s r1" "has_table H s r0" "has_table H s r1" "r0 \<noteq> r1" "blocks_apart H s" "frames_ok s"
    "free_frames s \<inter> (?K \<union> stack_vpns H 0) = {}" "\<And>a. a \<in> table_addrs H r1 \<Longrightarrow> valid_at s a = None"
    using s by (simp_all add: counted_def cold_def blank_at_def)
  have val: "valid_at ?t = valid_at s" by (simp add: valid_at_def fun_eq_iff)
  have no_table: "table_of ?t q = None" for q by (simp add: table_of_def none)
  have "tempPtep ?t \<in> sched_ptes H r0" unfolding sched_ptes_def using two len temp by (auto intro!: image_eqI [of _ _ "?n - 1"])
  then have fixed: "base_fixed H ?t"
    using H s'(1,6) by (simp add: base_fixed_def stack_base_ok_def blocks_apart_def from_malloc_def)
  have "f \<in> ?K" if "i < ?n - 1" "valid_at s (r0 + i * ?S) = Some f" for i f
  proof -
    have "i < MAX_PT_LEN H" using that(1) len by simp
    from at [OF this] that show ?thesis by (auto simp: r0_at_def boot_pages_def split: if_splits)
  qed
  then have known: "kernel_known H ?K ?t" by (simp add: kernel_known_def val)
  have "owns H ?t = Map.empty"
    by (auto simp: owns_def user_addrs_def no_table stack_at_def none fun_eq_iff split: sum.split)
  then have "isolated H (?K \<union> stack_vpns H 0) ?t"
    using fixed known s'(7,8)
    by (auto simp: isolated_def tables_ok_def none no_table frames_ok_def free_frames_def pool_def kernel_known_def)
  moreover have "valid_at ?t (r0 + ?n * ?S + i * ?S) = Some (?n + i)" if i: "i < KSTACK_NPG H" for i
    using at [OF kstack_vpn_bound [OF H i]] boot_stack_mapped [OF H, of "kernelDataStart s" "currKernelBrk s" i]
    by (simp add: val add_mult_distrib add.assoc r0_at_def split: if_splits)
  moreover have "spare_table H r1 ?t" using s' by (simp add: spare_table_def no_table val from_malloc_def has_table_def)
  moreover have "brk_ok H ?t q" for q by (simp add: brk_ok_def none)
  ultimately have "early H ?K r1 ?t"
    using known temp s'(3) boot_stack_apart by (simp add: early_def has_table_def)
  then show ?thesis
    unfolding enable_vm_def wlp_basic base using none by auto
qed


section \<open>What keeps the stage\<close>

definition own_ptes :: "hw \<Rightarrow> kstate \<Rightarrow> _" where
  "own_ptes H s = (own_part H s, ptes s)"

lemma heir_brk: "heir H K s t \<Longrightarrow> brk_ok H s q \<Longrightarrow> brk_ok H t q"
  using heirD(3) by (cases "pcbs t q") (simp add: brk_ok_def, blast)

lemma early_same:
  assumes e: "own_ptes H t = own_ptes H s" and s: "early H K r1 s"
  shows "early H K r1 t"
proof -
  have o: "own_part H t = own_part H s" and p: "ptes t = ptes s" using e by (simp_all add: own_ptes_def)
  note d = own_partD [OF o]
  have i: "isolated H (K \<union> stack_vpns H 0) s" using s by (simp add: early_def)
  have val: "valid_at t = valid_at s" using p by (simp add: valid_at_def fun_eq_iff)
  have brk: "brk_ok H s q" for q using s by (simp add: early_def)
  have "brk_ok H t q" for q using heir_brk [OF heir_own [OF i o] brk] .
  moreover have "spare_table H r1 t"
    using s own_table [OF o] unfolding early_def spare_table_def from_malloc_def has_table_dom_iff val p d(4,5) by simp
  moreover have "kernel_known H K t" using s kernel_known_same [OF p d(4)] by (simp add: early_def)
  ultimately show ?thesis
    using s isolated_part [OF o i] unfolding early_def has_table_dom_iff val p d(4,6,7) by blast
qed

lemma early_repaged:
  assumes s: "early H K r1 s" and P: "dom P = dom (ptes s)" and t: "isolated H (K' \<union> stack_vpns H 0) (repaged s P fl w)"
    "K' \<inter> stack_vpns H 0 = {}" "kernel_known H K' (repaged s P fl w)" "\<And>q. brk_ok H s q \<Longrightarrow> brk_ok H (repaged s P fl w) q"
    and same: "\<And>a. a \<in> table_addrs H r1 \<Longrightarrow> P a = ptes s a"
      "\<And>i. i < KSTACK_NPG H \<Longrightarrow> P (r0StackBasePtep s + i * SIZEOF_PTE H) = ptes s (r0StackBasePtep s + i * SIZEOF_PTE H)"
  shows "early H K' r1 (repaged s P fl w)"
proof -
  let ?t = "repaged s P fl w"
  have val: "valid_at ?t a = valid_at s a" if "P a = ptes s a" for a using that by (simp add: valid_at_def)
  have "spare_table H r1 ?t" using s val [OF same(1)] P by (simp add: early_def spare_table_def from_malloc_def has_table_dom_iff)
  moreover have "tempPtep ?t = tempPtep s" "r0StackBasePtep ?t = r0StackBasePtep s" by (simp_all add: repaged_def)
  moreover have "valid_at ?t (r0StackBasePtep s + j * SIZEOF_PTE H) = Some (KERNEL_STACK_BASE_VPN H + j)" if j: "j < KSTACK_NPG H" for j
    using val [OF same(2) [OF j]] s j by (simp add: early_def)
  ultimately show ?thesis using s t P by (simp add: early_def has_table_dom_iff)
qed

lemma early_r1: "early H K r1 s \<Longrightarrow> table_addrs H r1 \<inter> table_addrs H (REG_PTBR0 s) = {}"
  using tables_disjoint [of H s r1 "REG_PTBR0 s"] by (auto simp: early_def isolated_def base_fixed_def spare_table_def)

lemma early_stack: "early H K r1 s \<Longrightarrow> i < KSTACK_NPG H \<Longrightarrow> r0StackBasePtep s + i * SIZEOF_PTE H \<in> sched_ptes H (REG_PTBR0 s)"
  using stack_entry [of H s] by (auto simp: early_def isolated_def)

lemma early_filling:
  assumes s: "early H K r1 s" "table_of s p = Some b" and f: "filling H (K \<union> stack_vpns H 0) b s t"
  shows "early H K r1 t"
proof -
  have e: "edits H b s t" and iso: "isolated H (K \<union> stack_vpns H 0) t" using f by (simp_all add: filling_def)
  obtain P fl w where t: "t = repaged s P fl w" "dom P = dom (ptes s)" "\<And>a. a \<notin> table_addrs H b \<Longrightarrow> P a = ptes s a"
    using e unfolding edits_def by blast
  have i: "base_fixed H s" "tables_ok H s" using s(1) by (simp_all add: early_def isolated_def)
  have out: "a \<notin> table_addrs H b" if "a \<in> table_addrs H (REG_PTBR0 s) \<union> table_addrs H r1" for a
  proof -
    have "from_malloc s b" "b \<noteq> REG_PTBR0 s" using table_ofD [OF i(2) s(2)] by simp_all
    moreover have "from_malloc s r1" "b \<noteq> r1" using s by (auto simp: early_def spare_table_def)
    moreover have "from_malloc s (REG_PTBR0 s)" using i(1) by (simp add: base_fixed_def)
    ultimately show ?thesis using tables_disjoint [OF i(1), of b] that by blast
  qed
  have "kernel_known H K t"
    by (rule kernel_knownI [of H K s])
      (use s(1) t(3) out low_entry(1) [OF i(1)] in \<open>auto simp: early_def t(1) valid_at_def\<close>)
  moreover have "brk_ok H t q" if "brk_ok H s q" for q using heir_brk [OF heir_filling [OF f] that] .
  moreover have "r0StackBasePtep s + j * SIZEOF_PTE H \<in> table_addrs H (REG_PTBR0 s)" if "j < KSTACK_NPG H" for j
    using early_stack [OF s(1) that] sched_ptes_table by blast
  moreover have "K \<inter> stack_vpns H 0 = {}" using s(1) by (simp add: early_def)
  ultimately show ?thesis
    using iso t(2,3) out unfolding t(1) by (intro early_repaged [OF s(1)]) auto
qed

lemma early_frames:
  assumes "early H K r1 s" "isolated H (K \<union> stack_vpns H 0) (repaged s (ptes s) fl w)"
  shows "early H K r1 (repaged s (ptes s) fl w)"
  using assms by (intro early_repaged) (auto simp: early_def repaged_known brk_ok_def)

text \<open>A frame that is mapped between the heap and the spare page becomes one of the kernel.\<close>

lemma early_kernel_page:
  assumes s: "early H K r1 s" "spare H (K \<union> stack_vpns H 0) f s" and a: "a = REG_PTBR0 s + j * SIZEOF_PTE H" "j < KERNEL_STACK_BASE_VPN H - 1"
  shows "early H (insert f K) r1 (repaged s ((ptes s)(a \<mapsto> \<lparr>pte_valid = True, pte_prot = pr, pte_pfn = f\<rparr>)) (frameList s) w)" (is "early _ _ _ ?t")
proof -
  let ?S = "stack_vpns H 0"
  have i: "base_fixed H s" "tables_ok H s" "frames_ok s" "pool (K \<union> ?S) (owns H s) (free_frames s)"
    using s(1) by (simp_all add: early_def isolated_def)
  have H: "hw_ok H" using i(1) by (simp add: base_fixed_def)
  have in_r0: "a \<in> table_addrs H (REG_PTBR0 s)" "a \<notin> sched_ptes H (REG_PTBR0 s)" using low_entry [OF i(1) a(2)] a(1) by simp_all
  have dom: "dom ((ptes s)(a \<mapsto> e)) = dom (ptes s)" for e
    using s(1) in_r0 by (auto simp: early_def has_table_dom_iff)
  have "a \<notin> user_addrs H s" using user_not_table [OF i(1,2)] in_r0(1) by blast
  then have own: "owns H ?t = owns H s" by (auto simp: owns_def valid_at_def fun_eq_iff split: sum.split)
  have new: "f \<notin> ran (owns H s)" "f \<notin> free_frames s" "f \<notin> K" "f \<notin> ?S" using s(2) by (auto simp: spare_def)
  have known: "kernel_known H (insert f K) ?t"
    using s(1) by (auto simp: early_def kernel_known_def valid_at_def)
  have "pool (insert f K \<union> ?S) (owns H s) (free_frames s)" using i(4) new by (auto simp: pool_def)
  moreover have "free_frames ?t = free_frames s" by (simp add: free_frames_def)
  moreover have "frames_ok ?t" using i(3) by (simp add: frames_ok_def repaged_def)
  moreover have "kernel_known H (insert f K \<union> ?S) ?t" using known by (auto simp: kernel_known_def)
  ultimately have iso: "isolated H (insert f K \<union> ?S) ?t"
    using i(1,2) by (simp add: isolated_def repaged_base repaged_tables [OF dom] own)
  have brk: "brk_ok H ?t q" if "brk_ok H s q" for q
    by (rule brk_ok_mono [OF that H]) (auto simp: valid_at_def)
  show ?thesis
    by (rule early_repaged [OF s(1) dom iso _ known brk])
      (use s(1) new(4) in_r0 early_r1 [OF s(1)] early_stack [OF s(1)] in \<open>auto simp: early_def\<close>)
qed

text \<open>Before the first process is made. The counter of identifiers does not matter yet.\<close>

definition no_process :: "hw \<Rightarrow> ptr \<Rightarrow> kstate \<Rightarrow> bool" where
  "no_process H r1 s \<longleftrightarrow> pcbs s = Map.empty \<and> (\<exists>K. early H K r1 s)"

abbreviation still_early :: "hw \<Rightarrow> 'a kernel \<Rightarrow> bool" where
  "still_early H \<equiv> steady (\<lambda>s. (own_ptes H s, pcbs s))"

lemma wlp_still_early:
  assumes "still_early H m" "no_process H r1 s" "\<And>x t. no_process H r1 t \<Longrightarrow> Q x t"
  shows "wlp m Q R s"
proof (rule steady_wlp [OF assms(1)])
  fix x u
  assume "(own_ptes H u, pcbs u) = (own_ptes H s, pcbs s)"
  then have "no_process H r1 u" using assms(2) early_same [of H u s] by (auto simp: no_process_def)
  then show "Q x u" by (rule assms(3))
qed

lemma still_early_basic: "still_early H malloc_okk" "still_early H (hm_newk n)"
  by (auto simp: steady_def wlp_simps own_ptes_def own_part_def intro!: wlp_hm_newk_any)

lemma wlp_initBuffers:
  assumes s: "no_process H r1 s"
  shows "wlp (initBuffers H) (\<lambda>_. no_process H r1) R s"
proof -
  obtain K where K: "early H K r1 s" using s by (auto simp: no_process_def)
  have b: "base_fixed H s" and iso: "isolated H (K \<union> stack_vpns H 0) s" using K by (simp_all add: early_def isolated_def)
  have H: "hw_ok H" using b by (simp add: base_fixed_def)
  obtain n where n: "KERNEL_STACK_BASE_VPN H = Suc (Suc n)" using two_below_stack [OF H] by (metis add_2_eq_Suc le_Suc_ex)
  then have a: "tempPtep s - SIZEOF_PTE H = REG_PTBR0 s + n * SIZEOF_PTE H" using K by (simp add: early_def)
  have page: "wlp (bindk getFramek (\<lambda>f. case f of None \<Rightarrow> haltk
      | Some x \<Rightarrow> setPageTableEntry H (tempPtep s - SIZEOF_PTE H) True {PROT_READ, PROT_WRITE} x)) (\<lambda>_. no_process H r1) R s"
    unfolding wlp_bindk
  proof (rule wlp_mono [OF wlp_get_spare [OF iso]], goal_cases)
    case (1 r t)
    then obtain fl where t: "t = repaged s (ptes s) fl (tlb_log s)" "isolated H (K \<union> stack_vpns H 0) t"
      "\<And>f. r = Some f \<Longrightarrow> spare H (K \<union> stack_vpns H 0) f t" by blast
    have et: "early H K r1 t" using early_frames [OF K] t(1,2) by simp
    have "no_process H r1 (repaged t ((ptes t)(REG_PTBR0 s + n * SIZEOF_PTE H \<mapsto> \<lparr>pte_valid = True, pte_prot = pr, pte_pfn = f\<rparr>)) (frameList t) w)"
      if "r = Some f" for f pr w
      using early_kernel_page [OF et t(3) [OF that] refl, of n] n t(1) s by (auto simp: no_process_def)
    then show ?case unfolding a by (auto simp: wlp_cases wlp_basic set_repaged intro!: wlp_setpte)
  qed simp
  have bufs: "still_early H (foldrc (\<lambda>i. bindk malloc_okk (\<lambda>ok. if \<not> ok then retk ERROR else
      bindk (modk (\<lambda>s. s\<lparr>ttyBufs := ttyBufs s @ [g i]\<rparr>)) (\<lambda>_. retk SUCCESS))) xs)" for g and xs :: "nat list"
    by (intro steady_rules still_early_basic) (simp add: own_ptes_def own_part_def)
  show ?thesis
    unfolding initBuffers_def TOTAL_READ_BUFFER_PAGES_def wlp_bindk [of "getk _"] wlp_basic prod.case
    apply (rule wlp_then, simp add: wlp_bindk [of "foldk _ _"] wlp_bindk [of _ retk])
    apply (rule wlp_mono [OF page], unfold wlp_basic)
     apply (rule wlp_then, rule wlp_still_early, rule steady_rules)
       apply (simp add: own_ptes_def own_part_def, assumption)
     apply (rule wlp_still_early [OF bufs], assumption+)
    done
qed

lemma wlp_own_init_maps:
  assumes "no_process H r1 s"
  shows "wlp initLockMap (\<lambda>_. no_process H r1) R s" "wlp initCvarMap (\<lambda>_. no_process H r1) R s" "wlp initPipeMap (\<lambda>_. no_process H r1) R s"
proof -
  have "still_early H initLockMap" "still_early H initCvarMap" "still_early H initPipeMap"
    unfolding initLockMap_def initCvarMap_def initPipeMap_def
    by (intro steady_rules still_early_basic; simp add: own_ptes_def own_part_def set_lockMap_def set_cvarMap_def set_pipeMap_def)+
  then show "wlp initLockMap (\<lambda>_. no_process H r1) R s" "wlp initCvarMap (\<lambda>_. no_process H r1) R s" "wlp initPipeMap (\<lambda>_. no_process H r1) R s"
    using assms by (blast intro: wlp_still_early)+
qed

lemma no_process_pid: "no_process H r1 s \<Longrightarrow> no_process H r1 (s\<lparr>nextPid := n, nextSyncId := m\<rparr>)"
proof -
  assume s: "no_process H r1 s"
  let ?t = "s\<lparr>nextPid := n, nextSyncId := m\<rparr>"
  have none: "pcbs s = Map.empty" using s by (simp add: no_process_def)
  have val: "valid_at ?t = valid_at s" and tab: "table_of ?t = table_of s" and stack: "stack_at ?t = stack_at s"
    by (simp_all add: valid_at_def table_of_def stack_at_def fun_eq_iff)
  have "owns H ?t = owns H s" unfolding owns_def user_addrs_def val tab stack ..
  moreover have "table_of s q = None" for q by (simp add: table_of_def none)
  moreover have "brk_ok H ?t q" for q by (simp add: brk_ok_def none)
  ultimately show ?thesis
    using s by (auto simp: no_process_def early_def isolated_def base_fixed_def stack_base_ok_def blocks_apart_def from_malloc_def
        tables_ok_def none frames_ok_def free_frames_def kernel_known_def val spare_table_def tab has_table_def)
qed

lemma wlp_own_initScheduler:
  assumes "no_process H r1 s"
  shows "wlp (initScheduler H) (\<lambda>_. no_process H r1) R s"
proof -
  have q: "still_early H (foldrc init_tty_queues xs)" for xs
    unfolding init_tty_queues_def
    by (intro steady_rules still_early_basic; simp add: own_ptes_def own_part_def)
  have "still_early H (bindk malloc_okk (\<lambda>ok. bindk (modk (set_readyQ (make_q ok))) (\<lambda>_.
       if \<not> ok then retk ERROR else
       bindk (hm_newk BLOCKED_MAP_HASH_BUCKETS) (\<lambda>bm. bindk (modk (set_blockedMap bm)) (\<lambda>_.
         if bm = None then retk ERROR else
         bindk (hm_newk SLEEPING_MAP_HASH_BUCKETS) (\<lambda>sm. bindk (modk (set_sleepingMap sm)) (\<lambda>_.
           if sm = None then retk ERROR else
           foldrc init_tty_queues [0..<NUM_TERMINALS H])))))))"
    by (intro steady_basic steady_bindk steady_cases steady_modk still_early_basic q)
      (simp_all add: own_ptes_def own_part_def set_readyQ_def set_blockedMap_def set_sleepingMap_def)
  from wlp_still_early [OF this no_process_pid [OF assms]] show ?thesis
    by (simp add: initScheduler_def wlp_bindk [of "modk _"] wlp_basic)
qed


section \<open>The idle process\<close>

lemma early_grown:
  assumes s: "early H K r1 s" "pcbs s = Map.empty" and c: "child H (K \<union> stack_vpns H 0) p s t" and g: "grown H s (Some p) t"
  shows "early H K r1 t"
proof -
  have i: "base_fixed H s" using s(1) by (simp add: early_def isolated_def)
  have H: "0 < MAX_PT_LEN H" using i by (simp add: base_fixed_def hw_ok_def)
  obtain b c where g: "pcbs t = [p \<mapsto> c]" "r1PageTable c = Some b" "brk c = None" "dom (ptes s) \<inter> table_addrs H b = {}"
    "ptes t = blank_table H b (ptes s)" "regs_part t = regs_part s"
    using g s(2) by (auto simp: grown_def)
  have r: "REG_PTBR0 t = REG_PTBR0 s" "malloc_oracle t = malloc_oracle s" "r0StackBasePtep t = r0StackBasePtep s" "tempPtep t = tempPtep s"
    using g(6) by (simp_all add: regs_part_def)
  have tabs: "has_table H s (REG_PTBR0 s)" "has_table H s r1" using s(1) by (simp_all add: early_def spare_table_def)
  have same: "ptes t a = ptes s a" if "a \<in> table_addrs H (REG_PTBR0 s) \<union> table_addrs H r1" for a
  proof -
    have "a \<notin> table_addrs H b" using g(4) tabs that unfolding has_table_dom_iff by blast
    then show ?thesis by (simp add: g(5) blank_table_def refilled_def)
  qed
  have val: "valid_at t a = valid_at s a" if "a \<in> table_addrs H (REG_PTBR0 s) \<union> table_addrs H r1" for a
    using same [OF that] by (simp add: valid_at_def)
  have "r1 \<noteq> b" using tables_differ [OF H tabs(2) g(4)] .
  then have no_r1: "table_of t q \<noteq> Some r1" for q using g(1,2) by (simp add: table_of_def)
  have "kernel_known H K t"
    by (rule kernel_knownI [OF _ r(1)]) (use s(1) val low_entry(1) [OF i] in \<open>auto simp: early_def\<close>)
  moreover have "valid_at t (r0StackBasePtep s + j * SIZEOF_PTE H) = Some (KERNEL_STACK_BASE_VPN H + j)" if j: "j < KSTACK_NPG H" for j
  proof -
    have "r0StackBasePtep s + j * SIZEOF_PTE H \<in> table_addrs H (REG_PTBR0 s)" using early_stack [OF s(1) j] sched_ptes_table by blast
    then show ?thesis using val s(1) j by (simp add: early_def)
  qed
  moreover have "brk_ok H t q" for q using g(1,3) by (simp add: brk_ok_def)
  moreover have "has_table H t x" if "x \<in> {REG_PTBR0 s, r1}" for x
    using that tabs same by (auto simp: has_table_def)
  moreover have "spare_table H r1 t"
    using s(1) val no_r1 \<open>\<And>x. x \<in> {REG_PTBR0 s, r1} \<Longrightarrow> has_table H t x\<close> by (simp add: early_def spare_table_def from_malloc_def r)
  ultimately show ?thesis using s(1) childD(1) [OF c] by (simp add: early_def r)
qed

lemma wlp_own_initProcess:
  assumes s: "no_process H r1 s"
  shows "wlp (initProcess H) (\<lambda>m t. m = None \<or> (\<exists>K. early H K r1 t)) (\<lambda>_. True) s"
proof -
  obtain K where K: "early H K r1 s" and none: "pcbs s = Map.empty" using s by (auto simp: no_process_def)
  have iso: "isolated H (K \<union> stack_vpns H 0) s" "has_table H s (REG_PTBR0 s)" using K by (simp_all add: early_def)
  have "still_early H (enq_ready p)" for p
    unfolding enq_ready_def enqk_def
    by (intro steady_basic steady_bindk steady_cases steady_modk still_early_basic; simp add: own_ptes_def own_part_def set_readyQ_def)
  then have enq: "wlp (bindk (enq_ready p) (\<lambda>r. retk (if r = ERROR then None else Some p))) (\<lambda>m t. m = None \<or> (\<exists>K. early H K r1 t)) (\<lambda>_. True) t"
    if "early H K r1 t" for p t
    unfolding wlp_bindk wlp_basic
    by (rule steady_wlp) (use that early_same in blast)
  have "wlp (initPCB H) (\<lambda>m t. (case m of None \<Rightarrow> heir H (K \<union> stack_vpns H 0) s t | Some p \<Rightarrow> child H (K \<union> stack_vpns H 0) p s t) \<and>
      grown H s m t) (\<lambda>_. True) s"
    by (rule wlp_conj [OF own_initPCB [OF iso] grown_initPCB]) simp_all
  then show ?thesis
    unfolding initProcess_def wlp_bindk [of "initPCB _"]
    by (rule wlp_mono) (auto simp: wlp_cases wlp_basic intro!: enq early_grown [OF K none])
qed

text \<open>Its stack is one page.\<close>

lemma wlp_own_LoadIdle:
  assumes s: "early H K r1 s"
  shows "wlp (LoadIdle H d p) (\<lambda>_. early H K r1) R s"
proof -
  let ?K = "K \<union> stack_vpns H 0"
  have iso: "isolated H ?K s" using s by (simp add: early_def)
  have H: "0 < MAX_PT_LEN H" using iso by (simp add: isolated_def base_fixed_def hw_ok_def)
  have ctx: "wlp (bindk (upd_uctxt p f) (\<lambda>_. retk SUCCESS)) (\<lambda>_. early H K r1) R t" if t: "early H K r1 t" for t f
  proof -
    have "steady (own_ptes H) (bindk (upd_uctxt p f) (\<lambda>_. retk SUCCESS))"
      unfolding upd_uctxt_def
      by (intro steady_basic steady_bindk steady_cases)
        (auto simp: steady_def upd_pcb_def get_pcb_def wlp_simps own_ptes_def own_part_def oview_def fun_eq_iff)
    then show ?thesis by (rule steady_wlp) (use t early_same in blast)
  qed
  have entry: "wlp (bindk getFramek (\<lambda>f. case f of None \<Rightarrow> retk ERROR | Some x \<Rightarrow>
        bindk (setPageTableEntryNoFlush (b + (MAX_PT_LEN H - 1) * SIZEOF_PTE H) True {PROT_READ, PROT_WRITE} x) (\<lambda>_.
        bindk (upd_uctxt p g) (\<lambda>_. retk SUCCESS)))) (\<lambda>_. early H K r1) R s"
    if b: "table_of s p = Some b" for b g
    unfolding wlp_bindk [of getFramek]
  proof (rule wlp_mono [OF wlp_get_spare [OF iso]], goal_cases)
    case (1 r t)
    then obtain fl where t: "t = repaged s (ptes s) fl (tlb_log s)" "isolated H ?K t" "\<And>f. r = Some f \<Longrightarrow> spare H ?K f t" by blast
    have et: "early H K r1 t" using early_frames [OF s] t(1,2) by simp
    have bt: "table_of t p = Some b" using b t(1) by simp
    have "early H K r1 (t\<lparr>ptes := (ptes t)(b + (MAX_PT_LEN H - 1) * SIZEOF_PTE H \<mapsto>
        \<lparr>pte_valid = True, pte_prot = pr, pte_pfn = f\<rparr>)\<rparr>)" if "r = Some f" for f pr
    proof -
      from filling_entry(1) [OF t(2) t(3) [OF that] bt, of "MAX_PT_LEN H - 1" pr "tlb_log t"] H
      have "early H K r1 (repaged t ((ptes t)(b + (MAX_PT_LEN H - 1) * SIZEOF_PTE H \<mapsto>
          \<lparr>pte_valid = True, pte_prot = pr, pte_pfn = f\<rparr>)) (frameList t) (tlb_log t))" by (intro early_filling [OF et bt]) simp
      then show ?thesis by (simp add: repaged_def)
    qed
    then show ?case
      using et by (auto simp: wlp_cases wlp_basic wlp_bindk [of "setPageTableEntryNoFlush _ _ _ _"] intro!: wlp_setpte_quiet ctx)
  qed simp
  show ?thesis
    unfolding LoadIdle_def Let_def wlp_bindk [of "get_pcb _"] wlp_bindk [of "nonnull _"] wlp_pcbs wlp_basic
    by (intro allI impI entry) (simp add: table_of_def)
qed


section \<open>The first process\<close>

lemma early_bump:
  assumes s: "early H K r1 s"
  shows "early H K r1 (s\<lparr>nextPid := nextPid s + 1, initPid := n, malloc_count := m\<rparr>)"
proof -
  let ?t = "s\<lparr>nextPid := nextPid s + 1, malloc_count := m\<rparr>"
  have i: "isolated H (K \<union> stack_vpns H 0) s" using s by (simp add: early_def)
  have val: "valid_at ?t = valid_at s" and tab: "table_of ?t = table_of s" by (simp_all add: valid_at_def table_of_def fun_eq_iff)
  have "brk_ok H ?t q" for q using heir_brk [OF heir_bump [OF i]] s by (simp add: early_def)
  moreover have "kernel_known H K ?t" using s kernel_known_same [of ?t s H K] by (simp add: early_def)
  ultimately have "early H K r1 ?t"
    using s heirD(1) [OF heir_bump [OF i]] by (simp add: early_def spare_table_def from_malloc_def has_table_def val tab)
  then show ?thesis by (rule early_same [rotated]) (simp add: own_ptes_def own_part_def)
qed

text \<open>A frame of the boot stack passes from the kernel to the process.\<close>

lemma isolated_less:
  assumes "isolated H (insert f K) s" "f \<notin> K" "kernel_known H K s"
  shows "isolated H K s" "spare H K f s"
  using assms by (auto simp: isolated_def pool_def spare_def)

definition taking :: "hw \<Rightarrow> nat set \<Rightarrow> ptr \<Rightarrow> kstate \<Rightarrow> ptr \<Rightarrow> nat \<Rightarrow> kstate \<Rightarrow> bool" where
  "taking H K r1 u p j t \<longleftrightarrow> isolated H (K \<union> stack_vpns H j) t \<and> ptes t = ptes u \<and> REG_PTBR0 t = REG_PTBR0 u \<and>
     table_of t p = Some r1 \<and> (\<forall>q. brk_ok H t q)"

lemma taking_next:
  assumes u: "K \<inter> stack_vpns H 0 = {}" "kernel_known H K u" and t: "taking H K r1 u p j t" and j: "j < KSTACK_NPG H" and c: "pcbs t p = Some c"
  shows "taking H K r1 u p (Suc j) (t\<lparr>pcbs := (pcbs t)(p \<mapsto> c\<lparr>stackPfns := stackPfns c @ [KERNEL_STACK_BASE_VPN H + j]\<rparr>)\<rparr>)"
proof -
  let ?f = "KERNEL_STACK_BASE_VPN H + j" and ?K = "K \<union> stack_vpns H (Suc j)"
  have s: "stack_vpns H j = insert ?f (stack_vpns H (Suc j))" "?f \<notin> stack_vpns H (Suc j)" "?f \<in> stack_vpns H 0"
    using j by (auto simp: stack_vpns_def Suc_le_eq le_less)
  have k: "kernel_known H K t" using u(2) t kernel_known_same [of t u H K] by (simp add: taking_def)
  have "isolated H (insert ?f ?K) t" using t s(1) by (simp add: taking_def)
  moreover have "?f \<notin> ?K" using s(2,3) u(1) by blast
  moreover have "kernel_known H ?K t" using k by (auto simp: kernel_known_def)
  ultimately have i: "isolated H ?K t" "spare H ?K ?f t" by (rule isolated_less)+
  note h = isolated_push [OF i c]
  show ?thesis
    using t c heirD(1) [OF h] heir_brk [OF h] by (simp add: taking_def table_of_def)
qed

lemma wlp_own_initInitProcess:
  assumes s: "early H K r1 s"
  shows "wlp (initInitProcess H r1) (\<lambda>m t. \<forall>p. m = Some p \<longrightarrow> isolated H K t \<and> table_of t p = Some r1 \<and> (\<forall>q. brk_ok H t q)) R s"
    (is "wlp _ ?Q R s")
proof -
  have frames: "wlp (foldk (\<lambda>i. bindk (fetch ptes (r0StackBasePtep u + i * SIZEOF_PTE H)) (\<lambda>e.
      upd_pcb p (\<lambda>c. c\<lparr>stackPfns := stackPfns c @ [pte_pfn e]\<rparr>))) [0..<KSTACK_NPG H])
      (\<lambda>_. wlp (retk (Some p)) ?Q R) R (u\<lparr>pcbs := (pcbs u)(p \<mapsto> blank_pcb (nextPid s) (Some KStart) cm (Some r1))\<rparr>)"
    if u: "early H K r1 u" "pcbs u p = None" "nextPid u = nextPid s + 1" for u p cm
  proof -
    let ?v = "u\<lparr>pcbs := (pcbs u)(p \<mapsto> blank_pcb (nextPid s) (Some KStart) cm (Some r1))\<rparr>"
    have e: "isolated H (K \<union> stack_vpns H 0) u" "spare_table H r1 u" "K \<inter> stack_vpns H 0 = {}" "kernel_known H K u" using u(1) by (simp_all add: early_def)
    have "child H (K \<union> stack_vpns H 0) p u ?v"
      by (rule isolated_new_block [OF e(1) u(2) e(2)]) (use u(3) in \<open>simp_all add: blank_pcb_def\<close>)
    then have new: "isolated H (K \<union> stack_vpns H 0) ?v" by (rule childD)
    have val: "valid_at ?v = valid_at u" by (simp add: valid_at_def fun_eq_iff)
    have "brk_ok H ?v q" for q
    proof (cases "q = p")
      case True
      then show ?thesis by (simp add: brk_ok_def blank_pcb_def)
    next
      case False
      have "brk_ok H u q" using u(1) by (simp add: early_def)
      then show ?thesis using False by (simp add: brk_ok_def val)
    qed
    then have start: "taking H K r1 u p 0 ?v" using new by (simp add: taking_def table_of_def blank_pcb_def)
    have pfn: "pte_pfn e = KERNEL_STACK_BASE_VPN H + j" if "j < KSTACK_NPG H" "ptes u (r0StackBasePtep u + j * SIZEOF_PTE H) = Some e" for j e
      using u(1) that by (auto simp: early_def valid_at_def split: if_splits)
    have "wlp (foldk (\<lambda>i. bindk (fetch ptes (r0StackBasePtep u + i * SIZEOF_PTE H)) (\<lambda>e.
      upd_pcb p (\<lambda>c. c\<lparr>stackPfns := stackPfns c @ [pte_pfn e]\<rparr>))) [0..<KSTACK_NPG H]) (\<lambda>_. taking H K r1 u p (KSTACK_NPG H)) R ?v"
    proof (rule wlp_foldk_upt [where I = "taking H K r1 u p"])
      fix j t
      assume j: "j < KSTACK_NPG H" and t: "taking H K r1 u p j t"
      then show "wlp (bindk (fetch ptes (r0StackBasePtep u + j * SIZEOF_PTE H)) (\<lambda>e.
          upd_pcb p (\<lambda>c. c\<lparr>stackPfns := stackPfns c @ [pte_pfn e]\<rparr>))) (\<lambda>_. taking H K r1 u p (Suc j)) R t"
        using taking_next [OF e(3,4) t j] pfn [OF j] by (auto simp: wlp_bindk wlp_basic wlp_pcbs taking_def)
    qed (rule start)
    moreover have "stack_vpns H (KSTACK_NPG H) = {}" by (auto simp: stack_vpns_def)
    ultimately show ?thesis by (elim wlp_mono) (auto simp: wlp_basic taking_def)
  qed
  show ?thesis
    unfolding initInitProcess_def
    apply (simp add: wlp_bindk [of mallock] wlp_bindk [of "getk _"] wlp_bindk [of "modk _"] wlp_bindk [of malloc_okk]
        wlp_basic wlp_mallock wlp_cases)
    apply (intro impI allI, rule wlp_then, rule wlp_hm_newk_any)
    apply (simp add: wlp_bindk wlp_basic)
    apply (rule frames [where u = "s\<lparr>nextPid := nextPid s + 1, initPid := nextPid s, malloc_count := c\<rparr>" for c, simplified])
      apply (rule early_bump [OF s], assumption)
    done
qed

section \<open>The start of the kernel\<close>

text \<open>Every process block satisfies the condition on its break.\<close>

definition breaks_ok :: "hw \<Rightarrow> kstate \<Rightarrow> bool" where
  "breaks_ok H s \<longleftrightarrow> (\<exists>K. isolated H K s) \<and> (\<forall>q. brk_ok H s q)"

lemma breaks_ok_heir: "isolated H K s \<Longrightarrow> heir H K s t \<Longrightarrow> \<forall>q. brk_ok H s q \<Longrightarrow> breaks_ok H t"
  using heirD(1) heir_brk by (fastforce simp: breaks_ok_def)

lemma wlp_own_last_steps:
  assumes s: "isolated H K s" "table_of s p = Some b" "\<forall>q. brk_ok H s q"
    and l: "\<And>exe li. file = Some exe \<Longrightarrow> exe_info exe = Some li \<Longrightarrow> linked H li"
  shows "wlp (bindk (LoadProgram H file (retk args) p) (\<lambda>r. bindk (halt_unless (r = SUCCESS)) (\<lambda>_.
     bindk (modk (\<lambda>s. s\<lparr>currPCB := p\<rparr>)) (\<lambda>_.
     bindk malloc_okk (\<lambda>ok. bindk (halt_unless ok) (\<lambda>_.
     bindk malloc_okk (\<lambda>ok. bindk (halt_unless ok) (\<lambda>_.
     enter_user)))))))) (\<lambda>_. breaks_ok H) (\<lambda>_. True) s"
proof (rule checked_then [where P = "\<lambda>_ t. isolated H K t \<and> (\<forall>q. brk_ok H t q)"])
  show "wlp (LoadProgram H file (retk args) p) (\<lambda>r t. r = SUCCESS \<longrightarrow> isolated H K t \<and> (\<forall>q. brk_ok H t q)) (\<lambda>_. True) s"
    by (rule wlp_mono [OF own_LoadProgram [OF s(1,2) l steady_basic(1)]]) (use s(3) heirD(1) heir_brk in auto)
  fix t
  assume t: "isolated H K t \<and> (\<forall>q. brk_ok H t q)"
  have "tracked H (bindk (modk (\<lambda>s. s\<lparr>currPCB := p\<rparr>)) (\<lambda>_.
     bindk malloc_okk (\<lambda>ok. bindk (halt_unless ok) (\<lambda>_.
     bindk malloc_okk (\<lambda>ok. bindk (halt_unless ok) (\<lambda>_. enter_user))))))"
    unfolding halt_unless_def by (intro tracked_rules tracked_still still_enter_user) (simp add: own_part_def)
  then have "wlp (bindk (modk (\<lambda>s. s\<lparr>currPCB := p\<rparr>)) (\<lambda>_.
     bindk malloc_okk (\<lambda>ok. bindk (halt_unless ok) (\<lambda>_.
     bindk malloc_okk (\<lambda>ok. bindk (halt_unless ok) (\<lambda>_. enter_user)))))) (\<lambda>_. heir H K t) (heir H K t) t"
    using wlp_tracked t by blast
  then show "wlp (bindk (modk (\<lambda>s. s\<lparr>currPCB := p\<rparr>)) (\<lambda>_.
     bindk malloc_okk (\<lambda>ok. bindk (halt_unless ok) (\<lambda>_.
     bindk malloc_okk (\<lambda>ok. bindk (halt_unless ok) (\<lambda>_. enter_user)))))) (\<lambda>_. breaks_ok H) (\<lambda>_. True) t"
    by (rule wlp_mono) (use t breaks_ok_heir in blast)+
qed

lemma counted_fill:
  assumes s: "counted H r0 r1 s" "hw_ok H" and P: "dom P = dom (ptes s)" "\<And>a. a \<notin> table_addrs H r0 \<Longrightarrow> P a = ptes s a"
  shows "counted H r0 r1 (s\<lparr>ptes := P\<rparr>)"
proof -
  have "apart H r0 r1" using s(1) by (auto simp: counted_def cold_def blank_at_def blocks_apart_def from_malloc_def)
  then have "table_addrs H r0 \<inter> table_addrs H r1 = {}" using s(2) by (intro apart_tables) (simp_all add: hw_ok_def)
  then have "valid_at (s\<lparr>ptes := P\<rparr>) a = valid_at s a" if "a \<in> table_addrs H r1" for a
  proof -
    have "a \<notin> table_addrs H r0" using that \<open>table_addrs H r0 \<inter> table_addrs H r1 = {}\<close> by blast
    then show ?thesis by (simp add: valid_at_def P(2))
  qed
  then show ?thesis
    using s(1) P(1) by (simp add: counted_def cold_def blank_at_def blocks_apart_def from_malloc_def has_table_dom_iff frames_ok_def free_frames_def)
qed

text \<open>From the frame list to the virtual memory.\<close>

lemma wlp_start_paging:
  assumes H: "hw_ok H" and n: "vpn_of H (PMEM_BASE H) + n div PAGESIZE H \<le> 2 ^ 24"
    and s: "cold H s" "blank_at H r0 s" "blank_at H r1 s" "r0 \<noteq> r1"
    and f: "\<And>t. no_process H r1 t \<Longrightarrow> wlp f Q (\<lambda>_. True) t"
  shows "wlp (bindk (init_frames_k H n) (\<lambda>_. bindk (fill_r0 H r0) (\<lambda>_. bindk (enable_vm H r0 r1) (\<lambda>_. f)))) Q (\<lambda>_. True) s"
proof -
  have paging: "wlp (bindk (enable_vm H r0 r1) (\<lambda>_. f)) Q (\<lambda>_. True) v"
    if "counted H r0 r1 v" "\<And>i. i < MAX_PT_LEN H \<Longrightarrow> valid_at v (r0 + i * SIZEOF_PTE H) = r0_at H (kernelDataStart v) (currKernelBrk v) i" for v
  proof -
    have "wlp (enable_vm H r0 r1) (\<lambda>_. no_process H r1) (\<lambda>_. True) v" 
      unfolding no_process_def [abs_def] using early_start [OF H that] .
    then show ?thesis unfolding wlp_bindk by (rule wlp_mono) (simp_all add: f)
  qed
  have fill: "wlp (bindk (fill_r0 H r0) (\<lambda>_. bindk (enable_vm H r0 r1) (\<lambda>_. f))) Q (\<lambda>_. True) u"
    if u: "counted H r0 r1 u" "blank_at H r0 u" for u
    unfolding wlp_bindk [of "fill_r0 _ _"]
  proof (rule wlp_mono [OF wlp_fill_r0 [OF H u(2)]], goal_cases)
    case (1 x v)
    then obtain P where P: "v = u\<lparr>ptes := P\<rparr>" "dom P = dom (ptes u)" "\<And>a. a \<notin> table_addrs H r0 \<Longrightarrow> P a = ptes u a"
      "\<And>i. i < MAX_PT_LEN H \<Longrightarrow> valid_at v (r0 + i * SIZEOF_PTE H) = r0_at H (kernelDataStart u) (currKernelBrk u) i" by blast
    show ?case
    proof (rule paging)
      show "counted H r0 r1 v" unfolding P(1) by (rule counted_fill [OF u(1) H P(2,3)])
    qed (use P(1,4) in simp)
  qed simp
  show ?thesis
    unfolding wlp_bindk [of "init_frames_k _ _"] by (rule wlp_mono [OF wlp_count_frames [OF H n s]]) (auto intro: fill)
qed

text \<open>From the scheduler on.\<close>

lemma wlp_own_processes:
  assumes s: "no_process H r1 s" and l: "\<And>exe li. file = Some exe \<Longrightarrow> exe_info exe = Some li \<Longrightarrow> linked H li"
  shows "wlp (bindk (initScheduler H) (\<lambda>r. bindk (halt_unless (r \<noteq> ERROR)) (\<lambda>_.
     bindk (initProcess H) (\<lambda>idle. bindk (halt_unless (idle \<noteq> None)) (\<lambda>_.
     bindk (LoadIdle H doIdle (the idle)) (\<lambda>r. bindk (halt_unless (r \<noteq> ERROR)) (\<lambda>_.
     bindk (initInitProcess H r1) (\<lambda>ip. bindk (halt_unless (ip \<noteq> None)) (\<lambda>_.
     bindk (LoadProgram H file (retk args) (the ip)) (\<lambda>r. bindk (halt_unless (r = SUCCESS)) (\<lambda>_.
     bindk (modk (\<lambda>s. s\<lparr>currPCB := the ip\<rparr>)) (\<lambda>_.
     bindk malloc_okk (\<lambda>ok. bindk (halt_unless ok) (\<lambda>_.
     bindk malloc_okk (\<lambda>ok. bindk (halt_unless ok) (\<lambda>_.
     enter_user))))))))))))))) ) (\<lambda>_. breaks_ok H) (\<lambda>_. True) s"
  apply (rule checked_then [where P = "\<lambda>_ t. no_process H r1 t"])
   apply (rule wlp_mono [OF wlp_own_initScheduler [OF s]]; simp)
  apply (rule checked_then [where P = "\<lambda>_ t. \<exists>K. early H K r1 t"])
   apply (rule wlp_mono [OF wlp_own_initProcess], assumption; auto)
  apply (erule exE)
  subgoal for _ _ _ _ K
    apply (rule checked_then [where P = "\<lambda>_ t. early H K r1 t"])
     apply (rule wlp_mono [OF wlp_own_LoadIdle], assumption; simp)
    apply (rule checked_then [where P = "\<lambda>ip t. isolated H K t \<and> table_of t (the ip) = Some r1 \<and> (\<forall>q. brk_ok H t q)"])
     apply (rule wlp_mono [OF wlp_own_initInitProcess], assumption; auto)
    apply (elim conjE, rule wlp_own_last_steps, assumption+, rule l, assumption+)
    done
  done

lemma KernelStart_owns:
  assumes H: "hw_ok H" and n: "vpn_of H (PMEM_BASE H) + n div PAGESIZE H \<le> 2 ^ 24" and s: "cold H s" and l: "linked_files H E"
  shows "wlp (KernelStart E H d args n) (\<lambda>_. breaks_ok H) (\<lambda>_. True) s"
proof -
  have len: "0 < MAX_PT_LEN H" using H by (simp add: hw_ok_def)
  have link: "linked H li" if "open_file E name = Some exe" "exe_info exe = Some li" for name exe li
    using l that by (auto simp: linked_files_def)
  show ?thesis
    unfolding KernelStart_def Let_def
    apply (rule checked_then [where P = "\<lambda>r t. cold H t \<and> blank_at H (the r) t"])
     apply (rule wlp_mono [OF wlp_cold_table [OF s len]]; auto)
    apply (rule checked_then [where P = "\<lambda>r t. cold H t \<and> blank_at H (the r) t \<and> blank_at H (the r0) t \<and> the r0 \<noteq> the r" for r0])
     apply (rule wlp_mono [OF wlp_cold_table [OF _ len]], blast, auto)[1]
    apply (elim conjE, rule wlp_start_paging [OF H n], assumption+)
    subgoal for r0 _ r1
      apply (rule checked_then [where P = "\<lambda>_. no_process H (the r1)"], rule wlp_mono [OF wlp_initBuffers], assumption, simp, simp)
      apply (rule checked_then [where P = "\<lambda>_. no_process H (the r1)"], rule wlp_mono [OF wlp_own_init_maps(1)], assumption, simp, simp)
      apply (rule checked_then [where P = "\<lambda>_. no_process H (the r1)"], rule wlp_mono [OF wlp_own_init_maps(2)], assumption, simp, simp)
      apply (rule checked_then [where P = "\<lambda>_. no_process H (the r1)"], rule wlp_mono [OF wlp_own_init_maps(3)], assumption, simp, simp)
      apply (rule wlp_own_processes, assumption, rule link, assumption+)
      done
    done
qed

section \<open>Every state of every run\<close>

lemma boot_isolated:
  assumes boot: "hw_ok H" "mallocs_ok s0" "blocks_apart H s0" "tty_blank H s0" "KernelStart E H d args n s0 = Done () s"
    and mem: "pcbs s0 = Map.empty" "\<not> isFree (past s0)" "kernelDataStart s0 \<le> currKernelBrk s0"
      "vpn_of H (PMEM_BASE H) + n div PAGESIZE H \<le> 2 ^ 24" "linked_files H E"
  obtains i where "readyQ s = Some [i]" "\<And>md t. (idle_step E H i)\<^sup>*\<^sup>* (User, s) (md, t) \<Longrightarrow> live H {} i t \<and> (\<exists>K. isolated H K t)"
proof -
  have "cold H s0" using boot(3) mem by (simp add: cold_def)
  from KernelStart_owns [OF boot(1) mem(4) this mem(5)] boot(5) have "breaks_ok H s" by (simp add: wlp_def)
  then obtain K where so: "sound H K s" by (auto simp: breaks_ok_def sound_def)
  obtain i where i: "readyQ s = Some [i]" "world_ok H {} i (User, s)" using boot_world [OF boot] by blast
  have "live H {} i t \<and> (\<exists>K. isolated H K t)" if "(idle_step E H i)\<^sup>*\<^sup>* (User, s) (md, t)" for md t
  proof -
    have "world_ok H {} i (md, t) \<and> sound H K t" using sound_run [OF mem(5) i(2) _ that] so by simp
    then show ?thesis using world_live by (auto simp: sound_def)
  qed
  then show thesis by (rule that [OF i(1)])
qed

end
