(* ===== verification/ForkCopy.thy ===== *)
theory ForkCopy
  imports Forks
begin

text \<open>
  What \<^verbatim>\<open>KernelFork\<close> copies: every valid page of the parent gets a frame of its own in the table of the
  child, with the same protection and the same contents; the parent keeps its memory.
\<close>

section \<open>One page\<close>

lemma translate_at:
  assumes "hw_ok H" "walk H s v = Some e" "pte_valid e" "i < PAGESIZE H"
  shows "translate H s need (v * PAGESIZE H + i) = (if need \<in> pte_prot e then Some (pte_pfn e, i) else None)"
  using assms hw_okD(2) [OF assms(1)] by (simp add: translate_def div_mult_self3 add.commute)

text \<open>The spare page is filled from another page; nothing else of the memory changes.\<close>

definition page_copied :: "hw \<Rightarrow> nat \<Rightarrow> nat \<Rightarrow> (nat \<Rightarrow> nat \<Rightarrow> byte) \<Rightarrow> nat \<Rightarrow> nat \<Rightarrow> byte" where
  "page_copied H x f m = m(x := (\<lambda>i. if i < PAGESIZE H then m f i else m x i))"

lemma wlp_copy_frame:
  assumes H: "hw_ok H" and src: "walk H s v = Some e" "pte_valid e" and dst: "walk H s w = Some \<lparr>pte_valid = True, pte_prot = {PROT_WRITE}, pte_pfn = x\<rparr>"
  shows "wlp (memmovek H (w * PAGESIZE H) (v * PAGESIZE H) (PAGESIZE H)) (\<lambda>_ t. t = s\<lparr>pmem := page_copied H x (pte_pfn e) (pmem s)\<rparr>) R s"
proof (cases "mapped H s PROT_READ (v * PAGESIZE H) (PAGESIZE H)")
  case False
  then show ?thesis by (simp add: wlp_def memmovek_def bindk_def copyin_fault)
next
  case True
  let ?P = "PAGESIZE H" and ?xs = "bytes_at H s (v * PAGESIZE H) (PAGESIZE H)"
  have P: "0 < ?P" using hw_okD(2) [OF H] .
  have r: "PROT_READ \<in> pte_prot e" using True P translate_at [OF H src P, of PROT_READ] by (auto simp: mapped_def split: if_splits)
  have wr: "translate H s PROT_WRITE (w * ?P + i) = Some (x, i)" if "i < ?P" for i
    using translate_at [OF H dst _ that, of PROT_WRITE] by simp
  have xs: "?xs ! i = pmem s (pte_pfn e) i" if "i < ?P" for i
    using translate_at [OF H src that, of PROT_READ] r that by (simp add: bytes_at_def cell_def)
  have "poke H s (w * ?P) ?xs (pmem s) f i = page_copied H x (pte_pfn e) (pmem s) f i" for f i
  proof (cases "f = x \<and> i < ?P")
    case True
    then show ?thesis
      using poke_at [of i ?xs H s "w * ?P" f i] wr xs spread_word [of ?P H s "w * ?P"] by (simp add: page_copied_def)
  next
    case False
    then have "poke H s (w * ?P) ?xs (pmem s) f i = pmem s f i" using wr by (intro poke_other) auto
    with False show ?thesis by (auto simp: page_copied_def)
  qed
  then have "poke H s (w * ?P) ?xs (pmem s) = page_copied H x (pte_pfn e) (pmem s)" by (simp add: fun_eq_iff)
  moreover have "mapped H s PROT_WRITE (w * ?P) (length ?xs)" using wr by (simp add: mapped_def)
  ultimately show ?thesis
    using copyin_run [OF True] copyout_run by (simp add: wlp_def memmovek_def bindk_def)
qed

section \<open>All pages\<close>

text \<open>The pages of the parent, and what is known when those below \<open>n\<close> have been copied; \<open>g\<close> are the new frames.\<close>

definition valid_pages :: "hw \<Rightarrow> kstate \<Rightarrow> ptr \<Rightarrow> nat set" where
  "valid_pages H s pt = {j. j < MAX_PT_LEN H \<and> valid_at s (pt + j * SIZEOF_PTE H) \<noteq> None}"

definition page_entry :: "hw \<Rightarrow> kstate \<Rightarrow> ptr \<Rightarrow> nat \<Rightarrow> pte" where
  "page_entry H s pt j = the (ptes s (pt + j * SIZEOF_PTE H))"

definition copied_upto :: "hw \<Rightarrow> kstate \<Rightarrow> ptr \<Rightarrow> nat set \<Rightarrow> (nat \<Rightarrow> nat) \<Rightarrow> kstate \<Rightarrow> bool" where
  "copied_upto H s ct V g t \<longleftrightarrow> inj_on g V \<and> g ` V \<subseteq> free_frames s \<and> free_frames t = free_frames s - g ` V \<and>
     (\<forall>f. f \<notin> g ` V \<longrightarrow> pmem t f = pmem s f) \<and>
     (\<forall>j \<in> V. \<forall>i < PAGESIZE H. pmem t (g j) i = pmem s (pte_pfn (page_entry H s (REG_PTBR1 s) j)) i) \<and>
     (\<forall>j < MAX_PT_LEN H. ptes t (ct + j * SIZEOF_PTE H) =
        (if j \<in> V then Some \<lparr>pte_valid = True, pte_prot = pte_prot (page_entry H s (REG_PTBR1 s) j), pte_pfn = g j\<rparr>
         else ptes s (ct + j * SIZEOF_PTE H))) \<and>
     (\<forall>a. a \<notin> table_addrs H ct \<longrightarrow> a \<noteq> tempPtep s \<longrightarrow> ptes t a = ptes s a)"

definition copy_ready :: "hw \<Rightarrow> kstate \<Rightarrow> ptr \<Rightarrow> bool" where
  "copy_ready H s ct \<longleftrightarrow> hw_ok H \<and> mmu_ok H s \<and> frames_ok s \<and> has_table H s ct \<and>
     table_addrs H ct \<inter> (table_addrs H (REG_PTBR0 s) \<union> table_addrs H (REG_PTBR1 s)) = {} \<and>
     tempPtep s = REG_PTBR0 s + (KERNEL_STACK_BASE_VPN H - 1) * SIZEOF_PTE H \<and> tempVAddr s = (KERNEL_STACK_BASE_VPN H - 1) * PAGESIZE H \<and>
     (\<forall>j \<in> valid_pages H s (REG_PTBR1 s). pte_pfn (page_entry H s (REG_PTBR1 s) j) \<notin> free_frames s)"

definition copied_state :: "hw \<Rightarrow> kstate \<Rightarrow> ptr \<Rightarrow> nat set \<Rightarrow> kstate \<Rightarrow> bool" where
  "copied_state H s ct V t \<longleftrightarrow> t = s\<lparr>frameList := frameList t, ptes := ptes t, tlb_log := tlb_log t, pmem := pmem t\<rparr> \<and> frames_ok t \<and>
     has_table H t (REG_PTBR0 s) \<and> (\<exists>g. copied_upto H s ct V g t)"

lemma copied_other: "copied_upto H s ct V g t \<Longrightarrow> a \<notin> table_addrs H ct \<Longrightarrow> a \<noteq> tempPtep s \<Longrightarrow> ptes t a = ptes s a"
  unfolding copied_upto_def by blast

lemma copied_none:
  assumes "frames_ok s" "has_table H s (REG_PTBR0 s)"
  shows "copied_state H s ct {} s"
proof -
  have "copied_upto H s ct {} g s" for g by (simp add: copied_upto_def)
  then show ?thesis using assms unfolding copied_state_def by simp
qed

lemma copied_one:
  assumes u: "copied_upto H s ct V g u" and j: "j < MAX_PT_LEN H" "j \<notin> V" and x: "x \<in> free_frames u"
    and sz: "0 < SIZEOF_PTE H" and temp: "tempPtep s \<notin> table_addrs H ct"
    and src: "pte_pfn (page_entry H s (REG_PTBR1 s) j) \<notin> free_frames s"
    and t: "free_frames t = free_frames u - {x}" "pmem t = page_copied H x (pte_pfn (page_entry H s (REG_PTBR1 s) j)) (pmem u)"
      "ptes t = (ptes u)(tempPtep s := e', ct + j * SIZEOF_PTE H \<mapsto>
         \<lparr>pte_valid = True, pte_prot = pte_prot (page_entry H s (REG_PTBR1 s) j), pte_pfn = x\<rparr>)"
  shows "copied_upto H s ct (insert j V) (g(j := x)) t"
proof -
  let ?e = "page_entry H s (REG_PTBR1 s)"
  have U: "inj_on g V" "g ` V \<subseteq> free_frames s" "free_frames u = free_frames s - g ` V" "\<And>f. f \<notin> g ` V \<Longrightarrow> pmem u f = pmem s f"
    "\<And>k i. k \<in> V \<Longrightarrow> i < PAGESIZE H \<Longrightarrow> pmem u (g k) i = pmem s (pte_pfn (?e k)) i"
    "\<And>k. k < MAX_PT_LEN H \<Longrightarrow> ptes u (ct + k * SIZEOF_PTE H) =
        (if k \<in> V then Some \<lparr>pte_valid = True, pte_prot = pte_prot (?e k), pte_pfn = g k\<rparr> else ptes s (ct + k * SIZEOF_PTE H))"
    "\<And>a. a \<notin> table_addrs H ct \<Longrightarrow> a \<noteq> tempPtep s \<Longrightarrow> ptes u a = ptes s a"
    using u unfolding copied_upto_def by blast+
  have new: "x \<in> free_frames s" "x \<notin> g ` V" using x U(3) by auto
  have img: "(g(j := x)) ` insert j V = insert x (g ` V)" using j(2) by auto
  have same: "pmem u (pte_pfn (?e j)) = pmem s (pte_pfn (?e j))" using src U(2) by (intro U(4)) blast
  show ?thesis
    unfolding copied_upto_def img
  proof (intro conjI allI impI ballI)
    show "inj_on (g(j := x)) (insert j V)" using U(1) new(2) j(2) by (auto simp: inj_on_def)
    show "insert x (g ` V) \<subseteq> free_frames s" using U(2) new(1) by simp
    show "free_frames t = free_frames s - insert x (g ` V)" using t(1) U(3) by blast
    show "pmem t f = pmem s f" if "f \<notin> insert x (g ` V)" for f using that U(4) by (simp add: t(2) page_copied_def)
    show "pmem t ((g(j := x)) k) i = pmem s (pte_pfn (?e k)) i" if k: "k \<in> insert j V" and i: "i < PAGESIZE H" for k i
    proof (cases "k = j")
      case True
      then show ?thesis using i same by (simp add: t(2) page_copied_def)
    next
      case False
      then have "k \<in> V" using k by simp
      moreover from this have "g k \<noteq> x" using new(2) by blast
      ultimately show ?thesis using False U(5) [OF _ i] by (simp add: t(2) page_copied_def)
    qed
    show "ptes t (ct + k * SIZEOF_PTE H) = (if k \<in> insert j V then Some \<lparr>pte_valid = True, pte_prot = pte_prot (?e k), pte_pfn = (g(j := x)) k\<rparr>
        else ptes s (ct + k * SIZEOF_PTE H))" if k: "k < MAX_PT_LEN H" for k
    proof -
      have "ct + k * SIZEOF_PTE H \<noteq> tempPtep s" using temp entry_in_table [OF k, of ct] by auto
      then show ?thesis using U(6) [OF k] sz by (auto simp: t(3))
    qed
    show "ptes t a = ptes s a" if "a \<notin> table_addrs H ct" "a \<noteq> tempPtep s" for a
    proof -
      have "a \<noteq> ct + j * SIZEOF_PTE H" using that(1) entry_in_table [OF j(1), of ct] by auto
      then show ?thesis using U(7) that by (simp add: t(3))
    qed
  qed
qed


lemma temp_in_r0: "copy_ready H s ct \<Longrightarrow> tempPtep s \<in> table_addrs H (REG_PTBR0 s) \<and> KERNEL_STACK_BASE_VPN H - 1 < MAX_PT_LEN H"
proof -
  assume r: "copy_ready H s ct"
  then have H: "hw_ok H" by (simp add: copy_ready_def)
  have "KERNEL_STACK_BASE_VPN H - 1 < MAX_PT_LEN H"
    using stack_base_bound [OF H] hw_okD(7) [OF H] by linarith
  then show ?thesis using r entry_in_table [of "KERNEL_STACK_BASE_VPN H - 1" H "REG_PTBR0 s"] by (simp add: copy_ready_def)
qed

lemma parent_apart:
  assumes r: "copy_ready H s ct" and j: "j < MAX_PT_LEN H"
  shows "REG_PTBR1 s + j * SIZEOF_PTE H \<noteq> tempPtep s" "REG_PTBR1 s + j * SIZEOF_PTE H \<notin> table_addrs H ct"
proof -
  have in1: "REG_PTBR1 s + j * SIZEOF_PTE H \<in> table_addrs H (REG_PTBR1 s)" using entry_in_table [OF j] .
  have "table_addrs H (REG_PTBR0 s) \<inter> table_addrs H (REG_PTBR1 s) = {}"
    using r by (intro apart_tables) (auto simp: copy_ready_def mmu_ok_def apart_def hw_ok_def)
  moreover have "table_addrs H ct \<inter> table_addrs H (REG_PTBR1 s) = {}" using r by (auto simp: copy_ready_def)
  ultimately show "REG_PTBR1 s + j * SIZEOF_PTE H \<noteq> tempPtep s" "REG_PTBR1 s + j * SIZEOF_PTE H \<notin> table_addrs H ct"
    using in1 temp_in_r0 [OF r] by auto
qed

lemma parent_entry:
  assumes "copy_ready H s ct" "copied_upto H s ct V g t" "j < MAX_PT_LEN H"
  shows "ptes t (REG_PTBR1 s + j * SIZEOF_PTE H) = ptes s (REG_PTBR1 s + j * SIZEOF_PTE H)"
  by (rule copied_other [OF assms(2) parent_apart(2,1) [OF assms(1,3)]])

lemma wlp_copy_one:
  assumes r: "copy_ready H s ct" and u: "copied_state H s ct V u" and j: "j \<in> valid_pages H s (REG_PTBR1 s)" "j \<notin> V"
  shows "wlp (bindk getFramek (\<lambda>f. case f of None \<Rightarrow> retk ERROR | Some x \<Rightarrow>
      bindk (setPageTableEntry H (tempPtep s) True {PROT_WRITE} x) (\<lambda>_.
      bindk (memmovek H (tempVAddr s) (VMEM_1_BASE H + j * PAGESIZE H) (PAGESIZE H)) (\<lambda>_.
      bindk (setPageTableEntryNoFlush (ct + j * SIZEOF_PTE H) True (pte_prot (page_entry H s (REG_PTBR1 s) j)) x) (\<lambda>_. retk SUCCESS)))))
    (\<lambda>r t. r \<noteq> ERROR \<longrightarrow> copied_state H s ct (insert j V) t) R u"
proof -
  let ?e = "page_entry H s (REG_PTBR1 s) j" and ?w = "KERNEL_STACK_BASE_VPN H - 1" and ?ct = "ct + j * SIZEOF_PTE H"
  have H: "hw_ok H" and base: "has_table H s (REG_PTBR0 s)" "tempPtep s = REG_PTBR0 s + ?w * SIZEOF_PTE H" "tempVAddr s = ?w * PAGESIZE H"
    and dis: "table_addrs H ct \<inter> (table_addrs H (REG_PTBR0 s) \<union> table_addrs H (REG_PTBR1 s)) = {}"
    and mmu: "mmu_ok H s" and src: "pte_pfn ?e \<notin> free_frames s"
    using r j by (simp_all add: copy_ready_def mmu_ok_def)
  have jl: "j < MAX_PT_LEN H" using j(1) by (simp add: valid_pages_def)
  have sz: "0 < SIZEOF_PTE H" using H by (simp add: hw_ok_def)
  have w: "?w < MAX_PT_LEN H" and temp: "tempPtep s \<in> table_addrs H (REG_PTBR0 s)" using temp_in_r0 [OF r] by simp_all
  then have temp': "tempPtep s \<notin> table_addrs H ct" using dis by blast
  obtain fl P w' m where ueq: "u = s\<lparr>frameList := fl, ptes := P, tlb_log := w', pmem := m\<rparr>" using u unfolding copied_state_def by blast
  obtain g where g: "copied_upto H s ct V g u" and fu: "frames_ok u" "has_table H u (REG_PTBR0 s)" using u by (auto simp: copied_state_def)
  have e: "ptes s (REG_PTBR1 s + j * SIZEOF_PTE H) = Some ?e" "pte_valid ?e"
    using j(1) by (auto simp: valid_pages_def valid_at_def page_entry_def split: option.splits if_splits)
  note ne = parent_apart [OF r jl]
  have ue: "ptes u (REG_PTBR1 s + j * SIZEOF_PTE H) = Some ?e" using parent_entry [OF r g jl] e(1) by (rule trans)
  have last: "wlp (bindk (memmovek H (tempVAddr s) (VMEM_1_BASE H + j * PAGESIZE H) (PAGESIZE H)) (\<lambda>_.
      bindk (setPageTableEntryNoFlush ?ct True (pte_prot ?e) x) (\<lambda>_. retk SUCCESS)))
      (\<lambda>r t. r \<noteq> ERROR \<longrightarrow> copied_state H s ct (insert j V) t) R v"
    if v: "v = u\<lparr>frameList := fl', ptes := (ptes u)(tempPtep s \<mapsto> \<lparr>pte_valid = True, pte_prot = {PROT_WRITE}, pte_pfn = x\<rparr>), tlb_log := l\<rparr>"
      and x: "x \<in> free_frames u" "free_frames v = free_frames u - {x}" "frames_ok v" for v x fl' l
  proof -
    have "walk H v (MAX_PT_LEN H + j) = Some ?e"
      using jl ue ne(1) by (simp add: walk_def pte_of_vpn_def v ueq)
    moreover have "walk H v ?w = Some \<lparr>pte_valid = True, pte_prot = {PROT_WRITE}, pte_pfn = x\<rparr>"
      using w base(2) by (simp add: walk_def pte_of_vpn_def v ueq)
    moreover have "VMEM_1_BASE H + j * PAGESIZE H = (MAX_PT_LEN H + j) * PAGESIZE H"
      using hw_okD(4,5,10) [OF H] by (simp add: add_mult_distrib)
    ultimately have cp: "wlp (memmovek H (tempVAddr s) (VMEM_1_BASE H + j * PAGESIZE H) (PAGESIZE H))
        (\<lambda>_ t. t = v\<lparr>pmem := page_copied H x (pte_pfn ?e) (pmem v)\<rparr>) R v"
      using wlp_copy_frame [OF H _ e(2)] base(3) by metis
    let ?t = "v\<lparr>pmem := page_copied H x (pte_pfn ?e) (pmem v), ptes := (ptes v)(?ct \<mapsto> \<lparr>pte_valid = True, pte_prot = pte_prot ?e, pte_pfn = x\<rparr>)\<rparr>"
    have "copied_upto H s ct (insert j V) (g(j := x)) ?t"
      by (rule copied_one [OF g jl j(2) x(1) sz temp' src, where e' = "Some \<lparr>pte_valid = True, pte_prot = {PROT_WRITE}, pte_pfn = x\<rparr>"])
        (use x(2) in \<open>simp_all add: v free_frames_def\<close>)
    moreover have "frames_ok ?t" using x(3) by (simp add: frames_ok_def)
    moreover have "has_table H ?t (REG_PTBR0 s)" using fu(2) by (auto simp: has_table_def v)
    moreover have "?t = s\<lparr>frameList := frameList ?t, ptes := ptes ?t, tlb_log := tlb_log ?t, pmem := pmem ?t\<rparr>" unfolding v ueq by simp
    ultimately have "copied_state H s ct (insert j V) ?t" unfolding copied_state_def by blast
    then show ?thesis
      unfolding wlp_bindk [of "memmovek _ _ _ _"] by (intro wlp_mono [OF cp]) (auto simp: wlp_bindk wlp_basic intro!: wlp_setpte_quiet)
  qed
  show ?thesis
    unfolding wlp_bindk [of getFramek]
  proof (rule wlp_mono [OF wlp_take_frame [OF fu(1)]], goal_cases)
    case (1 r t)
    then obtain fl' where t: "t = u\<lparr>frameList := fl'\<rparr>" "frames_ok t"
      "case r of None \<Rightarrow> free_frames t = free_frames u | Some f \<Rightarrow> f \<in> free_frames u \<and> free_frames t = free_frames u - {f}" by blast
    show ?case
    proof (cases r)
      case None
      then show ?thesis by (simp add: wlp_basic)
    next
      case (Some x)
      show ?thesis
        unfolding Some option.case wlp_bindk [of "setPageTableEntry _ _ _ _ _"]
      proof (rule wlp_setpte, rule last)
        fix e w
        show "t\<lparr>ptes := (ptes t)(tempPtep s \<mapsto> \<lparr>pte_valid = True, pte_prot = {PROT_WRITE}, pte_pfn = x\<rparr>), tlb_log := w\<rparr> =
            u\<lparr>frameList := fl', ptes := (ptes u)(tempPtep s \<mapsto> \<lparr>pte_valid = True, pte_prot = {PROT_WRITE}, pte_pfn = x\<rparr>), tlb_log := w\<rparr>"
          by (simp add: t(1))
      qed (use t Some in \<open>simp_all add: free_frames_def frames_ok_def\<close>)
    qed
  qed simp
qed

lemma wlp_copy_r1_pages:
  assumes r: "copy_ready H s ct"
  shows "wlp (copy_r1_pages H (REG_PTBR1 s) ct) (\<lambda>r t. r \<noteq> ERROR \<longrightarrow> copied_state H s ct (valid_pages H s (REG_PTBR1 s)) t) R s"
proof -
  let ?V = "valid_pages H s (REG_PTBR1 s)"
  have all: "?V \<inter> {..<MAX_PT_LEN H} = ?V" by (auto simp: valid_pages_def)
  define I where "I n t \<longleftrightarrow> copied_state H s ct (?V \<inter> {..<n}) t" for n t
  have "wlp (copy_r1_pages H (REG_PTBR1 s) ct) (\<lambda>r t. if r = ERROR then True else I (MAX_PT_LEN H) t) R s"
    unfolding copy_r1_pages_def wlp_bindk [of "getk _"] wlp_basic prod.case
  proof (rule wlp_foldrc_upt [where I = I])
    show "I 0 s"
      using r copied_none [of s H ct] by (simp add: I_def copy_ready_def mmu_ok_def)
    fix j u
    assume j: "j < MAX_PT_LEN H" and u: "I j u"
    show "wlp (bindk (fetch ptes (REG_PTBR1 s + j * SIZEOF_PTE H)) (\<lambda>e. if pte_valid e then bindk getFramek (\<lambda>f. case f of None \<Rightarrow> retk ERROR
        | Some x \<Rightarrow> bindk (setPageTableEntry H (tempPtep s) True {PROT_WRITE} x) (\<lambda>_.
            bindk (memmovek H (tempVAddr s) (VMEM_1_BASE H + j * PAGESIZE H) (PAGESIZE H)) (\<lambda>_.
            bindk (setPageTableEntryNoFlush (ct + j * SIZEOF_PTE H) True (pte_prot e) x) (\<lambda>_. retk SUCCESS))))
      else retk SUCCESS)) (\<lambda>r v. if r = ERROR then True else I (Suc j) v) R u"
      unfolding wlp_bindk [of "fetch _ _"] wlp_basic wlp_cases(1)
    proof (intro allI impI conjI, goal_cases)
      case (1 e)
      obtain g where g: "copied_upto H s ct (?V \<inter> {..<j}) g u" using u by (auto simp: I_def copied_state_def)
      from 1 have e: "ptes s (REG_PTBR1 s + j * SIZEOF_PTE H) = Some e" using parent_entry [OF r g j] by simp
      then have v: "j \<in> ?V" "page_entry H s (REG_PTBR1 s) j = e" using 1 j by (simp_all add: valid_pages_def valid_at_def page_entry_def)
      have "insert j (?V \<inter> {..<j}) = ?V \<inter> {..<Suc j}" using v(1) by (auto simp: less_Suc_eq)
      then show ?case
        using wlp_copy_one [OF r _ v(1), of "?V \<inter> {..<j}" u R] u unfolding v(2) by (auto simp: I_def elim: wlp_mono)
    next
      case (2 e)
      obtain g where g: "copied_upto H s ct (?V \<inter> {..<j}) g u" using u by (auto simp: I_def copied_state_def)
      from 2 have "j \<notin> ?V" using parent_entry [OF r g j] by (auto simp: valid_pages_def valid_at_def)
      then have "?V \<inter> {..<Suc j} = ?V \<inter> {..<j}" by (auto simp: less_Suc_eq)
      then show ?case using u by (simp add: I_def)
    qed
  qed
  then show ?thesis
    by (rule wlp_mono) (auto simp: I_def all split: if_splits)
qed

end
