(* ===== verification/UserInit.thy ===== *)
theory UserInit
  imports Yalnix_Base
begin

text \<open>
  \<^verbatim>\<open>init.c\<close>, the first user program. A program is a tree: each node is a call of the kernel or
  of the C library with what comes after each possible reply; a leaf is the end of
  \<^verbatim>\<open>main\<close> or a step C leaves undefined. Variables are options, \<open>None\<close> before their first
  assignment.
\<close>

section \<open>Programs as trees of calls\<close>

datatype uarg = AInt int | AStr "byte list"

datatype ucall =
    UTtyPrintf int string "uarg list" | UGetPid | UDelay int | UMalloc int | UFree
  | ULockInit | UCvarInit | UPipeInit | UFork | UAcquire int | URelease int | UCvarWait int int | UCvarSignal int
  | UPipeWrite int "byte list" | UPipeRead int int | UTtyRead int int | UWait | UReclaim int
  | UExec string "string list" | UExit int

text \<open>
  The reply to a call: the return code, the integer stored through a pointer argument if one was, the
  bytes stored in a buffer argument, and whether \<^verbatim>\<open>malloc\<close> found memory.
\<close>

record ureply =
  rret :: rc
  rint :: "int option"
  rbytes :: "byte list"
  rfound :: bool

datatype uprog = UCall ucall "ureply \<Rightarrow> uprog" | UEnd | UBad fault

fun rc_int :: "rc \<Rightarrow> int" where
  "rc_int ERROR = -1"
| "rc_int (RC n) = n"

text \<open>\<^verbatim>\<open>Exit\<close> does not return, \<^verbatim>\<open>Exec\<close> returns only if it fails.\<close>

fun returning :: "ucall \<Rightarrow> ureply \<Rightarrow> bool" where
  "returning (UExit st) r = False"
| "returning (UExec f args) r = (rret r = ERROR)"
| "returning _ r = True"

fun uplay :: "uprog \<Rightarrow> ureply list \<Rightarrow> (ucall \<times> ureply) list \<times> uprog" where
  "uplay (UCall c k) (r # rs) = (if returning c r then let (t, q) = uplay (k r) rs in ((c, r) # t, q) else ([], UCall c k))"
| "uplay p rs = ([], p)"

section \<open>Statements\<close>

definition usay :: "int \<Rightarrow> string \<Rightarrow> uarg list \<Rightarrow> uprog \<Rightarrow> uprog" where
  "usay tty fmt args p = UCall (UTtyPrintf tty fmt args) (\<lambda>_. p)"

definition udo :: "ucall \<Rightarrow> uprog \<Rightarrow> uprog" where
  "udo c p = UCall c (\<lambda>_. p)"

text \<open>The value of a variable.\<close>

definition uval :: "int option \<Rightarrow> (int \<Rightarrow> uprog) \<Rightarrow> uprog" where
  "uval v k = (case v of None \<Rightarrow> UBad UNINIT | Some x \<Rightarrow> k x)"

text \<open>A call that may store an integer through a pointer to the variable \<open>v\<close>.\<close>

definition ustore :: "ucall \<Rightarrow> int option \<Rightarrow> (rc \<Rightarrow> int option \<Rightarrow> uprog) \<Rightarrow> uprog" where
  "ustore c v k = UCall c (\<lambda>r. k (rret r) (case rint r of None \<Rightarrow> v | Some x \<Rightarrow> Some x))"

text \<open>Memory from \<^verbatim>\<open>malloc\<close>: \<open>None\<close> is the null pointer, a byte is \<open>None\<close> until it is written.\<close>

type_synonym ubuf = "byte option list option"

definition ualloc :: "int \<Rightarrow> (ubuf \<Rightarrow> uprog) \<Rightarrow> uprog" where
  "ualloc n k = UCall (UMalloc n) (\<lambda>r. k (if rfound r then Some (replicate (nat n) None) else None))"

definition ufill :: "byte list \<Rightarrow> byte option list \<Rightarrow> byte option list" where
  "ufill xs l = map Some xs @ drop (length xs) l"

definition uread :: "ucall \<Rightarrow> ubuf \<Rightarrow> (int \<Rightarrow> ubuf \<Rightarrow> uprog) \<Rightarrow> uprog" where
  "uread c b k = UCall c (\<lambda>r. case b of None \<Rightarrow> k (rc_int (rret r)) None
     | Some l \<Rightarrow> if length (rbytes r) \<le> length l then k (rc_int (rret r)) (Some (ufill (rbytes r) l)) else UBad OUT_OF_BOUNDS)"

definition uput :: "ubuf \<Rightarrow> int \<Rightarrow> byte \<Rightarrow> (ubuf \<Rightarrow> uprog) \<Rightarrow> uprog" where
  "uput b i x k = (case b of None \<Rightarrow> UBad NULL_DEREF
     | Some l \<Rightarrow> if 0 \<le> i \<and> i < int (length l) then k (Some (l[nat i := Some x])) else UBad OUT_OF_BOUNDS)"

fun c_string :: "byte option list \<Rightarrow> fault + byte list" where
  "c_string [] = Inl OUT_OF_BOUNDS"
| "c_string (None # l) = Inl UNINIT"
| "c_string (Some b # l) = (if b = 0 then Inr [] else case c_string l of Inl e \<Rightarrow> Inl e | Inr xs \<Rightarrow> Inr (b # xs))"

definition ustring :: "ubuf \<Rightarrow> (byte list \<Rightarrow> uprog) \<Rightarrow> uprog" where
  "ustring b k = (case b of None \<Rightarrow> UBad NULL_DEREF | Some l \<Rightarrow> (case c_string l of Inl e \<Rightarrow> UBad e | Inr xs \<Rightarrow> k xs))"

definition chars :: "string \<Rightarrow> byte list" where
  "chars s = map (\<lambda>c. of_char c) s"

section \<open>The program\<close>

definition DELAY_LENGTH :: int where "DELAY_LENGTH = 1"
definition MALLOC_SIZE :: int where "MALLOC_SIZE = 1024"
definition PIPE_READ_SIZE :: int where "PIPE_READ_SIZE = 20"
definition TTY_READ_SIZE :: int where "TTY_READ_SIZE = 10"
definition PARENT_DELAY_LENGTH :: int where "PARENT_DELAY_LENGTH = 2"
definition CHILD_DELAY_LENGTH :: int where "CHILD_DELAY_LENGTH = 1"
definition PARENT_EXIT_STATUS :: int where "PARENT_EXIT_STATUS = 20"
definition CHILD_EXIT_STATUS :: int where "CHILD_EXIT_STATUS = PARENT_EXIT_STATUS + 10"
definition GRANDCHILD_EXIT_STATUS :: int where "GRANDCHILD_EXIT_STATUS = CHILD_EXIT_STATUS + 10"
definition ORPHAN_TEST_GRANDCHILD_DELAY_LENGTH :: int where "ORPHAN_TEST_GRANDCHILD_DELAY_LENGTH = 3"
definition ORPHAN_TEST_PARENT_DELAY_LENGTH :: int where
  "ORPHAN_TEST_PARENT_DELAY_LENGTH = ORPHAN_TEST_GRANDCHILD_DELAY_LENGTH + 2"
definition ORPHAN_TEST_CHILD_EXIT_STATUS :: int where "ORPHAN_TEST_CHILD_EXIT_STATUS = CHILD_EXIT_STATUS + 5"
definition ORPHAN_TEST_GRANDCHILD_EXIT_STATUS :: int where
  "ORPHAN_TEST_GRANDCHILD_EXIT_STATUS = GRANDCHILD_EXIT_STATUS + 5"
definition EXEC_TEST :: string where "EXEC_TEST = ''./test/exectest''"

text \<open>The test of orphans (lines 183 to 207).\<close>

definition orphan_grandchild :: "uprog \<Rightarrow> uprog" where
  "orphan_grandchild rest =
     UCall UGetPid (\<lambda>r. let pid = rc_int (rret r) in
     usay 0 ''Orphan-test grandchild (pid = %d) calling Delay(%d) so orphan-test child can exit first\<newline>''
       [AInt pid, AInt ORPHAN_TEST_GRANDCHILD_DELAY_LENGTH] (
     udo (UDelay ORPHAN_TEST_GRANDCHILD_DELAY_LENGTH) (
     usay 0 ''Orphan-test grandchild (pid = %d) exiting (if this line is printed, grandchild was not orphan-collected)\<newline>''
       [AInt pid] (
     udo (UExit ORPHAN_TEST_GRANDCHILD_EXIT_STATUS) rest))))"

definition orphan_child :: "uprog \<Rightarrow> uprog" where
  "orphan_child rest =
     UCall UGetPid (\<lambda>r. let pid = rc_int (rret r) in
     usay 0 ''Orphan-test child (pid = %d) calling Fork()...\<newline>'' [AInt pid] (
     UCall UFork (\<lambda>r.
     let after =
       UCall UGetPid (\<lambda>r. let pid = rc_int (rret r) in
       usay 0 ''Orphan-test child (pid = %d) exiting immediately after Fork()\<newline>'' [AInt pid] (
       udo (UExit ORPHAN_TEST_CHILD_EXIT_STATUS) rest))
     in if rc_int (rret r) = 0 then orphan_grandchild after else after)))"

definition orphan_test :: "int \<Rightarrow> int option \<Rightarrow> uprog" where
  "orphan_test pid status =
     usay 0 ''init now testing what happens when a parent exits before child does (orphans should keep running). Since init exiting will halt Yalnix, we test this on its child and grandchild.\<newline>'' [] (
     usay 0 ''parent calling Fork()...\<newline>'' [AInt pid] (
     UCall UFork (\<lambda>r.
     let after =
       UCall UGetPid (\<lambda>r. let pid = rc_int (rret r) in
       usay 0 ''parent (pid = %d) calling Wait()\<newline>'' [AInt pid] (
       ustore UWait status (\<lambda>rc status.
       usay 0 ''parent (pid = %d) resumed from Wait(); calling Delay(%d) so Yalnix doesn't halt until grandchild has a chance to resume.\<newline>''
         [AInt pid, AInt ORPHAN_TEST_PARENT_DELAY_LENGTH] (
       udo (UDelay ORPHAN_TEST_PARENT_DELAY_LENGTH) (
       usay 0 ''parent (pid = %d) exiting with status = %d\<newline>'' [AInt pid, AInt PARENT_EXIT_STATUS] (
       udo (UExit PARENT_EXIT_STATUS) UEnd))))))
     in if rc_int (rret r) = 0 then orphan_child after else after)))"

text \<open>
  The three calls of \<^verbatim>\<open>Reclaim\<close> are arguments of one \<^verbatim>\<open>TtyPrintf\<close>; C leaves their order
  open, so it is a parameter: the positions of the arguments in the order they are evaluated.
\<close>

fun reclaim_all :: "nat list \<Rightarrow> int list \<Rightarrow> int list \<Rightarrow> (int list \<Rightarrow> uprog) \<Rightarrow> uprog" where
  "reclaim_all [] ids rcs k = k rcs"
| "reclaim_all (i # order) ids rcs k = UCall (UReclaim (ids ! i)) (\<lambda>r. reclaim_all order ids (rcs[i := rc_int (rret r)]) k)"

text \<open>What the parent does after the first fork (lines 153 to 179).\<close>

definition parent_part :: "nat list \<Rightarrow> int \<Rightarrow> int \<Rightarrow> int \<Rightarrow> int \<Rightarrow> int option \<Rightarrow> uprog" where
  "parent_part order lock_id cvar_id pipe_id pid status =
     usay 0 ''parent is trying to acquire lock %d...\<newline>'' [AInt lock_id] (
     udo (UAcquire lock_id) (
     usay 0 ''parent has acquired lock %d...\<newline>'' [AInt lock_id] (
     usay 0 ''parent calling Delay(%d) after forking & acquiring lock.\<newline>'' [AInt PARENT_DELAY_LENGTH] (
     udo (UDelay PARENT_DELAY_LENGTH) (
     usay 0 ''parent is releasing lock %d...\<newline>'' [AInt lock_id] (
     udo (URelease lock_id) (
     usay 0 ''parent signaling cvar %d...\<newline>'' [AInt cvar_id] (
     udo (UCvarSignal cvar_id) (
     usay 0 ''parent trying to read %d bytes from pipe %d... (currently there should be nothing in the pipe, and the next time the child wakes up, it will write something into it)\<newline>''
       [AInt PIPE_READ_SIZE, AInt pipe_id] (
     ualloc (PIPE_READ_SIZE + 1) (\<lambda>buf.
     uread (UPipeRead pipe_id PIPE_READ_SIZE) buf (\<lambda>lenRead buf.
     uput buf lenRead 0 (\<lambda>buf. ustring buf (\<lambda>text.
     usay 0 ''parent just read %d characters:\<newline>%s\<newline>'' [AInt lenRead, AStr text] (
     udo UFree (
     ustore UWait status (\<lambda>rc status.
     usay 0 ''parent calling Wait(), rc = %d\<newline>'' [AInt (rc_int rc)] (
     uval status (\<lambda>st.
     usay 0 ''parent resumed from Wait(), child (pid = %d) status = %d\<newline>'' [AInt pid, AInt st] (
     reclaim_all order [lock_id, cvar_id, pipe_id] [0, 0, 0] (\<lambda>rcs.
     usay 0 ''parent calling Reclaim on the lock (%d, rc = %d), cvar (%d, rc = %d), and pipe (%d, rc = %d)\<newline>''
       [AInt lock_id, AInt (rcs ! 0), AInt cvar_id, AInt (rcs ! 1), AInt pipe_id, AInt (rcs ! 2)] (
     usay 0 ''now parent tries to acquire the lock %d again, and the return code should be %d\<newline>''
       [AInt lock_id, AInt (rc_int ERROR)] (
     UCall (UAcquire lock_id) (\<lambda>r.
     usay 0 ''the return code is %d\<newline>'' [AInt (rc_int (rret r))] (
     orphan_test pid status)))))))))))))))))))))))))"

text \<open>The grandchild (lines 116 to 134); \<open>tty_loop\<close> is the loop over the other terminals.\<close>

fun tty_loop :: "int \<Rightarrow> nat list \<Rightarrow> ubuf \<Rightarrow> (ubuf \<Rightarrow> uprog) \<Rightarrow> uprog" where
  "tty_loop pid [] buffer k = k buffer"
| "tty_loop pid (i # is) buffer k =
     usay (int i) ''Terminal %d, give me (pid = %d) something to read (%d characters):\<newline>''
       [AInt (int i), AInt pid, AInt TTY_READ_SIZE] (
     uread (UTtyRead (int i) TTY_READ_SIZE) buffer (\<lambda>num_read buffer.
     uput buffer num_read 0 (\<lambda>buffer. ustring buffer (\<lambda>text.
     usay (int i) ''TtyRead said I read %d bytes, and I read the following:\<newline>%s\<newline>'' [AInt num_read, AStr text] (
     tty_loop pid is buffer k)))))"

definition grandchild :: "hw \<Rightarrow> (int \<Rightarrow> uprog) \<Rightarrow> uprog" where
  "grandchild H rest =
     UCall UGetPid (\<lambda>r. let pid = rc_int (rret r) in
     usay 0 ''grandchild (pid = %d) is going to test other tty's...\<newline>'' [AInt pid] (
     ualloc (int (TERMINAL_MAX_LINE H)) (\<lambda>buffer.
     tty_loop pid [1..<NUM_TERMINALS H] buffer (\<lambda>buffer.
     udo UFree (
     udo (UExit GRANDCHILD_EXIT_STATUS) (rest pid))))))"

text \<open>The child (lines 77 to 150); \<open>cvar_loop\<close> is its wait for the condition.\<close>

function cvar_loop :: "int \<Rightarrow> int \<Rightarrow> int \<Rightarrow> int \<Rightarrow> uprog \<Rightarrow> uprog" where
  "cvar_loop condition pid cvar_id lock_id p =
     (if condition = 0 then
        usay 0 ''condition == %d, so child (pid = %d) calling CvarWait(%d, %d)...\<newline>''
          [AInt condition, AInt pid, AInt cvar_id, AInt lock_id] (
        udo (UCvarWait cvar_id lock_id) (
        cvar_loop (condition + 1) pid cvar_id lock_id p))
      else p)"
  by pat_completeness auto
termination
  by (relation "measure (\<lambda>(condition, _). if condition = 0 then 1 else 0)") auto

definition first_string :: string where "first_string = ''1234567890''"
definition second_string :: string where "second_string = ''abcdefghijklmnopqrstuvwxyz''"

definition wait_and_exec :: "int \<Rightarrow> int option \<Rightarrow> (int \<Rightarrow> int option \<Rightarrow> uprog) \<Rightarrow> uprog" where
  "wait_and_exec pid status rest =
     (let grandchildPid = pid in
     UCall UGetPid (\<lambda>r. let pid = rc_int (rret r) in
     usay 0 ''child (pid = %d) is waiting on grandchild (pid = %d)...\<newline>'' [AInt pid, AInt grandchildPid] (
     ustore UWait status (\<lambda>rc status.
     uval status (\<lambda>st.
     usay 0 ''child (pid = %d) resumed from waiting, grandchild (pid = %d) status = %d\<newline>''
       [AInt pid, AInt grandchildPid, AInt st] (
     usay 0 ''child (pid = %d) is calling Exec()...\<newline>'' [AInt pid] (
     udo (UExec EXEC_TEST [EXEC_TEST]) (
     usay 0 ''In init; somehow the code past exec is getting executed; child (pid = %d) exiting with status code = %d...\<newline>''
       [AInt pid, AInt CHILD_EXIT_STATUS] (
     udo (UExit CHILD_EXIT_STATUS) (rest pid status))))))))))"

definition child_part :: "hw \<Rightarrow> int \<Rightarrow> int \<Rightarrow> int \<Rightarrow> int option \<Rightarrow> (int \<Rightarrow> int option \<Rightarrow> uprog) \<Rightarrow> uprog" where
  "child_part H lock_id cvar_id pipe_id status rest =
     UCall UGetPid (\<lambda>r. let pid = rc_int (rret r) in
     usay 0 ''child (pid = %d) is trying to acquire lock %d...\<newline>'' [AInt pid, AInt lock_id] (
     udo (UAcquire lock_id) (
     usay 0 ''child (pid = %d) has acquired lock %d...\<newline>'' [AInt pid, AInt lock_id] (
     usay 0 ''child (pid = %d) calling Delay(%d) after acquiring lock.\<newline>'' [AInt pid, AInt CHILD_DELAY_LENGTH] (
     udo (UDelay CHILD_DELAY_LENGTH) (
     cvar_loop 0 pid cvar_id lock_id (
     usay 0 ''condition != 0, so child (pid = %d) is proceeding...\<newline>'' [AInt pid] (
     usay 0 ''child (pid = %d) is releasing lock %d...\<newline>'' [AInt pid, AInt lock_id] (
     udo (URelease lock_id) (
     usay 0 ''child writing 10 bytes, \"%s\", fewer than expected bytes (%d) to pipe %d\<newline>''
       [AStr (chars first_string), AInt PIPE_READ_SIZE] (
     udo (UPipeWrite pipe_id (take 10 (chars first_string))) (
     usay 0 ''child writing 26 more bytes, \"%s\"; now pipe %d has 36 bytes, more than the expected length (%d bytes)\<newline>''
       [AStr (chars second_string), AInt pipe_id, AInt PIPE_READ_SIZE] (
     udo (UPipeWrite pipe_id (take 26 (chars second_string))) (
     usay 0 ''child is delaying for another %d ticks so the parent can print the read bytes\<newline>'' [AInt CHILD_DELAY_LENGTH] (
     udo (UDelay CHILD_DELAY_LENGTH) (
     usay 0 ''child (pid = %d) is calling Fork()...\<newline>'' [AInt pid] (
     UCall UFork (\<lambda>r. let pid = rc_int (rret r) in
       if pid = 0 then grandchild H (\<lambda>pid. rest pid status) else wait_and_exec pid status rest))))))))))))))))))"

text \<open>The beginning (lines 44 to 76).\<close>

definition init_main :: "hw \<Rightarrow> nat list \<Rightarrow> uprog" where
  "init_main H order =
     usay 0 ''init calling GetPid()...\<newline>'' [] (
     UCall UGetPid (\<lambda>r. let pid = rc_int (rret r) in
     usay 0 ''init's pid: %d\<newline>'' [AInt pid] (
     usay 0 ''init calling Delay(%d)...\<newline>'' [AInt DELAY_LENGTH] (
     udo (UDelay DELAY_LENGTH) (
     usay 0 ''malloc'ing %d bytes to trigger Brk()...\<newline>'' [AInt MALLOC_SIZE] (
     ualloc MALLOC_SIZE (\<lambda>allocated_memory.
     usay 0 ''free'ing the %d bytes just allocated... \<newline>'' [AInt MALLOC_SIZE] (
     udo UFree (
     usay 0 ''init initializing lock...\<newline>'' [] (
     ustore ULockInit None (\<lambda>rc lock_id. uval lock_id (\<lambda>lock_id.
     usay 0 ''lock id = %d...\<newline>'' [AInt lock_id] (
     usay 0 ''init initializing cvar...\<newline>'' [] (
     ustore UCvarInit None (\<lambda>rc cvar_id. uval cvar_id (\<lambda>cvar_id.
     usay 0 ''cvar id = %d...\<newline>'' [AInt cvar_id] (
     usay 0 ''init initializing pipe...\<newline>'' [] (
     ustore UPipeInit None (\<lambda>rc pipe_id. uval pipe_id (\<lambda>pipe_id.
     usay 0 ''pipe id = %d...\<newline>'' [AInt pipe_id] (
     usay 0 ''init calling Fork()...\<newline>'' [] (
     UCall UFork (\<lambda>r. let pid = rc_int (rret r) in
       if pid = 0 then child_part H lock_id cvar_id pipe_id None (parent_part order lock_id cvar_id pipe_id)
       else parent_part order lock_id cvar_id pipe_id pid None)))))))))))))))))))))))"

section \<open>Format strings\<close>

datatype conv = CInt | CStr

fun conversions :: "string \<Rightarrow> conv list" where
  "conversions (CHR ''%'' # c # s) =
     (if c = CHR ''d'' then CInt # conversions s else if c = CHR ''s'' then CStr # conversions s else conversions (c # s))"
| "conversions (c # s) = conversions s"
| "conversions [] = []"

fun conv_of :: "uarg \<Rightarrow> conv" where
  "conv_of (AInt n) = CInt"
| "conv_of (AStr xs) = CStr"

text \<open>Every conversion has an argument of its type; C allows more arguments than conversions.\<close>

fun print_ok :: "ucall \<Rightarrow> bool" where
  "print_ok (UTtyPrintf tty fmt args) =
     (length (conversions fmt) \<le> length args \<and> conversions fmt = take (length (conversions fmt)) (map conv_of args))"
| "print_ok _ = True"

end
