(* ===== verification/UserProps.thy ===== *)
theory UserProps
  imports UserInit
begin

text \<open>
  What holds on every path of a user program. A monitor watches the calls: it has a state, an update for
  each call and its reply, the replies it expects of the kernel, and the calls it allows. The locale
  \<open>monitor\<close> gives the rules for the statements once; it is interpreted for the roles of the processes of
  \<^verbatim>\<open>init.c\<close> and for the way they use the lock.
\<close>

section \<open>Monitors\<close>

primrec on_paths ::
  "('g \<Rightarrow> ucall \<Rightarrow> ureply \<Rightarrow> bool) \<Rightarrow> ('g \<Rightarrow> ucall \<Rightarrow> ureply \<Rightarrow> 'g) \<Rightarrow> ('g \<Rightarrow> ucall \<Rightarrow> bool) \<Rightarrow> 'g \<Rightarrow> uprog \<Rightarrow> bool" where
  "on_paths E U P g (UCall c k) = (P g c \<and> (\<forall>r. returning c r \<longrightarrow> E g c r \<longrightarrow> on_paths E U P (U g c r) (k r)))"
| "on_paths E U P g UEnd = False"
| "on_paths E U P g (UBad e) = True"

text \<open>The same on the calls of one run.\<close>

fun expected :: "('g \<Rightarrow> ucall \<Rightarrow> ureply \<Rightarrow> bool) \<Rightarrow> ('g \<Rightarrow> ucall \<Rightarrow> ureply \<Rightarrow> 'g) \<Rightarrow> 'g \<Rightarrow> (ucall \<times> ureply) list \<Rightarrow> bool" where
  "expected E U g [] = True"
| "expected E U g ((c, r) # t) = (E g c r \<and> expected E U (U g c r) t)"

fun allowed :: "('g \<Rightarrow> ucall \<Rightarrow> ureply \<Rightarrow> 'g) \<Rightarrow> ('g \<Rightarrow> ucall \<Rightarrow> bool) \<Rightarrow> 'g \<Rightarrow> (ucall \<times> ureply) list \<Rightarrow> uprog \<Rightarrow> bool" where
  "allowed U P g [] q = (case q of UCall c k \<Rightarrow> P g c | UEnd \<Rightarrow> False | UBad e \<Rightarrow> True)"
| "allowed U P g ((c, r) # t) q = (P g c \<and> allowed U P (U g c r) t q)"

lemma on_paths_play:
  "on_paths E U P g p \<Longrightarrow> uplay p rs = (t, q) \<Longrightarrow> expected E U g t \<Longrightarrow> allowed U P g t q"
proof (induction p rs arbitrary: g t rule: uplay.induct)
  case (1 c k r rs)
  then show ?case by (cases "returning c r") (auto split: prod.splits)
qed (auto split: uprog.split)

lemma expected_any: "expected (\<lambda>_ _ _. True) U g t"
  by (induction t arbitrary: g) auto

text \<open>The undefined step a program has come to.\<close>

fun fault_of :: "uprog \<Rightarrow> fault option" where
  "fault_of (UBad e) = Some e"
| "fault_of _ = None"

locale monitor =
  fixes E :: "'g \<Rightarrow> ucall \<Rightarrow> ureply \<Rightarrow> bool" and U :: "'g \<Rightarrow> ucall \<Rightarrow> ureply \<Rightarrow> 'g"
    and P :: "'g \<Rightarrow> ucall \<Rightarrow> bool" and quiet :: "ucall \<Rightarrow> bool"
  assumes quiet_update: "quiet c \<Longrightarrow> U g c r = g"
    and quiet_print: "quiet (UTtyPrintf tty fmt args)"
    and quiet_malloc: "quiet (UMalloc n)"
begin

abbreviation ok :: "'g \<Rightarrow> uprog \<Rightarrow> bool" where
  "ok \<equiv> on_paths E U P"

lemma event: "P g c \<Longrightarrow> (\<And>r. returning c r \<Longrightarrow> E g c r \<Longrightarrow> ok (U g c r) (k r)) \<Longrightarrow> ok g (UCall c k)"
  by simp

lemma event_do: "P g c \<Longrightarrow> (\<And>r. E g c r \<Longrightarrow> ok (U g c r) p) \<Longrightarrow> ok g (udo c p)"
  by (simp add: udo_def)

lemma event_store:
  "P g c \<Longrightarrow> (\<And>r. E g c r \<Longrightarrow> ok (U g c r) (k (rret r) (case rint r of None \<Rightarrow> v | Some x \<Rightarrow> Some x))) \<Longrightarrow> ok g (ustore c v k)"
  by (simp add: ustore_def)

lemma say: "P g (UTtyPrintf tty fmt args) \<Longrightarrow> ok g p \<Longrightarrow> ok g (usay tty fmt args p)"
  by (simp add: usay_def quiet_update [OF quiet_print])

lemma quiet_call: "quiet c \<Longrightarrow> P g c \<Longrightarrow> (\<And>r. ok g (k r)) \<Longrightarrow> ok g (UCall c k)"
  by (simp add: quiet_update)

lemma quiet_do: "quiet c \<Longrightarrow> P g c \<Longrightarrow> ok g p \<Longrightarrow> ok g (udo c p)"
  by (simp add: udo_def quiet_update)

lemma exit_do: "P g (UExit st) \<Longrightarrow> ok g (udo (UExit st) p)"
  by (simp add: udo_def)

lemma value_of: "(\<And>x. v = Some x \<Longrightarrow> ok g (k x)) \<Longrightarrow> ok g (uval v k)"
  by (simp add: uval_def split: option.split)

lemma quiet_store: "quiet c \<Longrightarrow> P g c \<Longrightarrow> (\<And>x w. ok g (k x w)) \<Longrightarrow> ok g (ustore c v k)"
  by (simp add: ustore_def quiet_update split: option.split)

lemma alloc: "P g (UMalloc n) \<Longrightarrow> (\<And>b. ok g (k b)) \<Longrightarrow> ok g (ualloc n k)"
  by (simp add: ualloc_def quiet_update [OF quiet_malloc])

lemma read_in: "quiet c \<Longrightarrow> P g c \<Longrightarrow> (\<And>n b. ok g (k n b)) \<Longrightarrow> ok g (uread c b k)"
  by (simp add: uread_def quiet_update split: option.split)

lemma put_in: "(\<And>b. ok g (k b)) \<Longrightarrow> ok g (uput b i x k)"
  by (simp add: uput_def split: option.split)

lemma string_of: "(\<And>xs. ok g (k xs)) \<Longrightarrow> ok g (ustring b k)"
  by (simp add: ustring_def split: option.split sum.split)

lemmas stmts = exit_do say value_of alloc put_in string_of
lemmas quiet_stmts = quiet_call quiet_do quiet_store read_in

lemma tty_loop:
  assumes "\<And>tty n. quiet (UTtyRead tty n)" "\<And>tty n. P g (UTtyRead tty n)"
    "\<And>tty a b c. P g (UTtyPrintf tty ''Terminal %d, give me (pid = %d) something to read (%d characters):\<newline>'' [AInt a, AInt b, AInt c])"
    "\<And>tty a xs. P g (UTtyPrintf tty ''TtyRead said I read %d bytes, and I read the following:\<newline>%s\<newline>'' [AInt a, AStr xs])"
  shows "(\<And>b. ok g (k b)) \<Longrightarrow> ok g (tty_loop pid is b k)"
  using assms by (induction "is" arbitrary: b) (auto intro!: say read_in put_in string_of simp del: on_paths.simps)

lemma cvar_loop:
  assumes "quiet (UCvarWait cvar_id lock_id)" "P g (UCvarWait cvar_id lock_id)"
    "\<And>n. P g (UTtyPrintf 0 ''condition == %d, so child (pid = %d) calling CvarWait(%d, %d)...\<newline>''
       [AInt n, AInt pid, AInt cvar_id, AInt lock_id])"
  shows "ok g p \<Longrightarrow> ok g (cvar_loop n pid cvar_id lock_id p)"
  using assms
  by (induction n pid cvar_id lock_id p rule: cvar_loop.induct)
     (subst cvar_loop.simps, auto intro!: say quiet_do simp del: on_paths.simps cvar_loop.simps)

end

section \<open>Roles\<close>

text \<open>
  Which forks so far made this process the child says which process of the test it is, and thereby its exit
  status. Every call of \<^verbatim>\<open>TtyPrintf\<close> but one, \<open>short_print\<close>, has arguments for its conversions.
\<close>

definition fork_reply :: "bool list \<Rightarrow> ucall \<Rightarrow> ureply \<Rightarrow> bool list" where
  "fork_reply fs c r = (if c = UFork then fs @ [rc_int (rret r) = 0] else fs)"

fun role_status :: "bool list \<Rightarrow> int" where
  "role_status [True, True] = GRANDCHILD_EXIT_STATUS"
| "role_status [True, False] = CHILD_EXIT_STATUS"
| "role_status [False, True, True] = ORPHAN_TEST_GRANDCHILD_EXIT_STATUS"
| "role_status [False, True, False] = ORPHAN_TEST_CHILD_EXIT_STATUS"
| "role_status _ = PARENT_EXIT_STATUS"

definition short_print :: ucall where
  "short_print = UTtyPrintf 0 ''child writing 10 bytes, \"%s\", fewer than expected bytes (%d) to pipe %d\<newline>''
     [AStr (chars first_string), AInt PIPE_READ_SIZE]"

definition role_ok :: "bool list \<Rightarrow> ucall \<Rightarrow> bool" where
  "role_ok fs c \<longleftrightarrow> (print_ok c \<or> c = short_print) \<and> (\<forall>st. c = UExit st \<longrightarrow> st = role_status fs)"

interpretation roles: monitor "\<lambda>_ _ _. True" fork_reply role_ok "\<lambda>c. c \<noteq> UFork"
  by unfold_locales (simp_all add: fork_reply_def)

lemma role_ok_simps [simp]:
  "role_ok fs (UTtyPrintf tty fmt args) \<longleftrightarrow> print_ok (UTtyPrintf tty fmt args) \<or> UTtyPrintf tty fmt args = short_print"
  "role_ok fs (UExit st) \<longleftrightarrow> st = role_status fs"
  "role_ok fs UGetPid" "role_ok fs UFork" "role_ok fs UWait" "role_ok fs UFree" "role_ok fs (UMalloc n)" "role_ok fs (UDelay n)"
  "role_ok fs ULockInit" "role_ok fs UCvarInit" "role_ok fs UPipeInit" "role_ok fs (UAcquire n)" "role_ok fs (URelease n)"
  "role_ok fs (UCvarWait n m)" "role_ok fs (UCvarSignal n)" "role_ok fs (UPipeWrite n xs)" "role_ok fs (UPipeRead n m)"
  "role_ok fs (UTtyRead n m)" "role_ok fs (UReclaim n)" "role_ok fs (UExec f as)"
  by (simp_all add: role_ok_def)

lemma roles_fork:
  "(\<And>r. rc_int (rret r) = 0 \<Longrightarrow> roles.ok (fs @ [True]) (k r)) \<Longrightarrow>
   (\<And>r. rc_int (rret r) \<noteq> 0 \<Longrightarrow> roles.ok (fs @ [False]) (k r)) \<Longrightarrow> roles.ok fs (UCall UFork k)"
  by (simp add: fork_reply_def) (metis (full_types))

lemmas roles_rules = roles.stmts roles.quiet_do roles.quiet_store roles.read_in roles_fork
  roles.quiet_call [where c = UGetPid] roles.quiet_call [where c = "UAcquire n" for n]
  roles.quiet_call [where c = "UReclaim n" for n]

lemma orphan_grandchild_roles: "roles.ok [False, True, True] (orphan_grandchild rest)"
  unfolding orphan_grandchild_def Let_def by (auto intro!: roles_rules simp del: on_paths.simps)

lemma orphan_child_roles: "roles.ok [False, True] (orphan_child rest)"
  unfolding orphan_child_def Let_def by (auto intro!: roles_rules orphan_grandchild_roles simp del: on_paths.simps)

lemma orphan_test_roles: "roles.ok [False] (orphan_test pid status)"
  unfolding orphan_test_def Let_def by (auto intro!: roles_rules orphan_child_roles simp del: on_paths.simps)

lemma reclaim_all_roles: "(\<And>rcs. roles.ok fs (k rcs)) \<Longrightarrow> roles.ok fs (reclaim_all order ids rcs k)"
  by (induction order arbitrary: rcs) (auto intro!: roles_rules simp del: on_paths.simps)

lemma parent_part_roles: "roles.ok [False] (parent_part order lock_id cvar_id pipe_id pid status)"
  unfolding parent_part_def
  by (auto intro!: roles_rules reclaim_all_roles orphan_test_roles simp del: on_paths.simps)

lemma grandchild_roles: "roles.ok [True, True] (grandchild H rest)"
  unfolding grandchild_def Let_def by (auto intro!: roles_rules roles.tty_loop simp del: on_paths.simps)

lemma wait_and_exec_roles: "roles.ok [True, False] (wait_and_exec pid status rest)"
  unfolding wait_and_exec_def Let_def by (auto intro!: roles_rules simp del: on_paths.simps)

lemma child_part_roles: "roles.ok [True] (child_part H lock_id cvar_id pipe_id status rest)"
  unfolding child_part_def Let_def
  by (auto intro!: roles_rules roles.cvar_loop grandchild_roles wait_and_exec_roles
      simp: short_print_def simp del: on_paths.simps cvar_loop.simps)

lemma init_main_roles: "roles.ok [] (init_main H order)"
  unfolding init_main_def Let_def
  by (auto intro!: roles_rules child_part_roles parent_part_roles simp del: on_paths.simps)

section \<open>The lock\<close>

text \<open>
  How a process of the test uses its lock: the identifier once \<^verbatim>\<open>LockInit\<close> has given it, whether
  the lock still exists, and whether the process holds it. The kernel is expected to answer
  \<^verbatim>\<open>Acquire\<close> with success exactly if the lock exists, to reclaim a lock that is not held, and to
  give different identifiers to the three objects.
\<close>

type_synonym lock_use = "int option \<times> bool \<times> bool"

fun lock_reply :: "lock_use \<Rightarrow> ucall \<Rightarrow> ureply \<Rightarrow> bool" where
  "lock_reply (l, alive, held) (UAcquire n) r = (l = Some n \<longrightarrow> (rret r = SUCCESS \<longleftrightarrow> alive))"
| "lock_reply (l, alive, held) (UReclaim n) r = (l = Some n \<longrightarrow> \<not> held \<longrightarrow> rret r = SUCCESS)"
| "lock_reply (l, alive, held) UCvarInit r = (rint r = None \<or> rint r \<noteq> l)"
| "lock_reply (l, alive, held) UPipeInit r = (rint r = None \<or> rint r \<noteq> l)"
| "lock_reply u _ r = True"

fun lock_next :: "lock_use \<Rightarrow> ucall \<Rightarrow> ureply \<Rightarrow> lock_use" where
  "lock_next (l, alive, held) ULockInit r = (case rint r of None \<Rightarrow> (l, alive, held) | Some n \<Rightarrow> (Some n, True, False))"
| "lock_next (l, alive, held) (UAcquire n) r = (l, alive, held \<or> (l = Some n \<and> rret r = SUCCESS))"
| "lock_next (l, alive, held) (URelease n) r = (l, alive, held \<and> l \<noteq> Some n)"
| "lock_next (l, alive, held) (UReclaim n) r = (l, alive \<and> \<not> (l = Some n \<and> rret r = SUCCESS), held)"
| "lock_next u _ r = u"

text \<open>
  Acquire only if not held; release and wait on the condition variable only while holding the lock;
  never fork, exit, or wait for another process or a terminal while holding it.
\<close>

fun lock_use_ok :: "lock_use \<Rightarrow> ucall \<Rightarrow> bool" where
  "lock_use_ok (l, alive, held) (UAcquire n) = (l = Some n \<and> \<not> held)"
| "lock_use_ok (l, alive, held) (URelease n) = (l = Some n \<and> held)"
| "lock_use_ok (l, alive, held) (UCvarWait c n) = (l = Some n \<and> held)"
| "lock_use_ok (l, alive, held) UFork = (\<not> held)"
| "lock_use_ok (l, alive, held) UWait = (\<not> held)"
| "lock_use_ok (l, alive, held) (UPipeRead n m) = (\<not> held)"
| "lock_use_ok (l, alive, held) (UTtyRead n m) = (\<not> held)"
| "lock_use_ok (l, alive, held) (UReclaim n) = (\<not> held)"
| "lock_use_ok (l, alive, held) (UExec f as) = (\<not> held)"
| "lock_use_ok (l, alive, held) (UExit st) = (\<not> held)"
| "lock_use_ok u _ = True"

fun lock_quiet :: "ucall \<Rightarrow> bool" where
  "lock_quiet ULockInit = False"
| "lock_quiet (UAcquire n) = False"
| "lock_quiet (URelease n) = False"
| "lock_quiet (UReclaim n) = False"
| "lock_quiet _ = True"

lemma lock_quiet_next: "lock_quiet c \<Longrightarrow> lock_next u c r = u"
  by (cases u; cases c) simp_all

interpretation uses: monitor lock_reply lock_next lock_use_ok lock_quiet
  by unfold_locales (simp_all add: lock_quiet_next)

lemma uses_acquire:
  "(\<And>r. uses.ok (Some l, a, a) (k r)) \<Longrightarrow> uses.ok (Some l, a, False) (UCall (UAcquire l) k)"
  by auto

lemma uses_acquire_do: "uses.ok (Some l, a, a) p \<Longrightarrow> uses.ok (Some l, a, False) (udo (UAcquire l) p)"
  by (auto simp: udo_def)

lemma uses_release_do: "uses.ok (Some l, a, False) p \<Longrightarrow> uses.ok (Some l, a, True) (udo (URelease l) p)"
  by (simp add: udo_def)

lemmas uses_rules = uses.stmts uses.quiet_do uses.quiet_store uses.read_in uses_acquire_do uses_release_do uses_acquire
  uses.quiet_call [where c = UGetPid] uses.quiet_call [where c = UFork]

lemma orphan_test_uses: "uses.ok (Some l, a, False) (orphan_test pid status)"
  unfolding orphan_test_def orphan_child_def orphan_grandchild_def Let_def
  by (auto intro!: uses_rules simp del: on_paths.simps)

lemma reclaim_all_uses:
  assumes "c \<noteq> l" "p \<noteq> l" "\<And>rcs. uses.ok (Some l, False, False) (k rcs)"
  shows "set order \<subseteq> {0, 1, 2} \<Longrightarrow> 0 \<in> set order \<or> \<not> a \<Longrightarrow> uses.ok (Some l, a, False) (reclaim_all order [l, c, p] rcs k)"
proof (induction order arbitrary: rcs a)
  case (Cons i order)
  then show ?case using assms(1,2) by auto
qed (use assms(3) in simp)

lemma parent_part_uses:
  assumes "c \<noteq> l" "p \<noteq> l" "set order \<subseteq> {0, 1, 2}" "0 \<in> set order"
  shows "uses.ok (Some l, True, False) (parent_part order l c p pid status)"
  unfolding parent_part_def using assms
  by (auto intro!: uses_rules reclaim_all_uses orphan_test_uses simp del: on_paths.simps)

lemma grandchild_uses: "uses.ok (Some l, True, False) (grandchild H rest)"
  unfolding grandchild_def Let_def by (auto intro!: uses_rules uses.tty_loop simp del: on_paths.simps)

lemma wait_and_exec_uses: "uses.ok (Some l, True, False) (wait_and_exec pid status rest)"
  unfolding wait_and_exec_def Let_def by (auto intro!: uses_rules simp del: on_paths.simps)

lemma child_part_uses: "uses.ok (Some l, True, False) (child_part H l c p status rest)"
  unfolding child_part_def Let_def
  by (auto intro!: uses_rules uses.cvar_loop grandchild_uses wait_and_exec_uses simp del: on_paths.simps cvar_loop.simps)

lemma uses_lock_init:
  "(\<And>rc n. uses.ok (Some n, True, False) (k rc (Some n))) \<Longrightarrow> (\<And>rc. uses.ok (None, a, False) (k rc None)) \<Longrightarrow>
   uses.ok (None, a, False) (ustore ULockInit None k)"
  by (auto simp: ustore_def split: option.split)

lemma uses_other_init:
  "c = UCvarInit \<or> c = UPipeInit \<Longrightarrow> (\<And>rc v. v \<noteq> Some l \<Longrightarrow> uses.ok (Some l, a, False) (k rc v)) \<Longrightarrow>
   uses.ok (Some l, a, False) (ustore c None k)"
  by (auto simp: ustore_def split: option.split)

lemma init_main_uses:
  assumes "set order \<subseteq> {0, 1, 2}" "0 \<in> set order"
  shows "uses.ok (None, False, False) (init_main H order)"
  unfolding init_main_def Let_def
  by (auto intro!: uses.stmts uses.quiet_do uses_lock_init uses_other_init uses.quiet_call [where c = UGetPid]
      uses.quiet_call [where c = UFork] child_part_uses parent_part_uses [OF _ _ assms] simp del: on_paths.simps)

end
