(* ===== verification/Spec2Isabelle.thy ===== *)
theory Spec2Isabelle
  imports Queue_Node Demo LockSafety BrkProps Clock ExitWait TtyProps BufferChecks BootDemo BootSched ExecDemo BootOwned ForkCopy UserProps
begin

text \<open>
  Yalnix is a teaching operating system kernel in C. This development models the whole kernel over an
  explicit state and proves the properties that make its components correct.

  \<^bold>\<open>The program.\<close> A trap enters the kernel through the interrupt vector set up by
  \<^verbatim>\<open>KernelStart\<close> (\<^verbatim>\<open>Kernel.c\<close>) and is served by a handler of
  \<^verbatim>\<open>TrapHandlers/TrapHandlers.c\<close>. System calls are dispatched to
  \<^verbatim>\<open>KernelCalls/\<close>, which work on the scheduler, the page tables, the frame list, the terminal
  buffers and the synchronisation objects of \<^verbatim>\<open>KernelDataStructures/\<close>; these use the queue and
  the hash map of \<^verbatim>\<open>GeneralDataStructures/\<close>. The first user program is \<^verbatim>\<open>init.c\<close>. A call that blocks hands the processor over with
  \<^verbatim>\<open>KernelContextSwitch\<close> and goes on later from the saved kernel context.

  \<^bold>\<open>The model.\<close> Kernel code is a function from the state to an outcome (\<open>Yalnix_Base\<close>): it
  returns (\<open>Done\<close>), switches to another process (\<open>Switch\<close>), calls \<^verbatim>\<open>Halt()\<close>, or does
  something C leaves undefined (\<open>Fault\<close>: null, freed or unwritten memory, an index out of bounds, an
  unmapped address, signed overflow). The code after a blocking call is a definition of its own, named by
  the constructor of \<open>kcont\<close> stored as the saved context; \<open>resume\<close> (\<open>Traps\<close>) maps each
  constructor to the code it stands for, and the relation \<open>step\<close> is the machine: user code, a trap, or
  such a continuation. Return codes are \<open>ERROR\<close> or \<open>RC n\<close>. C integers are \<open>int\<close> with the
  range checked where a sum can leave it (\<open>add_int\<close>), identifiers are reduced with C's truncating
  remainder, and bytes are 8-bit words.

  \<^bold>\<open>Theories and sources.\<close>
  \<^item> \<open>Yalnix_Base\<close>: outcomes, sequencing, weakest preconditions, loops, and the constants of
    \<^verbatim>\<open>hardware.h\<close> and \<^verbatim>\<open>yalnix.h\<close>, which are not in the repository: they are the
    parameter record \<open>hw\<close> with the documented facts \<open>hw_ok\<close>.
  \<^item> \<open>Queue\<close>, \<open>Queue_Node\<close>: \<^verbatim>\<open>Queue.c\<close> as lists, and as linked nodes in a heap that
    refine the lists; the locale \<open>fifo\<close> is the contract, interpreted on both.
  \<^item> \<open>HashMap\<close>: \<^verbatim>\<open>set.c\<close> and \<^verbatim>\<open>HashMap.c\<close> with the contract \<open>int_map\<close>.
  \<^item> \<open>FrameList\<close>: \<^verbatim>\<open>FrameList.c\<close> with the contract \<open>frame_pool\<close>.
  \<^item> \<open>PageTable\<close>: \<^verbatim>\<open>PageTable.c\<close>, the machine state (page table entries by address, MMU
    registers, flushes, physical memory, allocator) and TLB coherence.
  \<^item> \<open>Kernel_State\<close>: the kernel state \<open>kstate\<close>, process control blocks and saved contexts.
  \<^item> \<open>Scheduler\<close>, \<open>Context_Switch\<close>, \<open>Scheduler_Props\<close>, \<open>Sleepers\<close>: every function of
    \<^verbatim>\<open>Scheduler.c\<close>, the effect of a context switch, the invariant \<open>sched_ok\<close> and its
    preservation, the iteration over sleepers that removes from the map it visits.
  \<^item> \<open>UserMemory\<close>: integers and byte ranges in virtual memory. \<open>Frames\<close>: frame rules
    (\<open>keeps\<close>: a part of the state is not touched; \<open>stays\<close>: the running process does not change).
    \<open>Wlp\<close>: weakest liberal preconditions with an equation per combinator.
  \<^item> \<open>SyncObjects\<close>, \<open>SyncCalls\<close>, \<open>SyncProps\<close>, \<open>PipeProps\<close>, \<open>LockSafety\<close>:
    \<^verbatim>\<open>Lock.c\<close>, \<^verbatim>\<open>CVar.c\<close>, \<^verbatim>\<open>Pipe.c\<close> and the calls on them.
  \<^item> \<open>Brk\<close>, \<open>BrkProps\<close>: \<^verbatim>\<open>KernelBrk\<close>, \<^verbatim>\<open>SetKernelBrk\<close>,
    \<^verbatim>\<open>SetKernelData\<close> and the reference for the break computation.
  \<^item> \<open>GeneralCalls\<close>, \<open>ExitWait\<close>, \<open>BufferChecks\<close>: \<^verbatim>\<open>GeneralKernelCalls.c\<close>.
  \<^item> \<open>Tty\<close>, \<open>TtyProps\<close>: \<^verbatim>\<open>TtyBuffer.c\<close> and \<^verbatim>\<open>TtyKernelCalls.c\<close>.
  \<^item> \<open>LoadProgram\<close>, \<open>ExecArgs\<close>: \<^verbatim>\<open>LoadProgram.c\<close>, and what a loaded program finds on its
    stack. \<open>Traps\<close>: \<^verbatim>\<open>TrapHandlers.c\<close> and \<^verbatim>\<open>KernelStart\<close>. \<open>Clock\<close>: the clock trap
    and its fairness.
  \<^item> \<open>MachineFrames\<close>, \<open>MachineSafety\<close>, \<open>Registry\<close>: results on all runs of the machine:
    every call is analysed once for the objects it touches, \<open>run_keeps_lock\<close> follows locks through a run,
    and \<open>registry_ok\<close> is the invariant of the maps of locks, condition variables and pipes.
  \<^item> \<open>Boot\<close>, \<open>BootSched\<close>: \<^verbatim>\<open>KernelStart\<close> establishes \<open>registry_ok\<close> and \<open>sched_ok\<close>.
  \<^item> \<open>World\<close>, \<open>WorldOps\<close>, \<open>WorldCalls\<close>, \<open>Contract\<close>, \<open>WorldRuns\<close>: the invariant of the
    whole kernel and its preservation by everything that can happen. \<open>SchedPart\<close> separates the part of the
    state the scheduler works on (\<open>sched_part\<close>) and shows which code leaves it alone (\<open>settled\<close>).
  \<^item> \<open>Tracked\<close>, \<open>Owned\<close>: the part of the state that says which frame belongs to whom (\<open>own_part\<close>), which
    most code leaves alone (\<open>tracked\<close>); the invariant \<open>isolated\<close> that every frame has at most one owner, and
    the operations on page table entries. \<open>Breaks\<close>, \<open>Exits\<close>, \<open>Loads\<close>, \<open>Forks\<close>: the code that moves frames:
    break changes and stack growth, the end of a process, \<^verbatim>\<open>LoadProgram\<close>, and a new process. \<open>Isolation\<close>:
    their composition along runs and what a process can touch; \<open>BootOwned\<close>: \<^verbatim>\<open>KernelStart\<close> establishes it.
  \<^item> \<open>ForkCopy\<close>: the copy of the parent's pages that \<^verbatim>\<open>KernelFork\<close> makes.
  \<^item> \<open>UserInit\<close>, \<open>UserProps\<close>: \<^verbatim>\<open>init.c\<close> as a tree of the calls it makes, and what holds on
    every path of it.
  \<^item> \<open>Demo\<close>: a concrete machine with four processes, at which the properties are instantiated.
    \<open>BootDemo\<close>, \<open>ExecDemo\<close>: a machine on which \<^verbatim>\<open>KernelStart\<close> and \<^verbatim>\<open>LoadProgram\<close> are
    evaluated from beginning to end inside the logic.

  \<^bold>\<open>State.\<close> Objects of the kernel heap that are shared (control blocks, page tables, locks,
  condition variables, pipes) live in one map per type, indexed by address, so aliasing and dangling
  pointers are visible; an object with one owner is stored in its owner. \<open>malloc_oracle\<close> gives the
  answers of the allocator; \<open>mallocs_ok\<close> says that it never fails. \<open>sched_ok\<close> says that page tables
  and kernel stack are set up, that every process is in exactly one of the places a process can be
  (running, ready, blocked, sleeping, waiting for or using a terminal), that the maps file it under its
  pid, and that it can be switched to. Objects of the kernel heap are not part of \<open>pmem\<close>: calls that store through a
  pointer they do not check (\<^verbatim>\<open>*lock_idp\<close> and its like) write user memory here or fault.

  \<^bold>\<open>The invariant of runs.\<close> \<open>live\<close> (\<open>World\<close>) adds to \<open>sched_ok\<close> what is needed to carry it through
  every step: each process has its own region 1 table, a block of the allocator apart from all others; the
  table of the running process is installed; pids are below the counter; a process that uses a terminal
  has the matching saved context; idle runs or is ready, so that there is always a process to switch to; and
  processes known earlier are still in their places (\<open>kept\<close>). \<open>calm\<close> is \<open>live\<close> in user code or in a call,
  \<open>resuming\<close> is \<open>live\<close> just after a switch. Each operation of the scheduler is shown to lead from one to the
  other (\<open>preserves\<close>, \<open>WorldOps\<close>), then every system call (\<open>WorldCalls\<close>). \<open>Contract\<close> states what this
  asks of the code as locales, \<open>sched_client\<close> for code that calls the scheduler, extended by
  \<open>interrupt_contract\<close> for what may interrupt any process and \<open>call_contract\<close> for system calls, which idle
  does not make; both are interpreted on the model. \<open>WorldRuns\<close> starts from the boot (\<open>BootSched\<close>) and
  follows the runs in which idle does not enter the kernel by itself (\<open>idle_step\<close>): \<^verbatim>\<open>DoIdle\<close> is a
  loop that pauses. Without this idle could block, and then \<^verbatim>\<open>blockProcess\<close> finds no process to run.

  \<^bold>\<open>Isolation.\<close> \<open>isolated H K s\<close> (\<open>Owned\<close>): the entries of the region 1 tables of live processes and the kernel
  stack lists own their frames, no frame has two owners, no owned frame is free or in \<open>K\<close>, the frames the kernel
  maps for itself (\<open>kernel_known\<close>), and the free frames are not in \<open>K\<close> either. \<open>brk_ok\<close> says that every page
  of region 1 below the break is mapped, which \<^verbatim>\<open>KernelBrk\<close> relies on when it frees them, and
  \<open>linked_files\<close> that executables have their text at the base of region 1 and their data right behind it,
  which \<^verbatim>\<open>LoadProgram\<close> relies on when it sets the break. \<open>sound\<close> is both, for all processes in a place of the
  scheduler; \<open>machine_contract\<close> (\<open>WorldRuns\<close>) states which operations have to keep an invariant for
  runs to keep it, and is interpreted for \<open>live\<close> and shown for \<open>live\<close> with \<open>sound\<close>. At power-on there are no control
  blocks, and the cell behind the frame list does not look like a free frame (\<open>get_frame_reads_past\<close> shows what happens otherwise).

  \<^bold>\<open>User programs.\<close> A program is a tree (\<open>uprog\<close>): a node is a call with what follows each reply, a leaf is
  the return from \<^verbatim>\<open>main\<close> or an undefined step. \<open>uplay\<close> runs it on a list of replies. The locale
  \<open>monitor\<close> has the rules by which a watcher of the calls is carried through every statement; it is
  interpreted for the roles of the processes and for their use of the lock. In the machine (\<open>step\<close>) user code is
  any change of registers and writable memory, which covers every program.

  \<^bold>\<open>Fuel.\<close> Some loops take fuel: \<open>broadcast_loop\<close> (one round more than there are waiters is enough, as
  \<open>broadcast_wakes_all\<close> shows), \<open>transmit_loop\<close> (every round sends a byte, so the length plus one is enough),
  \<open>check_args\<close>, \<open>load_args\<close> and \<open>load_string\<close> (bounded by the address space),
  \<open>await_terminal\<close> (the code can spin there). Running out is the fault \<open>HANG\<close>, never a result.

  \<^bold>\<open>Not modelled.\<close> \<^verbatim>\<open>TracePrintf\<close>; the small programs in
  \<^verbatim>\<open>test/\<close>; the C library that \<^verbatim>\<open>init.c\<close> calls; \<^verbatim>\<open>DoIdle\<close>, which runs in user mode; the contents of the kernel stack beyond
  the pending trap frame and the continuation. The file system, \<^verbatim>\<open>LoadInfo\<close>, the terminals and the
  numbers of the system calls are parameters (\<open>env\<close>, \<open>executable\<close>, the arguments of the trap).
\<close>

section \<open>Instances\<close>

theorem sleep_moves_current:
  assumes "hw_ok H" "sched_ok H s" "mallocs_ok s" "0 < d" "currPCB s \<notin> set (transmitters s)"
    and "readyQ s = Some (n # q)"
  shows "\<exists>t hm hm' pc. sleepProcess H k d s = Switch t \<and> sched_ok H t \<and> mset (places t) = mset (places s) \<and>
           currPCB t = n \<and> readyQ t = Some q \<and> sleepingMap s = Some hm \<and> sleepingMap t = Some hm' \<and>
           hm_map hm' = (hm_map hm)(pid_of s (currPCB s) \<mapsto> currPCB s) \<and> blockedMap t = blockedMap s \<and>
           pcbs t (currPCB s) = Some pc \<and> numRemainingDelayTicks pc = d"
  using assms by (rule sleepProcess_run)

theorem unblock_makes_ready:
  assumes "sched_ok H s" "mallocs_ok s" "blockedMap s = Some bm" "0 \<le> p" "hm_map bm p = Some x"
  shows "\<exists>t bm'. unblockProcess p s = Done SUCCESS t \<and> sched_ok H t \<and> mset (places t) = mset (places s) \<and>
           readyQ t = Some (qitems (readyQ s) @ [x]) \<and> blockedMap t = Some bm' \<and>
           hm_map bm' = (hm_map bm)(p := None) \<and> currPCB t = currPCB s"
  using unblockProcess_run [OF assms] by blast

theorem lock_not_stolen:
  assumes "m \<in> {KernelAcquire H i, acquire_loop H b, KernelRelease i, KernelCvarWait H c i, KernelCvarSignal c,
                 KernelCvarBroadcast c}"
    and "holds s a p" "p \<noteq> currPCB s" "m s = Done r t \<or> m s = Switch t"
  shows "holds t a p"
proof -
  have "safe_at m s" using assms(1) by (auto simp: safe_calls)
  from safe_atD [OF this assms(4)] assms(2,3) show ?thesis by (simp add: foreign_kept_def)
qed

theorem acquire_taken_waits:
  assumes "hw_ok H" "sched_ok H s" "mallocs_ok s" "currPCB s \<notin> set (transmitters s)" "readyQ s = Some (n # q)"
    and "locks s lockp = Some l" "ownerPcbp l = Some ow" "lock_waitingQ l = Some w"
  shows "\<exists>t bm bm'. acquire_loop H lockp s = Switch t \<and> sched_ok H t \<and> mset (places t) = mset (places s) \<and>
           currPCB t = n \<and> readyQ t = Some q \<and> blockedMap s = Some bm \<and> blockedMap t = Some bm' \<and>
           hm_map bm' = (hm_map bm)(pid_of s (currPCB s) \<mapsto> currPCB s) \<and>
           locks t = (locks s)(lockp \<mapsto> l\<lparr>lock_waitingQ := Some (w @ [currPCB s])\<rparr>)"
  using assms by (rule acquire_held)

theorem pipe_read_blocks:
  assumes "hw_ok H" "sched_ok H s" "mallocs_ok s" "currPCB s \<notin> set (transmitters s)" "readyQ s = Some (n # q)"
    and "pipeMap s = Some pm" "hm_ok pm" "0 \<le> i" "hm_map pm i = Some pipep"
    and "pipes s pipep = Some p" "pipe_waitingQ p = Some ws" "0 < len"
    and "ws \<noteq> [] \<and> hd ws \<noteq> currPCB s \<or> ws = [] \<and> pipe_numBytesWritten p < len"
  shows "\<exists>t bm bm'. KernelPipeRead H i buf len s = Switch t \<and> sched_ok H t \<and> mset (places t) = mset (places s) \<and>
           currPCB t = n \<and> readyQ t = Some q \<and> blockedMap s = Some bm \<and> blockedMap t = Some bm' \<and>
           hm_map bm' = (hm_map bm)(pid_of s (currPCB s) \<mapsto> currPCB s) \<and>
           pipes t = (pipes s)(pipep \<mapsto> p\<lparr>pipe_waitingQ := Some (ws @ [currPCB s])\<rparr>)"
  using assms by (rule pipe_read_waits)

theorem transmit_frees_terminal:
  assumes "sched_ok H s" "mallocs_ok s" "i < NUM_TERMINALS H" "own_slot s i" "transmittingQs s ! i = Some xs" "len \<le> k"
  shows "\<exists>t. transmit_loop H (Suc fuel) (int i) d len k s = Done (RC len) t \<and> sched_ok H t \<and>
           mset (places t) = mset (places s) \<and> readyQ t = Some (qitems (readyQ s) @ take 1 xs) \<and>
           transmittingQs t = (transmittingQs s)[i := Some (drop 1 xs)] \<and>
           currTransmitters t = (currTransmitters s)[i := None] \<and> currPCB t = currPCB s"
  using assms by (rule transmit_end)

lemma empty_queue: "node_inv (Map.empty, Some \<lparr>head = None, tail = None\<rparr>)"
    "node_contents (Map.empty, Some \<lparr>head = None, tail = None\<rparr>) = []"
  using node_contents_rep [of Map.empty "\<lparr>head = None, tail = None\<rparr>" "[]"]
  by (auto simp: node_inv_def qrep_def)



definition reply_ok :: ureply where
  "reply_ok = \<lparr>rret = SUCCESS, rint = None, rbytes = [], rfound = True\<rparr>"

definition replies :: "rc \<Rightarrow> ureply list" where
  "replies fork_rc = replicate 10 reply_ok @ [reply_ok\<lparr>rint := Some 5\<rparr>, reply_ok, reply_ok,
     reply_ok\<lparr>rint := Some 6\<rparr>, reply_ok, reply_ok, reply_ok\<lparr>rint := Some 7\<rparr>, reply_ok, reply_ok,
     reply_ok\<lparr>rret := fork_rc\<rparr>] @ replicate 11 reply_ok"

lemma failed_read_writes_in_front:
  "fault_of (snd (uplay (init_main boot_hw [0, 1, 2]) (replies (RC 2) @ [reply_ok\<lparr>rret := ERROR\<rparr>]))) = Some OUT_OF_BOUNDS"
  "fst (last (fst (uplay (init_main boot_hw [0, 1, 2]) (replies (RC 2) @ [reply_ok\<lparr>rret := ERROR\<rparr>])))) = UPipeRead 7 20"
  by code_simp+

lemma short_print_reached:
  "fst (last (fst (uplay (init_main boot_hw [0, 1, 2]) (replies SUCCESS @ [reply_ok])))) = short_print \<and> \<not> print_ok short_print"
  by code_simp

lemma failed_init_unread: "fault_of (snd (uplay (init_main boot_hw [0, 1, 2]) (replicate 11 reply_ok))) = Some UNINIT"
  by code_simp



section \<open>The machine\<close>













section \<open>Scheduling\<close>

text \<open>
  C7. \<^verbatim>\<open>blockProcess\<close>: the running process enters the blocked map under its
  pid, the head of the ready queue runs next, no process is lost or duplicated and the scheduler's
  invariant holds again.
\<close>

theorem block_moves_current:
  assumes "hw_ok H" "sched_ok H s" "mallocs_ok s" "currPCB s \<notin> set (transmitters s)" "readyQ s = Some (n # q)"
  shows "\<exists>t bm bm'. blockProcess H k s = Switch t \<and> sched_ok H t \<and> mset (places t) = mset (places s) \<and>
           currPCB t = n \<and> readyQ t = Some q \<and> blockedMap s = Some bm \<and> blockedMap t = Some bm' \<and>
           hm_map bm' = (hm_map bm)(pid_of s (currPCB s) \<mapsto> currPCB s) \<and> sleepingMap t = sleepingMap s"
  using blockProcess_run [OF assms] by blast

theorem block_moves_current_witness:
  "\<exists>t bm bm'. blockProcess tiny_hw KClock demo = Switch t \<and> sched_ok tiny_hw t \<and>
     mset (places t) = mset (places demo) \<and> currPCB t = 20 \<and> readyQ t = Some [] \<and>
     blockedMap demo = Some bm \<and> blockedMap t = Some bm' \<and>
     hm_map bm' = (hm_map bm)(pid_of demo (currPCB demo) \<mapsto> currPCB demo) \<and> sleepingMap t = sleepingMap demo"
  by (rule block_moves_current) (simp_all add: tiny_hw_ok demo_sched_ok demo_mallocs_ok demo_fields)

text \<open>
  C8. \<^verbatim>\<open>kickProcess\<close> is round robin: the running process goes to the tail of
  the ready queue and its head runs next; nothing else moves.
\<close>

theorem kick_round_robin:
  assumes "hw_ok H" "sched_ok H s" "mallocs_ok s" "currPCB s \<notin> set (transmitters s)" "readyQ s = Some (n # q)"
  shows "\<exists>t. kickProcess H k s = Switch t \<and> sched_ok H t \<and> mset (places t) = mset (places s) \<and>
           currPCB t = n \<and> readyQ t = Some (q @ [currPCB s]) \<and> blockedMap t = blockedMap s \<and>
           sleepingMap t = sleepingMap s"
  using kickProcess_run [OF assms] by blast

theorem kick_round_robin_witness:
  "\<exists>t. kickProcess tiny_hw KClock demo = Switch t \<and> sched_ok tiny_hw t \<and> mset (places t) = mset (places demo) \<and>
     currPCB t = 20 \<and> readyQ t = Some ([] @ [currPCB demo]) \<and> blockedMap t = blockedMap demo \<and>
     sleepingMap t = sleepingMap demo"
  by (rule kick_round_robin) (simp_all add: tiny_hw_ok demo_sched_ok demo_mallocs_ok demo_fields)

text \<open>
  C9. \<^verbatim>\<open>tickDownSleepers\<close>, although its item function removes from the map
  being iterated, shortens the delay of every sleeper by one and wakes exactly those whose delay runs
  out, in map order; the others stay asleep, no other process control block changes and no error is
  counted.
\<close>

theorem tick_wakes_expired:
  assumes "sched_ok H s" "mallocs_ok s" "sleepingMap s = Some hm"
  shows "\<exists>t hm'. tickDownSleepers s = Done SUCCESS t \<and> sched_ok H t \<and> mset (places t) = mset (places s) \<and>
           sleepingMap t = Some hm' \<and>
           (\<forall>k x. hm_map hm' k = Some x \<longleftrightarrow> hm_map hm k = Some x \<and> \<not> expires s x) \<and>
           readyQ t = Some (qitems (readyQ s) @ filter (expires s) (hm_procs (Some hm))) \<and>
           pcbs t = (\<lambda>p. if p \<in> set (hm_procs (Some hm)) then map_option ticked (pcbs s p) else pcbs s p) \<and>
           currPCB t = currPCB s"
  using assms by (rule tickDownSleepers_run)

theorem tick_wakes_expired_witness:
  "\<exists>t hm'. tickDownSleepers demo = Done SUCCESS t \<and> sched_ok tiny_hw t \<and> mset (places t) = mset (places demo) \<and>
     sleepingMap t = Some hm' \<and>
     (\<forall>k x. hm_map hm' k = Some x \<longleftrightarrow>
        hm_map \<lparr>hm_size = 2, sets = [Some [], Some [(3, 40)]]\<rparr> k = Some x \<and> \<not> expires demo x) \<and>
     readyQ t = Some (qitems (readyQ demo) @
       filter (expires demo) (hm_procs (Some \<lparr>hm_size = 2, sets = [Some [], Some [(3, 40)]]\<rparr>))) \<and>
     pcbs t = (\<lambda>p. if p \<in> set (hm_procs (Some \<lparr>hm_size = 2, sets = [Some [], Some [(3, 40)]]\<rparr>))
                   then map_option ticked (pcbs demo p) else pcbs demo p) \<and>
     currPCB t = currPCB demo"
  by (rule tick_wakes_expired [OF demo_sched_ok demo_mallocs_ok]) (simp add: demo_def)

text \<open>
  C10. A context switch by \<^verbatim>\<open>switchBetween\<close> makes the target the current
  process, saves the kernel context of the old process, installs the region 1 table of the new one,
  maps its kernel stack frames and changes no other page table entry.
\<close>

theorem switch_installs_process:
  assumes "hw_ok H" "mmu_ok H s" "stack_base_ok H s" "mallocs_ok s" "pcb_ok H s n"
    and "\<And>c. old = Some c \<Longrightarrow> \<exists>pc. pcbs s c = Some pc \<and> kctxt pc \<noteq> None"
  shows "\<exists>P m pc b. switchBetween H k old n s =
           Switch (s\<lparr>currPCB := n, pcbs := switched_pcbs k old n (pcbs s), ptes := P, REG_PTBR1 := b,
                     tlb_log := TLB_FLUSH_1 # stack_flushes H (KSTACK_NPG H) @ tlb_log s,
                     malloc_count := m\<rparr>) \<and>
         pcbs s n = Some pc \<and> r1PageTable pc = Some b \<and> dom P = dom (ptes s) \<and>
         stack_mapped H s (stackPfns pc) (KSTACK_NPG H) P"
  using assms by (rule switchBetween_run)

theorem switch_installs_process_witness:
  "\<exists>P m pc b. switchBetween tiny_hw KClock (Some 10) 20 demo =
     Switch (demo\<lparr>currPCB := 20, pcbs := switched_pcbs KClock (Some 10) 20 (pcbs demo), ptes := P, REG_PTBR1 := b,
               tlb_log := TLB_FLUSH_1 # stack_flushes tiny_hw (KSTACK_NPG tiny_hw) @ tlb_log demo,
               malloc_count := m\<rparr>) \<and>
     pcbs demo 20 = Some pc \<and> r1PageTable pc = Some b \<and> dom P = dom (ptes demo) \<and>
     stack_mapped tiny_hw demo (stackPfns pc) (KSTACK_NPG tiny_hw) P"
proof (rule switch_installs_process)
  show "mmu_ok tiny_hw demo" "stack_base_ok tiny_hw demo"
    using demo_sched_ok by (simp_all add: sched_ok_def core_def)
  show "\<exists>pc. pcbs demo c = Some pc \<and> kctxt pc \<noteq> None" if "Some 10 = Some c" for c
    using that by (simp add: demo_def demo_pcb_def)
qed (simp_all add: tiny_hw_ok demo_mallocs_ok demo_pcb_ok)

text \<open>
  C11. The flushes of a context switch are enough: whatever the TLB held that agreed with the page
  tables before, what is left of it agrees with the tables of the new process.
\<close>

theorem switch_keeps_tlb_coherent:
  assumes "hw_ok H" "mmu_ok H s" "stack_base_ok H s" "mallocs_ok s" "pcb_ok H s n"
    and "\<And>c. old = Some c \<Longrightarrow> \<exists>pc. pcbs s c = Some pc \<and> kctxt pc \<noteq> None"
    and "coherent H s tlb" "tlb_log s = []"
  shows "\<exists>t. (switchBetween H k old n s :: (rc, kstate) outcome) = Switch t \<and>
           coherent H t (foldr (flush_tlb H) (tlb_log t) tlb)"
proof -
  have "\<exists>P m pc b. (switchBetween H k old n s :: (rc, kstate) outcome) =
      Switch (s\<lparr>currPCB := n, pcbs := switched_pcbs k old n (pcbs s), ptes := P, REG_PTBR1 := b,
                tlb_log := TLB_FLUSH_1 # stack_flushes H (KSTACK_NPG H) @ tlb_log s, malloc_count := m\<rparr>) \<and>
      pcbs s n = Some pc \<and> r1PageTable pc = Some b \<and> dom P = dom (ptes s) \<and>
      stack_mapped H s (stackPfns pc) (KSTACK_NPG H) P"
    using assms(1-6) by (rule switchBetween_run)
  then obtain P m pc b where
    run: "(switchBetween H k old n s :: (rc, kstate) outcome) =
      Switch (s\<lparr>currPCB := n, pcbs := switched_pcbs k old n (pcbs s), ptes := P, REG_PTBR1 := b,
                tlb_log := TLB_FLUSH_1 # stack_flushes H (KSTACK_NPG H) @ tlb_log s, malloc_count := m\<rparr>)"
    and "pcbs s n = Some pc" and map: "stack_mapped H s (stackPfns pc) (KSTACK_NPG H) P" by blast
  define t where "t = s\<lparr>currPCB := n, pcbs := switched_pcbs k old n (pcbs s), ptes := P, REG_PTBR1 := b,
    tlb_log := TLB_FLUSH_1 # stack_flushes H (KSTACK_NPG H) @ tlb_log s, malloc_count := m\<rparr>"
  have "coherent H t (foldr (flush_tlb H) (TLB_FLUSH_1 # stack_flushes H (KSTACK_NPG H)) tlb)"
    by (rule switch_coherent [OF assms(1,2) map assms(7)]) (simp_all add: t_def)
  then show ?thesis using run assms(8) by (auto simp: t_def)
qed

theorem switch_keeps_tlb_coherent_witness:
  "\<exists>t. (switchBetween tiny_hw KClock (Some 10) 20 demo :: (rc, kstate) outcome) = Switch t \<and>
     coherent tiny_hw t (foldr (flush_tlb tiny_hw) (tlb_log t) (walk tiny_hw demo))"
proof (rule switch_keeps_tlb_coherent)
  show "mmu_ok tiny_hw demo" "stack_base_ok tiny_hw demo"
    using demo_sched_ok by (simp_all add: sched_ok_def core_def)
  show "\<exists>pc. pcbs demo c = Some pc \<and> kctxt pc \<noteq> None" if "Some 10 = Some c" for c
    using that by (simp add: demo_def demo_pcb_def)
  show "coherent tiny_hw demo (walk tiny_hw demo)" by (simp add: coherent_def)
  show "tlb_log demo = []" by (simp add: demo_def)
qed (simp_all add: tiny_hw_ok demo_mallocs_ok demo_pcb_ok)

text \<open>
  C12. A clock trap wakes the sleepers whose delay is over, puts them and then the interrupted process
  at the end of the ready queue, and runs the head of the queue.
\<close>

theorem clock_trap:
  assumes "hw_ok H" "sched_ok H s" "mallocs_ok s" "currPCB s \<notin> set (transmitters s)" "readyQ s = Some (n # q)"
  shows "\<exists>t. handleTrapClock H s = Switch t \<and> sched_ok H t \<and> mset (places t) = mset (places s) \<and>
           currPCB t = n \<and> readyQ t = Some (q @ waking s @ [currPCB s])"
  using handleTrapClock_run [OF assms] by blast

theorem clock_trap_witness:
  "\<exists>t. handleTrapClock tiny_hw demo = Switch t \<and> sched_ok tiny_hw t \<and> mset (places t) = mset (places demo) \<and>
     currPCB t = 20 \<and> readyQ t = Some ([] @ waking demo @ [currPCB demo])"
  by (rule clock_trap) (simp_all add: tiny_hw_ok demo_sched_ok demo_mallocs_ok demo_fields)

text \<open>
  C13. No ready process starves: the process at position \<open>i\<close> of the ready queue runs
  after \<open>i + 1\<close> clock traps, however many sleepers wake up meanwhile.
\<close>

theorem round_robin_fair:
  assumes "hw_ok H" "sched_ok H s" "mallocs_ok s" "currPCB s \<notin> set (transmitters s)"
    and "readyQ s = Some (xs @ p # ys)"
  shows "\<exists>t. ticks H (Suc (length xs)) s = Some t \<and> currPCB t = p \<and> sched_ok H t \<and> mset (places t) = mset (places s)"
  using assms by (rule ticks_reach)

theorem round_robin_fair_witness:
  "\<exists>t. ticks tiny_hw (Suc (length ([] :: ptr list))) demo = Some t \<and> currPCB t = 20 \<and> sched_ok tiny_hw t \<and>
     mset (places t) = mset (places demo)"
  by (rule round_robin_fair) (simp_all add: tiny_hw_ok demo_sched_ok demo_mallocs_ok demo_fields)

section \<open>Address spaces\<close>

text \<open>
  C14. The nine cases of the break computation shared by \<^verbatim>\<open>KernelBrk\<close> and
  \<^verbatim>\<open>SetKernelBrk\<close> are one rule: free or map exactly the pages that start at or
  above one break and below the other.
\<close>

theorem brk_case_analysis:
  assumes "hw_ok H"
  shows "move_brk H table baseVpn currBrk addr s = ref_move_brk H table baseVpn currBrk addr s"
  using move_brk_ref [OF assms] by simp

theorem brk_case_analysis_witness:
  "move_brk tiny_hw 2000 8 40 44 demo = ref_move_brk tiny_hw 2000 8 40 44 demo"
  by (rule brk_case_analysis [OF tiny_hw_ok])

text \<open>
  C15. Raising the break maps every page between the old and the new break to a frame of its own,
  taken from the free frames, readable and writable, and changes no other page.
\<close>

theorem brk_grows:
  assumes "brk_ready H s b" "b \<le> addr" "addr < VMEM_1_LIMIT H"
    and "finite (free_frames s)" "up_vpn H addr - up_vpn H b \<le> card (free_frames s)"
  shows "\<exists>t f pages pc. pages = {v. b \<le> v * PAGESIZE H \<and> v * PAGESIZE H < addr} \<and>
           KernelBrk H addr s = Done SUCCESS (t\<lparr>pcbs := (pcbs s)(currPCB s \<mapsto> pc\<lparr>brk := Some addr\<rparr>)\<rparr>) \<and>
           pcbs s (currPCB s) = Some pc \<and> paging_only s t \<and>
           inj_on f pages \<and> f ` pages \<subseteq> free_frames s \<and> free_frames t = free_frames s - f ` pages \<and>
           walk H t = (\<lambda>v. if v \<in> pages
             then Some \<lparr>pte_valid = True, pte_prot = {PROT_READ, PROT_WRITE}, pte_pfn = f v\<rparr> else walk H s v)"
  using assms by (rule KernelBrk_grow_run)

theorem brk_grows_witness:
  "\<exists>t f pages pc. pages = {v. 40 \<le> v * PAGESIZE tiny_hw \<and> v * PAGESIZE tiny_hw < 46} \<and>
     KernelBrk tiny_hw 46 demo = Done SUCCESS (t\<lparr>pcbs := (pcbs demo)(currPCB demo \<mapsto> pc\<lparr>brk := Some 46\<rparr>)\<rparr>) \<and>
     pcbs demo (currPCB demo) = Some pc \<and> paging_only demo t \<and>
     inj_on f pages \<and> f ` pages \<subseteq> free_frames demo \<and> free_frames t = free_frames demo - f ` pages \<and>
     walk tiny_hw t = (\<lambda>v. if v \<in> pages
       then Some \<lparr>pte_valid = True, pte_prot = {PROT_READ, PROT_WRITE}, pte_pfn = f v\<rparr> else walk tiny_hw demo v)"
  by (rule brk_grows [OF demo_brk_ready]) (simp_all add: demo_free up_vpn_def tiny_hw_def)

text \<open>
  C16. Lowering the break invalidates every page between the new and the old break, returns their
  frames, and changes no other page.
\<close>

theorem brk_shrinks:
  assumes "brk_ready H s b" "VMEM_1_BASE H \<le> addr" "addr < b"
  shows "\<exists>t pages pc. pages = {v. addr \<le> v * PAGESIZE H \<and> v * PAGESIZE H < b} \<and>
           KernelBrk H addr s = Done SUCCESS (t\<lparr>pcbs := (pcbs s)(currPCB s \<mapsto> pc\<lparr>brk := Some addr\<rparr>)\<rparr>) \<and>
           pcbs s (currPCB s) = Some pc \<and> paging_only s t \<and> known_frames t = known_frames s \<and>
           free_frames t = free_frames s \<union> (frame_at H s ` pages \<inter> known_frames s) \<and>
           walk H t = (\<lambda>v. if v \<in> pages then map_option (\<lambda>e. e\<lparr>pte_valid := False\<rparr>) (walk H s v) else walk H s v)"
  using assms by (rule KernelBrk_shrink_run)

theorem brk_shrinks_witness:
  "\<exists>t pages pc. pages = {v. 34 \<le> v * PAGESIZE tiny_hw \<and> v * PAGESIZE tiny_hw < 40} \<and>
     KernelBrk tiny_hw 34 demo = Done SUCCESS (t\<lparr>pcbs := (pcbs demo)(currPCB demo \<mapsto> pc\<lparr>brk := Some 34\<rparr>)\<rparr>) \<and>
     pcbs demo (currPCB demo) = Some pc \<and> paging_only demo t \<and> known_frames t = known_frames demo \<and>
     free_frames t = free_frames demo \<union> (frame_at tiny_hw demo ` pages \<inter> known_frames demo) \<and>
     walk tiny_hw t = (\<lambda>v. if v \<in> pages then map_option (\<lambda>e. e\<lparr>pte_valid := False\<rparr>) (walk tiny_hw demo v)
                           else walk tiny_hw demo v)"
  by (rule brk_shrinks [OF demo_brk_ready]) (simp_all add: tiny_hw_def)

text \<open>
  C17. Writing an active page table entry changes the translation of one page only, and the flush that
  goes with it removes the one entry of the TLB that may have become stale.
\<close>

theorem pte_update_coherent:
  assumes "hw_ok H" "mmu_ok H s" "v < 2 * MAX_PT_LEN H" "coherent H s tlb"
  shows "\<exists>t l. setPageTableEntry H (pte_of_vpn H s v) val prot p s = Done () t \<and> tlb_log t = l # tlb_log s \<and>
           walk H t = (walk H s)(v \<mapsto> \<lparr>pte_valid = val, pte_prot = prot, pte_pfn = p\<rparr>) \<and> coherent H t (flush_tlb H l tlb)"
proof -
  from setPageTableEntry_vpn [OF assms(1-3)] obtain e where
    e: "setPageTableEntry H (pte_of_vpn H s v) val prot p s =
       Done () (s\<lparr>ptes := (ptes s)(pte_of_vpn H s v \<mapsto> \<lparr>pte_valid = val, pte_prot = prot, pte_pfn = p\<rparr>),
                  tlb_log := FLUSH_ADDR (v * PAGESIZE H) # tlb_log s\<rparr>)" by (auto simp: pte_expand)
  with walk_upd [OF assms(1-3)] coherent_upd [OF assms] show ?thesis by (auto simp: fun_eq_iff)
qed

theorem pte_update_coherent_witness:
  "\<exists>t l. setPageTableEntry tiny_hw (pte_of_vpn tiny_hw demo 9) True {PROT_READ} 8 demo = Done () t \<and> tlb_log t = l # tlb_log demo \<and>
     walk tiny_hw t = (walk tiny_hw demo)(9 \<mapsto> \<lparr>pte_valid = True, pte_prot = {PROT_READ}, pte_pfn = 8\<rparr>) \<and>
     coherent tiny_hw t (flush_tlb tiny_hw l (walk tiny_hw demo))"
  by (rule pte_update_coherent)
     (use demo_sched_ok in \<open>simp_all add: tiny_hw_ok sched_ok_def core_def coherent_def tiny_consts\<close>)



text \<open>
  C19. \<^verbatim>\<open>initFrameList\<close> builds a list of different frames in which exactly the
  frames outside the kernel's image and stack are free.
\<close>

theorem boot_frames_ok:
  assumes "hw_ok H" "vpn_of H (PMEM_BASE H) + n \<le> 2 ^ 24"
  shows "\<exists>fl. initFrameList H True n b = (SUCCESS, Some fl) \<and> fl_ok fl n \<and>
           free_pfns fl = {vpn_of H (PMEM_BASE H) + i | i. i < n \<and>
             (let a = PMEM_BASE H + i * PAGESIZE H in b \<le> a \<and> \<not> (KERNEL_STACK_BASE H \<le> a \<and> a < KERNEL_STACK_LIMIT H))}"
proof -
  let ?fl = "init_frames H b n (PMEM_BASE H)"
  have p: "pfn (?fl ! i) = vpn_of H (PMEM_BASE H) + i" if "i < n" for i
    using that assms by (simp add: init_frames_nth vpn_of_add_pages)
  have free: "isFree (?fl ! i) \<longleftrightarrow> (let a = PMEM_BASE H + i * PAGESIZE H in
      b \<le> a \<and> \<not> (KERNEL_STACK_BASE H \<le> a \<and> a < KERNEL_STACK_LIMIT H))" if "i < n" for i
    using that by (auto simp: init_frames_nth Let_def)
  have "free_pfns ?fl = {pfn (?fl ! i) | i. i < n \<and> isFree (?fl ! i)}"
    by (force simp: free_pfns_def in_set_conv_nth)
  also have "\<dots> = {vpn_of H (PMEM_BASE H) + i | i. i < n \<and>
      (let a = PMEM_BASE H + i * PAGESIZE H in b \<le> a \<and> \<not> (KERNEL_STACK_BASE H \<le> a \<and> a < KERNEL_STACK_LIMIT H))}"
    using p free by (intro Collect_cong ex_cong1) auto
  finally show ?thesis using init_frames_ok [OF assms] by (simp add: initFrameList_def)
qed

theorem boot_frames_ok_witness:
  "\<exists>fl. initFrameList tiny_hw True 12 10 = (SUCCESS, Some fl) \<and> fl_ok fl 12 \<and>
     free_pfns fl = {vpn_of tiny_hw (PMEM_BASE tiny_hw) + i | i. i < 12 \<and>
       (let a = PMEM_BASE tiny_hw + i * PAGESIZE tiny_hw in 10 \<le> a \<and>
          \<not> (KERNEL_STACK_BASE tiny_hw \<le> a \<and> a < KERNEL_STACK_LIMIT tiny_hw))}"
  by (rule boot_frames_ok) (simp_all add: tiny_hw_ok, simp add: tiny_hw_def vpn_of_def)

section \<open>Locks, condition variables and pipes\<close>

text \<open>
  C20. \<^verbatim>\<open>KernelAcquire\<close> reports success only when the lock was free and the
  caller owns it now.
\<close>

theorem acquire_reports_ownership:
  assumes "acquire_loop H a s = Done SUCCESS t"
  shows "\<exists>l. locks s a = Some l \<and> ownerPcbp l = None \<and> holds t a (currPCB s)"
  using assms by (rule acquire_success)

theorem acquire_reports_ownership_witness:
  "\<exists>l. locks (demo\<lparr>locks := [50 \<mapsto> \<lparr>ownerPcbp = None, lock_waitingQ = Some [30]\<rparr>]\<rparr>) 50 = Some l \<and>
     ownerPcbp l = None \<and> holds (demo\<lparr>locks := [50 \<mapsto> \<lparr>ownerPcbp = Some 10, lock_waitingQ = Some [30]\<rparr>]\<rparr>) 50
       (currPCB (demo\<lparr>locks := [50 \<mapsto> \<lparr>ownerPcbp = None, lock_waitingQ = Some [30]\<rparr>]\<rparr>))"
  by (rule acquire_reports_ownership [of tiny_hw])
     (simp add: acquire_free [of _ 50 "\<lparr>ownerPcbp = None, lock_waitingQ = Some [30]\<rparr>"] demo_fields)

text \<open>
  C21. \<^verbatim>\<open>KernelRelease\<close> by the owner frees the lock and makes the longest
  waiting process ready.
\<close>

theorem release_wakes_first_waiter:
  assumes "sched_ok H s" "mallocs_ok s" "lockMap s = Some lm" "hm_ok lm" "0 \<le> i" "hm_map lm i = Some lockp"
    and "locks s lockp = Some l" "ownerPcbp l = Some (currPCB s)" "lock_waitingQ l = Some (w # ws)"
    and "blockedMap s = Some bm" "hm_map bm (pid_of s w) = Some w" "readyQ s = Some q"
  shows "\<exists>t bm'. KernelRelease i s = Done SUCCESS t \<and> sched_ok H t \<and> mset (places t) = mset (places s) \<and>
           readyQ t = Some (q @ [w]) \<and> blockedMap t = Some bm' \<and> hm_map bm' = (hm_map bm)(pid_of s w := None) \<and>
           locks t = (locks s)(lockp \<mapsto> l\<lparr>ownerPcbp := None, lock_waitingQ := Some ws\<rparr>)"
  using assms by (rule release_owner)

theorem release_wakes_first_waiter_witness:
  "\<exists>t bm'. KernelRelease 0 demo = Done SUCCESS t \<and> sched_ok tiny_hw t \<and> mset (places t) = mset (places demo) \<and>
     readyQ t = Some ([20] @ [30]) \<and> blockedMap t = Some bm' \<and>
     hm_map bm' = (hm_map \<lparr>hm_size = 2, sets = [Some [(2, 30)], Some []]\<rparr>)(pid_of demo 30 := None) \<and>
     locks t = (locks demo)(50 \<mapsto> \<lparr>ownerPcbp = Some 10, lock_waitingQ = Some [30]\<rparr>
       \<lparr>ownerPcbp := None, lock_waitingQ := Some []\<rparr>)"
  by (rule release_wakes_first_waiter [OF demo_sched_ok demo_mallocs_ok _ demo_hm_ok(3) [of 50]])
     (simp_all add: demo_def hm_map_def chain_of_def pid_of_def demo_pcb_def)

text \<open>
  C22. \<^verbatim>\<open>KernelCvarBroadcast\<close> ends with an empty queue: every blocked waiter
  becomes ready, in order of arrival, and the loop needs no more rounds than there are waiters plus
  one.
\<close>

theorem broadcast_wakes_all:
  assumes "sched_ok H s" "mallocs_ok s" "cvars s a = Some q" "distinct q" "set q \<subseteq> set (places s)" "length q < fuel"
  shows "\<exists>t. broadcast_loop fuel a s = Done SUCCESS t \<and> sched_ok H t \<and> mset (places t) = mset (places s) \<and>
           cvars t = (cvars s)(a \<mapsto> []) \<and>
           readyQ t = Some (qitems (readyQ s) @ filter (\<lambda>w. w \<in> set (hm_procs (blockedMap s))) q)"
  using assms by (rule broadcast_run)

theorem broadcast_wakes_all_witness:
  "\<exists>t. broadcast_loop 2 70 demo = Done SUCCESS t \<and> sched_ok tiny_hw t \<and> mset (places t) = mset (places demo) \<and>
     cvars t = (cvars demo)(70 \<mapsto> []) \<and>
     readyQ t = Some (qitems (readyQ demo) @ filter (\<lambda>w. w \<in> set (hm_procs (blockedMap demo))) [30])"
  by (rule broadcast_wakes_all [OF demo_sched_ok demo_mallocs_ok]) (simp_all add: demo_places, simp add: demo_def)

text \<open>
  C23. \<^verbatim>\<open>KernelPipeWrite\<close> of bytes that fit appends them to the contents of
  the pipe and wakes the first waiting reader.
\<close>

theorem pipe_write_appends:
  assumes "sched_ok H s" "mallocs_ok s" "pipeMap s = Some pm" "hm_ok pm" "0 \<le> i" "hm_map pm i = Some pipep"
    and "pipes s pipep = Some p" "pipe_ok H p" "pipe_waitingQ p = Some ws" "set (take 1 ws) \<subseteq> set (places s)"
    and "0 < len" "pipe_numBytesWritten p + len \<le> int (PIPE_MAX_BYTES H)" "int (PIPE_MAX_BYTES H) \<le> INT_MAX"
    and "mapped H s PROT_READ buf (nat len)"
  shows "\<exists>t p'. KernelPipeWrite H i buf len s = Done (RC len) t \<and> sched_ok H t \<and> mset (places t) = mset (places s) \<and>
           pipes t = (pipes s)(pipep \<mapsto> p') \<and> pipe_ok H p' \<and> pipe_waitingQ p' = Some ws \<and>
           pipe_contents p' = pipe_contents p @ bytes_at H s buf (nat len) \<and>
           readyQ t = Some (qitems (readyQ s) @ woken s ws)"
  using assms by (rule pipe_write_run)

theorem pipe_write_appends_witness:
  "\<exists>t p'. KernelPipeWrite tiny_hw 1 32 2 demo = Done (RC 2) t \<and> sched_ok tiny_hw t \<and>
     mset (places t) = mset (places demo) \<and> pipes t = (pipes demo)(60 \<mapsto> p') \<and> pipe_ok tiny_hw p' \<and>
     pipe_waitingQ p' = Some [] \<and>
     pipe_contents p' = pipe_contents \<lparr>pipe_buffer = Some [1, 2, 0, 0], pipe_numBytesWritten = 2, pipe_waitingQ = Some []\<rparr>
       @ bytes_at tiny_hw demo 32 (nat 2) \<and>
     readyQ t = Some (qitems (readyQ demo) @ woken demo [])"
  by (rule pipe_write_appends [OF demo_sched_ok demo_mallocs_ok _ demo_hm_ok(4) [of 60]])
     (simp_all add: demo_mapped demo_paging, simp_all add: demo_def hm_map_def chain_of_def pipe_ok_def PIPE_MAX_BYTES_def tiny_hw_def INT_MAX_def)

text \<open>
  C24. \<^verbatim>\<open>KernelPipeRead\<close> with nobody waiting and enough bytes takes the oldest
  bytes out of the pipe, stores them in the reader's buffer and keeps the rest in order.
\<close>

theorem pipe_read_takes_prefix:
  assumes "sched_ok H s" "mallocs_ok s" "pipeMap s = Some pm" "hm_ok pm" "0 \<le> i" "hm_map pm i = Some pipep"
    and "pipes s pipep = Some p" "pipe_ok H p" "pipe_waitingQ p = Some []"
    and "0 < len" "len \<le> pipe_numBytesWritten p" "mapped H s PROT_WRITE buf (nat len)"
  shows "\<exists>t p'. KernelPipeRead H i buf len s = Done (RC len) t \<and> sched_ok H t \<and> mset (places t) = mset (places s) \<and>
           pipes t = (pipes s)(pipep \<mapsto> p') \<and> pipe_ok H p' \<and> pipe_waitingQ p' = Some [] \<and>
           pipe_contents p' = drop (nat len) (pipe_contents p) \<and>
           pmem t = poke H s buf (take (nat len) (pipe_contents p)) (pmem s) \<and> readyQ t = readyQ s"
  using assms by (rule pipe_read_now)

theorem pipe_read_takes_prefix_witness:
  "\<exists>t p'. KernelPipeRead tiny_hw 1 32 1 demo = Done (RC 1) t \<and> sched_ok tiny_hw t \<and>
     mset (places t) = mset (places demo) \<and> pipes t = (pipes demo)(60 \<mapsto> p') \<and> pipe_ok tiny_hw p' \<and>
     pipe_waitingQ p' = Some [] \<and>
     pipe_contents p' = drop (nat 1) (pipe_contents
       \<lparr>pipe_buffer = Some [1, 2, 0, 0], pipe_numBytesWritten = 2, pipe_waitingQ = Some []\<rparr>) \<and>
     pmem t = poke tiny_hw demo 32 (take (nat 1) (pipe_contents
       \<lparr>pipe_buffer = Some [1, 2, 0, 0], pipe_numBytesWritten = 2, pipe_waitingQ = Some []\<rparr>)) (pmem demo) \<and>
     readyQ t = readyQ demo"
  by (rule pipe_read_takes_prefix [OF demo_sched_ok demo_mallocs_ok _ demo_hm_ok(4) [of 60]])
     (simp_all add: demo_mapped demo_paging, simp_all add: demo_def hm_map_def chain_of_def pipe_ok_def PIPE_MAX_BYTES_def tiny_hw_def)

section \<open>Exit and wait\<close>

text \<open>
  C25. An exiting child leaves its pid and status at the end of its parent's zombie queue and makes
  the parent ready if it is blocked.
\<close>

theorem exit_status_reaches_parent:
  assumes "sched_ok H s" "mallocs_ok s" "pcbs s c = Some cc" "c \<noteq> pp" "pcbs s pp = Some ppc" "pp \<in> set (places s)"
  shows "\<exists>t. leave_zombie c pp status s = Done SUCCESS t \<and> sched_ok H t \<and> mset (places t) = mset (places s) \<and>
           pcbs t = (pcbs s)(pp \<mapsto> ppc\<lparr>zombieQ := Some (qitems (zombieQ ppc) @ [\<lparr>z_pid = pid cc, exit_status = status\<rparr>])\<rparr>) \<and>
           readyQ t = Some (qitems (readyQ s) @ (if pp \<in> set (hm_procs (blockedMap s)) then [pp] else [])) \<and>
           currPCB t = currPCB s"
  using leave_zombie_run [OF assms] by blast

theorem exit_status_reaches_parent_witness:
  "\<exists>t. leave_zombie 10 30 7 demo = Done SUCCESS t \<and> sched_ok tiny_hw t \<and> mset (places t) = mset (places demo) \<and>
     pcbs t = (pcbs demo)(30 \<mapsto> (demo_pcb 2 4000 [5, 6] 0)
       \<lparr>zombieQ := Some (qitems (zombieQ (demo_pcb 2 4000 [5, 6] 0)) @
          [\<lparr>z_pid = pid (demo_pcb 1 2000 [1, 2] 0), exit_status = 7\<rparr>])\<rparr>) \<and>
     readyQ t = Some (qitems (readyQ demo) @ (if 30 \<in> set (hm_procs (blockedMap demo)) then [30] else [])) \<and>
     currPCB t = currPCB demo"
  by (rule exit_status_reaches_parent [OF demo_sched_ok demo_mallocs_ok]) (simp_all add: demo_places, simp_all add: demo_def)

text \<open>
  C26. \<^verbatim>\<open>KernelWait\<close> collects the oldest zombie: it returns the child's pid
  and stores its status in the memory of the parent.
\<close>

theorem wait_collects_oldest:
  assumes "pcbs s (currPCB s) = Some pc" "zombieQ pc = Some (z # zs)" "mapped H s PROT_WRITE status_ptr 4"
  shows "wait_collect H status_ptr s = Done (RC (z_pid z))
           (s\<lparr>pcbs := (pcbs s)(currPCB s \<mapsto> pc\<lparr>zombieQ := Some zs\<rparr>),
              pmem := poke H s status_ptr (int_bytes (exit_status z)) (pmem s)\<rparr>)"
  using assms by (rule wait_collect_run)

theorem wait_collects_oldest_witness:
  "wait_collect tiny_hw 32 demo_zombie = Done (RC (z_pid \<lparr>z_pid = 5, exit_status = 7\<rparr>))
     (demo_zombie\<lparr>pcbs := (pcbs demo_zombie)(currPCB demo_zombie \<mapsto> demo_parent\<lparr>zombieQ := Some []\<rparr>),
        pmem := poke tiny_hw demo_zombie 32 (int_bytes (exit_status \<lparr>z_pid = 5, exit_status = 7\<rparr>)) (pmem demo_zombie)\<rparr>)"
  by (rule wait_collects_oldest)
     (simp_all add: demo_mapped demo_zombie_def demo_paging demo_fields, simp add: demo_parent_def)

section \<open>Loading programs\<close>

text \<open>
  C27. When \<^verbatim>\<open>LoadProgram\<close> succeeds, the new program starts at its entry point
  with the stack pointer just below its arguments, and finds them there: the word at
  \<^verbatim>\<open>cpp\<close> is \<^verbatim>\<open>argc\<close>, and walking the
  \<^verbatim>\<open>argv\<close> array behind it to its null pointer reads back exactly the argument
  strings. The stack pages are assumed to be readable and to have frames of their own.
\<close>

theorem exec_passes_arguments:
  assumes "LoadProgram H (Some exe) get_args proc s = Done SUCCESS t" "get_args s = Done args s" "args_fit H args"
    "usable H t (arg_cpp H (args_size args) (length args))" "\<forall>x \<in> set args. 0 \<notin> set x" "length args < fuel"
  shows "\<exists>li u. exe_info exe = Some li \<and> uctxt_of proc t = Some (Some u) \<and>
     uc_sp u = arg_sp H (args_size args) (length args) \<and> uc_pc u = li_entry li \<and>
     load_int H (arg_cpp H (args_size args) (length args)) t = Done (int (length args)) t \<and>
     load_args H fuel (arg_cpp H (args_size args) (length args) + 4) t = Done args t"
  using loaded_program [OF assms] .

theorem exec_passes_arguments_witness:
  "\<exists>t. LoadProgram boot_hw (Some exec_file) (retk exec_args) 20 exec_state = Done SUCCESS t \<and>
     load_int boot_hw 136 t = Done 1 t \<and> load_args boot_hw 2 140 t = Done [[105]] t"
proof -
  obtain t where t: "LoadProgram boot_hw (Some exec_file) (retk exec_args) 20 exec_state = Done SUCCESS t"
      "loaded (Done SUCCESS t)" using exec_runs by blast
  have "retk exec_args exec_state = Done exec_args exec_state" "\<forall>x \<in> set exec_args. 0 \<notin> set x" "length exec_args < 2"
    by (simp_all add: retk_def exec_args_def)
  with exec_passes_arguments [OF t(1) _ exec_positions(3), of 2] exec_usable [OF t(2)]
  have "load_int boot_hw 136 t = Done (int (length exec_args)) t" "load_args boot_hw 2 140 t = Done exec_args t"
    unfolding exec_positions by auto
  with t(1) show ?thesis by (auto simp: exec_args_def)
qed

text \<open>
  C28. The bounds of the memory \<^verbatim>\<open>LoadProgram\<close> lays out: the strings end at
  the end of region 1, \<^verbatim>\<open>argc\<close>, the pointers and the two nulls fit below them
  from an address divisible by 8, the initial frame is below that, and at least one page is free
  between the data pages and the first stack page.
\<close>

theorem exec_stack_layout:
  assumes "hw_ok H" "args_fit H args" "get_args s = Done args s" "exe_info exe = Some li" "VMEM_1_BASE H \<le> id_vaddr li"
    "LoadProgram H (Some exe) get_args proc s = Done SUCCESS t"
  defines "cp \<equiv> arg_cp H (args_size args)" and "cpp \<equiv> arg_cpp H (args_size args) (length args)"
    and "sp \<equiv> arg_sp H (args_size args) (length args)"
  shows "cp + args_size args = VMEM_1_LIMIT H \<and> cpp + 4 * (length args + 3) \<le> cp \<and> 8 dvd cpp \<and>
     sp + INITIAL_STACK_FRAME_SIZE H = cpp \<and> DOWN_TO_PAGE H sp \<le> sp \<and>
     VMEM_1_BASE H + (nat (r1_index H (id_vaddr li)) + id_npg li + ud_npg li) * PAGESIZE H + PAGESIZE H \<le> DOWN_TO_PAGE H sp"
proof -
  note pos = arg_positions [OF assms(2), folded cp_def cpp_def]
  have le: "sp \<le> VMEM_1_LIMIT H" using pos by (simp add: sp_def cpp_def arg_sp_def)
  have "0 \<le> r1_index H (id_vaddr li)" using assms(5) by (simp add: r1_index_def pos_imp_zdiv_nonneg_iff)
  note room = stack_pages_bounds [OF assms(1) le this, of "id_npg li + ud_npg li"]
  have "int (stack_pages H sp) + r1_index H (id_vaddr li) + int (id_npg li + ud_npg li) < int (MAX_PT_LEN H)"
    unfolding sp_def by (rule loaded_room [OF assms(6,3,4)])
  note room = room [OF this]
  have "0 < sp" using room(2,3) hw_okD(2) [OF assms(1)] by linarith
  then have "sp + INITIAL_STACK_FRAME_SIZE H = cpp" by (simp add: sp_def cpp_def arg_sp_def)
  then show ?thesis using pos room by (simp add: add.assoc)
qed

theorem exec_stack_layout_witness:
  "arg_cpp boot_hw (args_size exec_args) (length exec_args) + 4 * (length exec_args + 3) \<le> arg_cp boot_hw (args_size exec_args) \<and>
     VMEM_1_BASE boot_hw + PAGESIZE boot_hw \<le> DOWN_TO_PAGE boot_hw (arg_sp boot_hw (args_size exec_args) (length exec_args))"
proof -
  obtain t where t: "LoadProgram boot_hw (Some exec_file) (retk exec_args) 20 exec_state = Done SUCCESS t"
    using exec_runs by blast
  have "exe_info exec_file = Some (the (exe_info exec_file))" "VMEM_1_BASE boot_hw \<le> id_vaddr (the (exe_info exec_file))"
    by (simp_all add: exec_file_def)
  from exec_stack_layout [OF boot_hw_ok exec_positions(3) _ this t]
  have "arg_cpp boot_hw (args_size exec_args) (length exec_args) + 4 * (length exec_args + 3) \<le> arg_cp boot_hw (args_size exec_args)"
      "VMEM_1_BASE boot_hw + (nat (r1_index boot_hw (id_vaddr (the (exe_info exec_file)))) + id_npg (the (exe_info exec_file)) +
        ud_npg (the (exe_info exec_file))) * PAGESIZE boot_hw + PAGESIZE boot_hw \<le>
        DOWN_TO_PAGE boot_hw (arg_sp boot_hw (args_size exec_args) (length exec_args))" by (simp_all only: retk_def)
  then show ?thesis by linarith
qed

section \<open>Terminals\<close>

text \<open>
  C29. One round of \<^verbatim>\<open>KernelTtyWrite\<close> hands the next batch to the terminal,
  marks the writer as transmitting, switches to the next ready process and leaves a kernel context
  that continues right after the batch.
\<close>

theorem transmit_sends_batch:
  assumes "hw_ok H" "sched_ok H s" "mallocs_ok s" "own_slot s i" "readyQ s = Some (n # q)"
    and "0 \<le> k" "k < int (length d)" "0 < TERMINAL_MAX_LINE H"
  shows "\<exists>t b pc. b = take (TERMINAL_MAX_LINE H) (drop (nat k) d) \<and>
           transmit_loop H (Suc fuel) (int i) d (int (length d)) k s = Switch t \<and> sched_ok H t \<and>
           mset (places t) = mset (places s) \<and> currPCB t = n \<and> readyQ t = Some q \<and>
           currTransmitters t = (currTransmitters s)[i := Some (currPCB s)] \<and> tty_out t = tty_out s @ [(int i, b)] \<and>
           pcbs t (currPCB s) = Some pc \<and> kctxt pc = Some (KTtyBatch (int i) d (int (length d)) (k + int (length b)))"
  using assms by (rule transmit_round)

theorem transmit_sends_batch_witness:
  "\<exists>t b pc. b = take (TERMINAL_MAX_LINE tiny_hw) (drop (nat 0) [1, 2]) \<and>
     transmit_loop tiny_hw (Suc 2) (int 0) [1, 2] (int (length ([1, 2] :: byte list))) 0 demo = Switch t \<and>
     sched_ok tiny_hw t \<and> mset (places t) = mset (places demo) \<and> currPCB t = 20 \<and> readyQ t = Some [] \<and>
     currTransmitters t = (currTransmitters demo)[0 := Some (currPCB demo)] \<and> tty_out t = tty_out demo @ [(int 0, b)] \<and>
     pcbs t (currPCB demo) = Some pc \<and>
     kctxt pc = Some (KTtyBatch (int 0) [1, 2] (int (length ([1, 2] :: byte list))) (0 + int (length b)))"
  by (rule transmit_sends_batch)
     (simp_all add: tiny_hw_ok demo_sched_ok demo_mallocs_ok demo_fields,
      simp_all add: own_slot_def demo_def slot_procs_def tiny_hw_def)

section \<open>User memory\<close>

text \<open>
  C30. For a buffer that starts on a page boundary of region 1,
  \<^verbatim>\<open>isValidBuffer\<close> says exactly whether all its bytes may be accessed.
\<close>

theorem aligned_buffer_check_exact:
  assumes "hw_ok H" "mmu_ok H s" "VMEM_1_BASE H \<le> buf" "PAGESIZE H dvd buf" "0 < len"
    and "buf + nat len \<le> VMEM_1_LIMIT H"
  shows "isValidBuffer H buf len {f} s = Done (mapped H s f buf (nat len)) s"
  using assms by (rule isValidBuffer_aligned)

theorem aligned_buffer_check_exact_witness:
  "isValidBuffer tiny_hw 32 5 {PROT_READ} demo = Done (mapped tiny_hw demo PROT_READ 32 (nat 5)) demo"
  by (rule aligned_buffer_check_exact)
     (use demo_sched_ok in \<open>simp_all add: tiny_hw_ok sched_ok_def core_def\<close>, simp_all add: tiny_hw_def)

section \<open>Data structures\<close>

text \<open>
  C31. The hash map behaves as a partial function: an insertion is found under its key and disturbs no
  other key, and removing it gives back the item and the map as it was.
\<close>

theorem hash_map_insert_remove:
  assumes "hm_ok hm" "0 \<le> k" "hm_map hm k = None" "0 \<le> j"
  shows "\<exists>m1 m2. HashMap_insert True (Some hm) k (Some x) = Inr (SUCCESS, Some m1) \<and> hm_ok m1 \<and>
           HashMap_find (Some m1) j = (if j = k then Inr (Some x) else HashMap_find (Some hm) j) \<and>
           HashMap_remove (Some m1) k = Inr (Some x, Some m2) \<and> hm_ok m2 \<and> hm_map m2 = hm_map hm"
proof -
  from HashMap_insert_new [OF assms(1-3), of x] obtain m1 where
    m1: "HashMap_insert True (Some hm) k (Some x) = Inr (SUCCESS, Some m1)" "hm_ok m1" "hm_map m1 = (hm_map hm)(k \<mapsto> x)" by blast
  from HashMap_remove_ok [OF m1(2) assms(2)] m1(3) obtain m2 where
    "HashMap_remove (Some m1) k = Inr (Some x, Some m2)" "hm_ok m2" "hm_map m2 = (hm_map m1)(k := None)" by auto
  with m1 assms show ?thesis by (auto simp: HashMap_find_ok fun_upd_idem_iff)
qed

theorem hash_map_insert_remove_witness:
  "\<exists>m1 m2. HashMap_insert True (Some \<lparr>hm_size = 2, sets = [Some [(0, 50 :: ptr)], Some []]\<rparr>) 2 (Some 51) = Inr (SUCCESS, Some m1) \<and>
     hm_ok m1 \<and> HashMap_find (Some m1) 0 = (if 0 = (2 :: int) then Inr (Some 51)
       else HashMap_find (Some \<lparr>hm_size = 2, sets = [Some [(0, 50)], Some []]\<rparr>) 0) \<and>
     HashMap_remove (Some m1) 2 = Inr (Some 51, Some m2) \<and> hm_ok m2 \<and>
     hm_map m2 = hm_map \<lparr>hm_size = 2, sets = [Some [(0, 50)], Some []]\<rparr>"
  by (rule hash_map_insert_remove [OF demo_hm_ok(3)]) (simp_all add: hm_map_def chain_of_def)



text \<open>
  C33. The linked queue is first in, first out: any sequence of enqueues on an empty queue comes back
  in the same order, and the queue is empty and well formed afterwards.
\<close>

theorem queue_fifo:
  assumes "node_inv hq" "node_contents hq = []"
    and "allocs_ok node_can_alloc (\<lambda>m hq x. node_enq_q m (fst hq) (snd hq) x) hq mxs"
  shows "\<exists>q1 q2. enq_all (\<lambda>m hq x. node_enq_q m (fst hq) (snd hq) x) hq mxs = Some q1 \<and>
           deq_all (\<lambda>hq. node_deq_q (fst hq) (snd hq)) (length mxs) q1 = Some (map snd mxs, q2) \<and>
           node_inv q2 \<and> node_contents q2 = []"
  using assms by (rule node_q.first_in_first_out)

theorem queue_fifo_witness:
  "\<exists>q1 q2. enq_all (\<lambda>m hq x. node_enq_q m (fst hq) (snd hq) x) (Map.empty, Some \<lparr>head = None, tail = None\<rparr>)
       [(Some 8, 5 :: int), (Some 9, 6)] = Some q1 \<and>
     deq_all (\<lambda>hq. node_deq_q (fst hq) (snd hq)) (length [(Some (8 :: ptr), 5 :: int), (Some 9, 6)]) q1 =
       Some (map snd [(Some (8 :: ptr), 5 :: int), (Some 9, 6)], q2) \<and>
     node_inv q2 \<and> node_contents q2 = []"
  by (rule queue_fifo [OF empty_queue]) (simp add: node_can_alloc_def node_enq_q_def)

section \<open>User programs\<close>




section \<open>Defects\<close>

text \<open>
  C36. A defect: \<^verbatim>\<open>isValidBuffer\<close> counts pages from the length alone and
  accepts a buffer that starts inside a page and runs into an invalid one.
\<close>

theorem unaligned_buffer_check_wrong:
  "isValidBuffer tiny_hw 34 4 {PROT_READ} demo = Done True demo \<and> \<not> mapped tiny_hw demo PROT_READ 34 4"
proof
  have "buffer_loop tiny_hw {PROT_READ} 1 2000 demo = Done True demo"
    using demo_paging(1) by (simp add: bindk_def fetch_def retk_def demo_ptes_def)
  moreover have "entry_of_vpn tiny_hw demo 8 = Some 2000"
    by (simp add: entry_of_vpn_def USER_BASE_VPN_def vpn_of_def) (simp add: tiny_hw_def demo_def)
  moreover have "vpn_of tiny_hw 34 = 8" "PAGESIZE tiny_hw = 4" by (simp_all add: vpn_of_def tiny_hw_def)
  ultimately show "isValidBuffer tiny_hw 34 4 {PROT_READ} demo = Done True demo"
    by (simp add: isValidBuffer_def bindk_def getk_def)
  have "walk tiny_hw demo 9 = Some \<lparr>pte_valid = False, pte_prot = {}, pte_pfn = 0\<rparr>"
    by (simp add: walk_def pte_of_vpn_def) (simp add: tiny_hw_def demo_def demo_ptes_def)
  then have "translate tiny_hw demo PROT_READ (34 + 2) = None"
    using \<open>PAGESIZE tiny_hw = 4\<close> by (simp add: translate_def)
  then show "\<not> mapped tiny_hw demo PROT_READ 34 4" by (auto simp: mapped_def intro!: exI [of _ 2])
qed

text \<open>
  C37. A defect: reclaiming a lock that is held reports an error but has already taken the lock out of
  the map, so that its owner can no longer release it.
\<close>

theorem deleting_held_lock_loses_it:
  assumes "lockMap s = Some lm" "hm_ok lm" "0 \<le> i" "hm_map lm i = Some lockp" "locks s lockp = Some l"
    and "ownerPcbp l = Some ow" "mallocs_ok s"
  shows "\<exists>t lm'. deleteLock i s = Done ERROR t \<and> lockMap t = Some lm' \<and> hm_map lm' = (hm_map lm)(i := None) \<and>
           holds t lockp ow \<and> KernelRelease i t = Done ERROR t"
proof -
  from hm_removek_run [of lockMap s lm i set_lockMap, OF assms(1-3)] assms(4) obtain lm' where
    lm': "hm_removek lockMap set_lockMap i s = Done (Some lockp) (s\<lparr>lockMap := Some lm'\<rparr>)" "hm_ok lm'"
      "hm_map lm' = (hm_map lm)(i := None)" by (auto simp: set_lockMap_def)
  have "\<exists>a. malloc_oracle s (malloc_count s) = Some a" using assms(7) by (auto simp: mallocs_ok_def)
  then obtain a where a: "malloc_oracle s (malloc_count s) = Some a" ..
  define t where "t = s\<lparr>lockMap := Some lm', malloc_count := Suc (malloc_count s),
    locks := (locks s)(lockp \<mapsto> l\<lparr>lock_waitingQ := Some []\<rparr>)\<rparr>"
  have "deleteLock i s = Done ERROR t"
    using lm'(1) a assms(5,6) by (simp add: deleteLock_def bindk_def malloc_okk_run upd_lock_def fetch_def modk_def
        make_q_def retk_def t_def)
  moreover have "holds t lockp ow" using assms(6) by (simp add: t_def holds_def)
  moreover have "getLock i t = Done None t"
    using getLock_run [of t lm' i] lm'(2,3) assms(3) by (simp add: t_def)
  then have "KernelRelease i t = Done ERROR t" by (simp add: KernelRelease_def bindk_def retk_def)
  ultimately show ?thesis using lm'(3) by (intro exI [of _ t] exI [of _ lm']) (simp add: t_def)
qed

theorem deleting_held_lock_loses_it_witness:
  "\<exists>t lm'. deleteLock 0 demo = Done ERROR t \<and> lockMap t = Some lm' \<and>
     hm_map lm' = (hm_map \<lparr>hm_size = 2, sets = [Some [(0, 50)], Some []]\<rparr>)(0 := None) \<and>
     holds t 50 10 \<and> KernelRelease 0 t = Done ERROR t"
  by (rule deleting_held_lock_loses_it [where l = "\<lparr>ownerPcbp = Some 10, lock_waitingQ = Some [30]\<rparr>",
        OF _ demo_hm_ok(3) [of 50]])
     (simp_all add: demo_mallocs_ok, simp_all add: demo_def hm_map_def chain_of_def)

text \<open>
  C38. A defect: an identifier is reduced with C's remainder, so a negative one that is not a multiple
  of the table size indexes in front of the table.
\<close>

theorem negative_id_out_of_bounds:
  assumes "lockMap s = Some lm" "hm_ok lm" "i < 0" "\<not> hm_size lm dvd i"
  shows "KernelAcquire H i s = Fault OUT_OF_BOUNDS"
  using getLock_negative [OF assms] by (simp add: KernelAcquire_def bindk_def)

theorem negative_id_out_of_bounds_witness: "KernelAcquire tiny_hw (- 1) demo = Fault OUT_OF_BOUNDS"
  by (rule negative_id_out_of_bounds [OF _ demo_hm_ok(3) [of 50]]) (simp_all add: demo_def)

text \<open>
  C39. A defect: the bound check of \<^verbatim>\<open>KernelPipeWrite\<close> adds the length before
  comparing, which overflows for large lengths.
\<close>

theorem pipe_write_overflows:
  assumes "pipeMap s = Some pm" "hm_ok pm" "0 \<le> i" "hm_map pm i = Some pipep" "pipes s pipep = Some p"
    "0 < len" "INT_MAX < pipe_numBytesWritten p + len"
  shows "KernelPipeWrite H i buf len s = Fault OVERFLOW"
  using assms by (rule pipe_write_overflow)

theorem pipe_write_overflows_witness: "KernelPipeWrite tiny_hw 1 32 INT_MAX demo = Fault OVERFLOW"
  by (rule pipe_write_overflows [where p = "\<lparr>pipe_buffer = Some [1, 2, 0, 0], pipe_numBytesWritten = 2, pipe_waitingQ = Some []\<rparr>",
        OF _ demo_hm_ok(4) [of 60]]) (simp_all add: demo_def hm_map_def chain_of_def INT_MAX_def)

text \<open>
  C40. A defect: when no frame is free, \<^verbatim>\<open>getFrame\<close> reads one cell behind the
  list before it looks at the index, and hands out what it finds there if that cell looks free.
\<close>

theorem get_frame_reads_past:
  assumes "fl_ok fl n" "free_pfns fl = {}" "isFree z"
  shows "getFrame (Some fl) z n = Inr (Some (pfn z), Some fl, z\<lparr>isFree := False\<rparr>)"
proof -
  have "filter isFree fl = []" using assms(2) by (simp add: free_pfns_def)
  from scan_free_past [OF assms(3) this, of 0] assms(1) show ?thesis by (simp add: getFrame_def fl_ok_def)
qed

theorem get_frame_reads_past_witness:
  "getFrame (Some [\<lparr>pfn = 7, isFree = False\<rparr>]) \<lparr>pfn = 1, isFree = True\<rparr> 1 =
     Inr (Some (pfn \<lparr>pfn = 1, isFree = True\<rparr>), Some [\<lparr>pfn = 7, isFree = False\<rparr>], \<lparr>pfn = 1, isFree = True\<rparr>\<lparr>isFree := False\<rparr>)"
  by (rule get_frame_reads_past) (simp_all add: fl_ok_def free_pfns_def)

end
